(* ===== verification/Lc_Prelude.thy ===== *)
theory Lc_Prelude
  imports Main "HOL-Library.Char_ord" "HOL-Library.List_Lexorder"
begin

text \<open>
  Shared foundations of the development: the effect type in which every fallible, stateful
  operation of the Rust sources is written, its Hoare rules, Rust's \<open>loop\<close> statement, and the
  generic list, option and association list lemmas the components use.

  A Rust \<open>async fn(..) -> Result<T, E>\<close> that touches shared objects becomes a function
  \<open>'w \<Rightarrow> (('e + 'a) \<times> 'w) option\<close>: \<open>None\<close> says the call never returns, \<open>Inl e\<close> is \<open>Err(e)\<close>,
  \<open>Inr x\<close> is \<open>Ok(x)\<close>, and \<open>'w\<close> is the world of shared objects the call may change.
  \<open>eff_bind\<close> is the \<open>?\<close> operator.
\<close>

named_theorems hoare_intros \<open>Hoare rules for the effect type\<close>
named_theorems eff_defs \<open>unfolding of the effect combinators\<close>

type_synonym ('w, 'e, 'a) eff = "'w \<Rightarrow> (('e + 'a) \<times> 'w) option"

definition ok :: "'a \<Rightarrow> ('w, 'e, 'a) eff" where
  "ok x = (\<lambda>w. Some (Inr x, w))"

definition err :: "'e \<Rightarrow> ('w, 'e, 'a) eff" where
  "err e = (\<lambda>w. Some (Inl e, w))"

definition eff_bind :: "('w, 'e, 'a) eff \<Rightarrow> ('a \<Rightarrow> ('w, 'e, 'b) eff) \<Rightarrow> ('w, 'e, 'b) eff" where
  "eff_bind m f = (\<lambda>w. case m w of
      None \<Rightarrow> None
    | Some (Inl e, w') \<Rightarrow> Some (Inl e, w')
    | Some (Inr x, w') \<Rightarrow> f x w')"

definition lift_result :: "'e + 'a \<Rightarrow> ('w, 'e, 'a) eff" where
  "lift_result r = (\<lambda>w. Some (r, w))"

definition eff_catch :: "('w, 'e, 'a) eff \<Rightarrow> ('e \<Rightarrow> ('w, 'e, 'a) eff) \<Rightarrow> ('w, 'e, 'a) eff" where
  "eff_catch m h = (\<lambda>w. case m w of
      None \<Rightarrow> None
    | Some (Inl e, w') \<Rightarrow> h e w'
    | Some (Inr x, w') \<Rightarrow> Some (Inr x, w'))"

text \<open>\<open>map_err\<close> on the result of a call.\<close>

definition eff_map_err :: "('e \<Rightarrow> 'f) \<Rightarrow> ('w, 'e, 'a) eff \<Rightarrow> ('w, 'f, 'a) eff" where
  "eff_map_err g f w = map_option (\<lambda>(r, w'). (map_sum g id r, w')) (f w)"

text \<open>The iterations of a Rust \<open>loop\<close>: go round again with new locals, or leave with a value.\<close>

datatype ('c, 'r) control_flow = Continue 'c | Break 'r

partial_function (option) eff_loop ::
  "('c \<Rightarrow> ('w, 'e, ('c, 'r) control_flow) eff) \<Rightarrow> 'c \<Rightarrow> 'w \<Rightarrow> (('e + 'r) \<times> 'w) option" where
  "eff_loop body c w =
     Option.bind (body c w) (\<lambda>(r, w').
       case r of
         Inl e \<Rightarrow> Some (Inl e, w')
       | Inr k \<Rightarrow> (case k of
           Break x \<Rightarrow> Some (Inr x, w')
         | Continue c' \<Rightarrow> eff_loop body c' w'))"

declare eff_loop.simps [code]

text \<open>A \<open>for\<close> loop over a list whose body may fail.\<close>

primrec eff_for :: "('x \<Rightarrow> 'a \<Rightarrow> ('w, 'e, 'a) eff) \<Rightarrow> 'x list \<Rightarrow> 'a \<Rightarrow> ('w, 'e, 'a) eff" where
  "eff_for f [] a = ok a"
| "eff_for f (x # xs) a = eff_bind (f x a) (eff_for f xs)"

definition ok_or :: "'e \<Rightarrow> 'a option \<Rightarrow> 'e + 'a" where
  "ok_or e x = (case x of None \<Rightarrow> Inl e | Some v \<Rightarrow> Inr v)"

text \<open>\<open>r?\<close> in a function that returns a plain \<open>Result\<close>.\<close>

definition result_bind :: "'e + 'a \<Rightarrow> ('a \<Rightarrow> 'e + 'b) \<Rightarrow> 'e + 'b" where
  "result_bind r f = (case r of Inl e \<Rightarrow> Inl e | Inr x \<Rightarrow> f x)"

text \<open>\<open>'{}'\<close> in a Rust format string.\<close>

definition quoted :: "string \<Rightarrow> string" where
  "quoted s = CHR 0x27 # s @ [CHR 0x27]"

definition starts_with :: "string \<Rightarrow> string \<Rightarrow> bool" where
  "starts_with s p \<longleftrightarrow> take (length p) s = p"

definition strip_prefix :: "string \<Rightarrow> string \<Rightarrow> string option" where
  "strip_prefix s p = (if starts_with s p then Some (drop (length p) s) else None)"

text \<open>\<open>str::contains\<close>, with a string as its pattern.\<close>

fun str_contains :: "string \<Rightarrow> string \<Rightarrow> bool" where
  "str_contains [] p = (p = [])"
| "str_contains (c # s) p = (starts_with (c # s) p \<or> str_contains s p)"

text \<open>The decimal text of a number.\<close>

definition digit :: "nat \<Rightarrow> char" where
  "digit n = char_of (48 + n)"

fun show_nat :: "nat \<Rightarrow> string" where
  "show_nat n = (if n < 10 then [digit n] else show_nat (n div 10) @ [digit (n mod 10)])"

declare show_nat.simps [simp del]

text \<open>A digit of \<open>{:x}\<close>, and \<open>str::split_once\<close> with a character as its pattern.\<close>

definition hex_digit :: "nat \<Rightarrow> char" where
  "hex_digit n = (if n < 10 then char_of (48 + n) else char_of (87 + n))"

fun split_once :: "char \<Rightarrow> string \<Rightarrow> (string \<times> string) option" where
  "split_once c [] = None"
| "split_once c (x # s) =
     (if x = c then Some ([], s) else map_option (\<lambda>(p, q). (x # p, q)) (split_once c s))"

text \<open>\<open>join\<close> of a list of strings.\<close>

fun join :: "string \<Rightarrow> string list \<Rightarrow> string" where
  "join sep [] = []"
| "join sep [x] = x"
| "join sep (x # y # xs) = x @ sep @ join sep (y # xs)"


section \<open>Machine integers\<close>

text \<open>What an unsigned 32-bit and a 64-bit register keep of a number, where the arithmetic may wrap.\<close>

definition u32 :: "nat \<Rightarrow> nat" where
  "u32 n = n mod 2 ^ 32"

definition u64 :: "nat \<Rightarrow> nat" where
  "u64 n = n mod 2 ^ 64"

lemma machine_code [code]:
  "u32 n = nat (int n mod 4294967296)" "u64 n = nat (int n mod 18446744073709551616)"
  by (simp_all add: u32_def u64_def nat_mod_distrib)

lemma u32_small: "n < 2 ^ 32 \<Longrightarrow> u32 n = n"
  and u64_small: "n < 2 ^ 64 \<Longrightarrow> u64 n = n"
  by (simp_all add: u32_def u64_def)

lemma u32_add [simp]: "u32 (u32 a + b) = u32 (a + b)" "u32 (a + u32 b) = u32 (a + b)" "u32 (u32 a) = u32 a"
  by (simp_all add: u32_def mod_simps)

lemma u32_less: "u32 n < 2 ^ 32"
  by (simp add: u32_def)


section \<open>Laws of the effect type\<close>

lemma ok_apply [simp]: "ok x w = Some (Inr x, w)"
  by (simp add: ok_def)

lemma err_apply [simp]: "err e w = Some (Inl e, w)"
  by (simp add: err_def)

lemma lift_result_simps [simp]:
  "lift_result (Inl e) = err e" "lift_result (Inr x) = ok x"
  by (auto simp: lift_result_def)

lemma lift_result_apply: "lift_result r w = Some (r, w)"
  by (simp add: lift_result_def)

lemma eff_bind_ok [simp]: "eff_bind (ok x) f = f x"
  by (simp add: eff_bind_def)

lemma eff_bind_err [simp]: "eff_bind (err e) f = err e"
  by (auto simp: eff_bind_def)

lemma eff_bind_ok_right [simp]: "eff_bind m ok = m"
  by (auto simp: eff_bind_def split: option.splits sum.splits)

lemma eff_bind_assoc: "eff_bind (eff_bind m f) g = eff_bind m (\<lambda>x. eff_bind (f x) g)"
  by (auto simp: eff_bind_def split: option.splits sum.splits)

lemma eff_bind_Some: "m w = Some (Inr x, w') \<Longrightarrow> eff_bind m f w = f x w'"
  by (simp add: eff_bind_def)

lemma eff_bind_Err: "m w = Some (Inl e, w') \<Longrightarrow> eff_bind m f w = Some (Inl e, w')"
  by (simp add: eff_bind_def)

lemma eff_bind_None: "m w = None \<Longrightarrow> eff_bind m f w = None"
  by (simp add: eff_bind_def)

lemma eff_bind_InrE:
  assumes "eff_bind m f w = Some (Inr y, w'')"
  obtains x w' where "m w = Some (Inr x, w')" and "f x w' = Some (Inr y, w'')"
  using assms by (auto simp: eff_bind_def split: option.splits sum.splits)

lemma eff_bind_InlE:
  assumes "eff_bind m f w = Some (Inl e, w'')"
  obtains "m w = Some (Inl e, w'')"
    | x w' where "m w = Some (Inr x, w')" and "f x w' = Some (Inl e, w'')"
  using assms by (auto simp: eff_bind_def split: option.splits sum.splits)

lemma eff_bindE:
  assumes "eff_bind m f w = Some (r, w'')"
  obtains (Err) e where "m w = Some (Inl e, w'')" and "r = Inl e"
    | (Ok) x w' where "m w = Some (Inr x, w')" and "f x w' = Some (r, w'')"
  using assms by (auto simp: eff_bind_def split: option.splits sum.splits)

lemma eff_bind_returns:
  assumes "m w \<noteq> None" and "\<And>x w'. m w = Some (Inr x, w') \<Longrightarrow> f x w' \<noteq> None"
  shows "eff_bind m f w \<noteq> None"
  using assms by (auto simp: eff_bind_def split: option.splits sum.splits)

lemma map_sum_eq_Inl: "map_sum g h r = Inl e \<longleftrightarrow> (\<exists>t. r = Inl t \<and> e = g t)"
  by (cases r) auto

lemma map_sum_eq_Inr: "map_sum g id r = Inr y \<longleftrightarrow> r = Inr y"
  by (cases r) auto

lemma eff_map_err_Some: "eff_map_err f m w = Some (r, w') \<longleftrightarrow> (\<exists>r0. m w = Some (r0, w') \<and> r = map_sum f id r0)"
  by (auto simp: eff_map_err_def)

lemma eff_map_err_returns: "m w \<noteq> None \<Longrightarrow> eff_map_err f m w \<noteq> None"
  by (auto simp: eff_map_err_def)

lemma eff_bind_cong [fundef_cong]:
  assumes "w = w'" and "m w' = m' w'"
    and "\<And>x w1. m' w' = Some (Inr x, w1) \<Longrightarrow> f x w1 = f' x w1"
  shows "eff_bind m f w = eff_bind m' f' w'"
  using assms by (auto simp: eff_bind_def split: option.splits sum.splits)

lemma ok_or_simps [simp]:
  "ok_or e None = Inl e" "ok_or e (Some v) = Inr v"
  by (auto simp: ok_or_def)

lemma ok_or_eq_Inr [simp]: "ok_or e x = Inr v \<longleftrightarrow> x = Some v"
  by (cases x) auto

lemma result_bind_simps [simp]:
  "result_bind (Inl e) f = Inl e" "result_bind (Inr x) f = f x"
  by (auto simp: result_bind_def)

lemma result_bind_InrE:
  assumes "result_bind r f = Inr y"
  obtains x where "r = Inr x" and "f x = Inr y"
  using assms by (cases r) auto

lemmas [eff_defs] = eff_bind_def eff_catch_def


section \<open>Hoare rules\<close>

text \<open>
  \<open>hoare P m Q E\<close>: started in a world satisfying \<open>P\<close>, if \<open>m\<close> returns then \<open>Ok x\<close> leaves
  \<open>Q x\<close> and \<open>Err e\<close> leaves \<open>E e\<close>. \<open>returns P m\<close>: started in \<open>P\<close>, \<open>m\<close> returns.
\<close>

definition hoare ::
  "('w \<Rightarrow> bool) \<Rightarrow> ('w, 'e, 'a) eff \<Rightarrow> ('a \<Rightarrow> 'w \<Rightarrow> bool) \<Rightarrow> ('e \<Rightarrow> 'w \<Rightarrow> bool) \<Rightarrow> bool" where
  "hoare P m Q E \<longleftrightarrow>
     (\<forall>w r w'. P w \<longrightarrow> m w = Some (r, w') \<longrightarrow> (case r of Inl e \<Rightarrow> E e w' | Inr x \<Rightarrow> Q x w'))"

definition returns :: "('w \<Rightarrow> bool) \<Rightarrow> ('w, 'e, 'a) eff \<Rightarrow> bool" where
  "returns P m \<longleftrightarrow> (\<forall>w. P w \<longrightarrow> m w \<noteq> None)"

lemma hoareI:
  assumes "\<And>w x w'. P w \<Longrightarrow> m w = Some (Inr x, w') \<Longrightarrow> Q x w'"
    and "\<And>w e w'. P w \<Longrightarrow> m w = Some (Inl e, w') \<Longrightarrow> E e w'"
  shows "hoare P m Q E"
  using assms by (auto simp: hoare_def split: sum.split)

lemma hoare_InrD: "hoare P m Q E \<Longrightarrow> P w \<Longrightarrow> m w = Some (Inr x, w') \<Longrightarrow> Q x w'"
  by (fastforce simp: hoare_def)

lemma hoare_InlD: "hoare P m Q E \<Longrightarrow> P w \<Longrightarrow> m w = Some (Inl e, w') \<Longrightarrow> E e w'"
  by (fastforce simp: hoare_def)

lemma hoare_ok [hoare_intros]: "(\<And>w. P w \<Longrightarrow> Q x w) \<Longrightarrow> hoare P (ok x) Q E"
  by (auto intro!: hoareI)

lemma hoare_err [hoare_intros]: "(\<And>w. P w \<Longrightarrow> E e w) \<Longrightarrow> hoare P (err e) Q E"
  by (auto intro!: hoareI)

lemma hoare_weaken:
  assumes "hoare P' m Q' E'" and "\<And>w. P w \<Longrightarrow> P' w"
    and "\<And>x w. Q' x w \<Longrightarrow> Q x w" and "\<And>e w. E' e w \<Longrightarrow> E e w"
  shows "hoare P m Q E"
proof (rule hoareI)
  show "Q x w'" if "P w" and "m w = Some (Inr x, w')" for w x w'
    using that assms hoare_InrD by metis
  show "E e w'" if "P w" and "m w = Some (Inl e, w')" for w e w'
    using that assms hoare_InlD by metis
qed

lemma hoare_bind:
  assumes "hoare P m R E" and "\<And>x. hoare (R x) (f x) Q E"
  shows "hoare P (eff_bind m f) Q E"
  using assms
  by (auto intro!: hoareI elim!: eff_bind_InrE eff_bind_InlE dest: hoare_InrD hoare_InlD)

lemma hoare_if [hoare_intros]:
  assumes "b \<Longrightarrow> hoare P m Q E" and "\<not> b \<Longrightarrow> hoare P n Q E"
  shows "hoare P (if b then m else n) Q E"
  using assms by simp

lemma hoare_option [hoare_intros]:
  assumes "x = None \<Longrightarrow> hoare P m Q E" and "\<And>y. x = Some y \<Longrightarrow> hoare P (n y) Q E"
  shows "hoare P (case x of None \<Rightarrow> m | Some y \<Rightarrow> n y) Q E"
  using assms by (cases x) auto

lemma hoare_lift_result [hoare_intros]:
  assumes "\<And>x w. r = Inr x \<Longrightarrow> P w \<Longrightarrow> Q x w" and "\<And>e w. r = Inl e \<Longrightarrow> P w \<Longrightarrow> E e w"
  shows "hoare P (lift_result r) Q E"
  using assms by (cases r) (auto intro!: hoareI)

lemma hoare_conj:
  assumes "hoare P m Q E" and "hoare P' m Q' E'"
  shows "hoare (\<lambda>w. P w \<and> P' w) m (\<lambda>x w. Q x w \<and> Q' x w) (\<lambda>e w. E e w \<and> E' e w)"
  using assms by (auto intro!: hoareI dest: hoare_InrD hoare_InlD)

lemma hoare_false [simp]: "hoare (\<lambda>_. False) m Q E"
  by (auto intro!: hoareI)

text \<open>The loop invariant rule: what holds of the locals and the world before every iteration.\<close>

lemma eff_loop_invariant:
  assumes body: "\<And>c. hoare (I c) (body c)
      (\<lambda>k w. case k of Continue c' \<Rightarrow> I c' w | Break r \<Rightarrow> Q r w) E"
    and "I c w" and "eff_loop body c w = Some (r, w')"
  shows "case r of Inl e \<Rightarrow> E e w' | Inr x \<Rightarrow> Q x w'"
proof -
  have "I c w \<longrightarrow> (case (r, w') of (Inl e, w') \<Rightarrow> E e w' | (Inr x, w') \<Rightarrow> Q x w')"
  proof (rule eff_loop.raw_induct [where
        P = "\<lambda>body' c w rw. body' = body \<longrightarrow> I c w \<longrightarrow>
               (case rw of (Inl e, w') \<Rightarrow> E e w' | (Inr x, w') \<Rightarrow> Q x w')",
        OF _ assms(3), THEN mp, OF _ refl])
    fix loop body' c w rw
    assume IH: "\<And>body' c w rw. loop body' c w = Some rw \<Longrightarrow> body' = body \<longrightarrow> I c w \<longrightarrow>
        (case rw of (Inl e, w') \<Rightarrow> E e w' | (Inr x, w') \<Rightarrow> Q x w')"
      and eq: "Option.bind (body' c w) (\<lambda>(r, w').
         case r of Inl e \<Rightarrow> Some (Inl e, w')
         | Inr k \<Rightarrow> (case k of Continue c' \<Rightarrow> loop body' c' w' | Break x \<Rightarrow> Some (Inr x, w'))) = Some rw"
    show "body' = body \<longrightarrow> I c w \<longrightarrow>
        (case rw of (Inl e, w') \<Rightarrow> E e w' | (Inr x, w') \<Rightarrow> Q x w')"
    proof (intro impI)
      assume body': "body' = body" and I: "I c w"
      from eq obtain k w1 where k: "body c w = Some (k, w1)"
        by (auto simp: body' bind_eq_Some_conv)
      show "case rw of (Inl e, w') \<Rightarrow> E e w' | (Inr x, w') \<Rightarrow> Q x w'"
        using eq k I hoare_InrD [OF body I] hoare_InlD [OF body I] IH
        by (fastforce simp: body' split: sum.splits control_flow.splits)
    qed
  qed
  with assms(2) show ?thesis by (simp split: sum.split_asm sum.split)
qed

lemma hoare_loop:
  assumes "\<And>c. hoare (I c) (body c)
      (\<lambda>k w. case k of Continue c' \<Rightarrow> I c' w | Break r \<Rightarrow> Q r w) E"
  shows "hoare (I c) (eff_loop body c) Q E"
  unfolding hoare_def using eff_loop_invariant [where I = I, OF assms] by blast

text \<open>A loop whose iterations return and decrease a measure returns.\<close>

lemma eff_loop_returns:
  assumes step: "\<And>c w. I c w \<Longrightarrow> body c w \<noteq> None"
    and decr: "\<And>c w c' w'. I c w \<Longrightarrow> body c w = Some (Inr (Continue c'), w') \<Longrightarrow>
        I c' w' \<and> (m c' :: nat) < m c"
    and "I c w"
  shows "eff_loop body c w \<noteq> None"
  using \<open>I c w\<close>
proof (induction "m c" arbitrary: c w rule: less_induct)
  case less
  from step [OF less.prems] obtain k w' where k: "body c w = Some (k, w')" by auto
  show ?case
    using less.hyps decr [OF less.prems] k
    by (subst eff_loop.simps) (fastforce split: sum.splits control_flow.splits)
qed

text \<open>A loop that stays inside a set of locals on which it always goes round never returns.\<close>

lemma eff_loop_diverges:
  assumes "\<And>c w. I c w \<Longrightarrow> \<exists>c' w'. body c w = Some (Inr (Continue c'), w') \<and> I c' w'"
    and "I c w"
  shows "eff_loop body c w = None"
proof (rule ccontr)
  assume "eff_loop body c w \<noteq> None"
  then obtain r w' where r: "eff_loop body c w = Some (r, w')" by auto
  have "\<And>c. hoare (I c) (body c)
      (\<lambda>k w. case k of Continue c' \<Rightarrow> I c' w | Break r \<Rightarrow> False) (\<lambda>_ _. False)"
    by (rule hoareI) (use assms(1) in fastforce)+
  from eff_loop_invariant [where I = I and Q = "\<lambda>_ _. False" and E = "\<lambda>_ _. False", OF this assms(2) r]
  show False by (simp split: sum.splits)
qed

text \<open>One iteration unfolded.\<close>

lemma eff_loop_unfold:
  "eff_loop body c =
     eff_bind (body c) (\<lambda>k. case k of Break x \<Rightarrow> ok x | Continue c' \<Rightarrow> eff_loop body c')"
  by (rule ext, subst eff_loop.simps)
     (auto simp: eff_bind_def split: option.splits sum.splits control_flow.splits)


section \<open>Lists, options and strings\<close>

lemma starts_with_append [simp]: "starts_with (p @ s) p"
  by (simp add: starts_with_def)

lemma starts_with_iff: "starts_with s p \<longleftrightarrow> (\<exists>t. s = p @ t)"
  by (metis append_take_drop_id starts_with_append starts_with_def)

lemma strip_prefix_append [simp]: "strip_prefix (p @ s) p = Some s"
  by (simp add: strip_prefix_def)

lemma strip_prefix_None [simp]: "\<not> starts_with s p \<Longrightarrow> strip_prefix s p = None"
  by (simp add: strip_prefix_def)

lemma str_contains_iff: "str_contains s p \<longleftrightarrow> (\<exists>a b. s = a @ p @ b)"
proof (induction s)
  case Nil
  then show ?case by auto
next
  case (Cons c s)
  have "(\<exists>a b. c # s = a @ p @ b) \<longleftrightarrow> (\<exists>b. c # s = p @ b) \<or> (\<exists>a b. s = a @ p @ b)"
    by (metis append_Cons append_Nil list.exhaust list.inject)
  with Cons show ?case by (simp add: starts_with_iff)
qed

lemma find_Some_iff_mem:
  "distinct (map f xs) \<Longrightarrow> x \<in> set xs \<Longrightarrow> List.find (\<lambda>y. f y = f x) xs = Some x"
  by (induction xs) auto

lemma find_Some_in: "List.find P xs = Some x \<Longrightarrow> x \<in> set xs \<and> P x"
  by (auto simp: find_Some_iff)

lemma prefix_take_drop: "take (length xs) ys = xs \<longleftrightarrow> (\<exists>zs. ys = xs @ zs)"
  by (metis append_eq_conv_conj append_take_drop_id)

end
