(* ===== verification/Json_Value.thy ===== *)
theory Json_Value
  imports Complex_Main Lc_Prelude
begin

text \<open>
  The JSON values of \<open>serde_json\<close> as the sources use them. An object is a \<open>BTreeMap\<close>: an
  association list in key order, so that equality of values is equality of terms. The same
  representation (\<open>smap\<close>) stands for the sources' \<open>HashMap<String, _>\<close>s, whose iteration order
  Rust leaves open and which the model fixes to the key order.
\<close>

type_synonym 'v smap = "(string \<times> 'v) list"

datatype json =
    JNull
  | JBool bool
  | JInt int
  | JFloat rat
  | JString string
  | JArray "json list"
  | JObject "(string \<times> json) list"

text \<open>The operations on key-ordered maps, for any linearly ordered type of keys.\<close>

fun smap_insert :: "'k::linorder \<Rightarrow> 'v \<Rightarrow> ('k \<times> 'v) list \<Rightarrow> ('k \<times> 'v) list" where
  "smap_insert k v [] = [(k, v)]"
| "smap_insert k v ((a, b) # m) =
     (if k < a then (k, v) # (a, b) # m
      else if k = a then (k, v) # m
      else (a, b) # smap_insert k v m)"

definition smap_remove :: "'k \<Rightarrow> ('k \<times> 'v) list \<Rightarrow> ('k \<times> 'v) list" where
  "smap_remove k m = filter (\<lambda>(a, _). a \<noteq> k) m"

definition contains_key :: "('k \<times> 'v) list \<Rightarrow> 'k \<Rightarrow> bool" where
  "contains_key m k \<longleftrightarrow> k \<in> fst ` set m"

definition smap_of :: "(string \<times> 'v) list \<Rightarrow> 'v smap" where
  "smap_of kvs = fold (\<lambda>(k, v). smap_insert k v) kvs []"

definition smap_wf :: "('k::linorder \<times> 'v) list \<Rightarrow> bool" where
  "smap_wf m \<longleftrightarrow> sorted_wrt (<) (map fst m)"

fun as_object :: "json \<Rightarrow> json smap option" where
  "as_object (JObject m) = Some m"
| "as_object _ = None"

fun as_array :: "json \<Rightarrow> json list option" where
  "as_array (JArray xs) = Some xs"
| "as_array _ = None"

fun as_str :: "json \<Rightarrow> string option" where
  "as_str (JString s) = Some s"
| "as_str _ = None"

text \<open>\<open>Value::get\<close> with a key, and the update \<open>as_object_mut\<close> followed by \<open>insert\<close>.\<close>

definition json_get :: "json \<Rightarrow> string \<Rightarrow> json option" where
  "json_get v k = Option.bind (as_object v) (\<lambda>m. map_of m k)"

definition json_insert :: "string \<Rightarrow> json \<Rightarrow> json \<Rightarrow> json" where
  "json_insert k x v = (case as_object v of None \<Rightarrow> v | Some m \<Rightarrow> JObject (smap_insert k x m))"


section \<open>Laws\<close>

lemma map_of_smap_insert [simp]: "map_of (smap_insert k v m) = (map_of m)(k \<mapsto> v)"
  by (induction k v m rule: smap_insert.induct) auto

lemma keys_smap_insert [simp]: "fst ` set (smap_insert k v m) = insert k (fst ` set m)"
  by (induction k v m rule: smap_insert.induct) auto

lemma smap_wf_Nil [simp]: "smap_wf []"
  by (simp add: smap_wf_def)

lemma smap_wf_Cons [simp]: "smap_wf ((k, v) # m) \<longleftrightarrow> (\<forall>a \<in> fst ` set m. k < a) \<and> smap_wf m"
  by (simp add: smap_wf_def)

lemma smap_wf_insert: "smap_wf m \<Longrightarrow> smap_wf (smap_insert k v m)"
proof (induction k v m rule: smap_insert.induct)
  case (2 k v a b m)
  then show ?case
    by (auto intro: order.strict_trans)
qed simp

lemma smap_wf_distinct: "smap_wf m \<Longrightarrow> distinct (map fst m)"
  unfolding smap_wf_def by (metis strict_sorted_iff)

lemma smap_wf_remove: "smap_wf m \<Longrightarrow> smap_wf (smap_remove k m)"
  unfolding smap_wf_def smap_remove_def
  by (induction m) auto

lemma map_of_smap_remove: "map_of (smap_remove k m) = (map_of m)(k := None)"
  by (induction m) (auto simp: smap_remove_def)

text \<open>Two maps in key order with the same lookups are the same.\<close>

lemma smap_alt: "distinct (map fst m) \<Longrightarrow> m = map (\<lambda>k. (k, the (map_of m k))) (map fst m)"
  by (rule sym) (auto simp: comp_def intro!: map_idI)

lemma smap_eqI:
  assumes "smap_wf m" and "smap_wf n" and "map_of m = map_of n"
  shows "m = n"
proof -
  have "set (map fst m) = set (map fst n)"
    using assms(3) by (metis dom_map_of_conv_image_fst image_set)
  then have "map fst m = map fst n"
    using assms(1,2) unfolding smap_wf_def by (metis strict_sorted_equal)
  moreover have "m = map (\<lambda>k. (k, the (map_of m k))) (map fst m)"
    and "n = map (\<lambda>k. (k, the (map_of n k))) (map fst n)"
    using assms(1,2) by (auto intro!: smap_alt smap_wf_distinct simp del: map_map)
  ultimately show ?thesis using assms(3) by metis
qed

lemma contains_key_iff: "contains_key m k \<longleftrightarrow> map_of m k \<noteq> None"
  by (auto simp: contains_key_def map_of_eq_None_iff)

lemma contains_key_insert [simp]: "contains_key (smap_insert k v m) a \<longleftrightarrow> a = k \<or> contains_key m a"
  by (simp add: contains_key_def)

lemma json_get_insert [simp]:
  "json_get (JObject (smap_insert k x m)) a = (if a = k then Some x else map_of m a)"
  by (simp add: json_get_def)

lemma json_get_JObject [simp]: "json_get (JObject m) a = map_of m a"
  by (simp add: json_get_def)

lemma json_insert_JObject [simp]: "json_insert k x (JObject m) = JObject (smap_insert k x m)"
  by (simp add: json_insert_def)

lemma as_object_Some_iff [simp]: "as_object v = Some m \<longleftrightarrow> v = JObject m"
  by (cases v) auto

lemma as_array_Some_iff [simp]: "as_array v = Some xs \<longleftrightarrow> v = JArray xs"
  by (cases v) auto

end
