(* ===== verification/Graph_State.thy ===== *)
theory Graph_State
  imports Json_Value
begin

text \<open>
  State management of \<open>lc-langgraph\<close> (\<open>errors.rs\<close>, \<open>state.rs\<close>): the error type, state updates, the
  reducers that merge a node's update into the running state, and the prebuilt \<open>AgentState\<close>.

  A state type \<open>'s\<close> implements serde's \<open>Serialize\<close> and \<open>Deserialize\<close>, usually by derive; the two
  conversions are a parameter of the model, the record \<open>serde\<close>. What the sources rely on for a
  derived struct is the locale \<open>struct_serde\<close>, interpreted on \<open>AgentState\<close>'s derived conversions.
\<close>

section \<open>Errors\<close>

datatype graph_error =
    ValidationError string
  | ExecutionError string
  | RoutingError string
  | RecursionLimitReached nat
  | NodeError string
  | CheckpointError string
  | CheckpointVersionConflict string nat nat
  | StateError string
  | ExecutionInterrupted string
  | ResumeError string
  | InfiniteCycleError string
  | OrphanNodeError string
  | DuplicateEdgeError string
  | MissingRouteTargetError string
  | RuntimeError string
  | InterruptRequest json
  | DynamicInterrupt string json

type_synonym 'a graph_result = "graph_error + 'a"
type_synonym ('w, 'a) geff = "('w, graph_error, 'a) eff"

text \<open>The \<open>Display\<close> text of an error, from its \<open>#[error(..)]\<close> attributes.\<close>

fun error_display :: "graph_error \<Rightarrow> string" where
  "error_display (ValidationError m) = ''Validation error: '' @ m"
| "error_display (ExecutionError m) = ''Execution error: '' @ m"
| "error_display (RoutingError m) = ''Routing error: '' @ m"
| "error_display (RecursionLimitReached n) = ''Recursion limit reached: '' @ show_nat n"
| "error_display (NodeError m) = ''Node error: '' @ m"
| "error_display (CheckpointError m) = ''Checkpoint error: '' @ m"
| "error_display (CheckpointVersionConflict i e a) =
     ''Checkpoint version conflict on '' @ quoted i @ '': expected '' @ show_nat e
       @ '', found '' @ show_nat a"
| "error_display (StateError m) = ''State error: '' @ m"
| "error_display (ExecutionInterrupted m) = ''Execution interrupted: '' @ m"
| "error_display (ResumeError m) = ''Resume error: '' @ m"
| "error_display (InfiniteCycleError m) = ''Graph contains infinite cycle: '' @ m"
| "error_display (OrphanNodeError m) = ''Orphan node detected: '' @ m"
| "error_display (DuplicateEdgeError m) = ''Duplicate edge: '' @ m"
| "error_display (MissingRouteTargetError m) = ''Missing route target: '' @ m"
| "error_display (RuntimeError m) = ''Runtime error: '' @ m"
| "error_display (InterruptRequest p) = ''node requested a runtime interrupt''"
| "error_display (DynamicInterrupt n p) =
     ''node '' @ quoted n @ '' suspended execution with a runtime interrupt''"


section \<open>State schema and updates\<close>

record 's serde =
  to_value :: "'s \<Rightarrow> string + json"
  from_value :: "json \<Rightarrow> string + 's"

definition to_json :: "'s serde \<Rightarrow> 's \<Rightarrow> json graph_result" where
  "to_json sd s = (case to_value sd s of
      Inl e \<Rightarrow> Inl (StateError (''Failed to serialize state to JSON: '' @ e))
    | Inr v \<Rightarrow> Inr v)"

record 's state_update =
  su_update :: "'s option"
  su_metadata :: "json smap"

definition su_full :: "'s \<Rightarrow> 's state_update" where
  "su_full s = \<lparr>su_update = Some s, su_metadata = []\<rparr>"

definition su_with_metadata :: "'s \<Rightarrow> json smap \<Rightarrow> 's state_update" where
  "su_with_metadata s m = \<lparr>su_update = Some s, su_metadata = m\<rparr>"

definition su_unchanged :: "'s state_update" where
  "su_unchanged = \<lparr>su_update = None, su_metadata = []\<rparr>"

definition su_add_metadata :: "string \<Rightarrow> json \<Rightarrow> 's state_update \<Rightarrow> 's state_update" where
  "su_add_metadata k v u = u\<lparr>su_metadata := smap_insert k v (su_metadata u)\<rparr>"


section \<open>Reducers\<close>

text \<open>\<open>reduce current update\<close>.\<close>

type_synonym 's reducer = "'s \<Rightarrow> 's \<Rightarrow> 's"

definition replace_reduce :: "'s reducer" where
  "replace_reduce current upd = upd"

fun legacy_chain :: "(string \<times> 's reducer) list \<Rightarrow> 's \<Rightarrow> 's \<Rightarrow> 's" where
  "legacy_chain [] current merged = merged"
| "legacy_chain ((_, r) # fs) current merged = legacy_chain fs current (r current merged)"

text \<open>
  The field loop of \<open>MergeReducer::reduce\<close>: \<open>merged\<close> and \<open>merged_value\<close> are its two locals. The
  loop leaves early (\<open>break\<close>) when \<open>merged_value\<close> is no object.
\<close>

fun merge_fields ::
  "'s serde \<Rightarrow> 's \<Rightarrow> 's \<Rightarrow> (string \<times> 's reducer) list \<Rightarrow> 's \<Rightarrow> json \<Rightarrow> 's \<times> json" where
  "merge_fields sd current upd [] merged mv = (merged, mv)"
| "merge_fields sd current upd ((field, r) # fs) merged mv =
     (let out = r current upd;
          out_value = (case to_value sd out of Inl _ \<Rightarrow> JNull | Inr v \<Rightarrow> v);
          patch = json_get out_value field
      in case as_object mv of
           None \<Rightarrow> (merged, mv)
         | Some mm \<Rightarrow>
             (case patch of
                Some p \<Rightarrow> merge_fields sd current upd fs merged (JObject (smap_insert field p mm))
              | None \<Rightarrow>
                  (let merged' = (case from_value sd mv of Inl _ \<Rightarrow> merged | Inr s \<Rightarrow> s);
                       nxt = r current merged';
                       mv' = (case to_value sd nxt of Inl _ \<Rightarrow> mv | Inr v \<Rightarrow> v)
                   in merge_fields sd current upd fs merged' mv')))"

definition merge_reduce :: "'s serde \<Rightarrow> 's reducer \<Rightarrow> (string \<times> 's reducer) list \<Rightarrow> 's reducer" where
  "merge_reduce sd fallback fs current upd =
     (let merged = fallback current upd
      in if fs = [] then merged
         else (case to_value sd merged of
             Inr (JObject m) \<Rightarrow>
               (let (merged', mv) = merge_fields sd current upd fs merged (JObject m)
                in case from_value sd mv of Inl _ \<Rightarrow> merged' | Inr s \<Rightarrow> s)
           | _ \<Rightarrow> legacy_chain fs current merged))"

record ('s, 't) append_reducer =
  field_accessor :: "'s \<Rightarrow> 't list"
  field_mutator :: "'s \<Rightarrow> 't list \<Rightarrow> 's"

definition append_reduce :: "('s, 't) append_reducer \<Rightarrow> 's reducer" where
  "append_reduce ar current upd =
     field_mutator ar current (field_accessor ar current @ field_accessor ar upd)"


section \<open>The prebuilt agent state\<close>

datatype message_role = System | Human | AI | Tool

record message_entry =
  me_role :: message_role
  me_content :: string

definition me_human :: "string \<Rightarrow> message_entry" where
  "me_human c = \<lparr>me_role = Human, me_content = c\<rparr>"

definition me_ai :: "string \<Rightarrow> message_entry" where
  "me_ai c = \<lparr>me_role = AI, me_content = c\<rparr>"

definition me_system :: "string \<Rightarrow> message_entry" where
  "me_system c = \<lparr>me_role = System, me_content = c\<rparr>"

definition me_tool :: "string \<Rightarrow> message_entry" where
  "me_tool c = \<lparr>me_role = Tool, me_content = c\<rparr>"

record step_entry =
  se_action :: string
  se_observation :: string

definition step_entry_new :: "string \<Rightarrow> string \<Rightarrow> step_entry" where
  "step_entry_new a obs = \<lparr>se_action = a, se_observation = obs\<rparr>"

record agent_state =
  as_input :: string
  as_messages :: "message_entry list"
  as_steps :: "step_entry list"
  as_output :: "string option"

definition agent_state_new :: "string \<Rightarrow> agent_state" where
  "agent_state_new i =
     \<lparr>as_input = i, as_messages = [me_human i], as_steps = [], as_output = None\<rparr>"

definition add_message :: "message_entry \<Rightarrow> agent_state \<Rightarrow> agent_state" where
  "add_message m s = s\<lparr>as_messages := as_messages s @ [m]\<rparr>"

definition add_step :: "step_entry \<Rightarrow> agent_state \<Rightarrow> agent_state" where
  "add_step e s = s\<lparr>as_steps := as_steps s @ [e]\<rparr>"

definition set_output :: "string \<Rightarrow> agent_state \<Rightarrow> agent_state" where
  "set_output x s = s\<lparr>as_output := Some x\<rparr>"

definition append_messages_reduce :: "agent_state reducer" where
  "append_messages_reduce current upd =
     upd\<lparr>as_messages := as_messages current @ as_messages upd\<rparr>"

definition append_steps_reduce :: "agent_state reducer" where
  "append_steps_reduce current upd = upd\<lparr>as_steps := as_steps current @ as_steps upd\<rparr>"

text \<open>
  The conversions serde derives for \<open>AgentState\<close>: a struct is an object of its fields, a unit
  variant its name, an \<open>Option\<close> the value or null.
\<close>

fun role_name :: "message_role \<Rightarrow> string" where
  "role_name System = ''System''"
| "role_name Human = ''Human''"
| "role_name AI = ''AI''"
| "role_name Tool = ''Tool''"

definition role_of_name :: "string \<Rightarrow> message_role option" where
  "role_of_name s = List.find (\<lambda>r. role_name r = s) [System, Human, AI, Tool]"

definition me_json :: "message_entry \<Rightarrow> json" where
  "me_json m = JObject [(''content'', JString (me_content m)), (''role'', JString (role_name (me_role m)))]"

definition me_of_json :: "json \<Rightarrow> message_entry option" where
  "me_of_json v =
     Option.bind (json_get v ''content'') (\<lambda>c. Option.bind (as_str c) (\<lambda>c.
     Option.bind (json_get v ''role'') (\<lambda>r. Option.bind (as_str r) (\<lambda>r.
     Option.bind (role_of_name r) (\<lambda>r. Some \<lparr>me_role = r, me_content = c\<rparr>)))))"

definition se_json :: "step_entry \<Rightarrow> json" where
  "se_json e = JObject [(''action'', JString (se_action e)), (''observation'', JString (se_observation e))]"

definition se_of_json :: "json \<Rightarrow> step_entry option" where
  "se_of_json v =
     Option.bind (json_get v ''action'') (\<lambda>a. Option.bind (as_str a) (\<lambda>a.
     Option.bind (json_get v ''observation'') (\<lambda>b. Option.bind (as_str b) (\<lambda>b.
     Some \<lparr>se_action = a, se_observation = b\<rparr>))))"

fun list_of_json :: "(json \<Rightarrow> 'a option) \<Rightarrow> json list \<Rightarrow> 'a list option" where
  "list_of_json f [] = Some []"
| "list_of_json f (x # xs) =
     Option.bind (f x) (\<lambda>y. Option.bind (list_of_json f xs) (\<lambda>ys. Some (y # ys)))"

fun opt_json :: "string option \<Rightarrow> json" where
  "opt_json None = JNull"
| "opt_json (Some s) = JString s"

fun opt_of_json :: "json option \<Rightarrow> string option option" where
  "opt_of_json None = Some None"
| "opt_of_json (Some JNull) = Some None"
| "opt_of_json (Some (JString s)) = Some (Some s)"
| "opt_of_json _ = None"

definition agent_json :: "agent_state \<Rightarrow> json" where
  "agent_json s = JObject
     [(''input'', JString (as_input s)),
      (''messages'', JArray (map me_json (as_messages s))),
      (''output'', opt_json (as_output s)),
      (''steps'', JArray (map se_json (as_steps s)))]"

definition agent_of_json :: "json \<Rightarrow> agent_state option" where
  "agent_of_json v =
     Option.bind (json_get v ''input'') (\<lambda>i. Option.bind (as_str i) (\<lambda>i.
     Option.bind (json_get v ''messages'') (\<lambda>m. Option.bind (as_array m) (\<lambda>m.
     Option.bind (list_of_json me_of_json m) (\<lambda>m.
     Option.bind (json_get v ''steps'') (\<lambda>e. Option.bind (as_array e) (\<lambda>e.
     Option.bind (list_of_json se_of_json e) (\<lambda>e.
     Option.bind (opt_of_json (json_get v ''output'')) (\<lambda>x.
     Some \<lparr>as_input = i, as_messages = m, as_steps = e, as_output = x\<rparr>)))))))))"

definition agent_serde :: "agent_state serde" where
  "agent_serde =
     \<lparr>to_value = (\<lambda>s. Inr (agent_json s)),
      from_value = (\<lambda>v. ok_or ''invalid state'' (agent_of_json v))\<rparr>"


section \<open>What a derived struct promises\<close>

text \<open>
  \<open>struct_serde sd\<close>: every state serializes to an object in key order, deserializing gives the
  state back, and a field taken from the object of one state may replace the same field in the
  object of another (the fields of a struct are independent of each other).
  \<open>state_field sd s k\<close> is the JSON value of the field \<open>k\<close> of \<open>s\<close>.
\<close>

definition state_field :: "'s serde \<Rightarrow> 's \<Rightarrow> string \<Rightarrow> json option" where
  "state_field sd s k = (case to_value sd s of Inl _ \<Rightarrow> None | Inr v \<Rightarrow> json_get v k)"

locale struct_serde =
  fixes sd :: "'s serde"
  assumes ser_object: "\<exists>m. to_value sd s = Inr (JObject m) \<and> smap_wf m"
    and round_trip: "to_value sd s = Inr v \<Longrightarrow> from_value sd v = Inr s"
    and same_keys: "to_value sd s = Inr (JObject m) \<Longrightarrow> to_value sd t = Inr (JObject n) \<Longrightarrow>
        map fst m = map fst n"
    and mix_field: "to_value sd s = Inr (JObject m) \<Longrightarrow> to_value sd t = Inr (JObject n) \<Longrightarrow>
        map_of n k = Some v \<Longrightarrow> \<exists>u. to_value sd u = Inr (JObject (smap_insert k v m))"
begin

lemma to_valueE:
  obtains m where "to_value sd s = Inr (JObject m)" and "smap_wf m"
    and "\<And>k. state_field sd s k = map_of m k"
  using ser_object [of s] by (auto simp: state_field_def)

lemma to_json_object: "to_json sd s = Inr v \<Longrightarrow> to_value sd s = Inr v"
  by (auto simp: to_json_def split: sum.splits)

lemma to_json_eq: "to_value sd s = Inr v \<Longrightarrow> to_json sd s = Inr v"
  by (simp add: to_json_def)

lemma state_eqI:
  assumes "\<And>k. state_field sd s k = state_field sd t k"
  shows "s = t"
proof -
  obtain m where m: "to_value sd s = Inr (JObject m)" "smap_wf m" "\<And>k. state_field sd s k = map_of m k"
    using to_valueE [of s] by metis
  obtain n where n: "to_value sd t = Inr (JObject n)" "smap_wf n" "\<And>k. state_field sd t k = map_of n k"
    using to_valueE [of t] by metis
  have "m = n"
    using m n assms by (intro smap_eqI) auto
  with m(1) n(1) show ?thesis
    by (metis round_trip sum.inject(2))
qed

lemma mix_state:
  assumes "to_value sd s = Inr (JObject m)" and "state_field sd t k = Some v"
  obtains u where "to_value sd u = Inr (JObject (smap_insert k v m))"
    and "from_value sd (JObject (smap_insert k v m)) = Inr u"
    and "\<And>a. state_field sd u a = (if a = k then Some v else state_field sd s a)"
proof -
  obtain n where n: "to_value sd t = Inr (JObject n)" "\<And>k. state_field sd t k = map_of n k"
    using to_valueE [of t] by metis
  obtain u where u: "to_value sd u = Inr (JObject (smap_insert k v m))"
    using mix_field [OF assms(1) n(1)] assms(2) n(2) by metis
  moreover from u have "from_value sd (JObject (smap_insert k v m)) = Inr u"
    by (rule round_trip)
  moreover have "\<And>a. state_field sd u a = (if a = k then Some v else state_field sd s a)"
    using u assms(1) by (simp add: state_field_def)
  ultimately show thesis by (rule that)
qed

lemma field_defined: "state_field sd s k \<noteq> None \<longleftrightarrow> state_field sd t k \<noteq> None"
proof -
  obtain m where m: "to_value sd s = Inr (JObject m)" "\<And>k. state_field sd s k = map_of m k"
    using to_valueE [of s] by metis
  obtain n where n: "to_value sd t = Inr (JObject n)" "\<And>k. state_field sd t k = map_of n k"
    using to_valueE [of t] by metis
  show ?thesis
    using same_keys [OF m(1) n(1)] m(2) n(2) by (metis map_of_eq_None_iff image_set)
qed

text \<open>
  The field loop of the composed reducer: it stays on objects of states, and a field ends with
  the value its own reducer computed, or unchanged when it has none.
\<close>

lemma merge_fields_spec:
  assumes "to_value sd s = Inr (JObject m)" and "\<forall>f \<in> fst ` set fs. state_field sd upd f \<noteq> None"
    and "distinct (map fst fs)"
  shows "\<exists>u s'. merge_fields sd current upd fs merged (JObject m) = (merged, JObject u) \<and>
           to_value sd s' = Inr (JObject u) \<and>
           (\<forall>k. state_field sd s' k =
             (case map_of fs k of Some r \<Rightarrow> state_field sd (r current upd) k | None \<Rightarrow> state_field sd s k))"
  using assms
proof (induction fs arbitrary: s m)
  case Nil
  then show ?case by force
next
  case (Cons f fs)
  obtain field r where f: "f = (field, r)" by force
  define out where "out = r current upd"
  from Cons.prems(2) have "state_field sd out field \<noteq> None"
    using field_defined [of upd field out] by (simp add: f)
  then obtain p where p: "state_field sd out field = Some p" by auto
  then obtain v where v: "to_value sd out = Inr v" "json_get v field = Some p"
    by (auto simp: state_field_def split: sum.splits)
  obtain s1 where s1: "to_value sd s1 = Inr (JObject (smap_insert field p m))"
      "\<And>a. state_field sd s1 a = (if a = field then Some p else state_field sd s a)"
    using mix_state [OF Cons.prems(1) p] by metis
  have "\<forall>f \<in> fst ` set fs. state_field sd upd f \<noteq> None" and "distinct (map fst fs)"
    using Cons.prems(2,3) by auto
  from Cons.IH [OF s1(1) this] obtain u s' where
    u: "merge_fields sd current upd fs merged (JObject (smap_insert field p m)) = (merged, JObject u)"
    "to_value sd s' = Inr (JObject u)"
    and s': "\<forall>k. state_field sd s' k =
       (case map_of fs k of Some r \<Rightarrow> state_field sd (r current upd) k | None \<Rightarrow> state_field sd s1 k)"
    by blast
  have "map_of fs field = None"
    using Cons.prems(3) by (auto simp: f map_of_eq_None_iff)
  with s' have "\<forall>k. state_field sd s' k =
       (case map_of (f # fs) k of Some r \<Rightarrow> state_field sd (r current upd) k | None \<Rightarrow> state_field sd s k)"
    using s1(2) p by (auto simp: f out_def split: option.splits)
  moreover have "merge_fields sd current upd (f # fs) merged (JObject m) = (merged, JObject u)"
    using u(1) v by (simp add: f out_def [symmetric])
  ultimately show ?case using u(2) by blast
qed

lemma merge_reduce_field:
  assumes "\<forall>f \<in> fst ` set fs. state_field sd upd f \<noteq> None" and "distinct (map fst fs)"
  shows "state_field sd (merge_reduce sd replace_reduce fs current upd) k =
    (case map_of fs k of Some r \<Rightarrow> state_field sd (r current upd) k | None \<Rightarrow> state_field sd upd k)"
proof (cases "fs = []")
  case True
  then show ?thesis by (simp add: merge_reduce_def replace_reduce_def)
next
  case False
  obtain m where m: "to_value sd upd = Inr (JObject m)" using to_valueE [of upd] by metis
  obtain u s' where "merge_fields sd current upd fs upd (JObject m) = (upd, JObject u)"
      and "to_value sd s' = Inr (JObject u)"
      and s': "\<forall>k. state_field sd s' k =
             (case map_of fs k of Some r \<Rightarrow> state_field sd (r current upd) k | None \<Rightarrow> state_field sd upd k)"
    using merge_fields_spec [OF m assms] by blast
  then have "merge_reduce sd replace_reduce fs current upd = s'"
    using False m round_trip by (simp add: merge_reduce_def replace_reduce_def)
  with s' show ?thesis by simp
qed

end


section \<open>The agent state is such a struct\<close>

lemma role_of_name_role_name [simp]: "role_of_name (role_name r) = Some r"
  by (cases r) (auto simp: role_of_name_def)

lemma me_of_json_me_json [simp]: "me_of_json (me_json m) = Some m"
  by (simp add: me_of_json_def me_json_def)

lemma se_of_json_se_json [simp]: "se_of_json (se_json e) = Some e"
  by (simp add: se_of_json_def se_json_def)

lemma list_of_json_map [simp]: "(\<And>x. f (g x) = Some x) \<Longrightarrow> list_of_json f (map g xs) = Some xs"
  by (induction xs) auto

lemma opt_of_json_opt_json [simp]: "opt_of_json (Some (opt_json x)) = Some x"
  by (cases x) auto

lemma agent_of_json_agent_json [simp]: "agent_of_json (agent_json s) = Some s"
  by (simp add: agent_of_json_def agent_json_def)

lemma agent_serde_simps [simp]:
  "to_value agent_serde s = Inr (agent_json s)"
  "from_value agent_serde v = ok_or ''invalid state'' (agent_of_json v)"
  by (simp_all add: agent_serde_def)

lemma agent_keys_ordered [simp]:
  "''input'' < ''messages''" "''messages'' < ''output''" "''output'' < ''steps''"
  "''input'' < ''output''" "''input'' < ''steps''" "''messages'' < ''steps''"
  "\<not> ''messages'' < ''input''" "\<not> ''output'' < ''input''" "\<not> ''steps'' < ''input''"
  "\<not> ''output'' < ''messages''" "\<not> ''steps'' < ''messages''" "\<not> ''steps'' < ''output''"
  by code_simp+

lemma agent_state_field:
  "state_field agent_serde s k =
     (if k = ''input'' then Some (JString (as_input s))
      else if k = ''messages'' then Some (JArray (map me_json (as_messages s)))
      else if k = ''output'' then Some (opt_json (as_output s))
      else if k = ''steps'' then Some (JArray (map se_json (as_steps s)))
      else None)"
  by (simp add: state_field_def agent_json_def)

lemma agent_mix_field:
  assumes "agent_json s = JObject m" and "agent_json t = JObject n" and "map_of n k = Some v"
  shows "\<exists>u. agent_json u = JObject (smap_insert k v m)"
proof -
  have n: "state_field agent_serde t k = Some v"
    using assms(2,3) by (simp add: state_field_def)
  have m: "m = [(''input'', JString (as_input s)),
      (''messages'', JArray (map me_json (as_messages s))),
      (''output'', opt_json (as_output s)),
      (''steps'', JArray (map se_json (as_steps s)))]"
    using assms(1) by (simp add: agent_json_def)
  consider "k = ''input''" "v = JString (as_input t)"
    | "k = ''messages''" "v = JArray (map me_json (as_messages t))"
    | "k = ''output''" "v = opt_json (as_output t)"
    | "k = ''steps''" "v = JArray (map se_json (as_steps t))"
    using n by (auto simp: agent_state_field split: if_splits)
  then show ?thesis
  proof cases
    case 1
    then have "agent_json (s\<lparr>as_input := as_input t\<rparr>) = JObject (smap_insert k v m)"
      by (simp add: agent_json_def m)
    then show ?thesis ..
  next
    case 2
    then have "agent_json (s\<lparr>as_messages := as_messages t\<rparr>) = JObject (smap_insert k v m)"
      by (simp add: agent_json_def m)
    then show ?thesis ..
  next
    case 3
    then have "agent_json (s\<lparr>as_output := as_output t\<rparr>) = JObject (smap_insert k v m)"
      by (simp add: agent_json_def m)
    then show ?thesis ..
  next
    case 4
    then have "agent_json (s\<lparr>as_steps := as_steps t\<rparr>) = JObject (smap_insert k v m)"
      by (simp add: agent_json_def m)
    then show ?thesis ..
  qed
qed

interpretation agent: struct_serde agent_serde
proof unfold_locales
  show "\<exists>m. to_value agent_serde s = Inr (JObject m) \<and> smap_wf m" for s
    by (simp add: agent_json_def)
  show "from_value agent_serde v = Inr s" if "to_value agent_serde s = Inr v" for s v
    using that by auto
  show "map fst m = map fst n"
    if "to_value agent_serde s = Inr (JObject m)" and "to_value agent_serde t = Inr (JObject n)"
    for s m t n
    using that by (auto simp: agent_json_def)
  show "\<exists>u. to_value agent_serde u = Inr (JObject (smap_insert k v m))"
    if "to_value agent_serde s = Inr (JObject m)" and "to_value agent_serde t = Inr (JObject n)"
      and "map_of n k = Some v"
    for s m t n k v
    using that agent_mix_field by simp
qed


section \<open>Properties\<close>

text \<open>
  The composed reducer that \<open>StateGraph::compile\<close> builds from the registered field
  reducers applies every reducer to its own field only: for a derived struct state, each field of
  the merged state is the value its registered reducer computes from the current state and the
  update, and a field without a reducer takes the update's value. Registration order and the
  other reducers do not matter.
\<close>

theorem merge_reducer_per_field:
  assumes "struct_serde sd"
    and "\<forall>f \<in> fst ` set fs. state_field sd upd f \<noteq> None"
    and "distinct (map fst fs)"
  shows "state_field sd (merge_reduce sd replace_reduce fs current upd) k =
    (case map_of fs k of
       Some r \<Rightarrow> state_field sd (r current upd) k
     | None \<Rightarrow> state_field sd upd k)"
  using assms by (rule struct_serde.merge_reduce_field)

theorem merge_reducer_per_field_witness:
  "state_field agent_serde
     (merge_reduce agent_serde replace_reduce
        [(''messages'', append_messages_reduce), (''steps'', append_steps_reduce)]
        (agent_state_new ''a'') (add_step (step_entry_new ''x'' ''y'') (agent_state_new ''b'')))
     ''messages'' = Some (JArray (map me_json [me_human ''a'', me_human ''b'']))"
  by (subst merge_reducer_per_field [OF agent.struct_serde_axioms])
     (simp_all add: agent_state_field append_messages_reduce_def agent_state_new_def add_step_def)

end
