(* ===== verification/Checkpoint.thy ===== *)
theory Checkpoint
  imports Graph_State "HOL-Library.Product_Lexorder"
begin

text \<open>
  Checkpointing of \<open>lc-langgraph\<close> (\<open>checkpointer.rs\<close>): the \<open>Checkpointer\<close> trait as a record of
  operations on a world \<open>'w\<close>, its default methods, retention and pagination, the in-memory
  checkpointers, and the two decorators (\<open>RetainingCheckpointer\<close>, \<open>TerritoryCheckpointer\<close>).

  The world of the in-memory checkpointers is the extensible record \<open>mem_world\<close>: the map of threads
  behind the mutex, and a tick that counts the checkpoints created. UUIDs and the clock are
  outside the sources: the record \<open>outside\<close> gives the id and the time of the n-th checkpoint.
\<close>

definition DEFAULT_THREAD :: string where
  "DEFAULT_THREAD = ''default''"

section \<open>Checkpoint data\<close>

record 's checkpoint_data =
  cd_id :: string
  cd_state :: 's
  cd_timestamp :: int
  cd_metadata :: "json smap"
  cd_seq :: nat
  cd_recursion_count :: nat
  cd_version :: nat
  cd_thread_id :: "string option"
  cd_parent_id :: "string option"

record 's checkpoint_info =
  ci_id :: string
  ci_timestamp :: int
  ci_seq :: nat
  ci_recursion_count :: nat
  ci_state :: 's
  ci_parent :: "string option"

record checkpoint_retention =
  max_checkpoints :: "nat option"
  max_age_secs :: "int option"

definition retention_default :: checkpoint_retention where
  "retention_default = \<lparr>max_checkpoints = None, max_age_secs = None\<rparr>"

definition retention_max_checkpoints :: "nat \<Rightarrow> checkpoint_retention" where
  "retention_max_checkpoints m = \<lparr>max_checkpoints = Some m, max_age_secs = None\<rparr>"

definition retention_ttl :: "int \<Rightarrow> checkpoint_retention" where
  "retention_ttl secs = \<lparr>max_checkpoints = None, max_age_secs = Some secs\<rparr>"

definition initial_version :: nat where
  "initial_version = 1"

text \<open>\<open>CheckpointData::new\<close>, with the id and the time it draws as arguments, and \<open>with_progress\<close>.\<close>

definition checkpoint_data_new :: "string \<Rightarrow> int \<Rightarrow> 's \<Rightarrow> 's checkpoint_data" where
  "checkpoint_data_new i now s =
     \<lparr>cd_id = i, cd_state = s, cd_timestamp = now, cd_metadata = [], cd_seq = 0,
      cd_recursion_count = 0, cd_version = 1, cd_thread_id = None, cd_parent_id = None\<rparr>"

definition with_progress :: "string \<Rightarrow> int \<Rightarrow> 's \<Rightarrow> nat \<Rightarrow> nat \<Rightarrow> 's checkpoint_data" where
  "with_progress i now s sq rc =
     (checkpoint_data_new i now s)\<lparr>cd_seq := sq, cd_recursion_count := rc\<rparr>"

definition checkpoint_info_from_data :: "'s checkpoint_data \<Rightarrow> 's checkpoint_info" where
  "checkpoint_info_from_data d =
     \<lparr>ci_id = cd_id d, ci_timestamp = cd_timestamp d, ci_seq = cd_seq d,
      ci_recursion_count = cd_recursion_count d, ci_state = cd_state d, ci_parent = cd_parent_id d\<rparr>"


section \<open>The trait\<close>

record ('w, 's) checkpointer =
  cp_save :: "'s \<Rightarrow> nat \<Rightarrow> ('w, string) geff"
  cp_load :: "string \<Rightarrow> ('w, 's) geff"
  cp_list :: "('w, string list) geff"
  cp_delete :: "string \<Rightarrow> ('w, unit) geff"
  cp_last :: "('w, ('s \<times> nat) option) geff"
  cp_snapshots :: "('w, 's checkpoint_info list) geff"
  cp_update_state :: "string \<Rightarrow> 's \<Rightarrow> nat \<Rightarrow> ('w, nat) geff"
  cp_save_threaded :: "string \<Rightarrow> 's \<Rightarrow> nat \<Rightarrow> ('w, string) geff"
  cp_save_fork_threaded :: "string option \<Rightarrow> string \<Rightarrow> 's \<Rightarrow> nat \<Rightarrow> ('w, string) geff"
  cp_load_threaded :: "string \<Rightarrow> string \<Rightarrow> ('w, 's) geff"
  cp_list_threaded :: "string \<Rightarrow> ('w, string list) geff"
  cp_delete_threaded :: "string \<Rightarrow> string \<Rightarrow> ('w, unit) geff"
  cp_last_threaded :: "string \<Rightarrow> ('w, ('s \<times> nat) option) geff"
  cp_snapshots_threaded :: "string \<Rightarrow> ('w, 's checkpoint_info list) geff"
  cp_checkpoint_lineage :: "string \<Rightarrow> ('w, (string \<times> string option) option) geff"
  cp_prune :: "string \<Rightarrow> nat option \<Rightarrow> int option \<Rightarrow> int \<Rightarrow> ('w, nat) geff"
  cp_snapshots_page_threaded ::
    "string \<Rightarrow> string option \<Rightarrow> nat \<Rightarrow> ('w, 's checkpoint_info list) geff"
  cp_snapshots_page :: "string option \<Rightarrow> nat \<Rightarrow> ('w, 's checkpoint_info list) geff"

text \<open>The default methods, over the operations of the implementing checkpointer they call.\<close>

definition default_snapshots ::
  "('w, string list) geff \<Rightarrow> (string \<Rightarrow> ('w, 's) geff) \<Rightarrow> ('w, 's checkpoint_info list) geff" where
  "default_snapshots lst load =
     eff_bind lst (\<lambda>ids. eff_for (\<lambda>i snaps. eff_bind (load i) (\<lambda>s.
       ok (snaps @ [\<lparr>ci_id = i, ci_timestamp = 0, ci_seq = 0, ci_recursion_count = 0,
                     ci_state = s, ci_parent = None\<rparr>]))) ids [])"

definition default_update_state :: "string \<Rightarrow> 's \<Rightarrow> nat \<Rightarrow> ('w, nat) geff" where
  "default_update_state i s expected =
     err (CheckpointError (''update_state is not supported on checkpoint '' @ quoted i
            @ '' by this checkpointer''))"

text \<open>\<open>i64::saturating_sub\<close>.\<close>

definition sat_sub_i64 :: "int \<Rightarrow> int \<Rightarrow> int" where
  "sat_sub_i64 a b = max (- (2 ^ 63)) (min (2 ^ 63 - 1) (a - b))"

definition retention_trim_ids ::
  "(string \<times> int) list \<Rightarrow> nat option \<Rightarrow> int option \<Rightarrow> int \<Rightarrow> string list" where
  "retention_trim_ids ordered mx age now =
     (let n = length ordered;
          excess = (case mx of None \<Rightarrow> 0 | Some m \<Rightarrow> n - m);
          too_old = (\<lambda>ts. case age of None \<Rightarrow> False | Some a \<Rightarrow> sat_sub_i64 now ts > a);
          marked = map (\<lambda>i. i < excess \<or> too_old (snd (ordered ! i))) [0..<n]
      in map (\<lambda>i. fst (ordered ! i)) (filter (\<lambda>i. marked ! i) [0..<n]))"

definition default_prune ::
  "(string \<Rightarrow> ('w, 's checkpoint_info list) geff) \<Rightarrow> (string \<Rightarrow> string \<Rightarrow> ('w, unit) geff) \<Rightarrow>
   string \<Rightarrow> nat option \<Rightarrow> int option \<Rightarrow> int \<Rightarrow> ('w, nat) geff" where
  "default_prune snapshots_threaded delete_threaded thread mx age now =
     eff_bind (snapshots_threaded thread) (\<lambda>snaps.
       let ordered = map (\<lambda>s. (ci_id s, ci_timestamp s)) snaps;
           to_delete = retention_trim_ids ordered mx age now
       in eff_for (\<lambda>i deleted. eff_bind (delete_threaded thread i) (\<lambda>_. ok (Suc deleted))) to_delete 0)"

definition position :: "('a \<Rightarrow> bool) \<Rightarrow> 'a list \<Rightarrow> nat option" where
  "position P xs = List.find (\<lambda>i. P (xs ! i)) [0..<length xs]"

definition page_of :: "'s checkpoint_info list \<Rightarrow> string option \<Rightarrow> nat \<Rightarrow> 's checkpoint_info list" where
  "page_of all after limit =
     (if limit = 0 then []
      else let skip = (case after of
             Some aid \<Rightarrow> (case position (\<lambda>s. ci_id s = aid) all of
                 Some p \<Rightarrow> Suc p | None \<Rightarrow> length all)
           | None \<Rightarrow> 0)
      in take limit (drop skip all))"

definition default_page ::
  "(string \<Rightarrow> ('w, 's checkpoint_info list) geff) \<Rightarrow>
   string \<Rightarrow> string option \<Rightarrow> nat \<Rightarrow> ('w, 's checkpoint_info list) geff" where
  "default_page snapshots_threaded thread after limit =
     eff_bind (snapshots_threaded thread) (\<lambda>all. ok (page_of all after limit))"


section \<open>The in-memory checkpointers\<close>

record outside =
  new_v4 :: "nat \<Rightarrow> string"
  utc_now :: "nat \<Rightarrow> int"

record 's thread_store =
  ts_items :: "'s checkpoint_data list"
  ts_seq :: nat

record 's mem_world =
  mw_threads :: "'s thread_store smap"
  mw_tick :: nat

definition thread_store_new :: "'s thread_store" where
  "thread_store_new = \<lparr>ts_items = [], ts_seq = 0\<rparr>"

definition ts_find :: "'s thread_store \<Rightarrow> string \<Rightarrow> 's checkpoint_data option" where
  "ts_find st i = List.find (\<lambda>d. cd_id d = i) (ts_items st)"

definition sort_key_of :: "'s checkpoint_data \<Rightarrow> int \<times> nat" where
  "sort_key_of d = (cd_timestamp d, cd_seq d)"

definition ts_sorted :: "'s thread_store \<Rightarrow> 's checkpoint_data list" where
  "ts_sorted st = sort_key sort_key_of (ts_items st)"

text \<open>\<open>Iterator::max_by_key\<close>: the last of the greatest elements.\<close>

fun max_by_key :: "('a \<Rightarrow> 'k::linorder) \<Rightarrow> 'a list \<Rightarrow> 'a option" where
  "max_by_key f [] = None"
| "max_by_key f (x # xs) = (case max_by_key f xs of
      None \<Rightarrow> Some x
    | Some y \<Rightarrow> Some (if f x > f y then x else y))"

definition ts_last :: "'s thread_store \<Rightarrow> 's checkpoint_data option" where
  "ts_last st = max_by_key sort_key_of (ts_items st)"

definition thread_entry :: "'s thread_store smap \<Rightarrow> string \<Rightarrow> 's thread_store" where
  "thread_entry threads thread =
     (case map_of threads thread of None \<Rightarrow> thread_store_new | Some st \<Rightarrow> st)"

definition mem_save_fork ::
  "outside \<Rightarrow> string option \<Rightarrow> string \<Rightarrow> 's \<Rightarrow> nat \<Rightarrow> (('s, 'x) mem_world_scheme, string) geff" where
  "mem_save_fork out parent thread s rc = (\<lambda>w.
     let store = thread_entry (mw_threads w) thread;
         sq = ts_seq store;
         data = (with_progress (new_v4 out (mw_tick w)) (utc_now out (mw_tick w)) s sq rc)
                  \<lparr>cd_thread_id := Some thread, cd_parent_id := parent\<rparr>;
         store' = store\<lparr>ts_items := ts_items store @ [data], ts_seq := Suc sq\<rparr>
     in Some (Inr (cd_id data),
          w\<lparr>mw_threads := smap_insert thread store' (mw_threads w), mw_tick := Suc (mw_tick w)\<rparr>))"

definition mem_save ::
  "outside \<Rightarrow> string \<Rightarrow> 's \<Rightarrow> nat \<Rightarrow> (('s, 'x) mem_world_scheme, string) geff" where
  "mem_save out thread s rc = (\<lambda>w.
     let store = thread_entry (mw_threads w) thread;
         sq = ts_seq store;
         data = (with_progress (new_v4 out (mw_tick w)) (utc_now out (mw_tick w)) s sq rc)
                  \<lparr>cd_thread_id := Some thread\<rparr>;
         store' = store\<lparr>ts_items := ts_items store @ [data], ts_seq := Suc sq\<rparr>
     in Some (Inr (cd_id data),
          w\<lparr>mw_threads := smap_insert thread store' (mw_threads w), mw_tick := Suc (mw_tick w)\<rparr>))"

definition not_found :: "string \<Rightarrow> graph_error" where
  "not_found i = CheckpointError (''Checkpoint '' @ quoted i @ '' not found'')"

definition mem_load :: "string \<Rightarrow> string \<Rightarrow> (('s, 'x) mem_world_scheme, 's) geff" where
  "mem_load thread i = (\<lambda>w. lift_result
     (result_bind (ok_or (not_found i) (map_of (mw_threads w) thread))
        (\<lambda>st. ok_or (not_found i) (map_option cd_state (ts_find st i)))) w)"

definition mem_list :: "string \<Rightarrow> (('s, 'x) mem_world_scheme, string list) geff" where
  "mem_list thread = (\<lambda>w. ok
     (case map_of (mw_threads w) thread of None \<Rightarrow> [] | Some st \<Rightarrow> map cd_id (ts_sorted st)) w)"

definition mem_snapshots :: "string \<Rightarrow> (('s, 'x) mem_world_scheme, 's checkpoint_info list) geff" where
  "mem_snapshots thread = (\<lambda>w. ok
     (case map_of (mw_threads w) thread of None \<Rightarrow> []
      | Some st \<Rightarrow> map checkpoint_info_from_data (ts_sorted st)) w)"

definition mem_last :: "string \<Rightarrow> (('s, 'x) mem_world_scheme, ('s \<times> nat) option) geff" where
  "mem_last thread = (\<lambda>w. ok
     (map_option (\<lambda>d. (cd_state d, cd_recursion_count d))
        (Option.bind (map_of (mw_threads w) thread) ts_last)) w)"

definition mem_delete :: "string \<Rightarrow> string \<Rightarrow> (('s, 'x) mem_world_scheme, unit) geff" where
  "mem_delete thread i = (\<lambda>w. ok ()
     (case map_of (mw_threads w) thread of
        None \<Rightarrow> w
      | Some st \<Rightarrow> w\<lparr>mw_threads :=
          smap_insert thread (st\<lparr>ts_items := filter (\<lambda>d. cd_id d \<noteq> i) (ts_items st)\<rparr>) (mw_threads w)\<rparr>))"

text \<open>
  \<open>update_locked\<close> walks the threads until it finds the id; \<open>update_first\<close> writes the first match of
  a list.
\<close>

fun update_first :: "('a \<Rightarrow> bool) \<Rightarrow> ('a \<Rightarrow> 'a) \<Rightarrow> 'a list \<Rightarrow> 'a list" where
  "update_first P f [] = []"
| "update_first P f (x # xs) = (if P x then f x # xs else x # update_first P f xs)"

fun update_threads ::
  "string \<Rightarrow> 's \<Rightarrow> nat \<Rightarrow> 's thread_store smap \<Rightarrow> (nat \<times> 's thread_store smap) graph_result" where
  "update_threads i s expected [] = Inl (not_found i)"
| "update_threads i s expected ((t, st) # ts) =
     (case ts_find st i of
        Some d \<Rightarrow>
          if cd_version d \<noteq> expected
          then Inl (CheckpointVersionConflict i expected (cd_version d))
          else Inr (Suc (cd_version d),
            (t, st\<lparr>ts_items := update_first (\<lambda>d. cd_id d = i)
                 (\<lambda>d. d\<lparr>cd_state := s, cd_version := Suc (cd_version d)\<rparr>) (ts_items st)\<rparr>) # ts)
      | None \<Rightarrow> result_bind (update_threads i s expected ts) (\<lambda>(v, ts'). Inr (v, (t, st) # ts')))"

definition update_locked :: "string \<Rightarrow> 's \<Rightarrow> nat \<Rightarrow> (('s, 'x) mem_world_scheme, nat) geff" where
  "update_locked i s expected = (\<lambda>w.
     case update_threads i s expected (mw_threads w) of
       Inl e \<Rightarrow> Some (Inl e, w)
     | Inr (v, ts) \<Rightarrow> Some (Inr v, w\<lparr>mw_threads := ts\<rparr>))"

fun find_lineage :: "string \<Rightarrow> 's thread_store smap \<Rightarrow> (string \<times> string option) option" where
  "find_lineage i [] = None"
| "find_lineage i ((t, st) # ts) =
     (case ts_find st i of Some d \<Rightarrow> Some (t, cd_parent_id d) | None \<Rightarrow> find_lineage i ts)"

definition mem_lineage ::
  "string \<Rightarrow> (('s, 'x) mem_world_scheme, (string \<times> string option) option) geff" where
  "mem_lineage i = (\<lambda>w. ok (find_lineage i (mw_threads w)) w)"

definition mem_world_new :: "'s mem_world" where
  "mem_world_new = \<lparr>mw_threads = [], mw_tick = 0\<rparr>"

definition memory_checkpointer :: "outside \<Rightarrow> (('s, 'x) mem_world_scheme, 's) checkpointer" where
  "memory_checkpointer out =
     \<lparr>cp_save = mem_save out DEFAULT_THREAD,
      cp_load = mem_load DEFAULT_THREAD,
      cp_list = mem_list DEFAULT_THREAD,
      cp_delete = mem_delete DEFAULT_THREAD,
      cp_last = mem_last DEFAULT_THREAD,
      cp_snapshots = mem_snapshots DEFAULT_THREAD,
      cp_update_state = update_locked,
      cp_save_threaded = mem_save out,
      cp_save_fork_threaded = mem_save_fork out,
      cp_load_threaded = mem_load,
      cp_list_threaded = mem_list,
      cp_delete_threaded = mem_delete,
      cp_last_threaded = mem_last,
      cp_snapshots_threaded = mem_snapshots,
      cp_checkpoint_lineage = mem_lineage,
      cp_prune = default_prune mem_snapshots mem_delete,
      cp_snapshots_page_threaded = default_page mem_snapshots,
      cp_snapshots_page = default_page mem_snapshots DEFAULT_THREAD\<rparr>"

text \<open>\<open>ThreadSafeMemoryCheckpointer\<close> repeats \<open>MemoryCheckpointer\<close> method by method.\<close>

definition thread_safe_memory_checkpointer ::
  "outside \<Rightarrow> (('s, 'x) mem_world_scheme, 's) checkpointer" where
  "thread_safe_memory_checkpointer out =
     \<lparr>cp_save = mem_save out DEFAULT_THREAD,
      cp_load = mem_load DEFAULT_THREAD,
      cp_list = mem_list DEFAULT_THREAD,
      cp_delete = mem_delete DEFAULT_THREAD,
      cp_last = mem_last DEFAULT_THREAD,
      cp_snapshots = mem_snapshots DEFAULT_THREAD,
      cp_update_state = update_locked,
      cp_save_threaded = mem_save out,
      cp_save_fork_threaded = mem_save_fork out,
      cp_load_threaded = mem_load,
      cp_list_threaded = mem_list,
      cp_delete_threaded = mem_delete,
      cp_last_threaded = mem_last,
      cp_snapshots_threaded = mem_snapshots,
      cp_checkpoint_lineage = mem_lineage,
      cp_prune = default_prune mem_snapshots mem_delete,
      cp_snapshots_page_threaded = default_page mem_snapshots,
      cp_snapshots_page = default_page mem_snapshots DEFAULT_THREAD\<rparr>"


text \<open>\<open>chrono::Utc::now()\<close> read outside a save.\<close>

definition mem_now :: "outside \<Rightarrow> (('s, 'x) mem_world_scheme, int) geff" where
  "mem_now out = (\<lambda>w. Some (Inr (utc_now out (mw_tick w)), w))"


section \<open>The decorators\<close>

text \<open>\<open>now\<close> is the reading of the clock in \<open>prune_after_save\<close>.\<close>

definition prune_after_save ::
  "('w, int) geff \<Rightarrow> ('w, 's) checkpointer \<Rightarrow> checkpoint_retention \<Rightarrow> string \<Rightarrow> ('w, unit) geff" where
  "prune_after_save now inner r i =
     (if max_checkpoints r = None \<and> max_age_secs r = None then ok ()
      else eff_bind now (\<lambda>t.
           eff_bind (cp_checkpoint_lineage inner i) (\<lambda>lin.
           let thread = (case lin of Some (th, _) \<Rightarrow> th | None \<Rightarrow> DEFAULT_THREAD)
           in eff_bind (cp_prune inner thread (max_checkpoints r) (max_age_secs r) t) (\<lambda>_. ok ()))))"

text \<open>\<open>RetainingCheckpointer\<close> does not override \<open>update_state\<close>: it keeps the trait's default.\<close>

definition retaining_checkpointer ::
  "('w, int) geff \<Rightarrow> ('w, 's) checkpointer \<Rightarrow> checkpoint_retention \<Rightarrow> ('w, 's) checkpointer" where
  "retaining_checkpointer now inner r =
     \<lparr>cp_save = (\<lambda>s rc. eff_bind (cp_save inner s rc) (\<lambda>i.
          eff_bind (prune_after_save now inner r i) (\<lambda>_. ok i))),
      cp_load = cp_load inner,
      cp_list = cp_list inner,
      cp_delete = cp_delete inner,
      cp_last = cp_last inner,
      cp_snapshots = cp_snapshots inner,
      cp_update_state = default_update_state,
      cp_save_threaded = (\<lambda>th s rc. eff_bind (cp_save_threaded inner th s rc) (\<lambda>i.
          eff_bind (prune_after_save now inner r i) (\<lambda>_. ok i))),
      cp_save_fork_threaded = (\<lambda>p th s rc. eff_bind (cp_save_fork_threaded inner p th s rc) (\<lambda>i.
          eff_bind (prune_after_save now inner r i) (\<lambda>_. ok i))),
      cp_load_threaded = cp_load_threaded inner,
      cp_list_threaded = cp_list_threaded inner,
      cp_delete_threaded = cp_delete_threaded inner,
      cp_last_threaded = cp_last_threaded inner,
      cp_snapshots_threaded = cp_snapshots_threaded inner,
      cp_checkpoint_lineage = cp_checkpoint_lineage inner,
      cp_prune = cp_prune inner,
      cp_snapshots_page_threaded = cp_snapshots_page_threaded inner,
      cp_snapshots_page = cp_snapshots_page inner\<rparr>"

definition ns_thread :: "string \<Rightarrow> string \<Rightarrow> string" where
  "ns_thread ns thread = ns @ ''::'' @ thread"

definition ns_default :: "string \<Rightarrow> string" where
  "ns_default ns = ns @ ''::'' @ DEFAULT_THREAD"

text \<open>\<open>TerritoryCheckpointer\<close> does not override \<open>snapshots\<close> and \<open>snapshots_page\<close>.\<close>

definition territory_checkpointer ::
  "('w, 's) checkpointer \<Rightarrow> string \<Rightarrow> ('w, 's) checkpointer" where
  "territory_checkpointer inner ns =
     \<lparr>cp_save = cp_save_threaded inner (ns_default ns),
      cp_load = cp_load_threaded inner (ns_default ns),
      cp_list = cp_list_threaded inner (ns_default ns),
      cp_delete = cp_delete_threaded inner (ns_default ns),
      cp_last = cp_last_threaded inner (ns_default ns),
      cp_snapshots = default_snapshots (cp_list_threaded inner (ns_default ns))
          (cp_load_threaded inner (ns_default ns)),
      cp_update_state = cp_update_state inner,
      cp_save_threaded = (\<lambda>th. cp_save_threaded inner (ns_thread ns th)),
      cp_save_fork_threaded = (\<lambda>p th. cp_save_fork_threaded inner p (ns_thread ns th)),
      cp_load_threaded = (\<lambda>th. cp_load_threaded inner (ns_thread ns th)),
      cp_list_threaded = (\<lambda>th. cp_list_threaded inner (ns_thread ns th)),
      cp_delete_threaded = (\<lambda>th. cp_delete_threaded inner (ns_thread ns th)),
      cp_last_threaded = (\<lambda>th. cp_last_threaded inner (ns_thread ns th)),
      cp_snapshots_threaded = (\<lambda>th. cp_snapshots_threaded inner (ns_thread ns th)),
      cp_checkpoint_lineage = cp_checkpoint_lineage inner,
      cp_prune = (\<lambda>th. cp_prune inner (ns_thread ns th)),
      cp_snapshots_page_threaded = (\<lambda>th. cp_snapshots_page_threaded inner (ns_thread ns th)),
      cp_snapshots_page = cp_snapshots_page_threaded inner (ns_thread ns DEFAULT_THREAD)\<rparr>"

text \<open>Path segments of the file backend.\<close>

definition validate_segment :: "string \<Rightarrow> unit graph_result" where
  "validate_segment seg =
     (if seg = [] then Inl (CheckpointError ''checkpoint path segment must not be empty'')
      else if str_contains seg ''..'' \<or> CHR ''/'' \<in> set seg \<or> CHR 0x5C \<in> set seg
      then Inl (CheckpointError (''Invalid checkpoint identifier '' @ quoted seg
             @ '': path traversal detected''))
      else if starts_with seg ''/''
      then Inl (CheckpointError (''Invalid checkpoint identifier '' @ quoted seg
             @ '': absolute path not allowed''))
      else Inr ())"

end
