(* ===== verification/Checkpoint_Laws.thy ===== *)
theory Checkpoint_Laws
  imports Checkpoint
begin

text \<open>
  Correctness of the checkpointers. The abstract specification of the in-memory checkpointer is
  \<open>mem_view\<close>: for every thread the list of its checkpoints, oldest first. \<open>mem_inv\<close> is the
  well-formedness of the world under the documented behaviour of the outside: UUIDs do not
  repeat and the clock does not run backwards. The locale \<open>checkpoint_store\<close> states what the graph
  engine relies on.
\<close>

section \<open>Sorting and maxima\<close>

lemma sort_key_id: "sorted (map f xs) \<Longrightarrow> sort_key f xs = xs"
  by (induction xs) (auto simp: insort_is_Cons)

lemma max_by_key_None [simp]: "max_by_key f xs = None \<longleftrightarrow> xs = []"
  by (cases xs) (auto split: option.splits)

lemma max_by_key_sorted:
  "sorted (map f xs) \<Longrightarrow> xs \<noteq> [] \<Longrightarrow> max_by_key f xs = Some (last xs)"
proof (induction xs)
  case (Cons x xs)
  then show ?case
    by (cases "xs = []") (auto simp: leD)
qed simp

lemma update_first_none: "(\<forall>x \<in> set xs. \<not> P x) \<Longrightarrow> update_first P f xs = xs"
  by (induction xs) auto

lemma map_update_first:
  "(\<And>x. g (f x) = g x) \<Longrightarrow> map g (update_first P f xs) = map g xs"
  by (induction xs) auto

lemma update_first_eq_map:
  "distinct (map g xs) \<Longrightarrow> update_first (\<lambda>x. g x = i) f xs = map (\<lambda>x. if g x = i then f x else x) xs"
proof (induction xs)
  case (Cons x xs)
  show ?case
  proof (cases "g x = i")
    case True
    with Cons.prems have "\<forall>y \<in> set xs. g y \<noteq> i" by (force simp: image_iff)
    then have "map (\<lambda>x. if g x = i then f x else x) xs = xs" by (auto intro: map_idI)
    with True show ?thesis by simp
  next
    case False
    with Cons show ?thesis by simp
  qed
qed simp


section \<open>The abstract view of the in-memory world\<close>

definition mem_entry :: "('s, 'x) mem_world_scheme \<Rightarrow> string \<Rightarrow> 's thread_store" where
  "mem_entry w t = thread_entry (mw_threads w) t"

definition mem_view :: "('s, 'x) mem_world_scheme \<Rightarrow> string \<Rightarrow> 's checkpoint_data list" where
  "mem_view w t = ts_items (mem_entry w t)"

definition store_inv :: "int \<Rightarrow> string \<Rightarrow> 's thread_store \<Rightarrow> bool" where
  "store_inv now t st \<longleftrightarrow>
     sorted_wrt (<) (map cd_seq (ts_items st)) \<and> sorted (map cd_timestamp (ts_items st)) \<and>
     (\<forall>d \<in> set (ts_items st).
        cd_seq d < ts_seq st \<and> cd_timestamp d \<le> now \<and> cd_thread_id d = Some t)"

definition ids_of :: "('s, 'x) mem_world_scheme \<Rightarrow> string \<Rightarrow> string set" where
  "ids_of w t = cd_id ` set (mem_view w t)"

definition outside_ok :: "outside \<Rightarrow> bool" where
  "outside_ok out \<longleftrightarrow> inj (new_v4 out) \<and> mono (utc_now out)"

definition mem_inv :: "outside \<Rightarrow> ('s, 'x) mem_world_scheme \<Rightarrow> bool" where
  "mem_inv out w \<longleftrightarrow>
     outside_ok out \<and> smap_wf (mw_threads w) \<and>
     (\<forall>t. store_inv (utc_now out (mw_tick w)) t (mem_entry w t)) \<and>
     (\<forall>t. distinct (map cd_id (mem_view w t))) \<and>
     (\<forall>t t'. t \<noteq> t' \<longrightarrow> ids_of w t \<inter> ids_of w t' = {}) \<and>
     (\<forall>t. ids_of w t \<subseteq> new_v4 out ` {..<mw_tick w})"

lemma thread_entry_insert [simp]:
  "thread_entry (smap_insert t st m) a = (if a = t then st else thread_entry m a)"
  by (simp add: thread_entry_def)

lemma thread_entry_None: "map_of m t = None \<Longrightarrow> thread_entry m t = thread_store_new"
  by (simp add: thread_entry_def)

lemma thread_entry_Some: "map_of m t = Some st \<Longrightarrow> thread_entry m t = st"
  by (simp add: thread_entry_def)

lemma store_inv_sorted: "store_inv now t st \<Longrightarrow> sorted (map sort_key_of (ts_items st))"
proof -
  assume *: "store_inv now t st"
  have "sorted_wrt (\<lambda>d e. cd_timestamp d \<le> cd_timestamp e \<and> cd_seq d < cd_seq e) (ts_items st)"
    using * unfolding store_inv_def
    by (auto simp: sorted_wrt_map sorted_wrt_iff_nth_less)
  then show ?thesis
    by (auto simp: sorted_wrt_map sort_key_of_def less_eq_prod_def elim: sorted_wrt_mono_rel [rotated])
qed

lemma store_inv_mono: "store_inv now t st \<Longrightarrow> now \<le> now' \<Longrightarrow> store_inv now' t st"
  by (fastforce simp: store_inv_def)

lemma store_inv_new [simp]: "store_inv now t thread_store_new"
  by (simp add: store_inv_def thread_store_new_def)

lemma ts_sorted_eq: "store_inv now t st \<Longrightarrow> ts_sorted st = ts_items st"
  unfolding ts_sorted_def by (rule sort_key_id) (rule store_inv_sorted)

lemma ts_last_eq:
  "store_inv now t st \<Longrightarrow> ts_last st = (if ts_items st = [] then None else Some (last (ts_items st)))"
  using store_inv_sorted [of now t st] by (auto simp: ts_last_def max_by_key_sorted)

lemma mem_inv_store: "mem_inv out w \<Longrightarrow> store_inv (utc_now out (mw_tick w)) t (mem_entry w t)"
  by (simp add: mem_inv_def)

lemma mem_inv_distinct: "mem_inv out w \<Longrightarrow> distinct (map cd_id (mem_view w t))"
  by (simp add: mem_inv_def)

lemma mem_inv_disjoint: "mem_inv out w \<Longrightarrow> t \<noteq> t' \<Longrightarrow> ids_of w t \<inter> ids_of w t' = {}"
  unfolding mem_inv_def by blast

lemma mem_inv_ids: "mem_inv out w \<Longrightarrow> ids_of w t \<subseteq> new_v4 out ` {..<mw_tick w}"
  unfolding mem_inv_def by blast

text \<open>The read operations in terms of the view.\<close>

lemma mem_snapshots_view:
  assumes "mem_inv out w"
  shows "mem_snapshots t w = Some (Inr (map checkpoint_info_from_data (mem_view w t)), w)"
  using ts_sorted_eq [OF mem_inv_store [OF assms, of t]]
  by (auto simp: mem_snapshots_def mem_view_def mem_entry_def thread_entry_def thread_store_new_def
      split: option.splits)

lemma mem_list_view:
  assumes "mem_inv out w"
  shows "mem_list t w = Some (Inr (map cd_id (mem_view w t)), w)"
  using ts_sorted_eq [OF mem_inv_store [OF assms, of t]]
  by (auto simp: mem_list_def mem_view_def mem_entry_def thread_entry_def thread_store_new_def
      split: option.splits)

lemma mem_last_view:
  assumes "mem_inv out w"
  shows "mem_last t w = Some (Inr
     (if mem_view w t = [] then None
      else Some (cd_state (last (mem_view w t)), cd_recursion_count (last (mem_view w t)))), w)"
  using ts_last_eq [OF mem_inv_store [OF assms, of t]]
  by (auto simp: mem_last_def mem_view_def mem_entry_def thread_entry_def thread_store_new_def
      split: option.splits)

lemma mem_load_view:
  "mem_load t i w = Some (case List.find (\<lambda>d. cd_id d = i) (mem_view w t) of
      None \<Rightarrow> Inl (not_found i) | Some d \<Rightarrow> Inr (cd_state d), w)"
  by (auto simp: mem_load_def mem_view_def mem_entry_def thread_entry_def thread_store_new_def
      ts_find_def lift_result_apply split: option.splits)


section \<open>Saving\<close>

text \<open>The checkpoint that a save creates.\<close>

definition new_data ::
  "outside \<Rightarrow> string option \<Rightarrow> string \<Rightarrow> 's \<Rightarrow> nat \<Rightarrow> ('s, 'x) mem_world_scheme \<Rightarrow> 's checkpoint_data" where
  "new_data out parent t s rc w =
     \<lparr>cd_id = new_v4 out (mw_tick w), cd_state = s, cd_timestamp = utc_now out (mw_tick w),
      cd_metadata = [], cd_seq = ts_seq (mem_entry w t), cd_recursion_count = rc, cd_version = 1,
      cd_thread_id = Some t, cd_parent_id = parent\<rparr>"

definition push_data :: "string \<Rightarrow> 's checkpoint_data \<Rightarrow> ('s, 'x) mem_world_scheme \<Rightarrow> ('s, 'x) mem_world_scheme" where
  "push_data t d w =
     w\<lparr>mw_threads := smap_insert t \<lparr>ts_items = mem_view w t @ [d], ts_seq = Suc (ts_seq (mem_entry w t))\<rparr>
         (mw_threads w),
       mw_tick := Suc (mw_tick w)\<rparr>"

lemma mem_save_fork_eq:
  "mem_save_fork out p t s rc w =
     Some (Inr (new_v4 out (mw_tick w)), push_data t (new_data out p t s rc w) w)"
  by (cases "thread_entry (mw_threads w) t")
     (simp add: mem_save_fork_def push_data_def new_data_def mem_entry_def mem_view_def Let_def
      with_progress_def checkpoint_data_new_def)

lemma mem_save_eq: "mem_save out t s rc = mem_save_fork out None t s rc"
  by (rule ext) (simp add: mem_save_fork_def mem_save_def Let_def with_progress_def checkpoint_data_new_def)

lemma mem_entry_push:
  "mem_entry (push_data t d w) a =
     (if a = t then \<lparr>ts_items = mem_view w t @ [d], ts_seq = Suc (ts_seq (mem_entry w t))\<rparr>
      else mem_entry w a)"
  by (simp add: push_data_def mem_entry_def)

lemma mem_view_push: "mem_view (push_data t d w) = (mem_view w)(t := mem_view w t @ [d])"
  by (rule ext) (simp add: mem_view_def mem_entry_push)

lemma tick_push [simp]: "mw_tick (push_data t d w) = Suc (mw_tick w)"
  by (simp add: push_data_def)

lemma ids_of_push: "ids_of (push_data t d w) a = (if a = t then insert (cd_id d) (ids_of w t) else ids_of w a)"
  by (auto simp: ids_of_def mem_view_push)

lemma mem_inv_fresh:
  assumes "mem_inv out w"
  shows "new_v4 out (mw_tick w) \<notin> ids_of w t"
proof
  assume "new_v4 out (mw_tick w) \<in> ids_of w t"
  with assms obtain n where "n < mw_tick w" and "new_v4 out (mw_tick w) = new_v4 out n"
    unfolding mem_inv_def by blast
  with assms show False by (auto simp: mem_inv_def outside_ok_def inj_eq)
qed

lemma store_inv_push:
  assumes "mem_inv out w"
  shows "store_inv (utc_now out (mw_tick w)) t
    \<lparr>ts_items = mem_view w t @ [new_data out p t s rc w], ts_seq = Suc (ts_seq (mem_entry w t))\<rparr>"
  using mem_inv_store [OF assms, of t]
  by (auto simp: store_inv_def mem_view_def new_data_def sorted_wrt_append less_Suc_eq)

lemma mem_inv_push:
  assumes inv: "mem_inv out w"
  shows "mem_inv out (push_data t (new_data out p t s rc w) w)" (is "mem_inv out ?w")
proof -
  have le: "utc_now out (mw_tick w) \<le> utc_now out (Suc (mw_tick w))"
    using inv by (auto simp: mem_inv_def outside_ok_def intro: monoD)
  have "smap_wf (mw_threads ?w)"
    using inv by (simp add: push_data_def mem_inv_def smap_wf_insert)
  moreover have "store_inv (utc_now out (mw_tick ?w)) a (mem_entry ?w a)" for a
    using store_inv_mono [OF store_inv_push [OF inv] le] store_inv_mono [OF mem_inv_store [OF inv] le]
    by (simp add: mem_entry_push)
  moreover have "distinct (map cd_id (mem_view ?w a))" for a
    using mem_inv_distinct [OF inv] mem_inv_fresh [OF inv, of t]
    by (auto simp: mem_view_push ids_of_def new_data_def)
  moreover have "ids_of ?w a \<inter> ids_of ?w b = {}" if "a \<noteq> b" for a b
    using that mem_inv_disjoint [OF inv that] mem_inv_fresh [OF inv]
    by (cases "a = t"; cases "b = t") (simp_all add: ids_of_push new_data_def)
  moreover have "ids_of ?w a \<subseteq> new_v4 out ` {..<mw_tick ?w}" for a
    using mem_inv_ids [OF inv, of a] mem_inv_ids [OF inv, of t]
    by (auto simp: ids_of_push new_data_def lessThan_Suc)
  ultimately show ?thesis using inv unfolding mem_inv_def by blast
qed

lemma mem_inv_new: "outside_ok out \<Longrightarrow> mem_inv out mem_world_new"
  by (simp add: mem_inv_def mem_world_new_def mem_entry_def mem_view_def ids_of_def thread_entry_def)
     (simp add: thread_store_new_def)

lemma mem_inv_new_view: "mem_view mem_world_new t = []"
  by (simp add: mem_world_new_def mem_entry_def mem_view_def thread_entry_def thread_store_new_def)


section \<open>Deleting, editing and pruning\<close>

definition set_store ::
  "string \<Rightarrow> 's thread_store \<Rightarrow> ('s, 'x) mem_world_scheme \<Rightarrow> ('s, 'x) mem_world_scheme" where
  "set_store t st w = w\<lparr>mw_threads := smap_insert t st (mw_threads w)\<rparr>"

lemma mem_entry_set_store: "mem_entry (set_store t st w) a = (if a = t then st else mem_entry w a)"
  by (simp add: set_store_def mem_entry_def)

lemma mem_view_set_store: "mem_view (set_store t st w) = (mem_view w)(t := ts_items st)"
  by (rule ext) (simp add: mem_view_def mem_entry_set_store)

lemma tick_set_store [simp]: "mw_tick (set_store t st w) = mw_tick w"
  by (simp add: set_store_def)

lemma mem_inv_set_store:
  assumes inv: "mem_inv out w" and "store_inv (utc_now out (mw_tick w)) t st"
    and "distinct (map cd_id (ts_items st))" and sub: "cd_id ` set (ts_items st) \<subseteq> ids_of w t"
  shows "mem_inv out (set_store t st w)" (is "mem_inv out ?w")
proof -
  have ids: "ids_of ?w a \<subseteq> ids_of w a" for a
    using sub by (auto simp: ids_of_def mem_view_set_store)
  have "smap_wf (mw_threads ?w)"
    using inv by (simp add: set_store_def mem_inv_def smap_wf_insert)
  moreover have "store_inv (utc_now out (mw_tick ?w)) a (mem_entry ?w a)" for a
    using assms(2) mem_inv_store [OF inv] by (simp add: mem_entry_set_store)
  moreover have "distinct (map cd_id (mem_view ?w a))" for a
    using assms(3) mem_inv_distinct [OF inv] by (simp add: mem_view_set_store)
  moreover have "ids_of ?w a \<inter> ids_of ?w b = {}" if "a \<noteq> b" for a b
    using ids [of a] ids [of b] mem_inv_disjoint [OF inv that] by blast
  moreover have "ids_of ?w a \<subseteq> new_v4 out ` {..<mw_tick ?w}" for a
    using ids [of a] mem_inv_ids [OF inv, of a] by simp
  ultimately show ?thesis using inv unfolding mem_inv_def by blast
qed

lemma store_inv_filter:
  "store_inv now t st \<Longrightarrow> store_inv now t (st\<lparr>ts_items := filter P (ts_items st)\<rparr>)"
  by (auto simp: store_inv_def sorted_wrt_map intro: sorted_wrt_filter)

lemma mem_delete_spec:
  assumes inv: "mem_inv out w"
  obtains w' where "mem_delete t i w = Some (Inr (), w')" and "mem_inv out w'"
    and "mem_view w' = (mem_view w)(t := filter (\<lambda>d. cd_id d \<noteq> i) (mem_view w t))"
    and "mw_tick w' = mw_tick w"
proof (cases "map_of (mw_threads w) t")
  case None
  then have "mem_view w t = []"
    by (simp add: mem_view_def mem_entry_def thread_entry_None thread_store_new_def)
  with that [of w] None inv show thesis
    by (simp add: mem_delete_def fun_upd_idem)
next
  case (Some st)
  then have st: "mem_entry w t = st" by (simp add: mem_entry_def thread_entry_Some)
  let ?st = "st\<lparr>ts_items := filter (\<lambda>d. cd_id d \<noteq> i) (ts_items st)\<rparr>"
  have "mem_inv out (set_store t ?st w)"
    using mem_inv_store [OF inv, of t] mem_inv_distinct [OF inv, of t]
    by (intro mem_inv_set_store [OF inv])
       (auto simp: st mem_view_def ids_of_def intro: store_inv_filter distinct_map_filter)
  with that [of "set_store t ?st w"] Some show thesis
    by (simp add: mem_delete_def set_store_def [symmetric] mem_view_set_store)
       (simp add: mem_view_def st)
qed

lemma ts_find_mem_view: "map_of (mw_threads w) t = Some st \<Longrightarrow> mem_view w t = ts_items st"
  by (simp add: mem_view_def mem_entry_def thread_entry_Some)

lemma mem_view_in_threads: "d \<in> set (mem_view w t) \<Longrightarrow> map_of (mw_threads w) t = Some (mem_entry w t)"
  by (cases "map_of (mw_threads w) t")
     (simp_all add: mem_view_def mem_entry_def thread_entry_def thread_store_new_def)

lemma ts_find_Some:
  "distinct (map cd_id (ts_items st)) \<Longrightarrow> d \<in> set (ts_items st) \<Longrightarrow> ts_find st (cd_id d) = Some d"
  unfolding ts_find_def by (rule find_Some_iff_mem)

text \<open>Where the id lives in a single thread, the walk over the threads finds that thread.\<close>

lemma update_threads_spec:
  assumes "smap_wf ts" and "map_of ts t = Some st" and "ts_find st i = Some d"
    and "\<forall>t' st'. map_of ts t' = Some st' \<longrightarrow> t' \<noteq> t \<longrightarrow> ts_find st' i = None"
  shows "update_threads i s expected ts =
    (if cd_version d \<noteq> expected then Inl (CheckpointVersionConflict i expected (cd_version d))
     else Inr (Suc (cd_version d), smap_insert t
        (st\<lparr>ts_items := update_first (\<lambda>d. cd_id d = i)
             (\<lambda>d. d\<lparr>cd_state := s, cd_version := Suc (cd_version d)\<rparr>) (ts_items st)\<rparr>) ts))"
  using assms
proof (induction ts)
  case (Cons x ts)
  obtain a sa where x: "x = (a, sa)" by force
  show ?case
  proof (cases "a = t")
    case True
    with Cons.prems show ?thesis by (simp add: x)
  next
    case False
    have mem: "map_of ts t = Some st" using Cons.prems(2) False by (simp add: x)
    then have less: "a < t"
      using Cons.prems(1) by (force simp: x dest!: map_of_SomeD)
    have none: "ts_find sa i = None" using Cons.prems(4) [rule_format, of a sa] False by (simp add: x)
    have "map_of ts a = None" using Cons.prems(1) by (auto simp: x map_of_eq_None_iff)
    then have "\<forall>t' st'. map_of ts t' = Some st' \<longrightarrow> t' \<noteq> t \<longrightarrow> ts_find st' i = None"
      using Cons.prems(4) by (auto simp: x split: if_splits)
    from Cons.IH [OF _ mem Cons.prems(3) this] Cons.prems(1) none less False show ?thesis
      by (auto simp: x dest: order.asym)
  qed
qed simp

lemma find_lineage_spec:
  assumes "map_of ts t = Some st" and "ts_find st i = Some d" and "distinct (map fst ts)"
    and "\<forall>t' st'. map_of ts t' = Some st' \<longrightarrow> t' \<noteq> t \<longrightarrow> ts_find st' i = None"
  shows "find_lineage i ts = Some (t, cd_parent_id d)"
  using assms
proof (induction ts)
  case (Cons x ts)
  obtain a sa where x: "x = (a, sa)" by force
  show ?case
  proof (cases "a = t")
    case True
    with Cons.prems show ?thesis by (simp add: x)
  next
    case False
    have mem: "map_of ts t = Some st" using Cons.prems(1) False by (simp add: x)
    have none: "ts_find sa i = None" using Cons.prems(4) [rule_format, of a sa] False by (simp add: x)
    have "map_of ts a = None" using Cons.prems(3) by (simp add: x map_of_eq_None_iff)
    then have "\<forall>t' st'. map_of ts t' = Some st' \<longrightarrow> t' \<noteq> t \<longrightarrow> ts_find st' i = None"
      using Cons.prems(4) by (auto simp: x split: if_splits)
    from Cons.IH [OF mem Cons.prems(2) _ this] Cons.prems(3) none False show ?thesis
      by (simp add: x)
  qed
qed simp

lemma mem_unique:
  assumes inv: "mem_inv out w" and "d \<in> set (mem_view w t)"
  shows "\<forall>t' st'. map_of (mw_threads w) t' = Some st' \<longrightarrow> t' \<noteq> t \<longrightarrow> ts_find st' (cd_id d) = None"
proof (intro allI impI)
  fix t' st'
  assume st': "map_of (mw_threads w) t' = Some st'" and "t' \<noteq> t"
  then have "ids_of w t' \<inter> ids_of w t = {}" using inv by (intro mem_inv_disjoint)
  with assms(2) have "cd_id d \<notin> cd_id ` set (ts_items st')"
    using ts_find_mem_view [OF st'] by (auto simp: ids_of_def)
  then show "ts_find st' (cd_id d) = None" by (force simp: ts_find_def find_None_iff image_iff)
qed

lemma mem_find:
  "mem_inv out w \<Longrightarrow> d \<in> set (mem_view w t) \<Longrightarrow> ts_find (mem_entry w t) (cd_id d) = Some d"
  using mem_inv_distinct [of out w t] by (intro ts_find_Some) (auto simp: mem_view_def)

lemma mem_lineage_spec:
  assumes inv: "mem_inv out w" and d: "d \<in> set (mem_view w t)"
  shows "mem_lineage (cd_id d) w = Some (Inr (Some (t, cd_parent_id d)), w)"
  using find_lineage_spec [OF mem_view_in_threads [OF d] mem_find [OF inv d]
      smap_wf_distinct mem_unique [OF inv d]] inv
  by (simp add: mem_lineage_def mem_inv_def)

definition edit :: "'s \<Rightarrow> 's checkpoint_data \<Rightarrow> 's checkpoint_data" where
  "edit s d = d\<lparr>cd_state := s, cd_version := Suc (cd_version d)\<rparr>"

lemma update_locked_spec:
  assumes inv: "mem_inv out w" and d: "d \<in> set (mem_view w t)"
  shows "cd_version d \<noteq> expected \<Longrightarrow>
      update_locked (cd_id d) s expected w =
        Some (Inl (CheckpointVersionConflict (cd_id d) expected (cd_version d)), w)"
    and "cd_version d = expected \<Longrightarrow> \<exists>w'.
      update_locked (cd_id d) s expected w = Some (Inr (Suc expected), w') \<and> mem_inv out w' \<and>
      mem_view w' = (mem_view w)(t := map (\<lambda>e. if cd_id e = cd_id d then edit s e else e) (mem_view w t))"
proof -
  let ?st = "mem_entry w t"
  let ?st' = "?st\<lparr>ts_items := update_first (\<lambda>e. cd_id e = cd_id d) (edit s) (ts_items ?st)\<rparr>"
  have wf: "smap_wf (mw_threads w)" using inv by (simp add: mem_inv_def)
  note upd = update_threads_spec [OF wf mem_view_in_threads [OF d] mem_find [OF inv d]
      mem_unique [OF inv d], where s = s and expected = expected, folded edit_def]
  show "update_locked (cd_id d) s expected w =
        Some (Inl (CheckpointVersionConflict (cd_id d) expected (cd_version d)), w)"
    if "cd_version d \<noteq> expected"
    using upd that by (simp add: update_locked_def)
  assume v: "cd_version d = expected"
  have "update_locked (cd_id d) s expected w = Some (Inr (Suc expected), set_store t ?st' w)"
    using upd v by (simp add: update_locked_def set_store_def)
  moreover have "mem_inv out (set_store t ?st' w)"
  proof (rule mem_inv_set_store [OF inv])
    have keep: "map f (update_first (\<lambda>e. cd_id e = cd_id d) (edit s) xs) = map f xs"
      if "f \<in> {cd_id}" for f xs
      using that by (auto intro!: map_update_first simp: edit_def)
    have seqs: "map cd_seq (update_first P (edit s) xs) = map cd_seq xs"
      and stamps: "map cd_timestamp (update_first P (edit s) xs) = map cd_timestamp xs"
      and threads: "map cd_thread_id (update_first P (edit s) xs) = map cd_thread_id xs" for P xs
      by (auto intro!: map_update_first simp: edit_def)
    have all: "(\<forall>e \<in> set (update_first P (edit s) xs). Q (cd_seq e) (cd_timestamp e) (cd_thread_id e))
        \<longleftrightarrow> (\<forall>e \<in> set xs. Q (cd_seq e) (cd_timestamp e) (cd_thread_id e))" for P Q xs
      by (induction xs) (auto simp: edit_def)
    show "store_inv (utc_now out (mw_tick w)) t ?st'"
      using mem_inv_store [OF inv, of t] all [of _ "ts_items ?st" "\<lambda>a b c. a < ts_seq ?st \<and>
          b \<le> utc_now out (mw_tick w) \<and> c = Some t"]
      by (simp add: store_inv_def seqs stamps)
    show "distinct (map cd_id (ts_items ?st'))"
      using mem_inv_distinct [OF inv, of t] by (simp add: keep mem_view_def)
    show "cd_id ` set (ts_items ?st') \<subseteq> ids_of w t"
      using keep [of cd_id "ts_items ?st"]
      by (simp add: ids_of_def mem_view_def flip: set_map del: set_map)
  qed
  moreover have "mem_view (set_store t ?st' w) =
      (mem_view w)(t := map (\<lambda>e. if cd_id e = cd_id d then edit s e else e) (mem_view w t))"
    using mem_inv_distinct [OF inv, of t]
    by (simp add: mem_view_set_store mem_view_def update_first_eq_map)
  ultimately show "\<exists>w'. update_locked (cd_id d) s expected w = Some (Inr (Suc expected), w') \<and>
      mem_inv out w' \<and>
      mem_view w' = (mem_view w)(t := map (\<lambda>e. if cd_id e = cd_id d then edit s e else e) (mem_view w t))"
    by blast
qed


text \<open>
  Which checkpoints the retention policy drops: the oldest beyond the cap, and of the others those
  that are too old.
\<close>

definition excess :: "nat option \<Rightarrow> nat \<Rightarrow> nat" where
  "excess mx n = (case mx of None \<Rightarrow> 0 | Some m \<Rightarrow> n - m)"

definition too_old :: "int option \<Rightarrow> int \<Rightarrow> int \<Rightarrow> bool" where
  "too_old age now ts = (case age of None \<Rightarrow> False | Some a \<Rightarrow> sat_sub_i64 now ts > a)"

lemma map_nth_drop: "map (\<lambda>i. f (xs ! i)) [n..<length xs] = map f (drop n xs)"
  by (rule nth_equalityI) auto

lemma map_nth_filter_drop:
  "map (\<lambda>i. f (xs ! i)) (filter (\<lambda>i. P (xs ! i)) [n..<length xs]) = map f (filter P (drop n xs))"
proof -
  have "map (\<lambda>i. f (xs ! i)) (filter (\<lambda>i. P (xs ! i)) [n..<length xs]) =
      map f (filter P (map (\<lambda>i. xs ! i) [n..<length xs]))"
    by (simp add: filter_map comp_def)
  then show ?thesis by (simp add: map_nth_drop [where f = "\<lambda>x. x", simplified])
qed

lemma retention_trim_ids_eq:
  "retention_trim_ids ordered mx age now =
     map fst (take (excess mx (length ordered)) ordered) @
     map fst (filter (\<lambda>(_, ts). too_old age now ts) (drop (excess mx (length ordered)) ordered))"
proof -
  let ?n = "length ordered" and ?e = "excess mx (length ordered)"
  let ?P = "\<lambda>i. i < ?e \<or> too_old age now (snd (ordered ! i))"
  have le: "?e \<le> ?n" by (auto simp: excess_def split: option.split)
  have marked: "filter (\<lambda>i. map ?P [0..<?n] ! i) [0..<?n] = filter ?P [0..<?n]"
    by (rule filter_cong) auto
  have split: "[0..<?n] = [0..<?e] @ [?e..<?n]"
    using le by (metis le_add_diff_inverse upt_add_eq_append zero_le)
  have "filter ?P [0..<?e] = [0..<?e]"
    by (rule filter_True) auto
  moreover have "filter ?P [?e..<?n] = filter (\<lambda>i. too_old age now (snd (ordered ! i))) [?e..<?n]"
    by (rule filter_cong) auto
  ultimately have "retention_trim_ids ordered mx age now =
      map (\<lambda>i. fst (ordered ! i)) [0..<?e] @
      map (\<lambda>i. fst (ordered ! i)) (filter (\<lambda>i. too_old age now (snd (ordered ! i))) [?e..<?n])"
    unfolding retention_trim_ids_def Let_def
    using marked by (simp add: split excess_def [symmetric] too_old_def [symmetric])
  moreover have "map (\<lambda>i. fst (ordered ! i)) [0..<?e] = map fst (take ?e ordered)"
    using le by (intro nth_equalityI) auto
  moreover have "map (\<lambda>i. fst (ordered ! i)) (filter (\<lambda>i. too_old age now (snd (ordered ! i))) [?e..<?n]) =
      map fst (filter (\<lambda>x. too_old age now (snd x)) (drop ?e ordered))"
    by (rule map_nth_filter_drop [where f = fst and P = "\<lambda>x. too_old age now (snd x)"])
  ultimately show ?thesis by (simp add: case_prod_beta')
qed

definition retained ::
  "nat option \<Rightarrow> int option \<Rightarrow> int \<Rightarrow> 's checkpoint_data list \<Rightarrow> 's checkpoint_data list" where
  "retained mx age now ds =
     filter (\<lambda>d. \<not> too_old age now (cd_timestamp d)) (drop (excess mx (length ds)) ds)"

lemma retained_filter:
  assumes "distinct (map cd_id ds)"
  shows "filter (\<lambda>d. cd_id d \<notin> set (retention_trim_ids (map (\<lambda>d. (cd_id d, cd_timestamp d)) ds) mx age now)) ds =
    retained mx age now ds"
proof -
  let ?e = "excess mx (length ds)"
  let ?del = "set (retention_trim_ids (map (\<lambda>d. (cd_id d, cd_timestamp d)) ds) mx age now)"
  have del: "?del = cd_id ` set (take ?e ds) \<union>
      cd_id ` {d \<in> set (drop ?e ds). too_old age now (cd_timestamp d)}"
    unfolding retention_trim_ids_eq
    by (simp add: take_map drop_map filter_map comp_def image_image case_prod_beta')
  have dist: "distinct (map cd_id (take ?e ds @ drop ?e ds))" using assms by simp
  then have inj: "inj_on cd_id (set (drop ?e ds))"
    and disj: "cd_id ` set (take ?e ds) \<inter> cd_id ` set (drop ?e ds) = {}"
    by (auto simp only: map_append distinct_append distinct_map set_map)
  have "filter (\<lambda>d. cd_id d \<notin> ?del) (take ?e ds) = []"
    by (auto simp: filter_empty_conv del)
  moreover have "filter (\<lambda>d. cd_id d \<notin> ?del) (drop ?e ds) =
      filter (\<lambda>d. \<not> too_old age now (cd_timestamp d)) (drop ?e ds)"
    using inj disj by (intro filter_cong refl) (auto simp: del inj_on_eq_iff)
  moreover have "filter (\<lambda>d. cd_id d \<notin> ?del) ds =
      filter (\<lambda>d. cd_id d \<notin> ?del) (take ?e ds) @ filter (\<lambda>d. cd_id d \<notin> ?del) (drop ?e ds)"
    by (metis append_take_drop_id filter_append)
  ultimately show ?thesis by (simp add: retained_def)
qed

lemma mem_delete_loop:
  assumes "mem_inv out w"
  shows "\<exists>w'. eff_for (\<lambda>i deleted. eff_bind (mem_delete t i) (\<lambda>_. ok (Suc deleted))) ids n w =
       Some (Inr (n + length ids), w') \<and> mem_inv out w' \<and>
     mem_view w' = (mem_view w)(t := filter (\<lambda>d. cd_id d \<notin> set ids) (mem_view w t)) \<and>
     mw_tick w' = mw_tick w"
  using assms
proof (induction ids arbitrary: n w)
  case Nil
  then show ?case by simp
next
  case (Cons i ids)
  obtain w1 where w1: "mem_delete t i w = Some (Inr (), w1)" "mem_inv out w1"
      "mem_view w1 = (mem_view w)(t := filter (\<lambda>d. cd_id d \<noteq> i) (mem_view w t))"
      "mw_tick w1 = mw_tick w"
    using mem_delete_spec [OF Cons.prems] by blast
  obtain w' where w': "eff_for (\<lambda>i deleted. eff_bind (mem_delete t i) (\<lambda>_. ok (Suc deleted))) ids (Suc n) w1 =
       Some (Inr (Suc n + length ids), w')" "mem_inv out w'"
     "mem_view w' = (mem_view w1)(t := filter (\<lambda>d. cd_id d \<notin> set ids) (mem_view w1 t))"
     "mw_tick w' = mw_tick w1"
    using Cons.IH [OF w1(2), of "Suc n"] by blast
  have "mem_view w' = (mem_view w)(t := filter (\<lambda>d. cd_id d \<notin> set (i # ids)) (mem_view w t))"
    using w1(3) w'(3) by (auto intro!: filter_cong)
  moreover have "eff_for (\<lambda>i deleted. eff_bind (mem_delete t i) (\<lambda>_. ok (Suc deleted))) (i # ids) n w =
      Some (Inr (n + length (i # ids)), w')"
    using w'(1) by (simp add: eff_bind_def w1(1))
  ultimately show ?case using w1(4) w'(2,4) by metis
qed

lemma mem_prune_spec:
  assumes inv: "mem_inv out w"
  shows "\<exists>n w'. default_prune mem_snapshots mem_delete t mx age now w = Some (Inr n, w') \<and>
     mem_inv out w' \<and> mem_view w' = (mem_view w)(t := retained mx age now (mem_view w t)) \<and>
     mw_tick w' = mw_tick w"
proof -
  let ?ids = "retention_trim_ids (map (\<lambda>d. (cd_id d, cd_timestamp d)) (mem_view w t)) mx age now"
  have infos: "map (\<lambda>s. (ci_id s, ci_timestamp s)) (map checkpoint_info_from_data ds) =
      map (\<lambda>d. (cd_id d, cd_timestamp d)) ds" for ds :: "'a checkpoint_data list"
    by (simp add: checkpoint_info_from_data_def)
  obtain w' where w': "eff_for (\<lambda>i deleted. eff_bind (mem_delete t i) (\<lambda>_. ok (Suc deleted))) ?ids 0 w =
       Some (Inr (length ?ids), w')" "mem_inv out w'"
     "mem_view w' = (mem_view w)(t := filter (\<lambda>d. cd_id d \<notin> set ?ids) (mem_view w t))"
     "mw_tick w' = mw_tick w"
    using mem_delete_loop [OF inv, of t ?ids 0] by auto
  then show ?thesis
    unfolding default_prune_def Let_def
    using retained_filter [OF mem_inv_distinct [OF inv, of t], of mx age now]
    by (simp add: eff_bind_def mem_snapshots_view [OF inv] infos del: map_map)
qed

end
