(* ===== verification/Checkpoint_Props.thy ===== *)
theory Checkpoint_Props
  imports Checkpoint_Laws
begin

text \<open>
  What the checkpointers promise. The locale \<open>checkpoint_store\<close> states what the graph engine relies
  on when it saves and when it falls back to the newest checkpoint, \<open>checkpoint_resolver\<close> adds that
  an id leads back to the state and the recursion count that were saved; they are interpreted on
  the in-memory checkpointer, on the retaining decorator over it, and (the first only) on a
  territory of it. The properties of saving, optimistic editing, retention, pagination and
  territories follow, and the invariant over every sequence of operations.
\<close>

section \<open>The interface the engine relies on\<close>

text \<open>\<open>hist w\<close>: the checkpoints (id, state, recursion count) of the default thread, oldest first.\<close>

locale checkpoint_store =
  fixes cp :: "('w, 's) checkpointer"
    and inv :: "'w \<Rightarrow> bool"
    and hist :: "'w \<Rightarrow> (string \<times> 's \<times> nat) list"
  assumes save_law: "inv w \<Longrightarrow> \<exists>i w' h. cp_save cp s rc w = Some (Inr i, w') \<and> inv w' \<and>
        hist w' = h @ [(i, s, rc)] \<and> set h \<subseteq> set (hist w) \<and> i \<notin> fst ` set (hist w)"
    and last_law: "inv w \<Longrightarrow> cp_last cp w =
        Some (Inr (if hist w = [] then None else Some (snd (last (hist w)))), w)"
    and load_law: "inv w \<Longrightarrow> (i, s, rc) \<in> set (hist w) \<Longrightarrow> cp_load cp i w = Some (Inr s, w)"
begin

lemma save_then_last:
  assumes "inv w"
  obtains i w' where "cp_save cp s rc w = Some (Inr i, w')" and "inv w'"
    and "cp_last cp w' = Some (Inr (Some (s, rc)), w')" and "cp_load cp i w' = Some (Inr s, w')"
    and "(i, s, rc) \<in> set (hist w')"
proof -
  obtain i w' h where save: "cp_save cp s rc w = Some (Inr i, w')" and inv: "inv w'"
    and h: "hist w' = h @ [(i, s, rc)]"
    using save_law [OF assms] by blast
  from last_law [OF inv] h have "cp_last cp w' = Some (Inr (Some (s, rc)), w')" by simp
  moreover from h have "(i, s, rc) \<in> set (hist w')" by simp
  ultimately show thesis using that [OF save inv] load_law [OF inv] by blast
qed

lemma save_result:
  assumes "inv w" and "cp_save cp s rc w = Some (r, w')"
  obtains i where "r = Inr i" and "inv w'" and "(i, s, rc) \<in> set (hist w')"
    and "hist w' \<noteq> []" and "snd (last (hist w')) = (s, rc)"
    and "set (hist w') \<subseteq> insert (i, s, rc) (set (hist w))"
  using save_law [OF assms(1), of s rc] assms(2) by fastforce

end

locale checkpoint_resolver = checkpoint_store +
  assumes lineage_law: "inv w \<Longrightarrow> (i, s, rc) \<in> set (hist w) \<Longrightarrow>
      \<exists>t p snaps. cp_checkpoint_lineage cp i w = Some (Inr (Some (t, p)), w) \<and>
        cp_snapshots_threaded cp t w = Some (Inr snaps, w) \<and>
        (\<exists>info. List.find (\<lambda>c. ci_id c = i) snaps = Some info \<and> ci_id info = i \<and>
          ci_state info = s \<and> ci_recursion_count info = rc)"


section \<open>The in-memory checkpointer\<close>

definition hist_of :: "'s checkpoint_data list \<Rightarrow> (string \<times> 's \<times> nat) list" where
  "hist_of ds = map (\<lambda>d. (cd_id d, cd_state d, cd_recursion_count d)) ds"

definition mem_hist :: "string \<Rightarrow> ('s, 'x) mem_world_scheme \<Rightarrow> (string \<times> 's \<times> nat) list" where
  "mem_hist t w = hist_of (mem_view w t)"

lemma mem_hist_ids [simp]: "fst ` set (mem_hist t w) = ids_of w t"
  by (force simp: mem_hist_def hist_of_def ids_of_def)

lemma mem_hist_push:
  "mem_hist t (push_data t (new_data out p t s rc w) w) =
     mem_hist t w @ [(new_v4 out (mw_tick w), s, rc)]"
  by (simp add: mem_hist_def hist_of_def mem_view_push new_data_def)

lemma mem_hist_load:
  assumes "mem_inv out w" and "(i, s, rc) \<in> set (mem_hist t w)"
  shows "mem_load t i w = Some (Inr s, w)"
proof -
  from assms(2) obtain d where d: "d \<in> set (mem_view w t)" "cd_id d = i" "cd_state d = s"
    by (auto simp: mem_hist_def hist_of_def)
  then have "List.find (\<lambda>e. cd_id e = i) (mem_view w t) = Some d"
    using find_Some_iff_mem [OF mem_inv_distinct [OF assms(1)] d(1)] by simp
  with d show ?thesis by (simp add: mem_load_view)
qed

lemma mem_hist_last:
  "mem_inv out w \<Longrightarrow> mem_last t w =
     Some (Inr (if mem_hist t w = [] then None else Some (snd (last (mem_hist t w)))), w)"
  by (simp add: mem_last_view mem_hist_def hist_of_def last_map)

lemma mem_hist_lineage:
  assumes inv: "mem_inv out w" and "(i, s, rc) \<in> set (mem_hist t w)"
  shows "\<exists>p info. mem_lineage i w = Some (Inr (Some (t, p)), w) \<and>
     List.find (\<lambda>c. ci_id c = i) (map checkpoint_info_from_data (mem_view w t)) = Some info \<and>
     ci_id info = i \<and> ci_state info = s \<and> ci_recursion_count info = rc"
proof -
  from assms(2) obtain d where d: "d \<in> set (mem_view w t)" and eqs: "cd_id d = i" "cd_state d = s"
      "cd_recursion_count d = rc"
    by (auto simp: mem_hist_def hist_of_def)
  have "List.find (\<lambda>c. ci_id c = ci_id (checkpoint_info_from_data d))
      (map checkpoint_info_from_data (mem_view w t)) = Some (checkpoint_info_from_data d)"
    using mem_inv_distinct [OF inv, of t] d
    by (intro find_Some_iff_mem) (simp_all add: checkpoint_info_from_data_def comp_def)
  with mem_lineage_spec [OF inv d] eqs show ?thesis
    by (auto simp: checkpoint_info_from_data_def)
qed

interpretation mem: checkpoint_resolver
  "memory_checkpointer out" "mem_inv out" "mem_hist DEFAULT_THREAD" for out
proof (unfold_locales, goal_cases)
  case (1 w s rc)
  then show ?case
    using mem_inv_push [OF 1, of DEFAULT_THREAD None s rc] mem_inv_fresh [OF 1, of DEFAULT_THREAD]
    by (simp add: memory_checkpointer_def mem_save_eq mem_save_fork_eq mem_hist_push)
next
  case (2 w)
  then show ?case by (simp add: memory_checkpointer_def mem_hist_last)
next
  case (3 w i s rc)
  then show ?case by (simp add: memory_checkpointer_def mem_hist_load)
next
  case (4 w i s rc)
  then show ?case
    using mem_hist_lineage [OF 4] by (auto simp: memory_checkpointer_def mem_snapshots_view [OF 4(1)])
qed


section \<open>The retaining decorator\<close>

lemma retained_None [simp]: "retained None None now ds = ds"
  by (simp add: retained_def excess_def too_old_def)

lemma length_retained: "length (retained (Some m) age now ds) \<le> m"
proof -
  have "length (retained (Some m) age now ds) \<le> length (drop (excess (Some m) (length ds)) ds)"
    unfolding retained_def by (rule length_filter_le)
  then show ?thesis by (simp add: excess_def)
qed

lemma set_retained: "set (retained mx age now ds) \<subseteq> set ds"
  by (auto simp: retained_def dest: in_set_dropD)

lemma retained_snoc:
  "mx \<noteq> Some 0 \<Longrightarrow> \<exists>ds'. retained mx None now (ds @ [d]) = ds' @ [d] \<and> set ds' \<subseteq> set ds"
  by (auto simp: retained_def excess_def too_old_def dest: in_set_dropD split: option.splits)

lemma mem_view_push_last: "new_data out p t s rc w \<in> set (mem_view (push_data t (new_data out p t s rc w) w) t)"
  by (simp add: mem_view_push)

lemma prune_after_save_mem:
  fixes w :: "('s, 'x) mem_world_scheme"
  assumes inv: "mem_inv out w" and d: "d \<in> set (mem_view w t)"
  shows "\<exists>w'. prune_after_save (mem_now out) (memory_checkpointer out) r (cd_id d) w = Some (Inr (), w') \<and>
     mem_inv out w' \<and> mw_tick w' = mw_tick w \<and>
     mem_view w' = (mem_view w)(t := retained (max_checkpoints r) (max_age_secs r)
        (utc_now out (mw_tick w)) (mem_view w t))"
proof (cases "max_checkpoints r = None \<and> max_age_secs r = None")
  case True
  with inv show ?thesis by (simp add: prune_after_save_def)
next
  case False
  obtain n w' where w': "default_prune mem_snapshots mem_delete t (max_checkpoints r) (max_age_secs r)
        (utc_now out (mw_tick w)) w = Some (Inr n, w')" "mem_inv out w'"
     "mem_view w' = (mem_view w)(t := retained (max_checkpoints r) (max_age_secs r)
        (utc_now out (mw_tick w)) (mem_view w t))" "mw_tick w' = mw_tick w"
    using mem_prune_spec [OF inv] by blast
  with False have "prune_after_save (mem_now out) (memory_checkpointer out) r (cd_id d) w = Some (Inr (), w')"
    by (auto simp: prune_after_save_def mem_now_def memory_checkpointer_def eff_bind_def
        mem_lineage_spec [OF inv d])
  with w' show ?thesis by blast
qed

definition retaining_memory ::
  "outside \<Rightarrow> checkpoint_retention \<Rightarrow> (('s, 'x) mem_world_scheme, 's) checkpointer" where
  "retaining_memory out r = retaining_checkpointer (mem_now out) (memory_checkpointer out) r"

lemma retaining_save_fork:
  fixes w :: "('s, 'x) mem_world_scheme"
  assumes inv: "mem_inv out w"
  shows "\<exists>w'. cp_save_fork_threaded (retaining_memory out r) p t s rc w =
       Some (Inr (new_v4 out (mw_tick w)), w') \<and>
     mem_inv out w' \<and> mw_tick w' = Suc (mw_tick w) \<and>
     mem_view w' = (mem_view w)(t := retained (max_checkpoints r) (max_age_secs r)
        (utc_now out (Suc (mw_tick w))) (mem_view w t @ [new_data out p t s rc w]))"
proof -
  let ?w = "push_data t (new_data out p t s rc w) w"
  obtain w' where "prune_after_save (mem_now out) (memory_checkpointer out) r
        (cd_id (new_data out p t s rc w)) ?w = Some (Inr (), w')"
     and w': "mem_inv out w'" "mw_tick w' = mw_tick ?w"
     "mem_view w' = (mem_view ?w)(t := retained (max_checkpoints r) (max_age_secs r)
        (utc_now out (mw_tick ?w)) (mem_view ?w t))"
    using prune_after_save_mem [OF mem_inv_push [OF inv] mem_view_push_last] by blast
  then have "cp_save_fork_threaded (retaining_memory out r) p t s rc w =
      Some (Inr (new_v4 out (mw_tick w)), w')"
    by (simp add: retaining_memory_def retaining_checkpointer_def memory_checkpointer_def
        eff_bind_def mem_save_fork_eq) (simp add: new_data_def)
  with w' show ?thesis by (auto simp: mem_view_push)
qed

lemma retaining_saves:
  "cp_save_threaded (retaining_memory out r) t s rc = cp_save_fork_threaded (retaining_memory out r) None t s rc"
  "cp_save (retaining_memory out r) s rc = cp_save_fork_threaded (retaining_memory out r) None DEFAULT_THREAD s rc"
  by (simp_all add: retaining_memory_def retaining_checkpointer_def memory_checkpointer_def mem_save_eq)

lemma retaining_reads:
  "cp_last (retaining_memory out r) = mem_last DEFAULT_THREAD"
  "cp_load (retaining_memory out r) = mem_load DEFAULT_THREAD"
  "cp_checkpoint_lineage (retaining_memory out r) = mem_lineage"
  "cp_snapshots_threaded (retaining_memory out r) = mem_snapshots"
  "cp_snapshots (retaining_memory out r) = mem_snapshots DEFAULT_THREAD"
  by (simp_all add: retaining_memory_def retaining_checkpointer_def memory_checkpointer_def)

text \<open>
  \<open>with_checkpointer\<close> always wraps; without a policy the wrapper saves as what it wraps, and a second
  wrapper with a policy prunes as one wrapper does.
\<close>

lemma retaining_default:
  "retaining_checkpointer now inner retention_default = inner\<lparr>cp_update_state := default_update_state\<rparr>"
proof -
  have "prune_after_save now inner retention_default i = ok ()" for i
    by (simp add: prune_after_save_def retention_default_def)
  then show ?thesis by (cases inner) (simp add: retaining_checkpointer_def eff_bind_def fun_eq_iff
      split: option.split sum.split)
qed

lemma prune_after_save_update:
  "prune_after_save now (inner\<lparr>cp_update_state := u\<rparr>) r i = prune_after_save now inner r i"
  by (cases inner) (simp add: prune_after_save_def)

lemma retaining_update:
  "retaining_checkpointer now (inner\<lparr>cp_update_state := u\<rparr>) r = retaining_checkpointer now inner r"
  unfolding retaining_checkpointer_def prune_after_save_update by (cases inner) simp

lemma retaining_twice:
  "retaining_checkpointer (mem_now out) (retaining_memory out retention_default) r = retaining_memory out r"
  by (simp add: retaining_memory_def retaining_default retaining_update)

text \<open>Under a policy that caps the count (and not at zero) the newest checkpoint survives its save.\<close>

definition keeps_newest :: "checkpoint_retention \<Rightarrow> bool" where
  "keeps_newest r \<longleftrightarrow> max_checkpoints r \<noteq> Some 0 \<and> max_age_secs r = None"

interpretation retaining: checkpoint_resolver
  "retaining_memory out r" "\<lambda>w. mem_inv out w \<and> keeps_newest r" "mem_hist DEFAULT_THREAD" for out r
proof (unfold_locales, goal_cases)
  case (1 w s rc)
  then have inv: "mem_inv out w" and r: "max_checkpoints r \<noteq> Some 0" "max_age_secs r = None"
    by (auto simp: keeps_newest_def)
  obtain w' where w': "cp_save (retaining_memory out r) s rc w = Some (Inr (new_v4 out (mw_tick w)), w')"
    "mem_inv out w'"
    "mem_view w' DEFAULT_THREAD = retained (max_checkpoints r) None (utc_now out (Suc (mw_tick w)))
       (mem_view w DEFAULT_THREAD @ [new_data out None DEFAULT_THREAD s rc w])"
    using retaining_save_fork [OF inv, of r None DEFAULT_THREAD s rc] r(2) by (auto simp: retaining_saves)
  then obtain ds where "mem_view w' DEFAULT_THREAD = ds @ [new_data out None DEFAULT_THREAD s rc w]"
    and "set ds \<subseteq> set (mem_view w DEFAULT_THREAD)"
    using retained_snoc [OF r(1)] by metis
  then have "mem_hist DEFAULT_THREAD w' = hist_of ds @ [(new_v4 out (mw_tick w), s, rc)]"
    and "set (hist_of ds) \<subseteq> set (mem_hist DEFAULT_THREAD w)"
    by (auto simp: mem_hist_def hist_of_def new_data_def)
  with w' 1 mem_inv_fresh [OF inv, of DEFAULT_THREAD] show ?case by auto
next
  case (2 w)
  then show ?case using mem_hist_last [of out w DEFAULT_THREAD] by (simp add: retaining_reads)
next
  case (3 w i s rc)
  then show ?case using mem_hist_load [of out w] by (simp add: retaining_reads)
next
  case (4 w i s rc)
  then have inv: "mem_inv out w" by simp
  show ?case
    using mem_hist_lineage [OF inv 4(2)] by (auto simp: retaining_reads mem_snapshots_view [OF inv])
qed


section \<open>Territories\<close>

lemma ns_default_inj: "ns_default ns = ns_default ns' \<longleftrightarrow> ns = ns'"
  by (simp add: ns_default_def)

lemma ns_default_neq [simp]: "ns_default ns \<noteq> DEFAULT_THREAD" "DEFAULT_THREAD \<noteq> ns_default ns"
  by (auto simp: ns_default_def DEFAULT_THREAD_def dest: arg_cong [of _ _ length])

lemma ns_default_nested [simp]: "ns_thread ns (ns_default ns) \<noteq> ns_default ns"
  by (auto simp: ns_default_def ns_thread_def dest: arg_cong [of _ _ length])

definition territory_memory ::
  "outside \<Rightarrow> string \<Rightarrow> (('s, 'x) mem_world_scheme, 's) checkpointer" where
  "territory_memory out ns = territory_checkpointer (memory_checkpointer out) ns"

lemmas territory_ops = territory_memory_def territory_checkpointer_def memory_checkpointer_def

interpretation territory: checkpoint_store
  "territory_memory out ns" "mem_inv out" "mem_hist (ns_default ns)" for out ns
proof (unfold_locales, goal_cases)
  case (1 w s rc)
  then show ?case
    using mem_inv_push [OF 1, of "ns_default ns" None s rc] mem_inv_fresh [OF 1, of "ns_default ns"]
    by (simp add: territory_ops mem_save_eq mem_save_fork_eq mem_hist_push)
next
  case (2 w)
  then show ?case by (simp add: territory_ops mem_hist_last)
next
  case (3 w i s rc)
  then show ?case by (simp add: territory_ops mem_hist_load)
qed



section \<open>Properties\<close>

text \<open>A concrete outside for the witnesses: ids of growing length, one tick per checkpoint.\<close>

definition sample_outside :: outside where
  "sample_outside = \<lparr>new_v4 = (\<lambda>n. replicate n (CHR ''x'')), utc_now = int\<rparr>"

lemma sample_outside_ok: "outside_ok sample_outside"
proof -
  have "inj (\<lambda>n. replicate n (CHR ''x''))" by (rule injI) (metis length_replicate)
  then show ?thesis by (auto simp: outside_ok_def sample_outside_def mono_def)
qed

lemma sample_inv: "mem_inv sample_outside mem_world_new"
  by (rule mem_inv_new) (rule sample_outside_ok)

text \<open>
  C30. A checkpoint that was saved is found again: the save returns a fresh id under which the thread
  loads the saved state, the newest checkpoint of the thread is the saved state with its recursion
  count, the lineage of the id is the thread and the parent it was saved with, and the thread's
  list of ids has grown by that id at its end; what any other thread lists and loads is unchanged.
\<close>

theorem memory_save_load_roundtrip:
  fixes w :: "('s, 'x) mem_world_scheme"
  assumes inv: "mem_inv out w"
  shows "\<exists>i w' ids. cp_save_fork_threaded (memory_checkpointer out) p t s rc w = Some (Inr i, w') \<and>
     mem_inv out w' \<and>
     cp_load_threaded (memory_checkpointer out) t i w' = Some (Inr s, w') \<and>
     cp_last_threaded (memory_checkpointer out) t w' = Some (Inr (Some (s, rc)), w') \<and>
     cp_checkpoint_lineage (memory_checkpointer out) i w' = Some (Inr (Some (t, p)), w') \<and>
     cp_list_threaded (memory_checkpointer out) t w = Some (Inr ids, w) \<and> i \<notin> set ids \<and>
     cp_list_threaded (memory_checkpointer out) t w' = Some (Inr (ids @ [i]), w') \<and>
     (\<forall>u. u \<noteq> t \<longrightarrow> (\<exists>snaps.
        cp_snapshots_threaded (memory_checkpointer out) u w = Some (Inr snaps, w) \<and>
        cp_snapshots_threaded (memory_checkpointer out) u w' = Some (Inr snaps, w')))"
proof -
  let ?d = "new_data out p t s rc w"
  let ?w = "push_data t ?d w"
  have inv': "mem_inv out ?w" by (rule mem_inv_push [OF inv])
  have d: "?d \<in> set (mem_view ?w t)" by (rule mem_view_push_last)
  have i: "cd_id ?d = new_v4 out (mw_tick w)" and parent: "cd_parent_id ?d = p"
    by (simp_all add: new_data_def)
  have hist: "(new_v4 out (mw_tick w), s, rc) \<in> set (mem_hist t ?w)" by (simp add: mem_hist_push)
  have "mem_save_fork out p t s rc w = Some (Inr (cd_id ?d), ?w)" by (simp add: mem_save_fork_eq i)
  moreover have "mem_load t (cd_id ?d) ?w = Some (Inr s, ?w)"
    using mem_hist_load [OF inv' hist] by (simp add: i)
  moreover have "mem_last t ?w = Some (Inr (Some (s, rc)), ?w)"
    using mem_hist_last [OF inv', of t] by (simp add: mem_hist_push)
  moreover have "mem_lineage (cd_id ?d) ?w = Some (Inr (Some (t, p)), ?w)"
    using mem_lineage_spec [OF inv' d] by (simp add: parent)
  moreover have "cd_id ?d \<notin> set (map cd_id (mem_view w t))"
    using mem_inv_fresh [OF inv, of t] by (simp add: i ids_of_def)
  moreover have "mem_list t w = Some (Inr (map cd_id (mem_view w t)), w)"
    and "mem_list t ?w = Some (Inr (map cd_id (mem_view w t) @ [cd_id ?d]), ?w)"
    using mem_list_view [OF inv] mem_list_view [OF inv'] by (simp_all add: mem_view_push)
  moreover have "\<exists>snaps. mem_snapshots u w = Some (Inr snaps, w) \<and> mem_snapshots u ?w = Some (Inr snaps, ?w)"
    if "u \<noteq> t" for u
    using that mem_snapshots_view [OF inv, of u] mem_snapshots_view [OF inv', of u]
    by (simp add: mem_view_push)
  ultimately show ?thesis
    using inv' by (auto simp: memory_checkpointer_def)
qed

theorem memory_save_load_roundtrip_witness:
  "\<exists>i w' ids. cp_save_fork_threaded (memory_checkpointer sample_outside) None ''t'' (7::nat) 3
       (mem_world_new :: nat mem_world) = Some (Inr i, w') \<and> mem_inv sample_outside w' \<and>
     cp_load_threaded (memory_checkpointer sample_outside) ''t'' i w' = Some (Inr 7, w') \<and>
     cp_list_threaded (memory_checkpointer sample_outside) ''t'' w' = Some (Inr (ids @ [i]), w')"
  using memory_save_load_roundtrip [OF sample_inv, of None "''t''" "7::nat" 3] by blast

text \<open>
  C31. Optimistic editing: \<open>update_state\<close> succeeds exactly when the caller's version is the current one;
  it then replaces the state and raises the version by one, in that checkpoint alone. A stale
  version is refused with the conflict error and changes nothing; in particular of two writers that
  read the same version the second is refused.
\<close>

theorem update_state_optimistic:
  fixes w :: "('s, 'x) mem_world_scheme"
  assumes inv: "mem_inv out w" and d: "d \<in> set (mem_view w t)"
  shows "(cd_version d \<noteq> expected \<longrightarrow>
       cp_update_state (memory_checkpointer out) (cd_id d) s expected w =
         Some (Inl (CheckpointVersionConflict (cd_id d) expected (cd_version d)), w)) \<and>
     (cd_version d = expected \<longrightarrow> (\<exists>w'.
       cp_update_state (memory_checkpointer out) (cd_id d) s expected w = Some (Inr (Suc expected), w') \<and>
       mem_inv out w' \<and>
       mem_view w' = (mem_view w)(t := map (\<lambda>e. if cd_id e = cd_id d
          then e\<lparr>cd_state := s, cd_version := Suc (cd_version e)\<rparr> else e) (mem_view w t)) \<and>
       cp_load_threaded (memory_checkpointer out) t (cd_id d) w' = Some (Inr s, w') \<and>
       (\<forall>s'. cp_update_state (memory_checkpointer out) (cd_id d) s' expected w' =
         Some (Inl (CheckpointVersionConflict (cd_id d) expected (Suc expected)), w'))))"
proof (intro conjI impI)
  show "cp_update_state (memory_checkpointer out) (cd_id d) s expected w =
         Some (Inl (CheckpointVersionConflict (cd_id d) expected (cd_version d)), w)"
    if "cd_version d \<noteq> expected"
    using update_locked_spec(1) [OF inv d that] by (simp add: memory_checkpointer_def)
next
  assume v: "cd_version d = expected"
  obtain w' where w': "update_locked (cd_id d) s expected w = Some (Inr (Suc expected), w')" "mem_inv out w'"
    and view: "mem_view w' = (mem_view w)(t := map (\<lambda>e. if cd_id e = cd_id d then edit s e else e) (mem_view w t))"
    using update_locked_spec(2) [OF inv d v] by blast
  have d': "edit s d \<in> set (mem_view w' t)" using d by (auto simp: view image_iff)
  have id: "cd_id (edit s d) = cd_id d" and ver: "cd_version (edit s d) = Suc expected"
    and st: "cd_state (edit s d) = s"
    using v by (simp_all add: edit_def)
  have "mem_load t (cd_id d) w' = Some (Inr s, w')"
    using find_Some_iff_mem [OF mem_inv_distinct [OF w'(2)] d'] by (simp add: mem_load_view id st)
  moreover have "update_locked (cd_id d) s' expected w' =
      Some (Inl (CheckpointVersionConflict (cd_id d) expected (Suc expected)), w')" for s'
    using update_locked_spec(1) [OF w'(2) d', of expected s'] by (simp add: id ver)
  ultimately show "\<exists>w'.
       cp_update_state (memory_checkpointer out) (cd_id d) s expected w = Some (Inr (Suc expected), w') \<and>
       mem_inv out w' \<and>
       mem_view w' = (mem_view w)(t := map (\<lambda>e. if cd_id e = cd_id d
          then e\<lparr>cd_state := s, cd_version := Suc (cd_version e)\<rparr> else e) (mem_view w t)) \<and>
       cp_load_threaded (memory_checkpointer out) t (cd_id d) w' = Some (Inr s, w') \<and>
       (\<forall>s'. cp_update_state (memory_checkpointer out) (cd_id d) s' expected w' =
         Some (Inl (CheckpointVersionConflict (cd_id d) expected (Suc expected)), w'))"
    using w' view [unfolded edit_def] by (simp add: memory_checkpointer_def)
qed

text \<open>The world after one save in the sample outside, and the checkpoint it holds.\<close>

definition sample_world :: "nat mem_world" where
  "sample_world = push_data ''t'' (new_data sample_outside None ''t'' 7 3 mem_world_new) mem_world_new"

definition sample_data :: "nat checkpoint_data" where
  "sample_data = new_data sample_outside None ''t'' (7::nat) 3 (mem_world_new :: nat mem_world)"

lemma sample_world_inv: "mem_inv sample_outside sample_world"
  unfolding sample_world_def by (rule mem_inv_push) (rule sample_inv)

lemma sample_world_data: "sample_data \<in> set (mem_view sample_world ''t'')"
  unfolding sample_world_def sample_data_def by (rule mem_view_push_last)

theorem update_state_optimistic_witness:
  "\<exists>w'. cp_update_state (memory_checkpointer sample_outside) (cd_id sample_data) 9 1 sample_world =
       Some (Inr (Suc 1), w') \<and>
     cp_load_threaded (memory_checkpointer sample_outside) ''t'' (cd_id sample_data) w' = Some (Inr 9, w')"
proof -
  have "cd_version sample_data = 1" by (simp add: sample_data_def new_data_def)
  then show ?thesis
    using update_state_optimistic [OF sample_world_inv sample_world_data, of 1 9] by blast
qed





text \<open>A client that follows the cursor of \<open>snapshots_page_threaded\<close> until a page is empty.\<close>

fun collect_pages ::
  "nat \<Rightarrow> (string option \<Rightarrow> nat \<Rightarrow> ('w, 's checkpoint_info list) geff) \<Rightarrow> string option \<Rightarrow> nat \<Rightarrow>
   ('w, 's checkpoint_info list) geff" where
  "collect_pages 0 page after limit = ok []"
| "collect_pages (Suc n) page after limit =
     eff_bind (page after limit) (\<lambda>xs. if xs = [] then ok []
       else eff_bind (collect_pages n page (Some (ci_id (last xs))) limit) (\<lambda>ys. ok (xs @ ys)))"

lemma position_distinct:
  assumes "distinct (map f xs)" and "k < length xs"
  shows "position (\<lambda>x. f x = f (xs ! k)) xs = Some k"
proof -
  have "f (xs ! j) \<noteq> f (xs ! k)" if "j < k" for j
    using that assms by (simp add: distinct_conv_nth)
  with assms(2) show ?thesis
    unfolding position_def find_Some_iff by (auto intro!: exI [of _ k])
qed

lemma page_of_after:
  assumes "distinct (map ci_id all)" and "k < length all" and "limit > 0"
  shows "page_of all (Some (ci_id (all ! k))) limit = take limit (drop (Suc k) all)"
  using assms by (simp add: page_of_def position_distinct)

lemma page_of_first: "limit > 0 \<Longrightarrow> page_of all None limit = take limit all"
  by (simp add: page_of_def)

lemma take_drop_length: "take n ys @ drop (length (take n ys)) ys = ys"
  by (cases "n \<le> length ys") (simp_all add: min_def)

lemma collect_pages_drop:
  assumes page: "\<And>after. page after limit w = Some (Inr (page_of all after limit), w)"
    and dist: "distinct (map ci_id all)" and limit: "limit > 0"
    and "length (drop k all) < n"
    and after: "page_of all after limit = take limit (drop k all)"
  shows "collect_pages n page after limit w = Some (Inr (drop k all), w)"
  using assms(4,5)
proof (induction n arbitrary: k after)
  case (Suc n)
  let ?xs = "take limit (drop k all)"
  show ?case
  proof (cases "drop k all = []")
    case True
    with Suc.prems show ?thesis by (simp add: eff_bind_def page)
  next
    case False
    with limit have ne: "?xs \<noteq> []" by simp
    define j where "j = k + length ?xs - 1"
    have len: "length ?xs > 0" using ne by simp
    then have j: "j < length all" and last: "last ?xs = all ! j" and Suc_j: "Suc j = k + length ?xs"
      by (auto simp: j_def last_conv_nth ne)
    have "page_of all (Some (ci_id (last ?xs))) limit = take limit (drop (Suc j) all)"
      unfolding last by (rule page_of_after [OF dist j limit])
    moreover have "length (drop (Suc j) all) < n" using Suc.prems(1) len Suc_j by auto
    ultimately have "collect_pages n page (Some (ci_id (last ?xs))) limit w = Some (Inr (drop (Suc j) all), w)"
      by (intro Suc.IH) auto
    moreover have "?xs @ drop (Suc j) all = drop k all"
      unfolding Suc_j using take_drop_length [of limit "drop k all"]
      by (simp add: add.commute del: length_take length_drop)
    ultimately show ?thesis using ne by (simp add: eff_bind_def page Suc.prems(2))
  qed
qed simp

text \<open>
  Pagination: following the cursor from page to page returns every snapshot of the thread exactly
  once and in order, whatever the page size (at least 1).
\<close>

theorem pagination_complete:
  fixes w :: "('s, 'x) mem_world_scheme"
  assumes inv: "mem_inv out w" and limit: "limit > 0"
    and n: "length (mem_view w t) < n"
  shows "collect_pages n (cp_snapshots_page_threaded (memory_checkpointer out) t) None limit w =
     cp_snapshots_threaded (memory_checkpointer out) t w"
proof -
  let ?all = "map checkpoint_info_from_data (mem_view w t)"
  have "collect_pages n (default_page mem_snapshots t) None limit w = Some (Inr (drop 0 ?all), w)"
  proof (rule collect_pages_drop)
    show "default_page mem_snapshots t after limit w = Some (Inr (page_of ?all after limit), w)" for after
      by (simp add: default_page_def eff_bind_def mem_snapshots_view [OF inv])
    show "distinct (map ci_id ?all)"
      using mem_inv_distinct [OF inv, of t] by (simp add: checkpoint_info_from_data_def comp_def)
  qed (use limit n in \<open>simp_all add: page_of_first\<close>)
  then show ?thesis by (simp add: memory_checkpointer_def mem_snapshots_view [OF inv])
qed

theorem pagination_complete_witness:
  "collect_pages 5 (cp_snapshots_page_threaded (memory_checkpointer sample_outside) ''t'') None 1 sample_world =
     cp_snapshots_threaded (memory_checkpointer sample_outside) ''t'' sample_world"
  by (rule pagination_complete [OF sample_world_inv])
     (simp_all add: sample_world_def mem_view_push mem_inv_new_view)


text \<open>
  C34. Territories are isolated: a save through the checkpointer of one territory is seen by that
  territory (it is its newest checkpoint) and neither by another territory over the same inner
  checkpointer nor by the inner checkpointer's own default thread: what these list, load and
  have as their newest checkpoint is as before.
\<close>

theorem territory_isolation:
  fixes w :: "('s, 'x) mem_world_scheme"
  assumes inv: "mem_inv out w" and other: "ns' \<noteq> ns"
  shows "\<exists>i w'. cp_save (territory_checkpointer (memory_checkpointer out) ns) s rc w = Some (Inr i, w') \<and>
     mem_inv out w' \<and>
     cp_last (territory_checkpointer (memory_checkpointer out) ns) w' = Some (Inr (Some (s, rc)), w') \<and>
     (\<forall>cp \<in> {territory_checkpointer (memory_checkpointer out) ns', memory_checkpointer out}.
        map_option fst (cp_last cp w') = map_option fst (cp_last cp w) \<and>
        map_option fst (cp_list cp w') = map_option fst (cp_list cp w) \<and>
        (\<forall>j. map_option fst (cp_load cp j w') = map_option fst (cp_load cp j w)) \<and>
        map_option fst (cp_load cp i w') = Some (Inl (not_found i)))"
proof -
  let ?d = "new_data out None (ns_default ns) s rc w"
  let ?w = "push_data (ns_default ns) ?d w" and ?i = "new_v4 out (mw_tick w)"
  have inv': "mem_inv out ?w" by (rule mem_inv_push [OF inv])
  have "map_option fst (mem_last u ?w) = map_option fst (mem_last u w) \<and>
      map_option fst (mem_list u ?w) = map_option fst (mem_list u w) \<and>
      (\<forall>j. map_option fst (mem_load u j ?w) = map_option fst (mem_load u j w)) \<and>
      map_option fst (mem_load u ?i ?w) = Some (Inl (not_found ?i))"
    if u: "u \<noteq> ns_default ns" for u
  proof -
    from u have view: "mem_view ?w u = mem_view w u" by (simp add: mem_view_push)
    have "List.find (\<lambda>d. cd_id d = ?i) (mem_view w u) = None"
      using mem_inv_fresh [OF inv, of u] by (force simp: find_None_iff ids_of_def image_iff)
    with view show ?thesis
      by (simp add: mem_last_view [OF inv] mem_last_view [OF inv'] mem_list_view [OF inv]
          mem_list_view [OF inv'] mem_load_view)
  qed
  from this [of "ns_default ns'"] this [of DEFAULT_THREAD] other inv'
    mem_hist_last [OF inv', of "ns_default ns"]
  show ?thesis
    by (intro exI [of _ ?i] exI [of _ ?w])
       (simp add: territory_checkpointer_def memory_checkpointer_def mem_save_eq mem_save_fork_eq
         ns_default_inj mem_hist_push)
qed

theorem territory_isolation_witness:
  "\<exists>i w'. cp_save (territory_checkpointer (memory_checkpointer sample_outside) ''a'') 5 0 sample_world = Some (Inr i, w') \<and>
     cp_last (territory_checkpointer (memory_checkpointer sample_outside) ''a'') w' = Some (Inr (Some (5, 0)), w') \<and>
     map_option fst (cp_load (territory_checkpointer (memory_checkpointer sample_outside) ''b'') i w') =
       Some (Inl (not_found i))"
  using territory_isolation [OF sample_world_inv, of "''b''" "''a''" 5 0] by blast

text \<open>
  A retention policy over a territory has no effect on it: \<open>prune_after_save\<close> prunes the thread that
  the lineage names, which already carries the namespace, and the territory puts the namespace in
  front once more. So every save through \<open>RetainingCheckpointer\<close> over \<open>TerritoryCheckpointer\<close>
  leaves all earlier checkpoints of the territory in place, whatever the policy.
\<close>

theorem retention_over_territory_ineffective:
  fixes w :: "('s, 'x) mem_world_scheme"
  assumes inv: "mem_inv out w"
  shows "\<exists>w'. cp_save (retaining_checkpointer (mem_now out)
         (territory_checkpointer (memory_checkpointer out) ns) r) s rc w =
       Some (Inr (new_v4 out (mw_tick w)), w') \<and> mem_inv out w' \<and>
     mem_view w' (ns_default ns) = mem_view w (ns_default ns) @ [new_data out None (ns_default ns) s rc w]"
proof -
  let ?t = "ns_default ns"
  let ?d = "new_data out None ?t s rc w" and ?T = "territory_memory out ns"
  let ?w = "push_data ?t ?d w"
  have inv': "mem_inv out ?w" by (rule mem_inv_push [OF inv])
  have view: "mem_view ?w ?t = mem_view w ?t @ [?d]" by (simp add: mem_view_push)
  have "\<exists>w'. prune_after_save (mem_now out) ?T r (cd_id ?d) ?w = Some (Inr (), w') \<and>
      mem_inv out w' \<and> mem_view w' ?t = mem_view ?w ?t"
  proof (cases "max_checkpoints r = None \<and> max_age_secs r = None")
    case True
    with inv' show ?thesis by (simp add: prune_after_save_def)
  next
    case False
    obtain n w' where w': "default_prune mem_snapshots mem_delete (ns_thread ns ?t) (max_checkpoints r)
        (max_age_secs r) (utc_now out (mw_tick ?w)) ?w = Some (Inr n, w')" "mem_inv out w'"
       "mem_view w' = (mem_view ?w)(ns_thread ns ?t := retained (max_checkpoints r) (max_age_secs r)
          (utc_now out (mw_tick ?w)) (mem_view ?w (ns_thread ns ?t)))"
      using mem_prune_spec [OF inv'] by blast
    have "prune_after_save (mem_now out) ?T r (cd_id ?d) ?w = Some (Inr (), w')"
      using w'(1) False by (auto simp: prune_after_save_def mem_now_def territory_ops eff_bind_def
          mem_lineage_spec [OF inv' mem_view_push_last])
    with w' show ?thesis by (simp add: ns_default_nested [symmetric])
  qed
  then obtain w' where "prune_after_save (mem_now out) ?T r (cd_id ?d) ?w = Some (Inr (), w')"
    "mem_inv out w'" "mem_view w' ?t = mem_view ?w ?t" by blast
  then show ?thesis
    by (simp add: retaining_checkpointer_def territory_memory_def view)
       (simp add: territory_checkpointer_def memory_checkpointer_def mem_save_eq eff_bind_def
         mem_save_fork_eq new_data_def)
qed

theorem retention_over_territory_ineffective_witness:
  "\<exists>w'. cp_save (retaining_checkpointer (mem_now sample_outside)
         (territory_checkpointer (memory_checkpointer sample_outside) ''a'') (retention_max_checkpoints 0)) 5 0 sample_world =
       Some (Inr (new_v4 sample_outside (mw_tick sample_world)), w') \<and>
     mem_view w' (ns_default ''a'') \<noteq> []"
  using retention_over_territory_ineffective [OF sample_world_inv, of "''a''" "retention_max_checkpoints 0" 5 0]
  by auto


section \<open>Every sequence of operations\<close>

text \<open>The operations that change the in-memory world, as steps.\<close>

inductive mem_step :: "outside \<Rightarrow> ('s, 'x) mem_world_scheme \<Rightarrow> ('s, 'x) mem_world_scheme \<Rightarrow> bool" for out where
  step_save: "cp_save_threaded (memory_checkpointer out) t s rc w = Some (r, w') \<Longrightarrow> mem_step out w w'"
| step_fork: "cp_save_fork_threaded (memory_checkpointer out) p t s rc w = Some (r, w') \<Longrightarrow> mem_step out w w'"
| step_delete: "cp_delete_threaded (memory_checkpointer out) t i w = Some (r', w') \<Longrightarrow> mem_step out w w'"
| step_update: "cp_update_state (memory_checkpointer out) i s v w = Some (r'', w') \<Longrightarrow> mem_step out w w'"
| step_prune: "cp_prune (memory_checkpointer out) t mx age now w = Some (r'', w') \<Longrightarrow> mem_step out w w'"

inductive_cases mem_stepE: "mem_step out w w'"

lemma update_threads_NotFound:
  "\<forall>t st. map_of ts t = Some st \<longrightarrow> ts_find st i = None \<Longrightarrow> distinct (map fst ts) \<Longrightarrow>
   update_threads i s expected ts = Inl (not_found i)"
proof (induction ts)
  case (Cons x ts)
  obtain a sa where x: "x = (a, sa)" by force
  have none: "ts_find sa i = None" using Cons.prems(1) [rule_format, of a sa] by (simp add: x)
  have "map_of ts a = None" using Cons.prems(2) by (simp add: x map_of_eq_None_iff)
  then have "\<forall>t st. map_of ts t = Some st \<longrightarrow> ts_find st i = None"
    using Cons.prems(1) by (metis map_of_Cons_code(2) option.distinct(1) x)
  with Cons none show ?case by (simp add: x)
qed simp

lemma update_locked_inv:
  assumes inv: "mem_inv out w" and upd: "update_locked i s expected w = Some (r, w')"
  shows "mem_inv out w'"
proof (cases "\<exists>t d. d \<in> set (mem_view w t) \<and> cd_id d = i")
  case True
  then obtain t d where d: "d \<in> set (mem_view w t)" "cd_id d = i" by blast
  show ?thesis
    using update_locked_spec [OF inv d(1), of expected s] upd inv
    by (cases "cd_version d = expected") (auto simp: d(2))
next
  case False
  have "\<forall>t st. map_of (mw_threads w) t = Some st \<longrightarrow> ts_find st i = None"
  proof (intro allI impI)
    fix t st
    assume "map_of (mw_threads w) t = Some st"
    with False have "\<forall>d \<in> set (ts_items st). cd_id d \<noteq> i" using ts_find_mem_view by metis
    then show "ts_find st i = None" by (simp add: ts_find_def find_None_iff)
  qed
  moreover have "distinct (map fst (mw_threads w))"
    using inv smap_wf_distinct by (auto simp: mem_inv_def)
  ultimately have "w' = w" using upd by (simp add: update_locked_def update_threads_NotFound)
  with inv show ?thesis by simp
qed

lemma mem_step_inv: "mem_step out w w' \<Longrightarrow> mem_inv out w \<Longrightarrow> mem_inv out w'"
proof (induction rule: mem_step.induct)
  case (step_delete t i w r' w')
  then show ?case using mem_delete_spec [OF step_delete(2), of t i] by (auto simp: memory_checkpointer_def)
next
  case (step_update i s v w r'' w')
  then show ?case by (simp add: memory_checkpointer_def update_locked_inv)
next
  case (step_prune t mx age now w r'' w')
  then show ?case using mem_prune_spec [OF step_prune(2), of t mx age now] by (auto simp: memory_checkpointer_def)
qed (auto simp: memory_checkpointer_def mem_save_eq mem_save_fork_eq mem_inv_push)

text \<open>
  C32. In every world that any sequence of saves, forks, deletes, edits and prunes reaches from the empty
  checkpointer the invariant holds: in each thread the checkpoints are in creation order (so that
  listing by timestamp and sequence number is listing in that order), ids do not repeat within a
  thread or across threads, and each checkpoint carries the thread that stores it.
\<close>

theorem mem_reachable_inv:
  fixes w :: "'s mem_world"
  assumes out: "outside_ok out" and steps: "(mem_step out)\<^sup>*\<^sup>* mem_world_new w"
  shows "mem_inv out w \<and> ts_sorted (mem_entry w t) = mem_view w t \<and>
     distinct (map cd_id (mem_view w t)) \<and>
     (t \<noteq> u \<longrightarrow> cd_id ` set (mem_view w t) \<inter> cd_id ` set (mem_view w u) = {}) \<and>
     (\<forall>d \<in> set (mem_view w t). cd_thread_id d = Some t)"
proof -
  from steps have inv: "mem_inv out w"
    by (induction rule: rtranclp_induct) (auto intro: mem_inv_new [OF out] mem_step_inv)
  show ?thesis
    using inv ts_sorted_eq [OF mem_inv_store [OF inv, of t]] mem_inv_distinct [OF inv]
      mem_inv_disjoint [OF inv, of t u] mem_inv_store [OF inv, of t]
    by (auto simp: mem_view_def ids_of_def store_inv_def)
qed

theorem mem_reachable_inv_witness:
  "mem_inv sample_outside sample_world \<and> ts_sorted (mem_entry sample_world ''t'') = mem_view sample_world ''t''"
proof -
  have "mem_step sample_outside mem_world_new sample_world"
    by (rule step_fork [where p = None and t = "''t''" and s = 7 and rc = 3])
       (simp add: memory_checkpointer_def mem_save_fork_eq sample_world_def)
  then show ?thesis
    using mem_reachable_inv [OF sample_outside_ok, of sample_world "''t''" "''u''"] by blast
qed

end
