(* ===== verification/Graph_Model.thy ===== *)
theory Graph_Model
  imports Checkpoint
begin

text \<open>
  The graph of \<open>lc-langgraph\<close> (\<open>edge.rs\<close>, \<open>node.rs\<close>, \<open>graph.rs\<close>, \<open>compiled/types.rs\<close>, the constructors
  and builders of \<open>compiled/graph.rs\<close>): edges, nodes, the \<open>StateGraph\<close> builder and the
  \<open>CompiledGraph\<close> it compiles to.

  A node is the record of its two trait methods; its \<open>execute\<close> is an effect on the world \<open>'w\<close>, so a
  node may do whatever it likes there, may fail, and may not return. A \<open>HashMap\<close> is an
  association list in key order: one of the orders in which the map may be iterated. The runtime
  registries behind \<open>Arc<RwLock<..>>\<close> are fields of the graph, and the operations that write them
  return the graph; the task inbox is a reference into the world, since tasks arrive while the
  graph runs.
\<close>

section \<open>Edges\<close>

definition START :: string where
  "START = ''__start__''"

definition END :: string where
  "END = ''__end__''"

lemma START_END [simp]: "START \<noteq> END" "END \<noteq> START"
  by (simp_all add: START_def END_def)

datatype edge_target = FixedTarget string | ConditionalTarget string

definition edge_target_to :: "string \<Rightarrow> edge_target" where
  "edge_target_to node = FixedTarget node"

definition edge_target_conditional :: "string \<Rightarrow> edge_target" where
  "edge_target_conditional router = ConditionalTarget router"

text \<open>\<open>Conditional source router_name targets default_target\<close>.\<close>

datatype graph_edge =
    Fixed string string
  | Conditional string string "string smap" "string option"
  | FanOut string "string list"
  | FanIn "string list" string

definition edge_fixed :: "string \<Rightarrow> string \<Rightarrow> graph_edge" where
  "edge_fixed source target = Fixed source target"

text \<open>Collecting the pairs of a map into a \<open>HashMap\<close>: a later pair replaces an earlier one.\<close>

definition edge_conditional ::
  "string \<Rightarrow> string \<Rightarrow> (string \<times> string) list \<Rightarrow> string option \<Rightarrow> graph_edge" where
  "edge_conditional source router_name targets default_target =
     Conditional source router_name (fold (\<lambda>(k, v) m. smap_insert k v m) targets []) default_target"

definition edge_fan_out :: "string \<Rightarrow> string list \<Rightarrow> graph_edge" where
  "edge_fan_out source targets = FanOut source targets"

definition edge_fan_in :: "string list \<Rightarrow> string \<Rightarrow> graph_edge" where
  "edge_fan_in sources target = FanIn sources target"

fun edge_source :: "graph_edge \<Rightarrow> string" where
  "edge_source (Fixed source _) = source"
| "edge_source (Conditional source _ _ _) = source"
| "edge_source (FanOut source _) = source"
| "edge_source (FanIn _ _) = ''__fanin__''"

fun fixed_target :: "graph_edge \<Rightarrow> string option" where
  "fixed_target (Fixed _ target) = Some target"
| "fixed_target (Conditional _ _ _ _) = None"
| "fixed_target (FanOut _ _) = None"
| "fixed_target (FanIn _ target) = Some target"

fun fan_out_targets :: "graph_edge \<Rightarrow> string list option" where
  "fan_out_targets (FanOut _ targets) = Some targets"
| "fan_out_targets _ = None"

fun fan_in_sources :: "graph_edge \<Rightarrow> string list option" where
  "fan_in_sources (FanIn sources _) = Some sources"
| "fan_in_sources _ = None"

text \<open>A router is its \<open>route\<close> method.\<close>

type_synonym ('w, 's) router = "'s \<Rightarrow> ('w, string) geff"

definition function_router :: "('s \<Rightarrow> string) \<Rightarrow> ('w, 's) router" where
  "function_router func = (\<lambda>s. ok (func s))"

definition async_function_router :: "('s \<Rightarrow> ('w, string) geff) \<Rightarrow> ('w, 's) router" where
  "async_function_router func = (\<lambda>s. func s)"


section \<open>Nodes\<close>

definition INTERRUPT_RESUME_KEY :: string where
  "INTERRUPT_RESUME_KEY = ''__lc_interrupt_resume''"

record node_config =
  nc_recursion_limit :: nat
  nc_metadata :: "json smap"
  nc_debug :: bool

definition node_config_default :: node_config where
  "node_config_default = \<lparr>nc_recursion_limit = 0, nc_metadata = [], nc_debug = False\<rparr>"

record ('w, 's) graph_node =
  node_execute :: "'s \<Rightarrow> node_config option \<Rightarrow> ('w, 's state_update) geff"
  node_name :: string

definition async_node :: "string \<Rightarrow> ('s \<Rightarrow> ('w, 's state_update) geff) \<Rightarrow> ('w, 's) graph_node" where
  "async_node name func = \<lparr>node_execute = (\<lambda>s _. func s), node_name = name\<rparr>"

definition function_node :: "string \<Rightarrow> ('s \<Rightarrow> ('w, 's state_update) geff) \<Rightarrow> ('w, 's) graph_node" where
  "function_node name func = \<lparr>node_execute = (\<lambda>s _. func s), node_name = name\<rparr>"

definition sync_node :: "string \<Rightarrow> ('s \<Rightarrow> 's state_update graph_result) \<Rightarrow> ('w, 's) graph_node" where
  "sync_node name func = \<lparr>node_execute = (\<lambda>s _. lift_result (func s)), node_name = name\<rparr>"

definition interruptible_node ::
  "string \<Rightarrow> ('s \<Rightarrow> json option \<Rightarrow> ('w, 's state_update) geff) \<Rightarrow> ('w, 's) graph_node" where
  "interruptible_node name func =
     \<lparr>node_execute = (\<lambda>s config.
        func s (Option.bind config (\<lambda>c. map_of (nc_metadata c) INTERRUPT_RESUME_KEY))),
      node_name = name\<rparr>"

definition sentinel_node :: "string \<Rightarrow> ('w, 's) graph_node" where
  "sentinel_node name = \<lparr>node_execute = (\<lambda>_ _. ok su_unchanged), node_name = name\<rparr>"

definition sentinel_start :: "('w, 's) graph_node" where
  "sentinel_start = sentinel_node START"

definition sentinel_end :: "('w, 's) graph_node" where
  "sentinel_end = sentinel_node END"


section \<open>Results of an execution\<close>

datatype execution_step =
    StepNode string "json smap"
  | StepCheckpoint string string
  | StepParallelNode string "json smap"

record 's graph_invocation =
  inv_final_state :: 's
  inv_steps :: "execution_step list"
  inv_recursion_count :: nat

record 's parallel_branch =
  pb_name :: string
  pb_final_state :: 's
  pb_steps :: "execution_step list"

record 's parallel_invocation =
  pi_final_state :: 's
  pi_steps :: "execution_step list"
  pi_recursion_count :: nat
  pi_parallel_branches :: "'s parallel_branch list"

datatype 's stream_event =
    EvStart 's
  | EvEnterNode string 's
  | EvNodeComplete string "'s state_update"
  | EvStateUpdate 's
  | EvEnd 's
  | EvNodeInterrupt string json
  | EvResumed string json

record pending_interrupt =
  pend_id :: string
  pend_value :: json

record 's graph_execution =
  ge_state :: 's
  ge_current_node :: string
  ge_steps :: "execution_step list"
  ge_recursion_count :: nat
  ge_interrupted_at :: string
  ge_pending_interrupt :: "pending_interrupt option"

definition graph_execution_new :: "'s \<Rightarrow> string \<Rightarrow> string \<Rightarrow> 's graph_execution" where
  "graph_execution_new s current_node interrupted_at =
     \<lparr>ge_state = s, ge_current_node = current_node, ge_steps = [], ge_recursion_count = 0,
      ge_interrupted_at = interrupted_at, ge_pending_interrupt = None\<rparr>"

record dynamic_task =
  task_id :: string
  task_description :: string

record ('w, 's) dynamic_injection =
  inj_nodes :: "(string \<times> ('w, 's) graph_node) list"
  inj_edges :: "graph_edge list"

text \<open>\<open>DynamicPlanner::plan\<close>; its error is a string.\<close>

type_synonym ('w, 's) planner =
  "dynamic_task list \<Rightarrow> 's \<Rightarrow> ('w, string, ('w, 's) dynamic_injection) eff"


section \<open>The compiled graph\<close>

record 'w inbox_ref =
  ib_get :: "'w \<Rightarrow> dynamic_task list"
  ib_put :: "dynamic_task list \<Rightarrow> 'w \<Rightarrow> 'w"

record ('w, 's) compiled_graph =
  cg_nodes :: "('w, 's) graph_node smap"
  cg_edges :: "graph_edge list"
  cg_entry_point :: string
  cg_default_reducer :: "'s reducer"
  cg_field_reducers :: "(string \<times> 's reducer) list"
  cg_serde :: "'s serde"
  cg_conditional_routers :: "('w, 's) router smap"
  cg_checkpointer :: "('w, 's) checkpointer option"
  cg_territory :: "string option"
  cg_retention :: checkpoint_retention
  cg_recursion_limit :: nat
  cg_max_concurrency :: "nat option"
  cg_interrupt_before :: "string list"
  cg_interrupt_after :: "string list"
  cg_runtime_nodes :: "('w, 's) graph_node smap"
  cg_runtime_edges :: "graph_edge list"
  cg_runtime_routers :: "('w, 's) router smap"
  cg_task_inbox :: "'w inbox_ref"

definition compiled_graph_new ::
  "'s serde \<Rightarrow> 'w inbox_ref \<Rightarrow> ('w, 's) graph_node smap \<Rightarrow> graph_edge list \<Rightarrow> string \<Rightarrow> 's reducer \<Rightarrow>
   (string \<times> 's reducer) list \<Rightarrow> ('w, 's) compiled_graph" where
  "compiled_graph_new sd inbox nodes edges entry_point default_reducer field_reducers =
     \<lparr>cg_nodes = nodes, cg_edges = edges, cg_entry_point = entry_point,
      cg_default_reducer = default_reducer, cg_field_reducers = field_reducers, cg_serde = sd,
      cg_conditional_routers = [], cg_checkpointer = None, cg_territory = None,
      cg_retention = retention_default, cg_recursion_limit = 25, cg_max_concurrency = None,
      cg_interrupt_before = [], cg_interrupt_after = [], cg_runtime_nodes = [],
      cg_runtime_edges = [], cg_runtime_routers = [], cg_task_inbox = inbox\<rparr>"

definition add_router ::
  "string \<Rightarrow> ('w, 's) router \<Rightarrow> ('w, 's) compiled_graph \<Rightarrow> ('w, 's) compiled_graph" where
  "add_router name router g =
     g\<lparr>cg_conditional_routers := smap_insert name router (cg_conditional_routers g)\<rparr>"

text \<open>\<open>now\<close> is the clock that \<open>RetainingCheckpointer\<close> reads.\<close>

definition with_checkpointer ::
  "('w, int) geff \<Rightarrow> ('w, 's) checkpointer \<Rightarrow> ('w, 's) compiled_graph \<Rightarrow> ('w, 's) compiled_graph" where
  "with_checkpointer now checkpointer g =
     (let wrapped = retaining_checkpointer now checkpointer (cg_retention g);
          wrapped' = (case cg_territory g of
             Some ns \<Rightarrow> territory_checkpointer wrapped ns
           | None \<Rightarrow> wrapped)
      in g\<lparr>cg_checkpointer := Some wrapped'\<rparr>)"

definition with_territory :: "string \<Rightarrow> ('w, 's) compiled_graph \<Rightarrow> ('w, 's) compiled_graph" where
  "with_territory ns g =
     g\<lparr>cg_territory := Some ns,
       cg_checkpointer := map_option (\<lambda>cp. territory_checkpointer cp ns) (cg_checkpointer g)\<rparr>"

definition with_checkpoint_retention ::
  "('w, int) geff \<Rightarrow> checkpoint_retention \<Rightarrow> ('w, 's) compiled_graph \<Rightarrow> ('w, 's) compiled_graph" where
  "with_checkpoint_retention now r g =
     g\<lparr>cg_retention := r,
       cg_checkpointer := map_option (\<lambda>cp. retaining_checkpointer now cp r) (cg_checkpointer g)\<rparr>"

definition with_recursion_limit :: "nat \<Rightarrow> ('w, 's) compiled_graph \<Rightarrow> ('w, 's) compiled_graph" where
  "with_recursion_limit limit g = g\<lparr>cg_recursion_limit := limit\<rparr>"

definition with_max_concurrency :: "nat \<Rightarrow> ('w, 's) compiled_graph \<Rightarrow> ('w, 's) compiled_graph" where
  "with_max_concurrency n g = g\<lparr>cg_max_concurrency := (if n > 0 then Some n else None)\<rparr>"

definition with_interrupt_before :: "string list \<Rightarrow> ('w, 's) compiled_graph \<Rightarrow> ('w, 's) compiled_graph" where
  "with_interrupt_before nodes g = g\<lparr>cg_interrupt_before := nodes\<rparr>"

definition with_interrupt_after :: "string list \<Rightarrow> ('w, 's) compiled_graph \<Rightarrow> ('w, 's) compiled_graph" where
  "with_interrupt_after nodes g = g\<lparr>cg_interrupt_after := nodes\<rparr>"

definition node_names :: "('w, 's) compiled_graph \<Rightarrow> string list" where
  "node_names g = map fst (cg_nodes g)"

definition get_node :: "('w, 's) compiled_graph \<Rightarrow> string \<Rightarrow> ('w, 's) graph_node graph_result" where
  "get_node g name =
     (case map_of (cg_nodes g) name of
        Some node \<Rightarrow> Inr node
      | None \<Rightarrow> (case map_of (cg_runtime_nodes g) name of
          Some node \<Rightarrow> Inr node
        | None \<Rightarrow> Inl (ExecutionError (''Node '' @ quoted name @ '' not found''))))"

text \<open>\<open>busy\<close> says that another task holds the inbox lock, \<open>i\<close> is the fresh UUID.\<close>

definition submit_task ::
  "bool \<Rightarrow> string \<Rightarrow> string \<Rightarrow> ('w, 's) compiled_graph \<Rightarrow> ('w, unit) geff" where
  "submit_task busy i description g =
     (if busy then err (ExecutionError
          ''dynamic task inbox is busy; task refused (not silently dropped)'')
      else (\<lambda>w. Some (Inr (), ib_put (cg_task_inbox g)
         (ib_get (cg_task_inbox g) w @ [\<lparr>task_id = i, task_description = description\<rparr>]) w)))"

definition inject_node ::
  "string \<Rightarrow> ('w, 's) graph_node \<Rightarrow> ('w, 's) compiled_graph \<Rightarrow> ('w, 's) compiled_graph" where
  "inject_node name node g = g\<lparr>cg_runtime_nodes := smap_insert name node (cg_runtime_nodes g)\<rparr>"

definition inject_edge :: "string \<Rightarrow> string \<Rightarrow> ('w, 's) compiled_graph \<Rightarrow> ('w, 's) compiled_graph" where
  "inject_edge source target g =
     g\<lparr>cg_runtime_edges := cg_runtime_edges g @ [edge_fixed source target]\<rparr>"


section \<open>The builder\<close>

record ('w, 's) state_graph =
  sg_nodes :: "('w, 's) graph_node smap"
  sg_edges :: "graph_edge list"
  sg_entry_point :: "string option"
  sg_reducers :: "(string \<times> 's reducer) list"
  sg_default_reducer :: "'s reducer"
  sg_conditional_routers :: "('w, 's) router smap"

definition state_graph_new :: "('w, 's) state_graph" where
  "state_graph_new =
     \<lparr>sg_nodes = [], sg_edges = [], sg_entry_point = None, sg_reducers = [],
      sg_default_reducer = replace_reduce, sg_conditional_routers = []\<rparr>"

definition add_node :: "('w, 's) graph_node \<Rightarrow> ('w, 's) state_graph \<Rightarrow> ('w, 's) state_graph" where
  "add_node node sg = sg\<lparr>sg_nodes := smap_insert (node_name node) node (sg_nodes sg)\<rparr>"

definition add_node_fn ::
  "string \<Rightarrow> ('s \<Rightarrow> 's state_update graph_result) \<Rightarrow> ('w, 's) state_graph \<Rightarrow> ('w, 's) state_graph" where
  "add_node_fn name func sg = add_node (sync_node name func) sg"

definition add_async_node ::
  "string \<Rightarrow> ('s \<Rightarrow> ('w, 's state_update) geff) \<Rightarrow> ('w, 's) state_graph \<Rightarrow> ('w, 's) state_graph" where
  "add_async_node name func sg = add_node (async_node name func) sg"

definition add_edge :: "string \<Rightarrow> string \<Rightarrow> ('w, 's) state_graph \<Rightarrow> ('w, 's) state_graph" where
  "add_edge source target sg = sg\<lparr>sg_edges := sg_edges sg @ [edge_fixed source target]\<rparr>"

definition add_conditional_edges ::
  "string \<Rightarrow> string \<Rightarrow> (string \<times> string) list \<Rightarrow> string option \<Rightarrow>
   ('w, 's) state_graph \<Rightarrow> ('w, 's) state_graph" where
  "add_conditional_edges source router_name targets default_target sg =
     sg\<lparr>sg_edges := sg_edges sg @ [edge_conditional source router_name targets default_target]\<rparr>"

definition add_fan_out :: "string \<Rightarrow> string list \<Rightarrow> ('w, 's) state_graph \<Rightarrow> ('w, 's) state_graph" where
  "add_fan_out source targets sg = sg\<lparr>sg_edges := sg_edges sg @ [edge_fan_out source targets]\<rparr>"

definition add_fan_in :: "string list \<Rightarrow> string \<Rightarrow> ('w, 's) state_graph \<Rightarrow> ('w, 's) state_graph" where
  "add_fan_in sources target sg = sg\<lparr>sg_edges := sg_edges sg @ [edge_fan_in sources target]\<rparr>"

definition set_conditional_router ::
  "string \<Rightarrow> ('w, 's) router \<Rightarrow> ('w, 's) state_graph \<Rightarrow> ('w, 's) state_graph" where
  "set_conditional_router name router sg =
     sg\<lparr>sg_conditional_routers := smap_insert name router (sg_conditional_routers sg)\<rparr>"

definition set_entry_point :: "string \<Rightarrow> ('w, 's) state_graph \<Rightarrow> ('w, 's) state_graph" where
  "set_entry_point node sg = sg\<lparr>sg_entry_point := Some node\<rparr>"

text \<open>Replace the first slot of the field in place, else push.\<close>

fun set_slot :: "string \<Rightarrow> 'r \<Rightarrow> (string \<times> 'r) list \<Rightarrow> (string \<times> 'r) list" where
  "set_slot field r [] = [(field, r)]"
| "set_slot field r ((f, q) # rs) = (if f = field then (f, r) # rs else (f, q) # set_slot field r rs)"

definition set_reducer :: "string \<Rightarrow> 's reducer \<Rightarrow> ('w, 's) state_graph \<Rightarrow> ('w, 's) state_graph" where
  "set_reducer field reducer sg = sg\<lparr>sg_reducers := set_slot field reducer (sg_reducers sg)\<rparr>"

definition find_first_node_after_start :: "('w, 's) state_graph \<Rightarrow> string option" where
  "find_first_node_after_start sg =
     Option.bind (List.find (\<lambda>e. edge_source e = START \<and> fixed_target e \<noteq> None) (sg_edges sg))
       fixed_target"

end
