(* ===== verification/Graph_Validate.thy ===== *)
theory Graph_Validate
  imports Graph_Model
begin

text \<open>
  Validation and compilation (\<open>compiled/validate.rs\<close>, \<open>StateGraph::compile\<close>): the checks on the edges,
  the worklist that computes the reachable nodes, the fixpoint that computes the nodes from
  which \<open>END\<close> can be reached. The two computations are proved equal to inductively defined sets.
  The hash sets are lists; only membership matters.
\<close>

section \<open>The checks\<close>

definition node_ok :: "('w, 's) compiled_graph \<Rightarrow> string \<Rightarrow> string \<Rightarrow> bool" where
  "node_ok g sentinel n \<longleftrightarrow> n = sentinel \<or> contains_key (cg_nodes g) n"

fun first_err :: "unit graph_result list \<Rightarrow> unit graph_result" where
  "first_err [] = Inr ()"
| "first_err (r # rs) = result_bind r (\<lambda>_. first_err rs)"

definition check :: "bool \<Rightarrow> graph_error \<Rightarrow> unit graph_result" where
  "check b e = (if b then Inr () else Inl e)"

fun validate_edge :: "('w, 's) compiled_graph \<Rightarrow> graph_edge \<Rightarrow> unit graph_result" where
  "validate_edge g (Fixed source target) = first_err
     [check (node_ok g START source)
        (ValidationError (''Source node '' @ quoted source @ '' not found'')),
      check (node_ok g END target)
        (ValidationError (''Target node '' @ quoted target @ '' not found'')),
      check (target \<noteq> START) (ValidationError ''Edge cannot target START node'')]"
| "validate_edge g (Conditional source router_name targets default_target) = first_err
     ([check (node_ok g START source)
         (ValidationError (''Source node '' @ quoted source @ '' not found'')),
       check (contains_key (cg_conditional_routers g) router_name)
         (ValidationError (''Router '' @ quoted router_name @ '' not found''))]
      @ concat (map (\<lambda>(route, target).
         [check (node_ok g END target)
            (ValidationError (''Target '' @ quoted target @ '' for route '' @ quoted route @ '' not found'')),
          check (target \<noteq> START) (ValidationError ''Conditional edge cannot target START node'')]) targets)
      @ (case default_target of
           None \<Rightarrow> []
         | Some dt \<Rightarrow> [check (node_ok g END dt)
             (ValidationError (''Default target '' @ quoted dt @ '' not found''))]))"
| "validate_edge g (FanOut source targets) = first_err
     (check (node_ok g START source)
        (ValidationError (''FanOut source node '' @ quoted source @ '' not found''))
      # map (\<lambda>target. check (node_ok g END target)
        (ValidationError (''FanOut target node '' @ quoted target @ '' not found''))) targets)"
| "validate_edge g (FanIn sources target) = first_err
     (map (\<lambda>source. check (node_ok g START source)
        (ValidationError (''FanIn source node '' @ quoted source @ '' not found''))) sources
      @ [check (node_ok g END target)
          (ValidationError (''FanIn target node '' @ quoted target @ '' not found''))])"

fun duplicate_edges :: "graph_edge list \<Rightarrow> (string \<times> string) list \<Rightarrow> unit graph_result" where
  "duplicate_edges [] seen_fixed = Inr ()"
| "duplicate_edges (Fixed source target # es) seen_fixed =
     (if (source, target) \<in> set seen_fixed
      then Inl (DuplicateEdgeError (''Duplicate edge: '' @ source @ '' -> '' @ target))
      else duplicate_edges es ((source, target) # seen_fixed))"
| "duplicate_edges (_ # es) seen_fixed = duplicate_edges es seen_fixed"

definition validate_duplicate_edges :: "('w, 's) compiled_graph \<Rightarrow> unit graph_result" where
  "validate_duplicate_edges g = duplicate_edges (cg_edges g) []"

text \<open>Where an edge other than a fan-in can lead.\<close>

fun edge_targets :: "graph_edge \<Rightarrow> string list" where
  "edge_targets (Fixed _ target) = [target]"
| "edge_targets (Conditional _ _ targets default_target) =
     map snd targets @ (case default_target of None \<Rightarrow> [] | Some dt \<Rightarrow> [dt])"
| "edge_targets (FanOut _ targets) = targets"
| "edge_targets (FanIn _ _) = []"

text \<open>What one edge pushes on the worklist after \<open>current\<close> was added to \<open>reachable\<close>.\<close>

fun edge_pushes :: "string list \<Rightarrow> string \<Rightarrow> graph_edge \<Rightarrow> string list" where
  "edge_pushes reachable current (FanIn sources target) =
     (if list_all (\<lambda>s. s \<in> set reachable) sources \<and> target \<notin> set reachable \<and> target \<noteq> END
      then [target] else [])"
| "edge_pushes reachable current e =
     (if edge_source e = current then filter (\<lambda>t. t \<notin> set reachable \<and> t \<noteq> END) (edge_targets e)
      else [])"

definition pushes :: "graph_edge list \<Rightarrow> string list \<Rightarrow> string \<Rightarrow> string list" where
  "pushes es reachable current = concat (map (edge_pushes reachable current) es)"

fun targets_of :: "graph_edge \<Rightarrow> string list" where
  "targets_of (FanIn _ target) = [target]"
| "targets_of e = edge_targets e"

definition all_targets :: "graph_edge list \<Rightarrow> string set" where
  "all_targets es = (\<Union>e \<in> set es. set (targets_of e))"

lemma finite_all_targets [simp]: "finite (all_targets es)"
  by (simp add: all_targets_def)

lemma edge_pushes_targets: "set (edge_pushes R c e) \<subseteq> set (targets_of e)"
  by (cases e) auto

lemma pushes_targets: "set (pushes es R c) \<subseteq> all_targets es"
  using edge_pushes_targets [of R c] by (fastforce simp: pushes_def all_targets_def)

text \<open>\<open>while let Some(current) = to_visit.pop()\<close>; the head of the list is the top of the stack.\<close>

function reach_loop :: "graph_edge list \<Rightarrow> string list \<Rightarrow> string list \<Rightarrow> string list" where
  "reach_loop es reachable [] = reachable"
| "reach_loop es reachable (current # to_visit) =
     (if current \<in> set reachable \<or> current = END then reach_loop es reachable to_visit
      else reach_loop es (current # reachable)
             (rev (pushes es (current # reachable) current) @ to_visit))"
  by pat_completeness auto

termination
proof (relation "measures
    [\<lambda>(es, R, vs). card ((all_targets es \<union> set vs) - set R), \<lambda>(es, R, vs). length vs]", goal_cases)
  case (2 es R c vs)
  have "card (all_targets es \<union> set vs - set R) \<le> card (all_targets es \<union> set (c # vs) - set R)"
    by (rule card_mono) auto
  then show ?case by auto
next
  case (3 es R c vs)
  have "all_targets es \<union> set (rev (pushes es (c # R) c) @ vs) - set (c # R) \<subset>
      all_targets es \<union> set (c # vs) - set R"
    using 3 pushes_targets [of es "c # R" c] by auto
  then show ?case by (auto intro!: psubset_card_mono)
qed simp

definition compute_reachable_nodes :: "('w, 's) compiled_graph \<Rightarrow> string list" where
  "compute_reachable_nodes g = reach_loop (cg_edges g) [] [cg_entry_point g]"

definition validate_unreachable_nodes :: "('w, 's) compiled_graph \<Rightarrow> unit graph_result" where
  "validate_unreachable_nodes g =
     (let reachable = compute_reachable_nodes g
      in first_err (map (\<lambda>n. check (n \<in> set reachable)
           (OrphanNodeError (''Unreachable node: '' @ n))) (map fst (cg_nodes g))))"

text \<open>One round of \<open>compute_end_reachable_nodes\<close>, edge by edge.\<close>

definition add_if :: "bool \<Rightarrow> string \<Rightarrow> string list \<Rightarrow> string list" where
  "add_if b n E = (if b \<and> n \<notin> set E then n # E else E)"

fun end_step :: "graph_edge \<Rightarrow> string list \<Rightarrow> string list" where
  "end_step (Fixed source target) E = add_if (target \<in> set E) source E"
| "end_step (Conditional source r targets default_target) E =
     add_if (list_ex (\<lambda>(_, t). t \<in> set E) targets
        \<or> (case default_target of None \<Rightarrow> False | Some dt \<Rightarrow> dt \<in> set E)) source E"
| "end_step (FanOut source targets) E = add_if (list_all (\<lambda>t. t \<in> set E) targets) source E"
| "end_step (FanIn sources target) E =
     (if target \<in> set E then fold (add_if True) sources E else E)"

fun sources_of :: "graph_edge \<Rightarrow> string list" where
  "sources_of (FanIn sources _) = sources"
| "sources_of e = [edge_source e]"

definition all_sources :: "graph_edge list \<Rightarrow> string set" where
  "all_sources es = (\<Union>e \<in> set es. set (sources_of e))"

lemma add_if_extends: "\<exists>F. add_if b n E = F @ E \<and> set F \<subseteq> {n} \<and> set F \<inter> set E = {}"
  by (auto simp: add_if_def)

lemma add_all_extends: "\<exists>F. fold (add_if True) ns E = F @ E \<and> set F \<subseteq> set ns \<and> set F \<inter> set E = {}"
proof (induction ns arbitrary: E)
  case (Cons n ns)
  obtain F where F: "add_if True n E = F @ E" "set F \<subseteq> {n}" "set F \<inter> set E = {}"
    using add_if_extends by blast
  obtain F' where "fold (add_if True) ns (F @ E) = F' @ F @ E" "set F' \<subseteq> set ns" "set F' \<inter> set (F @ E) = {}"
    using Cons.IH by blast
  with F show ?case by (intro exI [of _ "F' @ F"]) auto
qed simp

lemma end_step_extends: "\<exists>F. end_step e E = F @ E \<and> set F \<subseteq> set (sources_of e) \<and> set F \<inter> set E = {}"
proof (cases e)
  case (FanIn ss t)
  then show ?thesis using add_all_extends [of ss E] by auto
qed (simp_all add: add_if_extends)

lemma end_pass_extends:
  "\<exists>F. fold end_step es E = F @ E \<and> set F \<subseteq> all_sources es \<and> set F \<inter> set E = {}"
proof (induction es arbitrary: E)
  case (Cons e es)
  obtain F where F: "end_step e E = F @ E" "set F \<subseteq> set (sources_of e)" "set F \<inter> set E = {}"
    using end_step_extends by blast
  obtain F' where "fold end_step es (F @ E) = F' @ F @ E" "set F' \<subseteq> all_sources es"
      "set F' \<inter> set (F @ E) = {}"
    using Cons.IH by blast
  with F show ?case by (intro exI [of _ "F' @ F"]) (auto simp: all_sources_def)
qed simp

function end_loop :: "graph_edge list \<Rightarrow> string list \<Rightarrow> string list" where
  "end_loop es E = (let E' = fold end_step es E in if E' = E then E' else end_loop es E')"
  by pat_completeness auto

termination
proof (relation "measure (\<lambda>(es, E). card (all_sources es - set E))", goal_cases)
  case (2 es E E')
  obtain F where F: "E' = F @ E" "set F \<subseteq> all_sources es" "set F \<inter> set E = {}"
    using end_pass_extends [of es E] 2 by auto
  with 2 have "F \<noteq> []" by auto
  with F have "all_sources es - set E' \<subset> all_sources es - set E"
    by (cases F) auto
  then show ?case by (auto intro!: psubset_card_mono simp: all_sources_def)
qed simp

declare end_loop.simps [simp del]

definition compute_end_reachable_nodes :: "('w, 's) compiled_graph \<Rightarrow> string list" where
  "compute_end_reachable_nodes g = end_loop (cg_edges g) [END]"

definition validate_cycles :: "('w, 's) compiled_graph \<Rightarrow> unit graph_result" where
  "validate_cycles g =
     (let reachable = compute_reachable_nodes g;
          end_reachable = compute_end_reachable_nodes g
      in first_err (map (\<lambda>n. check (n \<in> set end_reachable)
           (InfiniteCycleError (''Node '' @ quoted n @ '' in cycle with no path to END''))) reachable))"

definition validate :: "('w, 's) compiled_graph \<Rightarrow> unit graph_result" where
  "validate g = first_err
     (map (validate_edge g) (cg_edges g)
      @ [validate_duplicate_edges g, validate_unreachable_nodes g, validate_cycles g])"

definition compile :: "'s serde \<Rightarrow> 'w inbox_ref \<Rightarrow> ('w, 's) state_graph \<Rightarrow> ('w, 's) compiled_graph graph_result" where
  "compile sd inbox sg =
     (if sg_nodes sg = [] then Inl (ValidationError ''Graph has no nodes'')
      else result_bind
        (ok_or (ValidationError ''No entry point defined'')
           (case sg_entry_point sg of Some n \<Rightarrow> Some n | None \<Rightarrow> find_first_node_after_start sg))
        (\<lambda>entry.
          if \<not> contains_key (sg_nodes sg) entry \<and> entry \<noteq> START
          then Inl (ValidationError (''Entry point '' @ quoted entry @ '' not found''))
          else
            let merge_reducer = (if sg_reducers sg = [] then sg_default_reducer sg
                  else merge_reduce sd (sg_default_reducer sg) (sg_reducers sg));
                compiled = compiled_graph_new sd inbox (sg_nodes sg) (sg_edges sg) entry merge_reducer
                  (sg_reducers sg);
                compiled' = fold (\<lambda>(name, router). add_router name router) (sg_conditional_routers sg) compiled
            in result_bind (validate compiled') (\<lambda>_. Inr compiled')))"


section \<open>Reachability\<close>

text \<open>The nodes that an execution can reach, and those from which \<open>END\<close> is within reach.\<close>

inductive reaches :: "graph_edge list \<Rightarrow> string \<Rightarrow> string \<Rightarrow> bool" for es entry where
  reaches_entry: "entry \<noteq> END \<Longrightarrow> reaches es entry entry"
| reaches_edge: "reaches es entry n \<Longrightarrow> e \<in> set es \<Longrightarrow> edge_source e = n \<Longrightarrow>
    t \<in> set (edge_targets e) \<Longrightarrow> t \<noteq> END \<Longrightarrow> reaches es entry t"
| reaches_fan_in: "reaches es entry m \<Longrightarrow> FanIn ss t \<in> set es \<Longrightarrow>
    \<forall>s \<in> set ss. reaches es entry s \<Longrightarrow> t \<noteq> END \<Longrightarrow> reaches es entry t"

inductive to_end :: "graph_edge list \<Rightarrow> string \<Rightarrow> bool" for es where
  to_end_END: "to_end es END"
| to_end_fixed: "Fixed s t \<in> set es \<Longrightarrow> to_end es t \<Longrightarrow> to_end es s"
| to_end_route: "Conditional s r ts dt \<in> set es \<Longrightarrow> (k, t) \<in> set ts \<Longrightarrow> to_end es t \<Longrightarrow> to_end es s"
| to_end_default: "Conditional s r ts (Some t) \<in> set es \<Longrightarrow> to_end es t \<Longrightarrow> to_end es s"
| to_end_fan_out: "FanOut s ts \<in> set es \<Longrightarrow> \<forall>t \<in> set ts. to_end es t \<Longrightarrow> to_end es s"
| to_end_fan_in: "FanIn ss t \<in> set es \<Longrightarrow> to_end es t \<Longrightarrow> s \<in> set ss \<Longrightarrow> to_end es s"

text \<open>The invariant of the worklist: everything one step away is visited or waiting.\<close>

definition closed_upto :: "graph_edge list \<Rightarrow> string set \<Rightarrow> string set \<Rightarrow> bool" where
  "closed_upto es R V \<longleftrightarrow>
     (\<forall>e \<in> set es. edge_source e \<in> R \<longrightarrow> (\<forall>t \<in> set (edge_targets e). t \<noteq> END \<longrightarrow> t \<in> R \<union> V)) \<and>
     (\<forall>ss t. FanIn ss t \<in> set es \<longrightarrow> R \<noteq> {} \<longrightarrow> set ss \<subseteq> R \<longrightarrow> t \<noteq> END \<longrightarrow> t \<in> R \<union> V)"

lemma edge_pushes_other:
  "(\<And>ss t. e \<noteq> FanIn ss t) \<Longrightarrow> edge_pushes R c e =
     (if edge_source e = c then filter (\<lambda>t. t \<notin> set R \<and> t \<noteq> END) (edge_targets e) else [])"
  by (cases e) (simp_all, blast)

lemma pushes_complete:
  assumes "e \<in> set es" and "edge_source e = c" and "t \<in> set (edge_targets e)" and "t \<noteq> END"
  shows "t \<in> set R \<or> t \<in> set (pushes es R c)"
proof -
  have "t \<in> set R \<or> t \<in> set (edge_pushes R c e)"
    using assms(2-4) edge_pushes_other [of e R c] by (cases "\<exists>ss t. e = FanIn ss t") auto
  with assms(1) show ?thesis by (auto simp: pushes_def)
qed

lemma pushes_fan_in:
  assumes "FanIn ss t \<in> set es" and "set ss \<subseteq> set R" and "t \<noteq> END"
  shows "t \<in> set R \<or> t \<in> set (pushes es R c)"
proof -
  have "t \<in> set R \<or> t \<in> set (edge_pushes R c (FanIn ss t))"
    using assms(2,3) by (auto simp: list_all_iff)
  with assms(1) show ?thesis unfolding pushes_def by fastforce
qed

lemma closed_upto_step:
  assumes "closed_upto es (set R) (insert c (set vs))"
  shows "closed_upto es (set (c # R)) (set (rev (pushes es (c # R) c) @ vs))"
  unfolding closed_upto_def
proof (intro conjI ballI allI impI)
  fix e t
  assume e: "e \<in> set es" "edge_source e \<in> set (c # R)" "t \<in> set (edge_targets e)" "t \<noteq> END"
  show "t \<in> set (c # R) \<union> set (rev (pushes es (c # R) c) @ vs)"
    using assms e pushes_complete [OF e(1) _ e(3,4), of c "c # R"]
    by (cases "edge_source e = c") (auto simp: closed_upto_def)
next
  fix ss t
  assume "FanIn ss t \<in> set es" "set ss \<subseteq> set (c # R)" "t \<noteq> END"
  from pushes_fan_in [OF this, of c] show "t \<in> set (c # R) \<union> set (rev (pushes es (c # R) c) @ vs)"
    by auto
qed

lemma reach_loop_closed:
  "closed_upto es (set R) (set vs) \<Longrightarrow>
   closed_upto es (set (reach_loop es R vs)) {} \<and> set R \<subseteq> set (reach_loop es R vs) \<and>
   (\<forall>v \<in> set vs. v \<noteq> END \<longrightarrow> v \<in> set (reach_loop es R vs))"
proof (induction es R vs rule: reach_loop.induct)
  case (1 es R)
  then show ?case by simp
next
  case (2 es R c vs)
  show ?case
  proof (cases "c \<in> set R \<or> c = END")
    case True
    with 2(3) have "closed_upto es (set R) (set vs)" by (auto simp: closed_upto_def)
    with 2(1) [OF True] True show ?thesis by auto
  next
    case False
    have "closed_upto es (set R) (insert c (set vs))" using 2(3) by simp
    from 2(2) [OF False closed_upto_step [OF this]] False show ?thesis by auto
  qed
qed

lemma reaches_not_END: "reaches es entry n \<Longrightarrow> n \<noteq> END"
  by (induction rule: reaches.induct) auto

lemma pushes_sound:
  assumes "t \<in> set (pushes es R c)" and "\<forall>n \<in> set R. reaches es entry n" and "c \<in> set R"
  shows "reaches es entry t"
proof -
  obtain e where e: "e \<in> set es" "t \<in> set (edge_pushes R c e)"
    using assms(1) by (auto simp: pushes_def)
  show ?thesis
  proof (cases "\<exists>ss t'. e = FanIn ss t'")
    case True
    with e assms(2,3) show ?thesis
      by (auto simp: list_all_iff split: if_splits intro: reaches_fan_in [of es entry c])
  next
    case False
    with e(2) have "edge_source e = c" "t \<in> set (edge_targets e)" "t \<noteq> END"
      by (auto simp: edge_pushes_other split: if_splits)
    with e(1) assms(2,3) show ?thesis by (blast intro: reaches_edge)
  qed
qed

lemma reach_loop_sound:
  "\<forall>n \<in> set R \<union> set vs. n \<noteq> END \<longrightarrow> reaches es entry n \<Longrightarrow> END \<notin> set R \<Longrightarrow>
   \<forall>n \<in> set (reach_loop es R vs). reaches es entry n"
proof (induction es R vs rule: reach_loop.induct)
  case (1 es R)
  then show ?case by auto
next
  case (2 es R c vs)
  show ?case
  proof (cases "c \<in> set R \<or> c = END")
    case True
    with 2(1) [OF True] 2(3,4) show ?thesis by auto
  next
    case False
    have R: "\<forall>n \<in> set (c # R). reaches es entry n" using False 2(3,4) by (metis UnCI set_ConsD list.set_intros)
    have "\<forall>n \<in> set (c # R) \<union> set (rev (pushes es (c # R) c) @ vs). n \<noteq> END \<longrightarrow> reaches es entry n"
      using R pushes_sound [OF _ R] 2(3) by auto
    with 2(2) [OF False] False 2(4) show ?thesis by auto
  qed
qed

lemma compute_reachable_nodes_iff:
  "n \<in> set (compute_reachable_nodes g) \<longleftrightarrow> reaches (cg_edges g) (cg_entry_point g) n"
proof
  show "reaches (cg_edges g) (cg_entry_point g) n" if "n \<in> set (compute_reachable_nodes g)"
    using that reach_loop_sound [of "[]" "[cg_entry_point g]" "cg_edges g" "cg_entry_point g"]
    by (auto simp: compute_reachable_nodes_def intro: reaches_entry)
next
  have closed: "closed_upto (cg_edges g) (set (compute_reachable_nodes g)) {}"
    and entry: "cg_entry_point g \<noteq> END \<longrightarrow> cg_entry_point g \<in> set (compute_reachable_nodes g)"
    using reach_loop_closed [of "cg_edges g" "[]" "[cg_entry_point g]"]
    by (auto simp: compute_reachable_nodes_def closed_upto_def)
  assume "reaches (cg_edges g) (cg_entry_point g) n"
  then show "n \<in> set (compute_reachable_nodes g)"
  proof (induction rule: reaches.induct)
    case reaches_entry
    then show ?case using entry by simp
  next
    case (reaches_edge n e t)
    then show ?case using closed by (auto simp: closed_upto_def)
  next
    case (reaches_fan_in m ss t)
    then have "set (compute_reachable_nodes g) \<noteq> {}" "set ss \<subseteq> set (compute_reachable_nodes g)" by auto
    with reaches_fan_in closed show ?case unfolding closed_upto_def by blast
  qed
qed


lemma set_add_if [simp]: "set (add_if b n E) = (if b then insert n (set E) else set E)"
  by (auto simp: add_if_def)

lemma set_add_all [simp]: "set (fold (add_if True) ns E) = set ns \<union> set E"
  by (induction ns arbitrary: E) auto

lemma end_step_sound:
  assumes "e \<in> set es" and "\<forall>n \<in> set E. to_end es n"
  shows "\<forall>n \<in> set (end_step e E). to_end es n"
proof (cases e rule: graph_edge.exhaust)
  case (Fixed s t)
  then show ?thesis using assms by (auto intro: to_end_fixed)
next
  case (Conditional s r ts dt)
  then show ?thesis using assms
    by (auto simp: list_ex_iff split: option.splits intro: to_end_route to_end_default)
next
  case (FanOut s ts)
  then show ?thesis using assms by (auto simp: list_all_iff intro: to_end_fan_out)
next
  case (FanIn ss t)
  then show ?thesis using assms by (auto intro: to_end_fan_in)
qed

lemma end_pass_sound:
  "set es' \<subseteq> set es \<Longrightarrow> \<forall>n \<in> set E. to_end es n \<Longrightarrow> \<forall>n \<in> set (fold end_step es' E). to_end es n"
proof (induction es' arbitrary: E)
  case (Cons e es')
  have "\<forall>n \<in> set (end_step e E). to_end es n"
    by (rule end_step_sound) (use Cons.prems in auto)
  moreover have "set es' \<subseteq> set es" using Cons.prems(1) by simp
  ultimately have "\<forall>n \<in> set (fold end_step es' (end_step e E)). to_end es n" by (intro Cons.IH)
  then show ?case unfolding fold_Cons comp_apply .
qed simp

lemma end_loop_sound: "\<forall>n \<in> set E. to_end es n \<Longrightarrow> \<forall>n \<in> set (end_loop es E). to_end es n"
proof (induction es E rule: end_loop.induct)
  case (1 es E)
  have "\<forall>n \<in> set (fold end_step es E). to_end es n" by (rule end_pass_sound) (use 1(2) in auto)
  with 1 show ?case by (subst end_loop.simps) (auto simp: Let_def)
qed

text \<open>At the end of the loop no edge adds anything.\<close>

lemma end_pass_stable:
  assumes "fold end_step es E = E" and "e \<in> set es"
  shows "end_step e E = E"
proof -
  have "end_step e E = E" if "fold end_step (es1 @ e # es2) E = E" for es1 es2
  proof -
    obtain F1 where F1: "fold end_step es1 E = F1 @ E" using end_pass_extends by blast
    obtain F2 where F2: "end_step e (F1 @ E) = F2 @ F1 @ E" using end_step_extends by blast
    obtain F3 where F3: "fold end_step es2 (F2 @ F1 @ E) = F3 @ F2 @ F1 @ E" using end_pass_extends by blast
    from that F1 F2 F3 have "F3 @ F2 @ F1 @ E = E" by simp
    then have "F1 = []" "F2 = []" by auto
    with F2 show ?thesis by simp
  qed
  with assms split_list [of e es] show ?thesis by blast
qed

lemma end_loop_stable: "e \<in> set es \<Longrightarrow> end_step e (end_loop es E) = end_loop es E \<and> set E \<subseteq> set (end_loop es E)"
proof (induction es E rule: end_loop.induct)
  case (1 es E)
  obtain F where F: "fold end_step es E = F @ E" using end_pass_extends by blast
  show ?case
  proof (cases "fold end_step es E = E")
    case True
    then have "end_loop es E = E" by (simp add: end_loop.simps Let_def)
    with end_pass_stable [OF True 1(2)] show ?thesis by simp
  next
    case False
    then have "end_loop es E = end_loop es (fold end_step es E)" by (subst end_loop.simps) (simp add: Let_def)
    with 1(1) [OF refl False 1(2)] F show ?thesis by auto
  qed
qed

lemma end_loop_mono: "set E \<subseteq> set (end_loop es E)"
proof (cases es)
  case Nil
  then show ?thesis by (simp add: end_loop.simps)
next
  case (Cons e es')
  then show ?thesis using end_loop_stable [of e es E] by simp
qed

lemma end_loop_closed: "e \<in> set es \<Longrightarrow> set (end_step e (end_loop es E)) \<subseteq> set (end_loop es E)"
  using end_loop_stable [of e es E] by simp

lemma compute_end_reachable_nodes_iff:
  "n \<in> set (compute_end_reachable_nodes g) \<longleftrightarrow> to_end (cg_edges g) n"
proof
  show "to_end (cg_edges g) n" if "n \<in> set (compute_end_reachable_nodes g)"
    using that end_loop_sound [of "[END]" "cg_edges g"]
    by (simp add: compute_end_reachable_nodes_def to_end_END)
next
  let ?es = "cg_edges g" and ?E = "compute_end_reachable_nodes g"
  have E: "?E = end_loop ?es [END]" by (simp add: compute_end_reachable_nodes_def)
  note closed = end_loop_closed [of _ ?es "[END]", folded E]
  assume "to_end ?es n"
  then show "n \<in> set ?E"
  proof (induction rule: to_end.induct)
    case to_end_END
    then show ?case using end_loop_mono [of "[END]" ?es] by (simp add: E)
  next
    case (to_end_fixed s t)
    then show ?case using closed [of "Fixed s t"] by auto
  next
    case (to_end_route s r ts dt k t)
    then have "list_ex (\<lambda>(_, t). t \<in> set ?E) ts" by (auto simp: list_ex_iff)
    then show ?case using closed [OF to_end_route(1)] by simp
  next
    case (to_end_default s r ts t)
    then show ?case using closed [OF to_end_default(1)] by simp
  next
    case (to_end_fan_out s ts)
    then show ?case using closed [of "FanOut s ts"] by (auto simp: list_all_iff)
  next
    case (to_end_fan_in ss t s)
    then show ?case using closed [of "FanIn ss t"] by auto
  qed
qed



section \<open>What a valid graph is\<close>

text \<open>The references of an edge that the checks admit.\<close>

fun edge_ok :: "('w, 's) compiled_graph \<Rightarrow> graph_edge \<Rightarrow> bool" where
  "edge_ok g (Fixed s t) \<longleftrightarrow> node_ok g START s \<and> node_ok g END t \<and> t \<noteq> START"
| "edge_ok g (Conditional s r ts dt) \<longleftrightarrow> node_ok g START s \<and> contains_key (cg_conditional_routers g) r \<and>
     (\<forall>t \<in> snd ` set ts. node_ok g END t \<and> t \<noteq> START) \<and> (\<forall>t \<in> set_option dt. node_ok g END t)"
| "edge_ok g (FanOut s ts) \<longleftrightarrow> node_ok g START s \<and> (\<forall>t \<in> set ts. node_ok g END t)"
| "edge_ok g (FanIn ss t) \<longleftrightarrow> (\<forall>s \<in> set ss. node_ok g START s) \<and> node_ok g END t"

lemma first_err_ok: "first_err rs = Inr () \<longleftrightarrow> (\<forall>r \<in> set rs. r = Inr ())"
proof (induction rs)
  case (Cons r rs)
  then show ?case by (cases r) auto
qed simp

lemma check_ok [simp]: "check b e = Inr () \<longleftrightarrow> b"
  by (simp add: check_def)

lemma first_err_split:
  "first_err (r # rs) = Inr () \<longleftrightarrow> r = Inr () \<and> first_err rs = Inr ()"
  "first_err (rs @ qs) = Inr () \<longleftrightarrow> first_err rs = Inr () \<and> first_err qs = Inr ()"
  "first_err (map f xs) = Inr () \<longleftrightarrow> (\<forall>x \<in> set xs. f x = Inr ())"
  "first_err (concat (map h xs)) = Inr () \<longleftrightarrow> (\<forall>x \<in> set xs. first_err (h x) = Inr ())"
  by (auto simp: first_err_ok simp del: first_err.simps(2))

lemma validate_edge_ok: "validate_edge g e = Inr () \<longleftrightarrow> edge_ok g e"
proof (cases e)
  case (Conditional s r ts dt)
  then show ?thesis
    by (cases dt) (simp_all add: first_err_split case_prod_beta' del: first_err.simps(2))
qed (simp_all add: first_err_split del: first_err.simps(2))

fun fixed_pair :: "graph_edge \<Rightarrow> (string \<times> string) option" where
  "fixed_pair (Fixed s t) = Some (s, t)"
| "fixed_pair _ = None"

definition fixed_pairs :: "graph_edge list \<Rightarrow> (string \<times> string) list" where
  "fixed_pairs es = List.map_filter fixed_pair es"

lemma duplicate_edges_ok:
  "duplicate_edges es seen = Inr () \<longleftrightarrow> distinct (fixed_pairs es) \<and> set (fixed_pairs es) \<inter> set seen = {}"
proof (induction es seen rule: duplicate_edges.induct)
  case (2 s t es seen)
  then show ?case by (auto simp: fixed_pairs_def map_filter_simps)
qed (simp_all add: fixed_pairs_def map_filter_simps)

definition valid_graph :: "('w, 's) compiled_graph \<Rightarrow> bool" where
  "valid_graph g \<longleftrightarrow>
     (\<forall>e \<in> set (cg_edges g). edge_ok g e) \<and> distinct (fixed_pairs (cg_edges g)) \<and>
     (\<forall>n \<in> fst ` set (cg_nodes g). reaches (cg_edges g) (cg_entry_point g) n) \<and>
     (\<forall>n. reaches (cg_edges g) (cg_entry_point g) n \<longrightarrow> to_end (cg_edges g) n)"

lemma validate_valid: "validate g = Inr () \<longleftrightarrow> valid_graph g"
proof -
  have "validate g = Inr () \<longleftrightarrow> (\<forall>e \<in> set (cg_edges g). validate_edge g e = Inr ()) \<and>
      validate_duplicate_edges g = Inr () \<and> validate_unreachable_nodes g = Inr () \<and> validate_cycles g = Inr ()"
    by (auto simp: validate_def first_err_ok)
  moreover have "validate_duplicate_edges g = Inr () \<longleftrightarrow> distinct (fixed_pairs (cg_edges g))"
    by (simp add: validate_duplicate_edges_def duplicate_edges_ok)
  moreover have "validate_unreachable_nodes g = Inr () \<longleftrightarrow>
      (\<forall>n \<in> fst ` set (cg_nodes g). reaches (cg_edges g) (cg_entry_point g) n)"
    by (auto simp: validate_unreachable_nodes_def Let_def first_err_ok compute_reachable_nodes_iff)
  moreover have "validate_cycles g = Inr () \<longleftrightarrow>
      (\<forall>n. reaches (cg_edges g) (cg_entry_point g) n \<longrightarrow> to_end (cg_edges g) n)"
    by (auto simp: validate_cycles_def Let_def first_err_ok compute_reachable_nodes_iff
        compute_end_reachable_nodes_iff)
  ultimately show ?thesis by (simp add: valid_graph_def validate_edge_ok)
qed

text \<open>
  C3. \<open>validate\<close> decides exactly this: every edge refers to registered nodes and routers (and no fixed or
  routed target is \<open>START\<close>), no fixed edge occurs twice, every registered node is reachable from
  the entry point (a fan-in target once all its sources are), and from every reachable node \<open>END\<close>
  is within reach: by one of its fixed or conditional targets, or by all branches of a fan-out.
\<close>

theorem validate_iff_valid_graph: "validate g = Inr () \<longleftrightarrow> valid_graph g"
  by (rule validate_valid)


section \<open>Compilation\<close>

lemma add_router_sel [simp]:
  "cg_nodes (add_router n r g) = cg_nodes g" "cg_edges (add_router n r g) = cg_edges g"
  "cg_entry_point (add_router n r g) = cg_entry_point g"
  "cg_default_reducer (add_router n r g) = cg_default_reducer g"
  "cg_field_reducers (add_router n r g) = cg_field_reducers g"
  "cg_serde (add_router n r g) = cg_serde g"
  "cg_checkpointer (add_router n r g) = cg_checkpointer g"
  "cg_recursion_limit (add_router n r g) = cg_recursion_limit g"
  "cg_runtime_nodes (add_router n r g) = cg_runtime_nodes g"
  "cg_runtime_edges (add_router n r g) = cg_runtime_edges g"
  by (simp_all add: add_router_def)

lemma add_routers_sel:
  fixes rs :: "(string \<times> ('w, 's) router) list"
  defines "add \<equiv> fold (\<lambda>(name, router). add_router name router) rs"
  shows "cg_nodes (add g) = cg_nodes g" "cg_edges (add g) = cg_edges g"
    "cg_entry_point (add g) = cg_entry_point g"
    "cg_default_reducer (add g) = cg_default_reducer g"
    "cg_field_reducers (add g) = cg_field_reducers g"
    "cg_serde (add g) = cg_serde g" "cg_checkpointer (add g) = cg_checkpointer g"
    "cg_recursion_limit (add g) = cg_recursion_limit g"
    "cg_runtime_nodes (add g) = cg_runtime_nodes g" "cg_runtime_edges (add g) = cg_runtime_edges g"
  unfolding add_def by (induction rs arbitrary: g) (auto split: prod.splits)

lemma compile_graph:
  assumes "compile sd inbox sg = Inr g"
  shows "valid_graph g" and "cg_nodes g = sg_nodes sg" and "cg_edges g = sg_edges sg"
    and "cg_nodes g \<noteq> []"
    and "contains_key (cg_nodes g) (cg_entry_point g) \<or> cg_entry_point g = START"
    and "cg_field_reducers g = sg_reducers sg" and "cg_serde g = sd"
    and "cg_recursion_limit g = 25" and "cg_checkpointer g = None"
    and "cg_runtime_nodes g = []" and "cg_runtime_edges g = []"
proof -
  obtain entry reducer where g: "g = fold (\<lambda>(name, router). add_router name router) (sg_conditional_routers sg)
      (compiled_graph_new sd inbox (sg_nodes sg) (sg_edges sg) entry reducer (sg_reducers sg))"
    and entry: "contains_key (sg_nodes sg) entry \<or> entry = START" and ne: "sg_nodes sg \<noteq> []"
    and val: "validate g = Inr ()"
    using assms unfolding compile_def
    by (auto split: if_splits elim!: result_bind_InrE simp: Let_def)
  show "valid_graph g" using val by (simp add: validate_valid)
  show "cg_nodes g = sg_nodes sg" "cg_edges g = sg_edges sg" "cg_nodes g \<noteq> []"
    "contains_key (cg_nodes g) (cg_entry_point g) \<or> cg_entry_point g = START"
    "cg_field_reducers g = sg_reducers sg" "cg_serde g = sd" "cg_recursion_limit g = 25"
    "cg_checkpointer g = None" "cg_runtime_nodes g = []" "cg_runtime_edges g = []"
    using entry ne unfolding g add_routers_sel by (simp_all add: compiled_graph_new_def)
qed

end
