(* ===== verification/Graph_Merge.thy ===== *)
theory Graph_Merge
  imports Graph_Model
begin

text \<open>
  Merging the branches of a fan-out (\<open>merge_parallel_states\<close> and its helpers in
  \<open>compiled/parallel.rs\<close>): a field-level union over the JSON form of the states. The locale
  \<open>vec_struct\<close> adds to a derived struct that its array fields are vectors; in it the merge is
  characterised field by field, and the interpretation on \<open>AgentState\<close> gives the properties.
\<close>

section \<open>The operations\<close>

definition reassemble :: "'s serde \<Rightarrow> string \<Rightarrow> json \<Rightarrow> 's graph_result" where
  "reassemble sd msg v = (case from_value sd v of Inl e \<Rightarrow> Inl (StateError (msg @ e)) | Inr s \<Rightarrow> Inr s)"

definition union_states :: "'s serde \<Rightarrow> 's \<Rightarrow> 's \<Rightarrow> 's \<Rightarrow> 's graph_result" where
  "union_states sd base merged branch =
     result_bind (to_json sd base) (\<lambda>base_v.
       case as_object base_v of
         None \<Rightarrow> Inr branch
       | Some base_map \<Rightarrow>
           result_bind (to_json sd branch) (\<lambda>branch_v.
             case as_object branch_v of
               None \<Rightarrow> Inr merged
             | Some branch_map \<Rightarrow>
                 result_bind (to_json sd merged) (\<lambda>merged_v.
                   let merged_map = (case as_object merged_v of Some m \<Rightarrow> m | None \<Rightarrow> []);
                       result_map = fold (\<lambda>(k, v) m.
                          if map_of base_map k = Some v then m else smap_insert k v m)
                          branch_map merged_map
                   in reassemble sd ''Parallel branch merge failed to reassemble state: ''
                        (JObject result_map))))"

definition field_value :: "'s serde \<Rightarrow> 's \<Rightarrow> string \<Rightarrow> json option" where
  "field_value sd s field =
     (case to_json sd s of
        Inl _ \<Rightarrow> None
      | Inr v \<Rightarrow> Option.bind (as_object v) (\<lambda>m. map_of m field))"

definition array_value :: "'s serde \<Rightarrow> 's \<Rightarrow> string \<Rightarrow> json list option" where
  "array_value sd s field = Option.bind (field_value sd s field) as_array"

text \<open>The loop over the branches; it returns early when a branch does not extend \<open>base_els\<close>.\<close>

fun delta_loop ::
  "'s serde \<Rightarrow> string \<Rightarrow> json list \<Rightarrow> 's parallel_branch list \<Rightarrow> json list \<Rightarrow> json list option" where
  "delta_loop sd field base_els [] un = Some un"
| "delta_loop sd field base_els (b # bs) un =
     (case array_value sd (pb_final_state b) field of
        None \<Rightarrow> None
      | Some arr \<Rightarrow>
          if length arr < length base_els \<or> take (length base_els) arr \<noteq> base_els then None
          else delta_loop sd field base_els bs (un @ drop (length base_els) arr))"

definition delta_union_field ::
  "'s serde \<Rightarrow> 's \<Rightarrow> 's parallel_branch list \<Rightarrow> string \<Rightarrow> json option" where
  "delta_union_field sd base branches field =
     (case array_value sd base field of
        None \<Rightarrow> None
      | Some base_els \<Rightarrow> map_option JArray (delta_loop sd field base_els branches base_els))"

definition state_with_field :: "'s serde \<Rightarrow> 's \<Rightarrow> string \<Rightarrow> json \<Rightarrow> 's graph_result" where
  "state_with_field sd base field v =
     result_bind (to_json sd base) (\<lambda>state_v.
       reassemble sd ''Parallel reducer delta fold failed to reassemble state: ''
         (json_insert field v state_v))"

definition patch_field :: "'s serde \<Rightarrow> 's \<Rightarrow> 's \<Rightarrow> string \<Rightarrow> 's graph_result" where
  "patch_field sd s out field =
     result_bind (to_json sd s) (\<lambda>state_v.
       case as_object state_v of
         None \<Rightarrow> Inr s
       | Some state_map \<Rightarrow>
           result_bind (to_json sd out) (\<lambda>out_v.
             let v = (case Option.bind (as_object out_v) (\<lambda>m. map_of m field) of
                        Some v \<Rightarrow> v | None \<Rightarrow> JNull)
             in reassemble sd ''Parallel reducer patch failed to reassemble state: ''
                  (JObject (smap_insert field v state_map))))"

fun union_branches :: "'s serde \<Rightarrow> 's \<Rightarrow> 's parallel_branch list \<Rightarrow> 's \<Rightarrow> 's graph_result" where
  "union_branches sd base [] merged = Inr merged"
| "union_branches sd base (b # bs) merged =
     result_bind (union_states sd base merged (pb_final_state b)) (union_branches sd base bs)"

text \<open>The pass over the registered field reducers.\<close>

fun reduce_fields ::
  "'s serde \<Rightarrow> 's \<Rightarrow> 's parallel_branch list \<Rightarrow> (string \<times> 's reducer) list \<Rightarrow> 's \<Rightarrow> 's graph_result" where
  "reduce_fields sd base branches [] merged = Inr merged"
| "reduce_fields sd base branches ((field, reducer) # fs) merged =
     result_bind
       (case delta_union_field sd base branches field of
          Some un \<Rightarrow> result_bind (state_with_field sd base field un)
              (\<lambda>out. patch_field sd merged out field)
        | None \<Rightarrow>
            let acc = fold (\<lambda>b acc. reducer acc (pb_final_state b)) branches base
            in patch_field sd merged acc field)
       (reduce_fields sd base branches fs)"

definition merge_parallel_states ::
  "('w, 's) compiled_graph \<Rightarrow> 's parallel_branch list \<Rightarrow> 's \<Rightarrow> 's graph_result" where
  "merge_parallel_states g branches base =
     (if branches = []
      then Inl (StateError ''Cannot merge states: no parallel branches completed'')
      else result_bind (union_branches (cg_serde g) base branches base)
             (reduce_fields (cg_serde g) base branches (cg_field_reducers g)))"


section \<open>The merge, field by field\<close>

text \<open>The value of the last branch that changed the field, and the value before the fan-out else.\<close>

fun last_write :: "'s serde \<Rightarrow> 's \<Rightarrow> string \<Rightarrow> 's parallel_branch list \<Rightarrow> json option \<Rightarrow> json option" where
  "last_write sd base k [] v = v"
| "last_write sd base k (b # bs) v =
     last_write sd base k bs
       (if state_field sd (pb_final_state b) k = state_field sd base k then v
        else state_field sd (pb_final_state b) k)"

text \<open>The value the pass over the reducers gives a registered field.\<close>

definition reduced :: "'s serde \<Rightarrow> 's \<Rightarrow> 's parallel_branch list \<Rightarrow> string \<Rightarrow> 's reducer \<Rightarrow> json option" where
  "reduced sd base bs f r = (case delta_union_field sd base bs f of
      Some v \<Rightarrow> Some v
    | None \<Rightarrow> state_field sd (fold (\<lambda>b acc. r acc (pb_final_state b)) bs base) f)"

lemma delta_loop_extends:
  assumes "\<forall>b \<in> set bs. array_value sd (pb_final_state b) f = Some (els @ d b)"
  shows "delta_loop sd f els bs un = Some (un @ concat (map d bs))"
  using assms by (induction bs arbitrary: un) auto

lemma delta_union_extends:
  assumes "array_value sd base f = Some els"
    and "\<forall>b \<in> set bs. array_value sd (pb_final_state b) f = Some (els @ d b)"
  shows "delta_union_field sd base bs f = Some (JArray (els @ concat (map d bs)))"
  using assms delta_loop_extends [OF assms(2)] by (simp add: delta_union_field_def)

lemma delta_loop_None:
  "delta_loop sd f els bs un = None \<longleftrightarrow>
     \<not> (\<forall>b \<in> set bs. \<exists>ds. array_value sd (pb_final_state b) f = Some (els @ ds))"
proof (induction bs arbitrary: un)
  case (Cons b bs)
  have "(\<exists>ds. array_value sd (pb_final_state b) f = Some (els @ ds)) \<longleftrightarrow>
      (\<exists>arr. array_value sd (pb_final_state b) f = Some arr \<and> length els \<le> length arr \<and> take (length els) arr = els)"
    by (metis append_eq_conv_conj append_take_drop_id length_append le_add1)
  with Cons show ?case by (auto split: option.splits)
qed simp

locale vec_struct = struct_serde sd for sd :: "'s serde" +
  assumes array_append: "state_field sd s k = Some (JArray xs) \<Longrightarrow>
      state_field sd t k = Some (JArray (ys @ zs)) \<Longrightarrow> \<exists>u. state_field sd u k = Some (JArray (xs @ zs))"
begin

lemma field_value_eq: "field_value sd s k = state_field sd s k"
  using to_valueE [of s] by (force simp: field_value_def to_json_def state_field_def)

lemma union_fold:
  assumes "distinct (map fst ps)" and "\<forall>(k, v) \<in> set ps. \<exists>t. state_field sd t k = Some v"
    and "to_value sd s = Inr (JObject m)"
  shows "\<exists>u. to_value sd u = Inr (JObject
       (fold (\<lambda>(k, v) m. if map_of bm k = Some v then m else smap_insert k v m) ps m)) \<and>
     (\<forall>k. state_field sd u k = (case map_of ps k of
         Some v \<Rightarrow> if map_of bm k = Some v then state_field sd s k else Some v
       | None \<Rightarrow> state_field sd s k))"
  using assms
proof (induction ps arbitrary: s m)
  case (Cons p ps)
  obtain a v where p: "p = (a, v)" by force
  have none: "map_of ps a = None" using Cons.prems(1) by (simp add: p map_of_eq_None_iff)
  have ps: "distinct (map fst ps)" "\<forall>(k, v) \<in> set ps. \<exists>t. state_field sd t k = Some v"
    using Cons.prems(1,2) by auto
  show ?case
  proof (cases "map_of bm a = Some v")
    case True
    have "(case map_of (p # ps) k of
         Some v \<Rightarrow> if map_of bm k = Some v then state_field sd s k else Some v
       | None \<Rightarrow> state_field sd s k) = (case map_of ps k of
         Some v \<Rightarrow> if map_of bm k = Some v then state_field sd s k else Some v
       | None \<Rightarrow> state_field sd s k)" for k
      using True none by (simp add: p)
    with Cons.IH [OF ps Cons.prems(3)] True show ?thesis by (simp only: p fold_Cons) simp
  next
    case False
    obtain t where t: "state_field sd t a = Some v" using Cons.prems(2) by (auto simp: p)
    obtain u where u: "to_value sd u = Inr (JObject (smap_insert a v m))"
      "\<And>k. state_field sd u k = (if k = a then Some v else state_field sd s k)"
      using mix_state [OF Cons.prems(3) t] by metis
    have "(case map_of (p # ps) k of
         Some v \<Rightarrow> if map_of bm k = Some v then state_field sd s k else Some v
       | None \<Rightarrow> state_field sd s k) = (case map_of ps k of
         Some v \<Rightarrow> if map_of bm k = Some v then state_field sd u k else Some v
       | None \<Rightarrow> state_field sd u k)" for k
      using False none by (auto simp: p u(2) split: option.splits)
    with Cons.IH [OF ps u(1)] False show ?thesis by (simp only: p fold_Cons) simp
  qed
qed auto

lemma union_states_field:
  "\<exists>u. union_states sd base merged branch = Inr u \<and>
     (\<forall>k. state_field sd u k = (if state_field sd branch k = state_field sd base k
        then state_field sd merged k else state_field sd branch k))"
proof -
  obtain bm where bm: "to_value sd base = Inr (JObject bm)" "\<And>k. state_field sd base k = map_of bm k"
    using to_valueE [of base] by metis
  obtain ps where ps: "to_value sd branch = Inr (JObject ps)" "smap_wf ps"
      "\<And>k. state_field sd branch k = map_of ps k"
    using to_valueE [of branch] by metis
  obtain mm where mm: "to_value sd merged = Inr (JObject mm)" using to_valueE [of merged] by metis
  have "\<forall>(k, v) \<in> set ps. \<exists>t. state_field sd t k = Some v"
    using ps(2,3) smap_wf_distinct map_of_is_SomeI by (metis (mono_tags, lifting) case_prodI2)
  from union_fold [OF smap_wf_distinct [OF ps(2)] this mm, of bm]
  obtain u where "to_value sd u = Inr (JObject
      (fold (\<lambda>(k, v) m. if map_of bm k = Some v then m else smap_insert k v m) ps mm))"
    and u: "\<forall>k. state_field sd u k = (case map_of ps k of
         Some v \<Rightarrow> if map_of bm k = Some v then state_field sd merged k else Some v
       | None \<Rightarrow> state_field sd merged k)"
    by blast
  then have "union_states sd base merged branch = Inr u"
    using bm(1) ps(1) mm round_trip by (simp add: union_states_def to_json_def reassemble_def)
  moreover have "state_field sd u k = (if state_field sd branch k = state_field sd base k
      then state_field sd merged k else state_field sd branch k)" for k
    using u field_defined [of base k branch] by (auto simp: bm(2) ps(3) split: option.splits)
  ultimately show ?thesis by blast
qed

lemma union_branches_field:
  "\<exists>u. union_branches sd base bs merged = Inr u \<and>
     (\<forall>k. state_field sd u k = last_write sd base k bs (state_field sd merged k))"
proof (induction bs arbitrary: merged)
  case (Cons b bs)
  obtain u where u: "union_states sd base merged (pb_final_state b) = Inr u"
     "\<forall>k. state_field sd u k = (if state_field sd (pb_final_state b) k = state_field sd base k
        then state_field sd merged k else state_field sd (pb_final_state b) k)"
    using union_states_field by blast
  obtain v where "union_branches sd base bs u = Inr v"
    "\<forall>k. state_field sd v k = last_write sd base k bs (state_field sd u k)"
    using Cons.IH by blast
  with u show ?case by auto
qed simp

lemma patch_field_field:
  assumes "state_field sd out f = Some v"
  shows "\<exists>u. patch_field sd s out f = Inr u \<and>
     (\<forall>k. state_field sd u k = (if k = f then Some v else state_field sd s k))"
proof -
  obtain m where m: "to_value sd s = Inr (JObject m)" using to_valueE [of s] by metis
  obtain n where n: "to_value sd out = Inr (JObject n)" "\<And>k. state_field sd out k = map_of n k"
    using to_valueE [of out] by metis
  obtain u where "from_value sd (JObject (smap_insert f v m)) = Inr u"
    "\<And>a. state_field sd u a = (if a = f then Some v else state_field sd s a)"
    using mix_state [OF m assms] by metis
  then show ?thesis
    using m n assms by (simp add: patch_field_def to_json_def reassemble_def)
qed

lemma state_with_field_field:
  assumes "state_field sd t f = Some v"
  shows "\<exists>u. state_with_field sd s f v = Inr u \<and> state_field sd u f = Some v"
proof -
  obtain m where m: "to_value sd s = Inr (JObject m)" using to_valueE [of s] by metis
  obtain u where "from_value sd (JObject (smap_insert f v m)) = Inr u"
    "\<And>a. state_field sd u a = (if a = f then Some v else state_field sd s a)"
    using mix_state [OF m assms] by metis
  then show ?thesis
    using m by (simp add: state_with_field_def to_json_def reassemble_def)
qed

lemma delta_loop_valid:
  assumes "delta_loop sd f base_els bs un = Some arr"
    and "state_field sd t f = Some (JArray un)"
  shows "\<exists>u. state_field sd u f = Some (JArray arr)"
  using assms
proof (induction bs arbitrary: un t)
  case (Cons b bs)
  then obtain xs where xs: "array_value sd (pb_final_state b) f = Some xs"
    and rest: "delta_loop sd f base_els bs (un @ drop (length base_els) xs) = Some arr"
    by (auto split: option.splits if_splits)
  have "state_field sd (pb_final_state b) f = Some (JArray (take (length base_els) xs @ drop (length base_els) xs))"
    using xs by (auto simp: array_value_def field_value_eq bind_eq_Some_conv)
  from array_append [OF Cons.prems(2) this] Cons.IH [OF rest] show ?case by blast
qed auto

lemma reduce_fields_field:
  assumes "distinct (map fst fs)" and "\<forall>f \<in> fst ` set fs. state_field sd base f \<noteq> None"
  shows "\<exists>u. reduce_fields sd base bs fs merged = Inr u \<and>
     (\<forall>k. state_field sd u k = (case map_of fs k of
         Some r \<Rightarrow> reduced sd base bs k r | None \<Rightarrow> state_field sd merged k))"
  using assms
proof (induction fs arbitrary: merged)
  case (Cons p fs)
  obtain f r where p: "p = (f, r)" by force
  have none: "map_of fs f = None" using Cons.prems(1) by (simp add: p map_of_eq_None_iff)
  have "\<exists>u. (case delta_union_field sd base bs f of
          Some un \<Rightarrow> result_bind (state_with_field sd base f un) (\<lambda>out. patch_field sd merged out f)
        | None \<Rightarrow> patch_field sd merged (fold (\<lambda>b acc. r acc (pb_final_state b)) bs base) f) = Inr u \<and>
      (\<forall>k. state_field sd u k = (if k = f then reduced sd base bs f r else state_field sd merged k))"
  proof (cases "delta_union_field sd base bs f")
    case None
    let ?acc = "fold (\<lambda>b acc. r acc (pb_final_state b)) bs base"
    obtain v where "state_field sd ?acc f = Some v"
      using Cons.prems(2) field_defined [of base f ?acc] by (auto simp: p)
    from patch_field_field [OF this, of merged] this None show ?thesis by (auto simp: reduced_def)
  next
    case (Some v)
    then obtain els arr where els: "state_field sd base f = Some (JArray els)" and v: "v = JArray arr"
      and "delta_loop sd f els bs els = Some arr"
      by (auto simp: delta_union_field_def array_value_def field_value_eq bind_eq_Some_conv split: option.splits)
    then obtain t where "state_field sd t f = Some (JArray arr)" using delta_loop_valid by blast
    from state_with_field_field [OF this, of base] obtain u where
      u: "state_with_field sd base f v = Inr u" "state_field sd u f = Some v"
      by (auto simp: v)
    from patch_field_field [OF u(2), of merged] u Some show ?thesis by (auto simp: reduced_def)
  qed
  then obtain u where u: "(case delta_union_field sd base bs f of
          Some un \<Rightarrow> result_bind (state_with_field sd base f un) (\<lambda>out. patch_field sd merged out f)
        | None \<Rightarrow> patch_field sd merged (fold (\<lambda>b acc. r acc (pb_final_state b)) bs base) f) = Inr u"
      "\<forall>k. state_field sd u k = (if k = f then reduced sd base bs f r else state_field sd merged k)"
    by blast
  obtain u' where "reduce_fields sd base bs fs u = Inr u'"
     "\<forall>k. state_field sd u' k = (case map_of fs k of
         Some r \<Rightarrow> reduced sd base bs k r | None \<Rightarrow> state_field sd u k)"
    using Cons.IH [of u] Cons.prems by auto
  with u none show ?case by (auto simp: p Let_def split: option.splits)
qed simp

lemma array_value_eq: "array_value sd s k = Some xs \<longleftrightarrow> state_field sd s k = Some (JArray xs)"
  by (auto simp: array_value_def field_value_eq bind_eq_Some_conv)

lemma reduced_appends:
  assumes "state_field sd base k = Some (JArray els)"
    and "\<forall>b \<in> set bs. state_field sd (pb_final_state b) k = Some (JArray (els @ d b))"
  shows "reduced sd base bs k r = Some (JArray (els @ concat (map d bs)))"
  using assms delta_union_extends [of sd base k els bs d] by (simp add: reduced_def array_value_eq)

lemma reduced_folds:
  assumes "\<nexists>els. state_field sd base k = Some (JArray els) \<and>
     (\<forall>b \<in> set bs. \<exists>ds. state_field sd (pb_final_state b) k = Some (JArray (els @ ds)))"
  shows "reduced sd base bs k r = state_field sd (fold (\<lambda>b acc. r acc (pb_final_state b)) bs base) k"
proof -
  have "delta_union_field sd base bs k = None"
  proof (cases "array_value sd base k")
    case (Some els)
    with assms have "\<not> (\<forall>b \<in> set bs. \<exists>ds. array_value sd (pb_final_state b) k = Some (els @ ds))"
      by (auto simp: array_value_eq)
    with Some delta_loop_None [of sd k els bs] show ?thesis by (simp add: delta_union_field_def)
  qed (simp add: delta_union_field_def)
  then show ?thesis by (simp add: reduced_def)
qed

lemma merge_parallel_field:
  assumes "cg_serde g = sd" and "bs \<noteq> []" and "distinct (map fst (cg_field_reducers g))"
    and "\<forall>f \<in> fst ` set (cg_field_reducers g). state_field sd base f \<noteq> None"
  shows "\<exists>u. merge_parallel_states g bs base = Inr u \<and>
     (\<forall>k. state_field sd u k = (case map_of (cg_field_reducers g) k of
         Some r \<Rightarrow> reduced sd base bs k r
       | None \<Rightarrow> last_write sd base k bs (state_field sd base k)))"
proof -
  obtain v where v: "union_branches sd base bs base = Inr v"
    "\<forall>k. state_field sd v k = last_write sd base k bs (state_field sd base k)"
    using union_branches_field by blast
  from reduce_fields_field [OF assms(3,4), of bs v] v assms(1,2) show ?thesis
    by (auto simp: merge_parallel_states_def cong: option.case_cong)
qed

end


section \<open>The agent state\<close>

interpretation agent: vec_struct agent_serde
proof unfold_locales
  fix s t k xs ys zs
  assume s: "state_field agent_serde s k = Some (JArray xs)"
    and t: "state_field agent_serde t k = Some (JArray (ys @ zs))"
  have not_opt: "opt_json x \<noteq> JArray vs" for x vs by (cases x) auto
  consider "k = ''messages''" "xs = map me_json (as_messages s)" "ys @ zs = map me_json (as_messages t)"
    | "k = ''steps''" "xs = map se_json (as_steps s)" "ys @ zs = map se_json (as_steps t)"
    using s t by (auto simp: agent_state_field not_opt split: if_splits)
  then show "\<exists>u. state_field agent_serde u k = Some (JArray (xs @ zs))"
  proof cases
    case 1
    then have "zs = map me_json (drop (length ys) (as_messages t))" by (metis append_eq_conv_conj drop_map)
    with 1 show ?thesis
      by (intro exI [of _ "s\<lparr>as_messages := as_messages s @ drop (length ys) (as_messages t)\<rparr>"])
         (simp add: agent_state_field)
  next
    case 2
    then have "zs = map se_json (drop (length ys) (as_steps t))" by (metis append_eq_conv_conj drop_map)
    with 2 show ?thesis
      by (intro exI [of _ "s\<lparr>as_steps := as_steps s @ drop (length ys) (as_steps t)\<rparr>"])
         (simp add: agent_state_field)
  qed
qed

lemma agent_array_value:
  "array_value agent_serde s ''messages'' = Some (map me_json (as_messages s))"
  "array_value agent_serde s ''steps'' = Some (map se_json (as_steps s))"
  by (simp_all add: array_value_def agent.field_value_eq agent_state_field)

lemma last_write_agent:
  assumes "\<And>s. state_field agent_serde s k = Some (j (f s))" and "inj j"
  shows "last_write agent_serde base k bs (Some (j v)) =
    Some (j (fold (\<lambda>b v. if f (pb_final_state b) = f base then v else f (pb_final_state b)) bs v))"
  using assms by (induction bs arbitrary: v) (auto simp: inj_eq)

lemma inj_json [simp]: "inj JString" "inj opt_json" "inj me_json" "inj se_json"
proof -
  show "inj JString" by (rule injI) simp
  show "inj opt_json" by (rule injI) (metis opt_of_json_opt_json option.inject)
  show "inj me_json" by (rule injI) (metis me_of_json_me_json option.inject)
  show "inj se_json" by (rule injI) (metis se_of_json_se_json option.inject)
qed


section \<open>Properties\<close>

text \<open>
  C2. The merge of parallel branches for any derived struct state, field by field. A field without a
  registered reducer has the value of the last branch that changed it, and its value before the
  fan-out when no branch did: a branch that left the field alone never overwrites another
  branch's write. A field with a reducer, when it was an array before the fan-out and every branch
  extends that array, is the array followed by what each branch appended, in branch order: no
  branch's additions are lost and the common part is not repeated. In every other case it is
  what the reducer, folded over the branches from the state before the fan-out, leaves in that
  field. The merge does not fail.
\<close>

theorem merge_parallel_states_per_field:
  fixes g :: "('w, 's) compiled_graph"
  assumes sd: "vec_struct (cg_serde g)" and bs: "bs \<noteq> []"
    and fields: "distinct (map fst (cg_field_reducers g))"
      "\<forall>f \<in> fst ` set (cg_field_reducers g). state_field (cg_serde g) base f \<noteq> None"
  shows "\<exists>u. merge_parallel_states g bs base = Inr u \<and>
     (\<forall>k. map_of (cg_field_reducers g) k = None \<longrightarrow>
       state_field (cg_serde g) u k = last_write (cg_serde g) base k bs (state_field (cg_serde g) base k)) \<and>
     (\<forall>k r els d. map_of (cg_field_reducers g) k = Some r \<longrightarrow>
       state_field (cg_serde g) base k = Some (JArray els) \<longrightarrow>
       (\<forall>b \<in> set bs. state_field (cg_serde g) (pb_final_state b) k = Some (JArray (els @ d b))) \<longrightarrow>
       state_field (cg_serde g) u k = Some (JArray (els @ concat (map d bs)))) \<and>
     (\<forall>k r. map_of (cg_field_reducers g) k = Some r \<longrightarrow>
       (\<nexists>els. state_field (cg_serde g) base k = Some (JArray els) \<and>
          (\<forall>b \<in> set bs. \<exists>ds. state_field (cg_serde g) (pb_final_state b) k = Some (JArray (els @ ds)))) \<longrightarrow>
       state_field (cg_serde g) u k =
         state_field (cg_serde g) (fold (\<lambda>b acc. r acc (pb_final_state b)) bs base) k)"
proof -
  obtain u where u: "merge_parallel_states g bs base = Inr u"
    "\<And>k. state_field (cg_serde g) u k = (case map_of (cg_field_reducers g) k of
         Some r \<Rightarrow> reduced (cg_serde g) base bs k r
       | None \<Rightarrow> last_write (cg_serde g) base k bs (state_field (cg_serde g) base k))"
    using vec_struct.merge_parallel_field [OF sd refl bs fields] by blast
  then show ?thesis
    using vec_struct.reduced_appends [OF sd] vec_struct.reduced_folds [OF sd] by (intro exI [of _ u]) simp
qed

definition sample_inbox :: "unit inbox_ref" where
  "sample_inbox = \<lparr>ib_get = (\<lambda>_. []), ib_put = (\<lambda>_ w. w)\<rparr>"

definition agent_graph :: "(unit, agent_state) compiled_graph" where
  "agent_graph = compiled_graph_new agent_serde sample_inbox [] [] START replace_reduce
     [(''messages'', append_messages_reduce), (''steps'', append_steps_reduce)]"

lemma agent_graph_sel [simp]:
  "cg_serde agent_graph = agent_serde"
  "cg_field_reducers agent_graph = [(''messages'', append_messages_reduce), (''steps'', append_steps_reduce)]"
  by (simp_all add: agent_graph_def compiled_graph_new_def)

definition sample_branches :: "agent_state parallel_branch list" where
  "sample_branches =
     [\<lparr>pb_name = ''b1'', pb_final_state = add_message (me_ai ''x'') (agent_state_new ''q''), pb_steps = []\<rparr>,
      \<lparr>pb_name = ''b2'', pb_final_state = add_message (me_ai ''y'') (set_output ''z'' (agent_state_new ''q'')),
       pb_steps = []\<rparr>]"

definition rewriting_branches :: "agent_state parallel_branch list" where
  "rewriting_branches = sample_branches @
     [\<lparr>pb_name = ''b3'', pb_final_state = (agent_state_new ''q'')\<lparr>as_messages := [me_ai ''w'']\<rparr>, pb_steps = []\<rparr>]"

text \<open>
  Two branches that append a message each, one of them setting the output; and a third branch that
  replaces the messages, so that the reducer takes over.
\<close>

theorem merge_parallel_states_per_field_witness:
  "(\<exists>u. merge_parallel_states agent_graph sample_branches (agent_state_new ''q'') = Inr u \<and>
      state_field agent_serde u ''output'' = Some (JString ''z'') \<and>
      state_field agent_serde u ''messages'' = Some (JArray [me_json (me_human ''q''), me_json (me_ai ''x''), me_json (me_ai ''y'')])) \<and>
   (\<exists>u. merge_parallel_states agent_graph rewriting_branches (agent_state_new ''q'') = Inr u \<and>
      state_field agent_serde u ''messages'' = state_field agent_serde
        (fold (\<lambda>b acc. append_messages_reduce acc (pb_final_state b)) rewriting_branches (agent_state_new ''q'')) ''messages'')"
proof -
  let ?q = "agent_state_new ''q''"
  let ?d = "\<lambda>b. drop 1 (map me_json (as_messages (pb_final_state b)))"
  have g: "vec_struct (cg_serde agent_graph)" "distinct (map fst (cg_field_reducers agent_graph))"
    "\<forall>f \<in> fst ` set (cg_field_reducers agent_graph). state_field (cg_serde agent_graph) ?q f \<noteq> None"
    by (simp_all add: agent.vec_struct_axioms agent_state_field)
  have ne: "sample_branches \<noteq> []" "rewriting_branches \<noteq> []"
    by (simp_all add: sample_branches_def rewriting_branches_def)
  have base: "state_field agent_serde ?q ''messages'' = Some (JArray [me_json (me_human ''q'')])"
    by (simp add: agent_state_field agent_state_new_def)
  have out: "last_write agent_serde ?q ''output'' sample_branches (state_field agent_serde ?q ''output'') =
      Some (JString ''z'')"
    by (simp add: sample_branches_def agent_state_field add_message_def set_output_def agent_state_new_def)
  have ext: "\<forall>b \<in> set sample_branches. state_field agent_serde (pb_final_state b) ''messages'' =
      Some (JArray ([me_json (me_human ''q'')] @ ?d b))"
    by (simp add: sample_branches_def agent_state_field add_message_def set_output_def agent_state_new_def)
  have cat: "concat (map ?d sample_branches) = [me_json (me_ai ''x''), me_json (me_ai ''y'')]"
    by (simp add: sample_branches_def add_message_def set_output_def agent_state_new_def)
  have no_ext: "\<nexists>els. state_field agent_serde ?q ''messages'' = Some (JArray els) \<and>
      (\<forall>b \<in> set rewriting_branches. \<exists>ds. state_field agent_serde (pb_final_state b) ''messages'' = Some (JArray (els @ ds)))"
    by (simp add: rewriting_branches_def base)
       (simp add: agent_state_field inj_eq me_ai_def me_human_def)
  have reg: "map_of (cg_field_reducers agent_graph) ''messages'' = Some append_messages_reduce"
    "map_of (cg_field_reducers agent_graph) ''output'' = None"
    by simp_all
  note here = merge_parallel_states_per_field [OF g(1) _ g(2,3)]
  show ?thesis
  proof (rule conjI)
    show "\<exists>u. merge_parallel_states agent_graph sample_branches ?q = Inr u \<and>
        state_field agent_serde u ''output'' = Some (JString ''z'') \<and>
        state_field agent_serde u ''messages'' =
          Some (JArray [me_json (me_human ''q''), me_json (me_ai ''x''), me_json (me_ai ''y'')])"
      using here [OF ne(1)] unfolding agent_graph_sel(1)
    proof (elim exE conjE, goal_cases)
      case (1 u)
      have "state_field agent_serde u ''messages'' =
          Some (JArray ([me_json (me_human ''q'')] @ concat (map ?d sample_branches)))"
        by (rule 1(3) [rule_format, OF reg(1) base]) (rule bspec [OF ext])
      moreover have "state_field agent_serde u ''output'' = Some (JString ''z'')"
        using 1(2) [rule_format, OF reg(2)] out by (rule trans)
      ultimately show ?case using 1(1) unfolding cat by (intro exI [of _ u] conjI) (assumption | simp only: append_Cons append_Nil)+
    qed
    show "\<exists>u. merge_parallel_states agent_graph rewriting_branches ?q = Inr u \<and>
        state_field agent_serde u ''messages'' = state_field agent_serde
          (fold (\<lambda>b acc. append_messages_reduce acc (pb_final_state b)) rewriting_branches ?q) ''messages''"
      using here [OF ne(2)] unfolding agent_graph_sel(1)
    proof (elim exE conjE, goal_cases)
      case (1 u)
      from 1(4) [rule_format, OF reg(1) no_ext] 1(1) show ?case by (intro exI [of _ u] conjI)
    qed
  qed
qed

text \<open>
  The merge on \<open>AgentState\<close> with reducers registered for the messages and the steps: when every
  branch only appends to both, the merged state has the messages of the base once, followed by
  the messages each branch added, in branch order, and so for the steps; input and output are the
  last branch's that changed them.
\<close>

theorem merge_parallel_agent_appends:
  fixes g :: "('w, agent_state) compiled_graph"
  assumes g: "cg_serde g = agent_serde" "cg_field_reducers g = [(''messages'', rm), (''steps'', rs)]"
    and bs: "bs \<noteq> []"
    and msgs: "\<forall>b \<in> set bs. as_messages (pb_final_state b) = as_messages base @ dm b"
    and steps: "\<forall>b \<in> set bs. as_steps (pb_final_state b) = as_steps base @ ds b"
  shows "merge_parallel_states g bs base = Inr
     \<lparr>as_input = fold (\<lambda>b v. if as_input (pb_final_state b) = as_input base then v
         else as_input (pb_final_state b)) bs (as_input base),
      as_messages = as_messages base @ concat (map dm bs),
      as_steps = as_steps base @ concat (map ds bs),
      as_output = fold (\<lambda>b v. if as_output (pb_final_state b) = as_output base then v
         else as_output (pb_final_state b)) bs (as_output base)\<rparr>" (is "_ = Inr ?u")
proof -
  have m: "delta_union_field agent_serde base bs ''messages'' =
      Some (JArray (map me_json (as_messages ?u)))"
    using delta_union_extends [of agent_serde base "''messages''" _ bs "\<lambda>b. map me_json (dm b)"] msgs
    by (simp add: agent_array_value map_concat comp_def)
  have s: "delta_union_field agent_serde base bs ''steps'' =
      Some (JArray (map se_json (as_steps ?u)))"
    using delta_union_extends [of agent_serde base "''steps''" _ bs "\<lambda>b. map se_json (ds b)"] steps
    by (simp add: agent_array_value map_concat comp_def)
  obtain u where u: "merge_parallel_states g bs base = Inr u"
    "\<forall>k. state_field agent_serde u k = (case map_of (cg_field_reducers g) k of
         Some r \<Rightarrow> reduced agent_serde base bs k r
       | None \<Rightarrow> last_write agent_serde base k bs (state_field agent_serde base k))"
    using agent.merge_parallel_field [OF g(1) bs, of base] by (auto simp: g(2) agent_state_field)
  have "last_write agent_serde base ''input'' bs (Some (JString (as_input base))) =
      Some (JString (as_input ?u))"
    by (subst last_write_agent [where f = as_input]) (simp_all add: agent_state_field)
  moreover have "last_write agent_serde base ''output'' bs (Some (opt_json (as_output base))) =
      Some (opt_json (as_output ?u))"
    by (subst last_write_agent [where f = as_output]) (simp_all add: agent_state_field)
  moreover have "last_write agent_serde base k bs None = None" if "k \<notin> {''input'', ''messages'', ''output'', ''steps''}" for k
    using that by (induction bs) (auto simp: agent_state_field)
  ultimately have "state_field agent_serde u k = state_field agent_serde ?u k" for k
    using u(2) m s by (simp add: g(2) reduced_def agent_state_field)
  then have "u = ?u" by (rule agent.state_eqI)
  with u(1) show ?thesis by simp
qed

theorem merge_parallel_agent_appends_witness:
  "merge_parallel_states agent_graph sample_branches (agent_state_new ''q'') =
     Inr \<lparr>as_input = ''q'', as_messages = [me_human ''q'', me_ai ''x'', me_ai ''y''], as_steps = [],
       as_output = Some ''z''\<rparr>"
  using merge_parallel_agent_appends [of agent_graph append_messages_reduce append_steps_reduce
      sample_branches "agent_state_new ''q''"
      "\<lambda>b. drop 1 (as_messages (pb_final_state b))" "\<lambda>_. []"]
  by (simp add: sample_branches_def agent_state_new_def add_message_def set_output_def)

end
