(* ===== verification/Graph_Engine.thy ===== *)
theory Graph_Engine
  imports Graph_Validate Graph_Merge
begin

text \<open>
  Execution of a compiled graph (\<open>compiled/invoke.rs\<close>, \<open>compiled/parallel.rs\<close>, routing and fan-out of
  \<open>compiled/stream.rs\<close>). Every entry point is its loop as the code has it: the locals are a record,
  one iteration is a definition, the loop is \<open>eff_loop\<close>. Where the code repeats a block in several
  loops (saving a step's checkpoint, running a node and folding its update, interrupting after a
  node, running the branches of a fan-out) the block is one definition.

  The branches of a fan-out run concurrently in the code. In the model they run to their end one
  after the other in declaration order, which is one of the schedules, and all of them run before
  the first error is looked at, as \<open>join_all\<close> and \<open>buffered\<close> do. What a branch returns depends on
  the schedule only through shared objects its nodes write.
\<close>

section \<open>Budget and configuration\<close>

definition effective_limit :: "('w, 's) compiled_graph \<Rightarrow> node_config \<Rightarrow> nat" where
  "effective_limit g config =
     (if nc_recursion_limit config = 0 then cg_recursion_limit g
      else min (nc_recursion_limit config) (cg_recursion_limit g))"

definition make_node_config :: "nat \<Rightarrow> node_config \<Rightarrow> json option \<Rightarrow> node_config" where
  "make_node_config limit base resume =
     \<lparr>nc_recursion_limit = limit,
      nc_metadata = (case resume of
          Some v \<Rightarrow> smap_insert INTERRUPT_RESUME_KEY v (nc_metadata base)
        | None \<Rightarrow> nc_metadata base),
      nc_debug = nc_debug base\<rparr>"

section \<open>Running a node\<close>

definition CHECKPOINT_KEY :: string where
  "CHECKPOINT_KEY = ''__checkpoint_id''"

definition run_node ::
  "('w, 's) compiled_graph \<Rightarrow> 's \<Rightarrow> string \<Rightarrow> nat \<Rightarrow> node_config \<Rightarrow> ('w, 's state_update) geff" where
  "run_node g s current_node recursion_count config =
     eff_bind (lift_result (get_node g current_node)) (\<lambda>node.
       eff_catch (node_execute node s (Some config)) (\<lambda>e.
         case e of
           InterruptRequest payload \<Rightarrow>
             (case cg_checkpointer g of
                Some cp \<Rightarrow> eff_bind (cp_save cp s (recursion_count - 1)) (\<lambda>checkpoint_id.
                  err (DynamicInterrupt current_node
                        (json_insert CHECKPOINT_KEY (JString checkpoint_id) payload)))
              | None \<Rightarrow> err (DynamicInterrupt current_node payload))
         | _ \<Rightarrow> err e))"

definition fold_update :: "('w, 's) compiled_graph \<Rightarrow> 's \<Rightarrow> 's state_update \<Rightarrow> 's" where
  "fold_update g s upd = (case su_update upd of
      Some new_state \<Rightarrow> cg_default_reducer g s new_state
    | None \<Rightarrow> s)"

text \<open>Save a checkpoint when a checkpointer is attached, and record the step.\<close>

definition save_step ::
  "('w, 's) compiled_graph \<Rightarrow> 's \<Rightarrow> nat \<Rightarrow> string \<Rightarrow> execution_step list \<Rightarrow> ('w, execution_step list) geff" where
  "save_step g s recursion_count next_node steps =
     (case cg_checkpointer g of
        None \<Rightarrow> ok steps
      | Some cp \<Rightarrow> eff_bind (cp_save cp s recursion_count) (\<lambda>checkpoint_id.
          ok (steps @ [StepCheckpoint checkpoint_id next_node])))"

definition after_name :: "string \<Rightarrow> string" where
  "after_name n = ''after_'' @ n"

text \<open>
  Run the current node, fold its update into the state, record the step, and interrupt after it
  when so configured (the checkpoint is saved first).
\<close>

definition node_block ::
  "('w, 's) compiled_graph \<Rightarrow> node_config \<Rightarrow> 's \<Rightarrow> string \<Rightarrow> nat \<Rightarrow> execution_step list \<Rightarrow>
   ('w, 's \<times> execution_step list) geff" where
  "node_block g config s current_node recursion_count steps =
     eff_bind (run_node g s current_node recursion_count config) (\<lambda>upd.
       let s' = fold_update g s upd;
           steps' = steps @ [StepNode current_node (su_metadata upd)]
       in if current_node \<in> set (cg_interrupt_after g)
          then eff_bind (save_step g s' recursion_count (after_name current_node) steps') (\<lambda>_.
                 err (ExecutionInterrupted (after_name current_node)))
          else ok (s', steps'))"


section \<open>Routing\<close>

definition find_router :: "('w, 's) compiled_graph \<Rightarrow> string \<Rightarrow> ('w, 's) router option" where
  "find_router g name = (case map_of (cg_conditional_routers g) name of
      Some r \<Rightarrow> Some r
    | None \<Rightarrow> map_of (cg_runtime_routers g) name)"

text \<open>One edge whose source is the current node; \<open>None\<close> when it is a fan-in, which is skipped.\<close>

fun follow_edge ::
  "('w, 's) compiled_graph \<Rightarrow> string \<Rightarrow> string \<Rightarrow> 's \<Rightarrow> graph_edge \<Rightarrow> ('w, string option) geff" where
  "follow_edge g suffix current s (Fixed _ target) = ok (Some target)"
| "follow_edge g suffix current s (Conditional _ router_name targets default_target) =
     (case find_router g router_name of
        None \<Rightarrow> err (ExecutionError (''Router '' @ quoted router_name @ '' not found'' @ suffix))
      | Some router \<Rightarrow> eff_bind (router s) (\<lambda>route_key.
          case (case map_of targets route_key of Some t \<Rightarrow> Some t | None \<Rightarrow> default_target) of
            None \<Rightarrow> err (RoutingError (''No target for route '' @ quoted route_key @ suffix))
          | Some t \<Rightarrow> ok (Some t)))"
| "follow_edge g suffix current s (FanOut _ targets) =
     (if targets = [] then err (RoutingError (''FanOut has no targets'' @ suffix))
      else err (RoutingError (''FanOut edge from '' @ quoted current
             @ '' reached find_next_node; fan-out must be handled by the caller'')))"
| "follow_edge g suffix current s (FanIn _ _) = ok None"

definition is_fan_in_source :: "('w, 's) compiled_graph \<Rightarrow> string \<Rightarrow> bool" where
  "is_fan_in_source g node \<longleftrightarrow>
     list_ex (\<lambda>e. case fan_in_sources e of Some ss \<Rightarrow> node \<in> set ss | None \<Rightarrow> False) (cg_runtime_edges g) \<or>
     list_ex (\<lambda>e. case fan_in_sources e of Some ss \<Rightarrow> node \<in> set ss | None \<Rightarrow> False) (cg_edges g)"

definition no_edge :: "('w, 's) compiled_graph \<Rightarrow> string \<Rightarrow> ('w, string) geff" where
  "no_edge g current =
     (if current = cg_entry_point g \<and> length (cg_nodes g) = 1 then ok END
      else if is_fan_in_source g current then ok END
      else err (RoutingError (''No outgoing edge from node '' @ quoted current)))"

fun find_static ::
  "('w, 's) compiled_graph \<Rightarrow> string \<Rightarrow> 's \<Rightarrow> graph_edge list \<Rightarrow> ('w, string) geff" where
  "find_static g current s [] = no_edge g current"
| "find_static g current s (e # es) =
     (if edge_source e = current
      then eff_bind (follow_edge g [] current s e) (\<lambda>t.
             case t of Some target \<Rightarrow> ok target | None \<Rightarrow> find_static g current s es)
      else find_static g current s es)"

definition find_next_node :: "('w, 's) compiled_graph \<Rightarrow> string \<Rightarrow> 's \<Rightarrow> ('w, string) geff" where
  "find_next_node g current s =
     (case List.find (\<lambda>e. edge_source e = current) (cg_runtime_edges g) of
        Some e \<Rightarrow> eff_bind (follow_edge g '' (runtime)'' current s e) (\<lambda>t.
          case t of Some target \<Rightarrow> ok target | None \<Rightarrow> find_static g current s (cg_edges g))
      | None \<Rightarrow> find_static g current s (cg_edges g))"

fun first_fan_out :: "string \<Rightarrow> graph_edge list \<Rightarrow> string list option" where
  "first_fan_out current [] = None"
| "first_fan_out current (e # es) =
     (if edge_source e = current \<and> fan_out_targets e \<noteq> None then fan_out_targets e
      else first_fan_out current es)"

definition find_fan_out_targets :: "('w, 's) compiled_graph \<Rightarrow> string \<Rightarrow> string list option" where
  "find_fan_out_targets g current =
     (case Option.bind (List.find (\<lambda>e. edge_source e = current) (cg_runtime_edges g)) fan_out_targets of
        Some ts \<Rightarrow> Some ts
      | None \<Rightarrow> first_fan_out current (cg_edges g))"

fun first_fan_in :: "string list \<Rightarrow> graph_edge list \<Rightarrow> string option" where
  "first_fan_in sources [] = None"
| "first_fan_in sources (FanIn edge_sources target # es) =
     (if list_all (\<lambda>s. s \<in> set sources) edge_sources then Some target else first_fan_in sources es)"
| "first_fan_in sources (_ # es) = first_fan_in sources es"

text \<open>Of the runtime edges only the first fan-in is considered.\<close>

definition find_fan_in_target :: "('w, 's) compiled_graph \<Rightarrow> string list \<Rightarrow> string option" where
  "find_fan_in_target g sources =
     (case List.find (\<lambda>e. fan_in_sources e \<noteq> None) (cg_runtime_edges g) of
        Some (FanIn edge_sources target) \<Rightarrow>
          if list_all (\<lambda>s. s \<in> set sources) edge_sources then Some target
          else first_fan_in sources (cg_edges g)
      | _ \<Rightarrow> first_fan_in sources (cg_edges g))"


section \<open>Fan-out\<close>

definition attempt :: "('w, 'e, 'a) eff \<Rightarrow> ('w, 'e, 'e + 'a) eff" where
  "attempt m = (\<lambda>w. map_option (\<lambda>(r, w'). (Inr r, w')) (m w))"

fun join_all :: "('w, 'e, 'a) eff list \<Rightarrow> ('w, 'e, ('e + 'a) list) eff" where
  "join_all [] = ok []"
| "join_all (m # ms) = eff_bind (attempt m) (\<lambda>r. eff_bind (join_all ms) (\<lambda>rs. ok (r # rs)))"

fun all_ok :: "('e + 'a) list \<Rightarrow> 'e + 'a list" where
  "all_ok [] = Inr []"
| "all_ok (r # rs) = result_bind r (\<lambda>x. result_bind (all_ok rs) (\<lambda>xs. Inr (x # xs)))"

definition as_branch :: "string \<times> 's graph_invocation \<Rightarrow> 's parallel_branch" where
  "as_branch = (\<lambda>(name, inv).
     \<lparr>pb_name = name, pb_final_state = inv_final_state inv, pb_steps = inv_steps inv\<rparr>)"

definition branch_steps :: "(string \<times> 's graph_invocation) list \<Rightarrow> execution_step list" where
  "branch_steps results = map (\<lambda>(name, _). StepParallelNode name []) results"

definition or_END :: "string option \<Rightarrow> string" where
  "or_END t = (case t of Some n \<Rightarrow> n | None \<Rightarrow> END)"

text \<open>
  \<open>invoke_from_node_with_count\<close> and \<open>execute_parallel_branches\<close> call each other: a branch of a fan-out
  runs the former with the count of the fan-out.
\<close>

function from_node_loop ::
  "('w, 's) compiled_graph \<Rightarrow> string \<Rightarrow> 's \<Rightarrow> execution_step list \<Rightarrow> nat \<Rightarrow>
   ('w, 's graph_invocation) geff" where
  "from_node_loop g current_node s steps recursion_count =
     (if current_node = END
      then ok \<lparr>inv_final_state = s, inv_steps = steps, inv_recursion_count = recursion_count\<rparr>
      else if recursion_count \<ge> cg_recursion_limit g
      then err (RecursionLimitReached (cg_recursion_limit g))
      else if current_node \<in> set (cg_interrupt_before g)
      then err (ExecutionInterrupted current_node)
      else eff_bind (node_block g (make_node_config (cg_recursion_limit g) node_config_default None)
               s current_node (recursion_count + 1) steps) (\<lambda>(s', steps').
        case find_fan_out_targets g current_node of
          Some targets \<Rightarrow>
            eff_bind (eff_bind (join_all (map (\<lambda>target.
                eff_bind (from_node_loop g target s' [] (recursion_count + 2)) (\<lambda>inv. ok (target, inv)))
                (filter (\<lambda>t. t \<noteq> END) targets))) (\<lambda>rs. lift_result (all_ok rs)))
              (\<lambda>results.
                eff_bind (lift_result (merge_parallel_states g (map as_branch results) s')) (\<lambda>merged.
                  from_node_loop g (or_END (find_fan_in_target g targets)) merged
                    (steps' @ branch_steps results) (recursion_count + 2)))
        | None \<Rightarrow>
            eff_bind (find_next_node g current_node s') (\<lambda>next_node.
              from_node_loop g next_node s' steps' (recursion_count + 1))))"
  by pat_completeness auto

termination
  by (relation "measure (\<lambda>(g, _, _, _, rc). cg_recursion_limit g - rc)") auto

declare from_node_loop.simps [simp del]

definition invoke_from_node_with_count ::
  "('w, 's) compiled_graph \<Rightarrow> string \<Rightarrow> 's \<Rightarrow> nat \<Rightarrow> ('w, 's graph_invocation) geff" where
  "invoke_from_node_with_count g start_node s recursion_count =
     from_node_loop g start_node s [] recursion_count"

definition invoke_from_node ::
  "('w, 's) compiled_graph \<Rightarrow> string \<Rightarrow> 's \<Rightarrow> ('w, 's graph_invocation) geff" where
  "invoke_from_node g start_node s = invoke_from_node_with_count g start_node s 0"

text \<open>
  \<open>max_concurrency\<close> bounds how many branches are in flight; the results come in the order of the
  targets in both cases.
\<close>

definition execute_parallel_branches ::
  "('w, 's) compiled_graph \<Rightarrow> string list \<Rightarrow> 's \<Rightarrow> nat \<Rightarrow>
   ('w, (string \<times> 's graph_invocation) list) geff" where
  "execute_parallel_branches g targets s recursion_count =
     eff_bind (join_all (map (\<lambda>target.
         eff_bind (invoke_from_node_with_count g target s recursion_count) (\<lambda>inv. ok (target, inv)))
         (filter (\<lambda>t. t \<noteq> END) targets)))
       (\<lambda>rs. lift_result (all_ok rs))"


section \<open>The entry points\<close>

record 's locals =
  l_state :: 's
  l_node :: string
  l_steps :: "execution_step list"
  l_count :: nat

definition finish :: "'s locals \<Rightarrow> 's graph_invocation" where
  "finish l = \<lparr>inv_final_state = l_state l, inv_steps = l_steps l, inv_recursion_count = l_count l\<rparr>"

text \<open>The fan-out block of the loops that save a checkpoint after the merge.\<close>

definition fan_out_block ::
  "('w, 's) compiled_graph \<Rightarrow> string list \<Rightarrow> 's \<Rightarrow> execution_step list \<Rightarrow> nat \<Rightarrow> ('w, 's locals) geff" where
  "fan_out_block g targets s steps recursion_count =
     (let recursion_count' = recursion_count + 1
      in eff_bind (execute_parallel_branches g targets s recursion_count') (\<lambda>results.
           eff_bind (lift_result (merge_parallel_states g (map as_branch results) s)) (\<lambda>merged.
             let current_node = or_END (find_fan_in_target g targets)
             in eff_bind (save_step g merged recursion_count' current_node (steps @ branch_steps results))
               (\<lambda>steps'. ok \<lparr>l_state = merged, l_node = current_node, l_steps = steps', l_count = recursion_count'\<rparr>))))"

text \<open>Leaving the current node: through its fan-out, or to the next node.\<close>

definition advance ::
  "('w, 's) compiled_graph \<Rightarrow> string \<Rightarrow> 's \<Rightarrow> execution_step list \<Rightarrow> nat \<Rightarrow> ('w, 's locals) geff" where
  "advance g current_node s steps recursion_count =
     (case find_fan_out_targets g current_node of
        Some targets \<Rightarrow> fan_out_block g targets s steps recursion_count
      | None \<Rightarrow>
          eff_bind (find_next_node g current_node s) (\<lambda>next_node.
            eff_bind (save_step g s recursion_count next_node steps) (\<lambda>steps'.
              ok \<lparr>l_state = s, l_node = next_node, l_steps = steps', l_count = recursion_count\<rparr>)))"

definition invoke_body ::
  "('w, 's) compiled_graph \<Rightarrow> nat \<Rightarrow> node_config \<Rightarrow> 's locals \<Rightarrow>
   ('w, ('s locals, 's graph_invocation) control_flow) geff" where
  "invoke_body g limit config l =
     (if l_node l = END then ok (Break (finish l))
      else if l_count l \<ge> limit then err (RecursionLimitReached limit)
      else if l_node l \<in> set (cg_interrupt_before g) then err (ExecutionInterrupted (l_node l))
      else if l_node l \<noteq> START
      then eff_bind (node_block g (make_node_config limit config None) (l_state l) (l_node l)
               (l_count l + 1) (l_steps l)) (\<lambda>(s, steps).
             eff_bind (advance g (l_node l) s steps (l_count l + 1)) (\<lambda>l'. ok (Continue l')))
      else eff_bind (advance g (l_node l) (l_state l) (l_steps l) (l_count l)) (\<lambda>l'. ok (Continue l')))"

definition invoke_with_config ::
  "('w, 's) compiled_graph \<Rightarrow> 's \<Rightarrow> node_config \<Rightarrow> ('w, 's graph_invocation) geff" where
  "invoke_with_config g input config =
     eff_bind (save_step g input 0 (cg_entry_point g) []) (\<lambda>steps.
       eff_loop (invoke_body g (effective_limit g config) config)
         \<lparr>l_state = input, l_node = cg_entry_point g, l_steps = steps, l_count = 0\<rparr>)"

definition invoke :: "('w, 's) compiled_graph \<Rightarrow> 's \<Rightarrow> ('w, 's graph_invocation) geff" where
  "invoke g input = invoke_with_config g input node_config_default"

text \<open>\<open>rerun\<close> and \<open>first_node\<close> are the loop's constants, the resume value its further local.\<close>

definition execution_body ::
  "('w, 's) compiled_graph \<Rightarrow> bool \<Rightarrow> string \<Rightarrow> json option \<times> 's locals \<Rightarrow>
   ('w, (json option \<times> 's locals, 's graph_invocation) control_flow) geff" where
  "execution_body g rerun first_node = (\<lambda>(resume_value, l).
     if l_node l = END then ok (Break (finish l))
     else if l_count l \<ge> cg_recursion_limit g then err (RecursionLimitReached (cg_recursion_limit g))
     else if (l_node l \<noteq> first_node \<or> \<not> rerun) \<and> l_node l \<in> set (cg_interrupt_before g)
     then err (ExecutionInterrupted (l_node l))
     else eff_bind (node_block g (make_node_config (cg_recursion_limit g) node_config_default resume_value)
              (l_state l) (l_node l) (l_count l + 1) (l_steps l)) (\<lambda>(s, steps).
            eff_bind (advance g (l_node l) s steps (l_count l + 1)) (\<lambda>l'. ok (Continue (None, l')))))"

definition start_execution ::
  "('w, 's) compiled_graph \<Rightarrow> 's graph_execution \<Rightarrow> bool \<Rightarrow> ('w, 's locals) geff" where
  "start_execution g ex rerun =
     (if rerun then ok \<lparr>l_state = ge_state ex, l_node = ge_current_node ex, l_steps = ge_steps ex,
          l_count = ge_recursion_count ex\<rparr>
      else (case find_fan_out_targets g (ge_current_node ex) of
          Some targets \<Rightarrow>
            eff_bind (execute_parallel_branches g targets (ge_state ex) (ge_recursion_count ex + 1)) (\<lambda>results.
              eff_bind (lift_result (merge_parallel_states g (map as_branch results) (ge_state ex))) (\<lambda>merged.
                ok \<lparr>l_state = merged, l_node = or_END (find_fan_in_target g targets),
                    l_steps = ge_steps ex @ branch_steps results, l_count = ge_recursion_count ex + 1\<rparr>))
        | None \<Rightarrow> eff_bind (find_next_node g (ge_current_node ex) (ge_state ex)) (\<lambda>n.
            ok \<lparr>l_state = ge_state ex, l_node = n, l_steps = ge_steps ex, l_count = ge_recursion_count ex\<rparr>)))"

definition invoke_with_execution ::
  "('w, 's) compiled_graph \<Rightarrow> 's graph_execution \<Rightarrow> ('w, 's graph_invocation) geff" where
  "invoke_with_execution g ex =
     (let rerun = (ge_pending_interrupt ex \<noteq> None \<or> \<not> starts_with (ge_interrupted_at ex) ''after_'')
      in eff_bind (start_execution g ex rerun) (\<lambda>l.
           eff_loop (execution_body g rerun (l_node l)) (map_option pend_value (ge_pending_interrupt ex), l)))"

definition resume :: "('w, 's) compiled_graph \<Rightarrow> 's graph_execution \<Rightarrow> ('w, 's graph_invocation) geff" where
  "resume g ex = invoke_with_execution g ex"

text \<open>\<open>invoke_parallel\<close> keeps the branches of all its fan-outs in one list, and merges that list.\<close>

definition parallel_fan_out ::
  "('w, 's) compiled_graph \<Rightarrow> string list \<Rightarrow> 's \<Rightarrow> execution_step list \<Rightarrow> nat \<Rightarrow> 's parallel_branch list \<Rightarrow>
   ('w, 's locals \<times> 's parallel_branch list) geff" where
  "parallel_fan_out g targets s steps recursion_count branches =
     (let recursion_count' = recursion_count + 1
      in eff_bind (execute_parallel_branches g targets s recursion_count') (\<lambda>results.
           let branches' = branches @ map as_branch results
           in eff_bind (lift_result (merge_parallel_states g branches' s)) (\<lambda>merged.
             let current_node = or_END (find_fan_in_target g targets)
             in eff_bind (save_step g merged recursion_count' current_node (steps @ branch_steps results))
               (\<lambda>steps'. ok (\<lparr>l_state = merged, l_node = current_node, l_steps = steps',
                               l_count = recursion_count'\<rparr>, branches')))))"

definition parallel_advance ::
  "('w, 's) compiled_graph \<Rightarrow> string \<Rightarrow> 's \<Rightarrow> execution_step list \<Rightarrow> nat \<Rightarrow> 's parallel_branch list \<Rightarrow>
   ('w, 's locals \<times> 's parallel_branch list) geff" where
  "parallel_advance g current_node s steps recursion_count branches =
     (case find_fan_out_targets g current_node of
        Some targets \<Rightarrow> parallel_fan_out g targets s steps recursion_count branches
      | None \<Rightarrow>
          eff_bind (find_next_node g current_node s) (\<lambda>next_node.
            eff_bind (save_step g s recursion_count next_node steps) (\<lambda>steps'.
              ok (\<lparr>l_state = s, l_node = next_node, l_steps = steps', l_count = recursion_count\<rparr>, branches))))"

definition parallel_body ::
  "('w, 's) compiled_graph \<Rightarrow> 's locals \<times> 's parallel_branch list \<Rightarrow>
   ('w, ('s locals \<times> 's parallel_branch list, 's parallel_invocation) control_flow) geff" where
  "parallel_body g = (\<lambda>(l, branches).
     if l_node l = END
     then ok (Break \<lparr>pi_final_state = l_state l, pi_steps = l_steps l, pi_recursion_count = l_count l,
                     pi_parallel_branches = branches\<rparr>)
     else if l_count l \<ge> cg_recursion_limit g then err (RecursionLimitReached (cg_recursion_limit g))
     else if l_node l \<in> set (cg_interrupt_before g) then err (ExecutionInterrupted (l_node l))
     else if l_node l \<noteq> START
     then eff_bind (node_block g (make_node_config (cg_recursion_limit g) node_config_default None)
              (l_state l) (l_node l) (l_count l + 1) (l_steps l)) (\<lambda>(s, steps).
            eff_bind (parallel_advance g (l_node l) s steps (l_count l + 1) branches) (\<lambda>l'. ok (Continue l')))
     else eff_bind (parallel_advance g (l_node l) (l_state l) (l_steps l) (l_count l) branches)
            (\<lambda>l'. ok (Continue l')))"

definition invoke_parallel :: "('w, 's) compiled_graph \<Rightarrow> 's \<Rightarrow> ('w, 's parallel_invocation) geff" where
  "invoke_parallel g input =
     eff_bind (save_step g input 0 (cg_entry_point g) []) (\<lambda>steps.
       eff_loop (parallel_body g)
         (\<lparr>l_state = input, l_node = cg_entry_point g, l_steps = steps, l_count = 0\<rparr>, []))"

text \<open>\<open>invoke_dynamic\<close>: draining the inbox and registering what the planner makes of the tasks.\<close>

definition drain_inbox :: "('w, 's) compiled_graph \<Rightarrow> ('w, dynamic_task list) geff" where
  "drain_inbox g = (\<lambda>w. Some (Inr (ib_get (cg_task_inbox g) w), ib_put (cg_task_inbox g) [] w))"

definition map_err :: "('e \<Rightarrow> 'f) \<Rightarrow> ('w, 'e, 'a) eff \<Rightarrow> ('w, 'f, 'a) eff" where
  "map_err h m = (\<lambda>w. map_option (\<lambda>(r, w'). (map_sum h id r, w')) (m w))"

definition apply_injection ::
  "('w, 's) dynamic_injection \<Rightarrow> ('w, 's) compiled_graph \<Rightarrow> ('w, 's) compiled_graph" where
  "apply_injection di g =
     g\<lparr>cg_runtime_nodes := fold (\<lambda>(name, node) m. smap_insert name node m) (inj_nodes di) (cg_runtime_nodes g),
       cg_runtime_edges := cg_runtime_edges g @ inj_edges di\<rparr>"

definition plan_pending ::
  "('w, 's) planner \<Rightarrow> ('w, 's) compiled_graph \<Rightarrow> 's \<Rightarrow> ('w, ('w, 's) compiled_graph) geff" where
  "plan_pending planner g s =
     eff_bind (drain_inbox g) (\<lambda>pending.
       if pending = [] then ok g
       else eff_bind (map_err RuntimeError (planner pending s)) (\<lambda>di. ok (apply_injection di g)))"

definition dynamic_body ::
  "('w, 's) planner \<Rightarrow> ('w, 's) compiled_graph \<times> 's locals \<Rightarrow>
   ('w, (('w, 's) compiled_graph \<times> 's locals, ('w, 's) compiled_graph \<times> 's graph_invocation) control_flow) geff" where
  "dynamic_body planner = (\<lambda>(g0, l).
     if l_node l = END then ok (Break (g0, finish l))
     else if l_count l \<ge> cg_recursion_limit g0 then err (RecursionLimitReached (cg_recursion_limit g0))
     else eff_bind (plan_pending planner g0 (l_state l)) (\<lambda>g.
       if l_node l \<in> set (cg_interrupt_before g)
       then eff_bind (save_step g (l_state l) (l_count l) (l_node l) (l_steps l)) (\<lambda>_.
              err (ExecutionInterrupted (l_node l)))
       else eff_bind (node_block g (make_node_config (cg_recursion_limit g) node_config_default None)
              (l_state l) (l_node l) (l_count l + 1) (l_steps l)) (\<lambda>(s, steps).
            eff_bind (advance g (l_node l) s steps (l_count l + 1)) (\<lambda>l'. ok (Continue (g, l'))))))"

text \<open>The graph is returned with the nodes and edges that were injected (an error does not return it).\<close>

definition invoke_dynamic ::
  "('w, 's) compiled_graph \<Rightarrow> 's \<Rightarrow> ('w, 's) planner \<Rightarrow>
   ('w, ('w, 's) compiled_graph \<times> 's graph_invocation) geff" where
  "invoke_dynamic g input planner =
     eff_bind (save_step g input 0 (cg_entry_point g) []) (\<lambda>steps.
       eff_loop (dynamic_body planner)
         (g, \<lparr>l_state = input, l_node = cg_entry_point g, l_steps = steps, l_count = 0\<rparr>))"

end
