(* ===== verification/Graph_Engine_Laws.thy ===== *)
theory Graph_Engine_Laws
  imports Graph_Engine
begin

text \<open>
  Laws of the execution loops: they return when the nodes, routers and the checkpointer do; the
  recursion budget bounds the nodes they run; routing in a valid graph leads to registered nodes.
\<close>

section \<open>Effects that return and keep an invariant\<close>

definition keeps :: "('w \<Rightarrow> bool) \<Rightarrow> ('w, 'e, 'a) eff \<Rightarrow> bool" where
  "keeps I m \<longleftrightarrow> (\<forall>w. I w \<longrightarrow> (\<exists>r w'. m w = Some (r, w') \<and> I w'))"

named_theorems keeps_intros \<open>rules for effects that return and keep an invariant\<close>

lemma keepsI: "(\<And>w. I w \<Longrightarrow> \<exists>r w'. m w = Some (r, w') \<and> I w') \<Longrightarrow> keeps I m"
  by (simp add: keeps_def)

lemma keepsE:
  assumes "keeps I m" and "I w"
  obtains r w' where "m w = Some (r, w')" and "I w'"
  using assms by (auto simp: keeps_def)

lemma keeps_D: "keeps I m \<Longrightarrow> I w \<Longrightarrow> m w = Some (r, w') \<Longrightarrow> I w'"
  by (fastforce simp: keeps_def)

lemma keeps_not_None: "keeps I m \<Longrightarrow> I w \<Longrightarrow> m w \<noteq> None"
  by (fastforce simp: keeps_def)

lemma keeps_ok [keeps_intros]: "keeps I (ok x)"
  by (simp add: keeps_def)

lemma keeps_err [keeps_intros]: "keeps I (err e)"
  by (simp add: keeps_def)

lemma keeps_lift_result [keeps_intros]: "keeps I (lift_result r)"
  by (simp add: keeps_def lift_result_def)

lemma keeps_bind_result:
  assumes "keeps I m" and "\<And>w x w'. I w \<Longrightarrow> m w = Some (Inr x, w') \<Longrightarrow> keeps I (f x)"
  shows "keeps I (eff_bind m f)"
proof (rule keepsI)
  fix w
  assume w: "I w"
  with assms(1) obtain r w' where m: "m w = Some (r, w')" "I w'" by (rule keepsE)
  show "\<exists>r w'. eff_bind m f w = Some (r, w') \<and> I w'"
  proof (cases r)
    case (Inl e)
    with m show ?thesis by (simp add: eff_bind_def)
  next
    case (Inr x)
    then have "keeps I (f x)" using assms(2) [OF w] m by simp
    then obtain r' w'' where "f x w' = Some (r', w'')" "I w''" using m(2) by (rule keepsE)
    with m Inr show ?thesis by (simp add: eff_bind_def)
  qed
qed

lemma keeps_bind [keeps_intros]: "keeps I m \<Longrightarrow> (\<And>x. keeps I (f x)) \<Longrightarrow> keeps I (eff_bind m f)"
  by (rule keeps_bind_result)

lemma keeps_catch [keeps_intros]:
  assumes "keeps I m" and "\<And>e. keeps I (h e)"
  shows "keeps I (eff_catch m h)"
proof (rule keepsI)
  fix w
  assume "I w"
  with assms(1) obtain r w' where m: "m w = Some (r, w')" "I w'" by (rule keepsE)
  show "\<exists>r w'. eff_catch m h w = Some (r, w') \<and> I w'"
  proof (cases r)
    case (Inl e)
    from assms(2) m(2) obtain r' w'' where "h e w' = Some (r', w'')" "I w''" by (rule keepsE)
    with m Inl show ?thesis by (simp add: eff_catch_def)
  next
    case (Inr x)
    with m show ?thesis by (simp add: eff_catch_def)
  qed
qed

lemma keeps_attempt [keeps_intros]: "keeps I m \<Longrightarrow> keeps I (attempt m)"
  by (fastforce simp: keeps_def attempt_def)

lemma keeps_map_err [keeps_intros]: "keeps I m \<Longrightarrow> keeps I (map_err h m)"
  by (fastforce simp: keeps_def map_err_def)

lemma keeps_join_all [keeps_intros]: "(\<And>m. m \<in> set ms \<Longrightarrow> keeps I m) \<Longrightarrow> keeps I (join_all ms)"
  by (induction ms) (auto intro!: keeps_intros)

lemma keeps_if: "(b \<Longrightarrow> keeps I m) \<Longrightarrow> (\<not> b \<Longrightarrow> keeps I n) \<Longrightarrow> keeps I (if b then m else n)"
  by simp

lemma keeps_option:
  "(x = None \<Longrightarrow> keeps I m) \<Longrightarrow> (\<And>y. x = Some y \<Longrightarrow> keeps I (n y)) \<Longrightarrow>
   keeps I (case x of None \<Rightarrow> m | Some y \<Rightarrow> n y)"
  by (cases x) auto

lemma keeps_prod: "(\<And>a b. x = (a, b) \<Longrightarrow> keeps I (f a b)) \<Longrightarrow> keeps I (case x of (a, b) \<Rightarrow> f a b)"
  by (cases x) auto

lemmas keeps_splits = keeps_if keeps_option keeps_prod

text \<open>A loop whose iterations return, keep the invariant and decrease a measure.\<close>

lemma keeps_loop:
  assumes body: "\<And>c. P c \<Longrightarrow> keeps I (body c)"
    and decr: "\<And>c w c' w'. P c \<Longrightarrow> I w \<Longrightarrow> body c w = Some (Inr (Continue c'), w') \<Longrightarrow>
        P c' \<and> (m c' :: nat) < m c"
    and "P c"
  shows "keeps I (eff_loop body c)"
  using \<open>P c\<close>
proof (induction "m c" arbitrary: c rule: less_induct)
  case less
  show ?case
  proof (rule keepsI)
    fix w
    assume I: "I w"
    with body [OF less.prems] obtain r w' where r: "body c w = Some (r, w')" "I w'" by (rule keepsE)
    show "\<exists>r w'. eff_loop body c w = Some (r, w') \<and> I w'"
    proof (cases r)
      case (Inl e)
      with r show ?thesis by (simp add: eff_loop.simps)
    next
      case (Inr k)
      show ?thesis
      proof (cases k)
        case (Break x)
        with r Inr show ?thesis by (simp add: eff_loop.simps)
      next
        case (Continue c')
        with decr [OF less.prems I] r Inr have "P c'" "m c' < m c" by auto
        from keepsE [OF less.hyps [OF this(2,1)] r(2)] r Inr Continue show ?thesis
          by (metis (no_types, lifting) bind.bind_lunit case_prod_conv control_flow.simps(5)
              eff_loop.simps sum.simps(6))
      qed
    qed
  qed
qed


section \<open>Execution returns\<close>

text \<open>
  What execution needs of the code it calls: the nodes, the routers and the checkpointer's \<open>save\<close>
  return, and keep \<open>I\<close>.
\<close>

definition well_behaved :: "('w \<Rightarrow> bool) \<Rightarrow> ('w, 's) compiled_graph \<Rightarrow> bool" where
  "well_behaved I g \<longleftrightarrow>
     (\<forall>n node. get_node g n = Inr node \<longrightarrow> (\<forall>s c. keeps I (node_execute node s c))) \<and>
     (\<forall>n r. find_router g n = Some r \<longrightarrow> (\<forall>s. keeps I (r s))) \<and>
     (\<forall>cp. cg_checkpointer g = Some cp \<longrightarrow> (\<forall>s rc. keeps I (cp_save cp s rc)))"

lemma keeps_save_step: "well_behaved I g \<Longrightarrow> keeps I (save_step g s rc n steps)"
  unfolding save_step_def by (intro keeps_splits keeps_intros) (auto simp: well_behaved_def)

lemma keeps_run_node:
  assumes "well_behaved I g"
  shows "keeps I (run_node g s n rc cfg)"
proof (cases "get_node g n")
  case (Inl e)
  then show ?thesis by (simp add: run_node_def keeps_err)
next
  case (Inr node)
  have "keeps I (case e of
           InterruptRequest payload \<Rightarrow>
             (case cg_checkpointer g of
                Some cp \<Rightarrow> eff_bind (cp_save cp s (rc - 1)) (\<lambda>checkpoint_id.
                  err (DynamicInterrupt n (json_insert CHECKPOINT_KEY (JString checkpoint_id) payload)))
              | None \<Rightarrow> err (DynamicInterrupt n payload))
         | _ \<Rightarrow> err e)" for e :: graph_error
    using assms
    by (cases e) (auto simp: well_behaved_def keeps_err intro!: keeps_option keeps_intros)
  with Inr assms show ?thesis
    by (auto simp: run_node_def well_behaved_def intro!: keeps_intros)
qed

lemma keeps_node_block: "well_behaved I g \<Longrightarrow> keeps I (node_block g cfg s n rc steps)"
  unfolding node_block_def Let_def
  by (intro keeps_bind keeps_run_node keeps_if keeps_save_step keeps_intros)

lemma keeps_follow_edge: "well_behaved I g \<Longrightarrow> keeps I (follow_edge g sfx n s e)"
proof (cases e)
  case (Conditional src rn ts dt)
  assume "well_behaved I g"
  with Conditional show ?thesis
    by (auto simp: well_behaved_def keeps_err intro!: keeps_option keeps_intros split: option.splits)
qed (auto intro: keeps_intros)

lemma keeps_find_static: "well_behaved I g \<Longrightarrow> keeps I (find_static g n s es)"
proof (induction es)
  case Nil
  then show ?case by (auto simp: no_edge_def intro: keeps_intros)
next
  case (Cons e es)
  then show ?case by (auto intro!: keeps_bind keeps_follow_edge keeps_option keeps_intros)
qed

lemma keeps_find_next_node: "well_behaved I g \<Longrightarrow> keeps I (find_next_node g n s)"
  unfolding find_next_node_def
  by (intro keeps_option keeps_bind keeps_follow_edge keeps_find_static keeps_intros)

text \<open>
  The loop from a node, with the fan-out written by \<open>execute_parallel_branches\<close>, and induction over
  the budget that is left.
\<close>

lemma from_node_loop_unfold:
  "from_node_loop g n s steps rc =
     (if n = END then ok \<lparr>inv_final_state = s, inv_steps = steps, inv_recursion_count = rc\<rparr>
      else if rc \<ge> cg_recursion_limit g then err (RecursionLimitReached (cg_recursion_limit g))
      else if n \<in> set (cg_interrupt_before g) then err (ExecutionInterrupted n)
      else eff_bind (node_block g (make_node_config (cg_recursion_limit g) node_config_default None)
               s n (rc + 1) steps) (\<lambda>(s', steps').
        case find_fan_out_targets g n of
          Some targets \<Rightarrow> eff_bind (execute_parallel_branches g targets s' (rc + 2)) (\<lambda>results.
            eff_bind (lift_result (merge_parallel_states g (map as_branch results) s')) (\<lambda>merged.
              from_node_loop g (or_END (find_fan_in_target g targets)) merged
                (steps' @ branch_steps results) (rc + 2)))
        | None \<Rightarrow> eff_bind (find_next_node g n s') (\<lambda>next_node.
            from_node_loop g next_node s' steps' (rc + 1))))"
  unfolding execute_parallel_branches_def invoke_from_node_with_count_def
  by (subst from_node_loop.simps) (rule refl)

lemma from_node_loop_END [simp]:
  "from_node_loop g END s steps rc =
     ok \<lparr>inv_final_state = s, inv_steps = steps, inv_recursion_count = rc\<rparr>"
  by (subst from_node_loop_unfold) simp

lemma from_node_induct [case_names step]:
  fixes P :: "string \<Rightarrow> 's \<Rightarrow> execution_step list \<Rightarrow> nat \<Rightarrow> bool"
  assumes "\<And>n s steps rc. (\<And>n' s' steps' rc'. rc < limit \<Longrightarrow> rc < rc' \<Longrightarrow> P n' s' steps' rc') \<Longrightarrow> P n s steps rc"
  shows "P n s steps rc"
proof (induction "limit - rc" arbitrary: n s steps rc rule: less_induct)
  case less
  show ?case
  proof (rule assms)
    show "P n' s' steps' rc'" if "rc < limit" "rc < rc'" for n' s' steps' rc'
      using that by (intro less) simp
  qed
qed

lemma keeps_branches:
  assumes "\<And>t. keeps I (from_node_loop g t s [] rc)"
  shows "keeps I (execute_parallel_branches g targets s rc)"
  unfolding execute_parallel_branches_def invoke_from_node_with_count_def
  by (intro keeps_bind keeps_join_all keeps_lift_result) (auto intro!: keeps_bind keeps_ok assms)

lemma keeps_from_node_loop:
  assumes wb: "well_behaved I g"
  shows "keeps I (from_node_loop g n s steps rc)"
proof (induction n s steps rc rule: from_node_induct [of "cg_recursion_limit g"])
  case (step n s steps rc)
  show ?case
    by (subst from_node_loop_unfold, intro keeps_if keeps_prod keeps_option keeps_bind keeps_ok keeps_err
        keeps_lift_result keeps_branches keeps_node_block [OF wb] keeps_find_next_node [OF wb] step) auto
qed

lemma keeps_execute_parallel_branches:
  "well_behaved I g \<Longrightarrow> keeps I (execute_parallel_branches g targets s rc)"
  by (intro keeps_branches keeps_from_node_loop)

lemma keeps_advance: "well_behaved I g \<Longrightarrow> keeps I (advance g n s steps rc)"
  unfolding advance_def fan_out_block_def Let_def
  by (intro keeps_option keeps_bind keeps_execute_parallel_branches keeps_find_next_node keeps_save_step
      keeps_intros)

lemma keeps_invoke_body: "well_behaved I g \<Longrightarrow> keeps I (invoke_body g limit cfg l)"
  unfolding invoke_body_def
  by (intro keeps_if keeps_prod keeps_bind keeps_node_block keeps_advance keeps_intros)

lemma keeps_execution_body: "well_behaved I g \<Longrightarrow> keeps I (execution_body g rerun fst_n c)"
  unfolding execution_body_def
  by (intro keeps_if keeps_prod keeps_bind keeps_node_block keeps_advance keeps_intros)



section \<open>Where routing leads\<close>

lemma follow_edge_target:
  "follow_edge g sfx n s e w = Some (Inr (Some t), w') \<Longrightarrow> t \<in> set (edge_targets e)"
  by (cases e)
     (auto elim!: eff_bind_InrE dest!: map_of_SomeD split: option.splits if_splits intro: rev_image_eqI)

lemma find_static_target:
  "find_static g n s es w = Some (Inr t, w') \<Longrightarrow>
   t = END \<or> (\<exists>e \<in> set es. edge_source e = n \<and> t \<in> set (edge_targets e))"
proof (induction es arbitrary: w)
  case Nil
  then show ?case by (auto simp: no_edge_def split: if_splits)
next
  case (Cons e es)
  show ?case
  proof (cases "edge_source e = n")
    case True
    with Cons.prems obtain x w1 where x: "follow_edge g [] n s e w = Some (Inr x, w1)"
      "(case x of Some target \<Rightarrow> ok target | None \<Rightarrow> find_static g n s es) w1 = Some (Inr t, w')"
      by (auto elim!: eff_bind_InrE)
    show ?thesis
    proof (cases x)
      case None
      with x Cons.IH show ?thesis by auto
    next
      case (Some a)
      with x follow_edge_target [of g "[]" n s e w a] True show ?thesis by auto
    qed
  next
    case False
    with Cons show ?thesis by auto
  qed
qed

lemma find_next_node_target:
  assumes "find_next_node g n s w = Some (Inr t, w')"
  shows "t = END \<or> (\<exists>e \<in> set (cg_runtime_edges g @ cg_edges g). edge_source e = n \<and> t \<in> set (edge_targets e))"
proof (cases "List.find (\<lambda>e. edge_source e = n) (cg_runtime_edges g)")
  case None
  with assms find_static_target [of g n s "cg_edges g" w t w'] show ?thesis by (auto simp: find_next_node_def)
next
  case (Some e)
  with assms obtain x w1 where x: "follow_edge g '' (runtime)'' n s e w = Some (Inr x, w1)"
    "(case x of Some target \<Rightarrow> ok target | None \<Rightarrow> find_static g n s (cg_edges g)) w1 = Some (Inr t, w')"
    by (auto simp: find_next_node_def elim!: eff_bind_InrE)
  have e: "e \<in> set (cg_runtime_edges g)" "edge_source e = n" using Some by (auto dest: find_Some_in)
  show ?thesis
  proof (cases x)
    case None
    with x find_static_target [of g n s "cg_edges g" w1 t w'] show ?thesis by auto
  next
    case (Some a)
    with x follow_edge_target [of g "'' (runtime)''" n s e w a] e show ?thesis by auto
  qed
qed

lemma first_fan_out_edge:
  "first_fan_out n es = Some ts \<Longrightarrow> FanOut n ts \<in> set es"
proof (induction es)
  case (Cons e es)
  then show ?case by (cases e) (auto split: if_splits)
qed simp

lemma find_fan_out_edge:
  assumes "find_fan_out_targets g n = Some ts"
  shows "FanOut n ts \<in> set (cg_runtime_edges g @ cg_edges g)"
proof (cases "Option.bind (List.find (\<lambda>e. edge_source e = n) (cg_runtime_edges g)) fan_out_targets")
  case None
  with assms show ?thesis by (auto simp: find_fan_out_targets_def dest: first_fan_out_edge)
next
  case (Some ts')
  then obtain e where "List.find (\<lambda>e. edge_source e = n) (cg_runtime_edges g) = Some e" "fan_out_targets e = Some ts'"
    by (auto simp: bind_eq_Some_conv)
  then have "e \<in> set (cg_runtime_edges g)" "edge_source e = n" "fan_out_targets e = Some ts'"
    by (auto dest: find_Some_in)
  with assms Some show ?thesis by (cases e) (auto simp: find_fan_out_targets_def)
qed

lemma first_fan_in_edge: "first_fan_in ss es = Some t \<Longrightarrow> \<exists>fs. FanIn fs t \<in> set es"
  by (induction ss es rule: first_fan_in.induct) (auto split: if_splits)

lemma find_fan_in_edge:
  assumes "find_fan_in_target g ss = Some t"
  shows "\<exists>fs. FanIn fs t \<in> set (cg_runtime_edges g @ cg_edges g)"
proof (cases "List.find (\<lambda>e. fan_in_sources e \<noteq> None) (cg_runtime_edges g)")
  case None
  with assms show ?thesis by (auto simp: find_fan_in_target_def dest: first_fan_in_edge)
next
  case (Some e)
  then have "e \<in> set (cg_runtime_edges g)" by (auto dest: find_Some_in)
  with assms Some show ?thesis
    by (cases e) (auto simp: find_fan_in_target_def dest: first_fan_in_edge split: if_splits)
qed

text \<open>No edge, of the builder or injected, leads back to \<open>START\<close>.\<close>

definition no_start :: "('w, 's) compiled_graph \<Rightarrow> bool" where
  "no_start g \<longleftrightarrow> START \<notin> all_targets (cg_runtime_edges g @ cg_edges g)"

lemma all_targets_edge: "e \<in> set es \<Longrightarrow> t \<in> set (edge_targets e) \<Longrightarrow> t \<in> all_targets es"
  by (cases e) (force simp: all_targets_def)+

lemma all_targets_fan_in: "FanIn fs t \<in> set es \<Longrightarrow> t \<in> all_targets es"
  by (force simp: all_targets_def)

text \<open>What the loops' way on leaves: the count never falls, and the next node is a target.\<close>

text \<open>The nodes that the recorded steps say were run.\<close>

fun executed :: "execution_step list \<Rightarrow> string list" where
  "executed [] = []"
| "executed (StepNode n m # steps) = n # executed steps"
| "executed (StepCheckpoint i n # steps) = executed steps"
| "executed (StepParallelNode n m # steps) = executed steps"

lemma executed_append [simp]: "executed (xs @ ys) = executed xs @ executed ys"
  by (induction xs rule: executed.induct) auto

lemma executed_branch_steps [simp]: "executed (branch_steps rs) = []"
  by (induction rs) (auto simp: branch_steps_def)

lemma save_step_executed:
  "save_step g s rc n steps w = Some (Inr steps', w') \<Longrightarrow> executed steps' = executed steps"
  by (auto simp: save_step_def elim!: eff_bind_InrE split: option.splits)

lemma advance_result:
  assumes "advance g n s steps rc w = Some (Inr l, w')"
  shows "rc \<le> l_count l" and "l_count l \<le> rc + 1"
    and "l_node l = END \<or> l_node l \<in> all_targets (cg_runtime_edges g @ cg_edges g)"
    and "find_fan_out_targets g n = None \<Longrightarrow> l_count l = rc"
proof -
  have "rc \<le> l_count l \<and> l_count l \<le> rc + 1 \<and>
    (l_node l = END \<or> l_node l \<in> all_targets (cg_runtime_edges g @ cg_edges g)) \<and>
    (find_fan_out_targets g n = None \<longrightarrow> l_count l = rc)"
  proof (cases "find_fan_out_targets g n")
    case None
    with assms obtain t w1 where "find_next_node g n s w = Some (Inr t, w1)" "l_node l = t" "l_count l = rc"
      by (auto simp: advance_def elim!: eff_bind_InrE)
    with find_next_node_target [of g n s w t w1] show ?thesis
      using all_targets_edge by fastforce
  next
    case (Some ts)
    with assms have "l_node l = or_END (find_fan_in_target g ts)" "l_count l = rc + 1"
      by (auto simp: advance_def fan_out_block_def Let_def elim!: eff_bind_InrE)
    with Some show ?thesis
      using find_fan_in_edge [of g ts] all_targets_fan_in [of _ _ "cg_runtime_edges g @ cg_edges g"]
      by (cases "find_fan_in_target g ts") (fastforce simp: or_END_def)+
  qed
  then show "rc \<le> l_count l" "l_count l \<le> rc + 1"
    "l_node l = END \<or> l_node l \<in> all_targets (cg_runtime_edges g @ cg_edges g)"
    "find_fan_out_targets g n = None \<Longrightarrow> l_count l = rc" by auto
qed

lemma invoke_body_continue:
  assumes "invoke_body g limit cfg l w = Some (Inr (Continue l'), w')"
  shows "l_node l \<noteq> END" and "l_count l < limit"
    and "l_count l + (if l_node l = START then 0 else 1) \<le> l_count l'"
    and "l_count l' \<le> l_count l + 2"
    and "l_node l' = END \<or> l_node l' \<in> all_targets (cg_runtime_edges g @ cg_edges g)"
proof -
  have *: "l_node l \<noteq> END" "l_count l < limit"
    using assms by (auto simp: invoke_body_def split: if_splits)
  then obtain s steps rc w1 where "advance g (l_node l) s steps rc w1 = Some (Inr l', w')"
    and rc: "rc = l_count l + (if l_node l = START then 0 else 1)"
    using assms by (auto simp: invoke_body_def split: if_splits elim!: eff_bind_InrE)
  from advance_result [OF this(1)] * rc
  show "l_node l \<noteq> END" "l_count l < limit"
    "l_count l + (if l_node l = START then 0 else 1) \<le> l_count l'" "l_count l' \<le> l_count l + 2"
    "l_node l' = END \<or> l_node l' \<in> all_targets (cg_runtime_edges g @ cg_edges g)"
    by (auto split: if_splits)
qed

lemma keeps_invoke_loop:
  assumes wb: "well_behaved I g" and ns: "no_start g"
  shows "keeps I (eff_loop (invoke_body g limit cfg) l)"
proof (rule keeps_loop [where P = "\<lambda>_. True" and
      m = "\<lambda>l. 2 * (limit - l_count l) + (if l_node l = START then 1 else 0)"])
  show "keeps I (invoke_body g limit cfg l)" for l by (rule keeps_invoke_body [OF wb])
  show "True \<and> 2 * (limit - l_count l') + (if l_node l' = START then 1 else 0) <
      2 * (limit - l_count l) + (if l_node l = START then 1 else 0)"
    if "invoke_body g limit cfg l w = Some (Inr (Continue l'), w')" for l w l' w'
    using invoke_body_continue [OF that] ns by (auto simp: no_start_def)
qed simp

lemma execution_body_continue:
  assumes "execution_body g rerun f (v, l) w = Some (Inr (Continue (v', l')), w')"
  shows "l_node l \<noteq> END" and "l_count l < cg_recursion_limit g" and "l_count l + 1 \<le> l_count l'"
    and "l_count l' \<le> l_count l + 2" and "v' = None"
proof -
  obtain s steps w1 where "advance g (l_node l) s steps (l_count l + 1) w1 = Some (Inr l', w')"
    and "v' = None" and "l_node l \<noteq> END" and "l_count l < cg_recursion_limit g"
    using assms by (auto simp: execution_body_def split: if_splits elim!: eff_bind_InrE)
  with advance_result [OF this(1)] show "l_node l \<noteq> END" "l_count l < cg_recursion_limit g"
    "l_count l + 1 \<le> l_count l'" "l_count l' \<le> l_count l + 2" "v' = None"
    by auto
qed

lemma keeps_execution_loop:
  assumes wb: "well_behaved I g"
  shows "keeps I (eff_loop (execution_body g rerun f) c)"
proof (rule keeps_loop [where P = "\<lambda>_. True" and m = "\<lambda>(_, l). cg_recursion_limit g - l_count l"])
  show "keeps I (execution_body g rerun f c)" for c by (rule keeps_execution_body [OF wb])
  show "True \<and> (case c' of (_, l) \<Rightarrow> cg_recursion_limit g - l_count l) <
      (case c of (_, l) \<Rightarrow> cg_recursion_limit g - l_count l)"
    if "execution_body g rerun f c w = Some (Inr (Continue c'), w')" for c w c' w'
    using that execution_body_continue [of g rerun f "fst c" "snd c" w "fst c'" "snd c'" w']
    by (auto split: prod.splits)
qed simp

lemma keeps_start_execution: "well_behaved I g \<Longrightarrow> keeps I (start_execution g ex rerun)"
  unfolding start_execution_def
  by (intro keeps_if keeps_option keeps_bind keeps_execute_parallel_branches keeps_find_next_node
      keeps_ok keeps_lift_result)

end
