(* ===== verification/Graph_Engine_Props.thy ===== *)
theory Graph_Engine_Props
  imports Graph_Engine_Laws
begin

text \<open>
  Properties of execution: it returns, it stays inside the recursion budget, a validated graph
  routes to registered nodes; and the behaviours of the loops that depart from what the
  documentation of the methods says.
\<close>

section \<open>The parallel and the dynamic loop\<close>

lemma parallel_advance_result:
  assumes "parallel_advance g n s steps rc bs w = Some (Inr (l, bs'), w')"
  shows "rc \<le> l_count l" and "l_count l \<le> rc + 1"
    and "l_node l = END \<or> l_node l \<in> all_targets (cg_runtime_edges g @ cg_edges g)"
proof -
  have "rc \<le> l_count l \<and> l_count l \<le> rc + 1 \<and>
    (l_node l = END \<or> l_node l \<in> all_targets (cg_runtime_edges g @ cg_edges g))"
  proof (cases "find_fan_out_targets g n")
    case None
    with assms obtain t w1 where "find_next_node g n s w = Some (Inr t, w1)" "l_node l = t" "l_count l = rc"
      by (auto simp: parallel_advance_def elim!: eff_bind_InrE)
    with find_next_node_target [of g n s w t w1] show ?thesis
      using all_targets_edge by fastforce
  next
    case (Some ts)
    with assms have "l_node l = or_END (find_fan_in_target g ts)" "l_count l = rc + 1"
      by (auto simp: parallel_advance_def parallel_fan_out_def Let_def elim!: eff_bind_InrE)
    with Some show ?thesis
      using find_fan_in_edge [of g ts] all_targets_fan_in [of _ _ "cg_runtime_edges g @ cg_edges g"]
      by (cases "find_fan_in_target g ts") (fastforce simp: or_END_def)+
  qed
  then show "rc \<le> l_count l" "l_count l \<le> rc + 1"
    "l_node l = END \<or> l_node l \<in> all_targets (cg_runtime_edges g @ cg_edges g)" by auto
qed

lemma keeps_parallel_body: "well_behaved I g \<Longrightarrow> keeps I (parallel_body g c)"
  unfolding parallel_body_def parallel_advance_def parallel_fan_out_def Let_def
  by (intro keeps_if keeps_prod keeps_option keeps_bind keeps_node_block keeps_execute_parallel_branches
      keeps_find_next_node keeps_save_step keeps_ok keeps_err keeps_lift_result)

lemma parallel_body_continue:
  assumes "parallel_body g (l, bs) w = Some (Inr (Continue (l', bs')), w')"
  shows "l_count l < cg_recursion_limit g"
    and "l_count l + (if l_node l = START then 0 else 1) \<le> l_count l'"
    and "l_node l' = END \<or> l_node l' \<in> all_targets (cg_runtime_edges g @ cg_edges g)"
proof -
  have *: "l_count l < cg_recursion_limit g"
    using assms by (auto simp: parallel_body_def split: if_splits)
  then obtain s steps rc w1 where "parallel_advance g (l_node l) s steps rc bs w1 = Some (Inr (l', bs'), w')"
    and rc: "rc = l_count l + (if l_node l = START then 0 else 1)"
    using assms by (auto simp: parallel_body_def split: if_splits elim!: eff_bind_InrE)
  from parallel_advance_result [OF this(1)] * rc
  show "l_count l < cg_recursion_limit g"
    "l_count l + (if l_node l = START then 0 else 1) \<le> l_count l'"
    "l_node l' = END \<or> l_node l' \<in> all_targets (cg_runtime_edges g @ cg_edges g)"
    by auto
qed

lemma keeps_parallel_loop:
  assumes wb: "well_behaved I g" and ns: "no_start g"
  shows "keeps I (eff_loop (parallel_body g) c)"
proof (rule keeps_loop [where P = "\<lambda>_. True" and
      m = "\<lambda>(l, _). 2 * (cg_recursion_limit g - l_count l) + (if l_node l = START then 1 else 0)"])
  show "keeps I (parallel_body g c)" for c by (rule keeps_parallel_body [OF wb])
  show "True \<and> (case c' of (l, _) \<Rightarrow>
        2 * (cg_recursion_limit g - l_count l) + (if l_node l = START then 1 else 0)) <
      (case c of (l, _) \<Rightarrow> 2 * (cg_recursion_limit g - l_count l) + (if l_node l = START then 1 else 0))"
    if "parallel_body g c w = Some (Inr (Continue c'), w')" for c w c' w'
    using that parallel_body_continue [of g "fst c" "snd c" w "fst c'" "snd c'" w'] ns
    by (auto simp: no_start_def split: prod.splits)
qed simp

text \<open>A planner that returns, and whose nodes do.\<close>

definition good_planner :: "('w \<Rightarrow> bool) \<Rightarrow> ('w, 's) planner \<Rightarrow> bool" where
  "good_planner I planner \<longleftrightarrow>
     (\<forall>ts s. keeps I (planner ts s)) \<and>
     (\<forall>ts s w di w'. planner ts s w = Some (Inr di, w') \<longrightarrow>
        (\<forall>(n, node) \<in> set (inj_nodes di). \<forall>s c. keeps I (node_execute node s c)))"

lemma map_of_fold_insert:
  "map_of (fold (\<lambda>(k, v) m. smap_insert k v m) kvs m) k = Some v \<Longrightarrow>
   (k, v) \<in> set kvs \<or> map_of m k = Some v"
proof (induction kvs arbitrary: m)
  case (Cons p kvs)
  from Cons.IH [of "smap_insert (fst p) (snd p) m"] Cons.prems show ?case
    by (cases p) (auto split: if_splits)
qed simp

lemma well_behaved_injection:
  assumes "well_behaved I g"
    and nodes: "\<forall>(n, node) \<in> set (inj_nodes di). \<forall>s c. keeps I (node_execute node s c)"
  shows "well_behaved I (apply_injection di g)"
proof -
  let ?g = "apply_injection di g"
  have "keeps I (node_execute node s c)" if "get_node ?g n = Inr node" for n node s c
  proof -
    have "(n, node) \<in> set (inj_nodes di) \<or> get_node g n = Inr node"
      using that by (auto simp: get_node_def apply_injection_def dest: map_of_fold_insert split: option.splits)
    with assms nodes show ?thesis by (auto simp: well_behaved_def)
  qed
  moreover have "find_router ?g = find_router g" "cg_checkpointer ?g = cg_checkpointer g"
    by (simp_all add: fun_eq_iff find_router_def apply_injection_def split: option.split)
  ultimately show ?thesis using assms(1) by (simp add: well_behaved_def)
qed

lemma plan_pending_well_behaved:
  assumes "good_planner I planner" and "well_behaved I g" and "plan_pending planner g s w = Some (Inr g', w')"
  shows "well_behaved I g' \<and> cg_recursion_limit g' = cg_recursion_limit g \<and> cg_task_inbox g' = cg_task_inbox g"
proof -
  consider "g' = g" | di ts w1 where "g' = apply_injection di g" "planner ts s w1 = Some (Inr di, w')"
    using assms(3) by (auto simp: plan_pending_def map_err_def elim!: eff_bind_InrE split: if_splits sum.splits)
      (metis Inl_Inr_False map_sum.simps(1) map_sum.simps(2) id_apply obj_sumE sum.inject(2))
  then show ?thesis
  proof cases
    case 2
    with assms(1) have "\<forall>(n, node) \<in> set (inj_nodes di). \<forall>s c. keeps I (node_execute node s c)"
      unfolding good_planner_def by blast
    with 2 assms(2) show ?thesis by (auto simp: well_behaved_injection) (simp_all add: apply_injection_def)
  qed (use assms(2) in simp)
qed

lemma keeps_plan_pending:
  assumes "good_planner I planner" and "\<And>w. I w \<Longrightarrow> I (ib_put (cg_task_inbox g) [] w)"
  shows "keeps I (plan_pending planner g s)"
proof -
  have "keeps I (drain_inbox g)" using assms(2) by (simp add: keeps_def drain_inbox_def)
  moreover have "keeps I (planner ts s)" for ts s using assms(1) by (simp add: good_planner_def)
  ultimately show ?thesis
    unfolding plan_pending_def by (intro keeps_bind keeps_if keeps_ok keeps_map_err)
qed

lemma dynamic_body_continue:
  assumes "dynamic_body planner (g, l) w = Some (Inr (Continue (g', l')), w')"
  shows "l_count l < cg_recursion_limit g" and "l_count l + 1 \<le> l_count l'"
    and "\<exists>w1. plan_pending planner g (l_state l) w = Some (Inr g', w1)"
proof -
  obtain s steps w1 w2 where "advance g' (l_node l) s steps (l_count l + 1) w2 = Some (Inr l', w')"
    and "plan_pending planner g (l_state l) w = Some (Inr g', w1)" and "l_count l < cg_recursion_limit g"
    using assms by (auto simp: dynamic_body_def split: if_splits elim!: eff_bind_InrE)
  with advance_result [OF this(1)] show "l_count l < cg_recursion_limit g" "l_count l + 1 \<le> l_count l'"
    "\<exists>w1. plan_pending planner g (l_state l) w = Some (Inr g', w1)" by auto
qed

lemma keeps_dynamic_loop:
  assumes wb: "well_behaved I g" and pl: "good_planner I planner"
    and inbox: "\<And>w. I w \<Longrightarrow> I (ib_put (cg_task_inbox g) [] w)"
  shows "keeps I (eff_loop (dynamic_body planner) (g, l))"
proof (rule keeps_loop [where
      P = "\<lambda>(g', _). well_behaved I g' \<and> cg_task_inbox g' = cg_task_inbox g" and
      m = "\<lambda>(g, l). cg_recursion_limit g - l_count l"])
  show "keeps I (dynamic_body planner c)"
    if "case c of (g', _) \<Rightarrow> well_behaved I g' \<and> cg_task_inbox g' = cg_task_inbox g" for c
  proof -
    obtain g' l where c: "c = (g', l)" by force
    have wb': "well_behaved I g'" and ib: "cg_task_inbox g' = cg_task_inbox g" using that c by auto
    have plan: "keeps I (plan_pending planner g' (l_state l))"
      by (rule keeps_plan_pending [OF pl]) (simp add: ib inbox)
    show ?thesis
      unfolding c dynamic_body_def case_prod_conv
    proof (intro keeps_if keeps_ok keeps_err keeps_bind_result [OF plan])
      fix w h w'
      assume "plan_pending planner g' (l_state l) w = Some (Inr h, w')"
      then have "well_behaved I h" using plan_pending_well_behaved [OF pl wb'] by auto
      then show "keeps I (eff_bind (save_step h (l_state l) (l_count l) (l_node l) (l_steps l)) (\<lambda>_.
              err (ExecutionInterrupted (l_node l))))"
        and "keeps I (eff_bind (node_block h (make_node_config (cg_recursion_limit h) node_config_default None)
              (l_state l) (l_node l) (l_count l + 1) (l_steps l)) (\<lambda>(s, steps).
            eff_bind (advance h (l_node l) s steps (l_count l + 1)) (\<lambda>l'. ok (Continue (h, l')))))"
        by (intro keeps_prod keeps_bind keeps_node_block keeps_advance keeps_save_step keeps_ok keeps_err; simp)+
    qed
  qed
  show "(case c' of (g', _) \<Rightarrow> well_behaved I g' \<and> cg_task_inbox g' = cg_task_inbox g) \<and>
      (case c' of (g, l) \<Rightarrow> cg_recursion_limit g - l_count l) < (case c of (g, l) \<Rightarrow> cg_recursion_limit g - l_count l)"
    if "case c of (g', _) \<Rightarrow> well_behaved I g' \<and> cg_task_inbox g' = cg_task_inbox g"
      and "dynamic_body planner c w = Some (Inr (Continue c'), w')" for c w c' w'
    using that dynamic_body_continue [of planner "fst c" "snd c" w "fst c'" "snd c'" w']
      plan_pending_well_behaved [OF pl, of "fst c" "l_state (snd c)" w "fst c'"]
    by (auto split: prod.splits)
qed (use wb in simp)



section \<open>Termination\<close>

lemma keeps_invoke_with_config:
  "well_behaved I g \<Longrightarrow> no_start g \<Longrightarrow> keeps I (invoke_with_config g s cfg)"
  unfolding invoke_with_config_def by (intro keeps_bind keeps_save_step keeps_invoke_loop)

text \<open>
  C4. Execution returns. When the nodes, the routers and the checkpointer's \<open>save\<close> return, then every
  entry point returns (with a result or an error), whatever cycles the graph has: \<open>invoke_from_node\<close>
  and \<open>invoke_with_execution\<close> always, \<open>invoke_with_config\<close> and \<open>invoke_parallel\<close> when no edge targets
  \<open>START\<close>, which these two do not count as a step, and \<open>invoke_dynamic\<close> with a planner that returns
  and injects nodes that do. \<open>I\<close> is any invariant of the world these calls keep.
\<close>

theorem execution_returns:
  fixes g :: "('w, 's) compiled_graph"
  assumes wb: "well_behaved I g" and w: "I w"
  shows "invoke_from_node g n s w \<noteq> None \<and> invoke_with_execution g ex w \<noteq> None \<and>
     (no_start g \<longrightarrow> invoke_with_config g s cfg w \<noteq> None \<and> invoke_parallel g s w \<noteq> None) \<and>
     (good_planner I planner \<longrightarrow> (\<forall>w. I w \<longrightarrow> I (ib_put (cg_task_inbox g) [] w)) \<longrightarrow>
        invoke_dynamic g s planner w \<noteq> None)"
proof (intro conjI impI)
  show "invoke_from_node g n s w \<noteq> None"
    unfolding invoke_from_node_def invoke_from_node_with_count_def
    by (rule keeps_not_None [OF keeps_from_node_loop [OF wb] w])
  show "invoke_with_execution g ex w \<noteq> None"
    unfolding invoke_with_execution_def Let_def
    by (rule keeps_not_None [OF keeps_bind [OF keeps_start_execution [OF wb] keeps_execution_loop [OF wb]] w])
  show "invoke_with_config g s cfg w \<noteq> None" if "no_start g"
    unfolding invoke_with_config_def
    by (rule keeps_not_None [OF keeps_bind [OF keeps_save_step [OF wb] keeps_invoke_loop [OF wb that]] w])
  show "invoke_parallel g s w \<noteq> None" if "no_start g"
    unfolding invoke_parallel_def
    by (rule keeps_not_None [OF keeps_bind [OF keeps_save_step [OF wb] keeps_parallel_loop [OF wb that]] w])
  show "invoke_dynamic g s planner w \<noteq> None"
    if "good_planner I planner" and "\<forall>w. I w \<longrightarrow> I (ib_put (cg_task_inbox g) [] w)"
    unfolding invoke_dynamic_def
    by (rule keeps_not_None [OF keeps_bind [OF keeps_save_step [OF wb] keeps_dynamic_loop [OF wb that(1)]] w])
       (use that(2) in blast)
qed

text \<open>A graph of one node that goes to itself for ever.\<close>

definition spin_graph :: "(unit, nat) compiled_graph" where
  "spin_graph = compiled_graph_new \<lparr>to_value = (\<lambda>n. Inr (JInt (int n))), from_value = (\<lambda>_. Inl [])\<rparr>
     sample_inbox [(''a'', sync_node ''a'' (\<lambda>n. Inr (su_full (Suc n))))] [Fixed ''a'' ''a'']
     ''a'' replace_reduce []"

lemma spin_graph_sel [simp]:
  "cg_nodes spin_graph = [(''a'', sync_node ''a'' (\<lambda>n. Inr (su_full (Suc n))))]"
  "cg_edges spin_graph = [Fixed ''a'' ''a'']" "cg_runtime_edges spin_graph = []"
  "cg_runtime_nodes spin_graph = []" "cg_entry_point spin_graph = ''a''"
  "cg_conditional_routers spin_graph = []" "cg_runtime_routers spin_graph = []"
  "cg_checkpointer spin_graph = None" "cg_recursion_limit spin_graph = 25"
  "cg_interrupt_before spin_graph = []" "cg_interrupt_after spin_graph = []"
  "cg_default_reducer spin_graph = replace_reduce"
  by (simp_all add: spin_graph_def compiled_graph_new_def)

lemma spin_graph_ok: "well_behaved (\<lambda>_. True) spin_graph" "no_start spin_graph"
  by (auto simp: well_behaved_def get_node_def find_router_def sync_node_def keeps_ok
      no_start_def all_targets_def START_def split: option.splits if_splits)

theorem execution_returns_witness:
  "invoke_with_config spin_graph 0 node_config_default () \<noteq> None"
  using execution_returns [OF spin_graph_ok(1), where w = "()"] spin_graph_ok(2) by blast



section \<open>The recursion budget\<close>

lemma node_block_steps:
  "node_block g cfg s n rc steps w = Some (Inr (s', steps'), w') \<Longrightarrow>
   executed steps' = executed steps @ [n] \<and> n \<notin> set (cg_interrupt_after g)"
  by (auto simp: node_block_def Let_def elim!: eff_bind_InrE split: if_splits)

lemma advance_executed:
  assumes "advance g n s steps rc w = Some (Inr l, w')"
  shows "executed (l_steps l) = executed steps"
proof (cases "find_fan_out_targets g n")
  case None
  with assms show ?thesis by (auto simp: advance_def elim!: eff_bind_InrE dest!: save_step_executed)
next
  case (Some ts)
  with assms show ?thesis
    by (auto simp: advance_def fan_out_block_def Let_def elim!: eff_bind_InrE dest!: save_step_executed)
qed

definition in_budget :: "nat \<Rightarrow> 's locals \<Rightarrow> bool" where
  "in_budget limit l \<longleftrightarrow> length (executed (l_steps l)) \<le> l_count l \<and>
     length (executed (l_steps l)) \<le> limit \<and> l_count l \<le> limit + 1"

lemma invoke_body_budget:
  "hoare (\<lambda>_. in_budget limit l) (invoke_body g limit cfg l)
     (\<lambda>k _. case k of Continue l' \<Rightarrow> in_budget limit l' | Break iv \<Rightarrow>
        length (executed (inv_steps iv)) \<le> limit \<and> inv_recursion_count iv \<le> limit + 1) (\<lambda>_ _. True)"
proof (rule hoareI)
  fix w k w'
  assume b: "in_budget limit l" and k: "invoke_body g limit cfg l w = Some (Inr k, w')"
  show "case k of Continue l' \<Rightarrow> in_budget limit l' | Break iv \<Rightarrow>
        length (executed (inv_steps iv)) \<le> limit \<and> inv_recursion_count iv \<le> limit + 1"
  proof (cases k)
    case (Break iv)
    with k have "iv = finish l" by (auto simp: invoke_body_def split: if_splits elim!: eff_bind_InrE)
    with b Break show ?thesis by (simp add: finish_def in_budget_def)
  next
    case (Continue l')
    have lt: "l_count l < limit" using invoke_body_continue [OF k [unfolded Continue]] by simp
    obtain s steps rc w1 where adv: "advance g (l_node l) s steps rc w1 = Some (Inr l', w')"
      and "rc = l_count l + (if l_node l = START then 0 else 1)"
      and "executed steps = executed (l_steps l) @ (if l_node l = START then [] else [l_node l])"
      using k Continue
      by (auto simp: invoke_body_def split: if_splits elim!: eff_bind_InrE dest!: node_block_steps)
    with b lt advance_result [OF adv] advance_executed [OF adv] Continue show ?thesis
      by (auto simp: in_budget_def split: if_splits)
  qed
qed simp

lemma execution_body_budget:
  "hoare (\<lambda>_. in_budget (cg_recursion_limit g) (snd c)) (execution_body g rerun f c)
     (\<lambda>k _. case k of Continue c' \<Rightarrow> in_budget (cg_recursion_limit g) (snd c') | Break iv \<Rightarrow>
        length (executed (inv_steps iv)) \<le> cg_recursion_limit g \<and>
        inv_recursion_count iv \<le> cg_recursion_limit g + 1) (\<lambda>_ _. True)"
proof (rule hoareI)
  fix w k w'
  obtain v l where c: "c = (v, l)" by force
  assume b: "in_budget (cg_recursion_limit g) (snd c)" and k: "execution_body g rerun f c w = Some (Inr k, w')"
  show "case k of Continue c' \<Rightarrow> in_budget (cg_recursion_limit g) (snd c') | Break iv \<Rightarrow>
        length (executed (inv_steps iv)) \<le> cg_recursion_limit g \<and>
        inv_recursion_count iv \<le> cg_recursion_limit g + 1"
  proof (cases k)
    case (Break iv)
    with k have "iv = finish l" by (auto simp: c execution_body_def split: if_splits elim!: eff_bind_InrE)
    with b Break show ?thesis by (simp add: c finish_def in_budget_def)
  next
    case (Continue c')
    obtain s steps l' w1 where adv: "advance g (l_node l) s steps (l_count l + 1) w1 = Some (Inr l', w')"
      and "l_count l < cg_recursion_limit g" and "c' = (None, l')"
      and "executed steps = executed (l_steps l) @ [l_node l]"
      using k Continue
      by (auto simp: c execution_body_def split: if_splits elim!: eff_bind_InrE dest!: node_block_steps)
    with b advance_result [OF adv] advance_executed [OF adv] Continue show ?thesis
      by (auto simp: c in_budget_def)
  qed
qed simp

lemma from_node_loop_budget:
  assumes "from_node_loop g n s steps rc w = Some (Inr iv, w')"
  shows "rc \<le> inv_recursion_count iv \<and> inv_recursion_count iv \<le> max rc (cg_recursion_limit g + 1) \<and>
     rc + length (executed (inv_steps iv)) \<le> length (executed steps) + max rc (cg_recursion_limit g)"
  using assms
proof (induction n s steps rc arbitrary: w rule: from_node_induct [of "cg_recursion_limit g"])
  case (step n s steps rc)
  show ?case
  proof (cases "n = END")
    case True
    with step.prems show ?thesis by auto
  next
    case False
    with step.prems have lt: "rc < cg_recursion_limit g"
      by (auto simp: from_node_loop_unfold [of g n] split: if_splits)
    obtain s' steps' n' rc' extra w1 where "executed steps' = executed steps @ [n]"
      and "from_node_loop g n' s' (steps' @ extra) rc' w1 = Some (Inr iv, w')"
      and "rc' = rc + 1 \<or> rc' = rc + 2" and "executed extra = []"
    proof -
      obtain s1 steps1 w1 where blk: "executed steps1 = executed steps @ [n]"
        and rest: "(case find_fan_out_targets g n of
          Some targets \<Rightarrow> eff_bind (execute_parallel_branches g targets s1 (rc + 2)) (\<lambda>results.
            eff_bind (lift_result (merge_parallel_states g (map as_branch results) s1)) (\<lambda>merged.
              from_node_loop g (or_END (find_fan_in_target g targets)) merged
                (steps1 @ branch_steps results) (rc + 2)))
        | None \<Rightarrow> eff_bind (find_next_node g n s1) (\<lambda>next_node.
            from_node_loop g next_node s1 steps1 (rc + 1))) w1 = Some (Inr iv, w')"
        using step.prems False lt
        by (subst (asm) from_node_loop_unfold)
           (auto split: if_splits elim!: eff_bind_InrE dest!: node_block_steps)
      show thesis
      proof (cases "find_fan_out_targets g n")
        case None
        with rest blk that [of steps1 _ s1 "[]" "rc + 1"] show thesis by (auto elim!: eff_bind_InrE)
      next
        case (Some ts)
        with rest blk that [of steps1 _ _ _ "rc + 2"] show thesis by (auto elim!: eff_bind_InrE)
      qed
    qed
    then show ?thesis using step.IH [OF lt, of rc' n' s' "steps' @ extra" w1] lt by auto
  qed
qed

lemma invoke_with_config_budget:
  assumes "invoke_with_config g s cfg w = Some (Inr iv, w')"
  shows "length (executed (inv_steps iv)) \<le> effective_limit g cfg"
    and "inv_recursion_count iv \<le> effective_limit g cfg + 1"
proof -
  from assms obtain steps w1 where "executed steps = []" and loop: "eff_loop (invoke_body g (effective_limit g cfg) cfg)
      \<lparr>l_state = s, l_node = cg_entry_point g, l_steps = steps, l_count = 0\<rparr> w1 = Some (Inr iv, w')"
    by (auto simp: invoke_with_config_def elim!: eff_bind_InrE dest: save_step_executed)
  then show "length (executed (inv_steps iv)) \<le> effective_limit g cfg"
    and "inv_recursion_count iv \<le> effective_limit g cfg + 1"
    using hoare_InrD [OF hoare_loop [OF invoke_body_budget] _ loop] by (simp_all add: in_budget_def)
qed

lemma effective_limit_le:
  "effective_limit g cfg \<le> cg_recursion_limit g"
  "nc_recursion_limit cfg > 0 \<Longrightarrow> effective_limit g cfg \<le> nc_recursion_limit cfg"
  by (simp_all add: effective_limit_def)



definition line_graph :: "(unit, nat) compiled_graph" where
  "line_graph = spin_graph
     \<lparr>cg_nodes := [(''a'', sync_node ''a'' (\<lambda>n. Inr (su_full (Suc n)))),
                   (''b'', sync_node ''b'' (\<lambda>n. Inr (su_full (n * 5))))],
      cg_edges := [Fixed ''a'' ''b'', Fixed ''b'' END]\<rparr>"

lemma line_graph_run:
  "invoke_with_config line_graph 0 node_config_default () =
     Some (Inr \<lparr>inv_final_state = 5, inv_steps = [StepNode ''a'' [], StepNode ''b'' []],
       inv_recursion_count = 2\<rparr>, ())"
  by code_simp



section \<open>Routing in a valid graph\<close>

lemma node_ok_END: "node_ok g END t \<Longrightarrow> t = END \<or> (\<exists>node. get_node g t = Inr node)"
  by (auto simp: node_ok_def contains_key_iff get_node_def split: option.splits)

lemma edge_ok_targets: "edge_ok g e \<Longrightarrow> t \<in> set (targets_of e) \<Longrightarrow> node_ok g END t"
  by (cases e) (auto split: option.splits)

lemma edge_ok_router:
  assumes "valid_graph g" and "Conditional src rn ts dt \<in> set (cg_edges g)"
  shows "find_router g rn \<noteq> None"
proof -
  have "edge_ok g (Conditional src rn ts dt)" using assms unfolding valid_graph_def by blast
  then show ?thesis by (auto simp: contains_key_iff find_router_def split: option.splits)
qed

text \<open>
  C35. In a validated graph without runtime edges routing never leaves the graph: whatever a router
  answers, the next node, each branch of a fan-out and the fan-in target are \<open>END\<close> or a registered
  node, and every conditional edge finds its router.
\<close>

theorem valid_graph_routes_to_nodes:
  fixes g :: "('w, 's) compiled_graph"
  assumes valid: "validate g = Inr ()" and rt: "cg_runtime_edges g = []"
  shows "(find_next_node g n s w = Some (Inr t, w') \<longrightarrow> t = END \<or> (\<exists>node. get_node g t = Inr node)) \<and>
     (find_fan_out_targets g n = Some ts \<longrightarrow> (\<forall>t \<in> set ts. t = END \<or> (\<exists>node. get_node g t = Inr node)) \<and>
        (or_END (find_fan_in_target g ts) = END \<or>
           (\<exists>node. get_node g (or_END (find_fan_in_target g ts)) = Inr node))) \<and>
     (Conditional src rn tgts dt \<in> set (cg_edges g) \<longrightarrow> find_router g rn \<noteq> None)"
proof (intro conjI impI)
  have vg: "valid_graph g" using valid by (simp add: validate_valid)
  have known: "t = END \<or> (\<exists>node. get_node g t = Inr node)" if "t \<in> all_targets (cg_edges g)" for t
  proof -
    from that obtain e where e: "e \<in> set (cg_edges g)" "t \<in> set (targets_of e)" by (auto simp: all_targets_def)
    with vg have "edge_ok g e" by (simp add: valid_graph_def)
    with e(2) show ?thesis by (intro node_ok_END edge_ok_targets)
  qed
  show "t = END \<or> (\<exists>node. get_node g t = Inr node)" if nxt: "find_next_node g n s w = Some (Inr t, w')"
  proof (cases "t = END")
    case False
    then obtain e where "e \<in> set (cg_edges g)" "t \<in> set (edge_targets e)"
      using find_next_node_target [OF nxt] by (auto simp: rt)
    then show ?thesis by (intro known all_targets_edge)
  qed simp
  assume fo: "find_fan_out_targets g n = Some ts"
  show "\<forall>t \<in> set ts. t = END \<or> (\<exists>node. get_node g t = Inr node)"
    using find_fan_out_edge [OF fo] known all_targets_edge [of "FanOut n ts" "cg_edges g"]
    unfolding rt by simp
  show "or_END (find_fan_in_target g ts) = END \<or> (\<exists>node. get_node g (or_END (find_fan_in_target g ts)) = Inr node)"
  proof (cases "find_fan_in_target g ts")
    case None
    then show ?thesis by (simp add: or_END_def)
  next
    case (Some t)
    then obtain fs where "FanIn fs t \<in> set (cg_edges g)" using find_fan_in_edge [OF Some] by (auto simp: rt)
    with known [OF all_targets_fan_in [OF this]] Some show ?thesis by (auto simp: or_END_def)
  qed
next
  assume "Conditional src rn tgts dt \<in> set (cg_edges g)"
  with valid show "find_router g rn \<noteq> None"
    by (auto simp: validate_valid dest: edge_ok_router)
qed

theorem valid_graph_routes_to_nodes_witness:
  "validate line_graph = Inr () \<and> ''b'' \<noteq> END \<and> (\<exists>node. get_node line_graph ''b'' = Inr node)"
proof -
  have "validate line_graph = Inr ()" by code_simp
  moreover have "cg_runtime_edges line_graph = []" by (simp add: line_graph_def)
  moreover have "find_next_node line_graph ''a'' 0 () = Some (Inr ''b'', ())" by code_simp
  moreover have "''b'' \<noteq> END" by (simp add: END_def)
  ultimately show ?thesis
    using valid_graph_routes_to_nodes [of line_graph "''a''" 0 "()" "''b''" "()"] by blast
qed

end
