(* ===== verification/Graph_Edge_Cases.thy ===== *)
theory Graph_Edge_Cases
  imports Graph_Engine_Props
begin

text \<open>
  Behaviours at the edges of the execution loops, each on a concrete graph that compiles: a default
  route back to \<open>START\<close>, a tighter budget of the caller and a fan-out, several fan-outs in
  \<open>invoke_parallel\<close>, \<open>START\<close> as the entry point of \<open>invoke_dynamic\<close>.
\<close>

section \<open>A default route to START\<close>

definition restart_builder :: "(unit, nat) state_graph" where
  "restart_builder =
     set_entry_point START
       (set_conditional_router ''r'' (function_router (\<lambda>_. ''other''))
         (add_edge ''a'' END
           (add_conditional_edges START ''r'' [(''go'', ''a'')] (Some START)
             (add_node sentinel_start
               (add_node_fn ''a'' (\<lambda>n. Inr (su_full (Suc n))) state_graph_new)))))"

definition restart_graph :: "(unit, nat) compiled_graph" where
  "restart_graph = add_router ''r'' (function_router (\<lambda>_. ''other''))
     (compiled_graph_new (cg_serde spin_graph) sample_inbox (sg_nodes restart_builder)
        (sg_edges restart_builder) START replace_reduce [])"

lemma restart_sel [simp]:
  "cg_edges restart_graph = [Conditional START ''r'' [(''go'', ''a'')] (Some START), Fixed ''a'' END]"
  "cg_entry_point restart_graph = START" "cg_runtime_edges restart_graph = []"
  "cg_checkpointer restart_graph = None" "cg_recursion_limit restart_graph = 25"
  "cg_interrupt_before restart_graph = []"
  "cg_conditional_routers restart_graph = [(''r'', function_router (\<lambda>_. ''other''))]"
  by (simp_all add: restart_graph_def restart_builder_def compiled_graph_new_def add_router_def
      set_entry_point_def set_conditional_router_def add_edge_def add_conditional_edges_def add_node_def
      add_node_fn_def state_graph_new_def edge_conditional_def edge_fixed_def)

lemma restart_valid: "validate restart_graph = Inr ()"
  by code_simp

lemma restart_compiles: "compile (cg_serde spin_graph) sample_inbox restart_builder = Inr restart_graph"
proof -
  have "sg_entry_point restart_builder = Some START" "sg_nodes restart_builder \<noteq> []"
    "sg_reducers restart_builder = []" "sg_default_reducer restart_builder = replace_reduce"
    "sg_conditional_routers restart_builder = [(''r'', function_router (\<lambda>_. ''other''))]"
    by (simp_all add: restart_builder_def set_entry_point_def set_conditional_router_def add_edge_def
        add_conditional_edges_def add_node_def add_node_fn_def state_graph_new_def sync_node_def)
  then show ?thesis
    using restart_valid by (simp add: compile_def restart_graph_def [symmetric] Let_def)
qed

text \<open>
  C40. \<open>validate\<close> rejects a fixed or routed edge to \<open>START\<close> but not a default target \<open>START\<close>: this graph
  compiles (it registers \<open>SentinelNode::start()\<close>), and \<open>invoke\<close> on it never returns. \<open>START\<close> is not
  counted as a step, so the recursion limit does not stop the loop.
\<close>

theorem default_route_to_start_diverges:
  "compile (cg_serde spin_graph) sample_inbox restart_builder = Inr restart_graph \<and>
   invoke restart_graph s w = None"
proof -
  let ?body = "invoke_body restart_graph (effective_limit restart_graph node_config_default) node_config_default"
  have "eff_loop ?body \<lparr>l_state = s, l_node = START, l_steps = [], l_count = 0\<rparr> w = None"
  proof (rule eff_loop_diverges [where I = "\<lambda>l w. l_node l = START \<and> l_count l = 0"])
    fix l :: "nat locals" and w :: unit
    assume l: "l_node l = START \<and> l_count l = 0"
    have "find_fan_out_targets restart_graph START = None"
      by (simp add: find_fan_out_targets_def)
    moreover have "find_next_node restart_graph START (l_state l) w = Some (Inr START, w)"
      by (simp add: find_next_node_def find_router_def function_router_def eff_bind_def)
    ultimately have "?body l w = Some (Inr (Continue
        \<lparr>l_state = l_state l, l_node = START, l_steps = l_steps l, l_count = 0\<rparr>), w)"
      using l by (simp add: invoke_body_def effective_limit_def node_config_default_def advance_def
          save_step_def eff_bind_def)
    then show "\<exists>l' w'. ?body l w = Some (Inr (Continue l'), w') \<and> l_node l' = START \<and> l_count l' = 0"
      by auto
  qed simp
  with restart_compiles show ?thesis
    by (simp add: invoke_def invoke_with_config_def save_step_def)
qed


section \<open>The caller's configuration and the branches of a fan-out\<close>

text \<open>Each node records its name, in a system message when it sees metadata of the caller.\<close>

definition log_node :: "string \<Rightarrow> (unit, agent_state) graph_node" where
  "log_node n = \<lparr>node_execute = (\<lambda>s cfg. ok (su_full (add_message
       (if Option.bind cfg (\<lambda>c. map_of (nc_metadata c) ''user'') = None then me_ai n else me_system n) s))),
     node_name = n\<rparr>"

definition branch_graph :: "(unit, agent_state) compiled_graph" where
  "branch_graph = compiled_graph_new agent_serde sample_inbox
     (map (\<lambda>n. (n, log_node n)) [''a'', ''b'', ''c'', ''d''])
     [FanOut ''a'' [''b''], Fixed ''b'' ''c'', Fixed ''c'' ''d'', Fixed ''d'' END]
     ''a'' replace_reduce []"

definition tight_config :: node_config where
  "tight_config = \<lparr>nc_recursion_limit = 2, nc_metadata = [(''user'', JString ''u'')], nc_debug = False\<rparr>"

text \<open>
  \<open>invoke_with_config\<close> bounds its main path by the caller's limit and forwards the caller's metadata,
  but not so the branches of a fan-out: on this graph a caller that allows two steps gets a
  successful run of four nodes, and the three nodes of the branch do not see the caller's
  metadata. A subgraph node runs its graph through this entry point.
\<close>

theorem branches_ignore_caller_config:
  "effective_limit branch_graph tight_config = 2 \<and>
   (\<exists>steps. invoke_with_config branch_graph (agent_state_new ''q'') tight_config () =
     Some (Inr \<lparr>inv_final_state = (agent_state_new ''q'')\<lparr>as_messages :=
         [me_human ''q'', me_system ''a'', me_ai ''b'', me_ai ''c'', me_ai ''d'']\<rparr>,
       inv_steps = steps, inv_recursion_count = 2\<rparr>, ()))"
proof
  show "effective_limit branch_graph tight_config = 2" by code_simp
  have "invoke_with_config branch_graph (agent_state_new ''q'') tight_config () =
     Some (Inr \<lparr>inv_final_state = (agent_state_new ''q'')\<lparr>as_messages :=
         [me_human ''q'', me_system ''a'', me_ai ''b'', me_ai ''c'', me_ai ''d'']\<rparr>,
       inv_steps = [StepNode ''a'' [], StepParallelNode ''b'' []], inv_recursion_count = 2\<rparr>, ())"
    by code_simp
  then show "\<exists>steps. invoke_with_config branch_graph (agent_state_new ''q'') tight_config () =
     Some (Inr \<lparr>inv_final_state = (agent_state_new ''q'')\<lparr>as_messages :=
         [me_human ''q'', me_system ''a'', me_ai ''b'', me_ai ''c'', me_ai ''d'']\<rparr>,
       inv_steps = steps, inv_recursion_count = 2\<rparr>, ())" by blast
qed


section \<open>Several fan-outs in one run\<close>

definition output_node :: "string \<Rightarrow> string \<Rightarrow> (unit, agent_state) graph_node" where
  "output_node n x = sync_node n (\<lambda>s. Inr (su_full (set_output x s)))"

definition two_fan_outs :: "(unit, agent_state) compiled_graph" where
  "two_fan_outs = compiled_graph_new agent_serde sample_inbox
     [(''a'', sentinel_node ''a''), (''b'', output_node ''b'' ''old''), (''c'', output_node ''c'' ''new''),
      (''d'', sentinel_node ''d''), (''e'', sentinel_node ''e'')]
     [FanOut ''a'' [''b''], FanIn [''b''] ''c'', FanOut ''c'' [''d''], FanIn [''d''] ''e'', Fixed ''e'' END]
     ''a'' replace_reduce []"

definition output_of :: "((graph_error + agent_state graph_invocation) \<times> unit) option \<Rightarrow> string option option" where
  "output_of r = (case r of Some (Inr i, _) \<Rightarrow> Some (as_output (inv_final_state i)) | _ \<Rightarrow> None)"

definition parallel_output_of :: "((graph_error + agent_state parallel_invocation) \<times> unit) option \<Rightarrow> string option option" where
  "parallel_output_of r = (case r of Some (Inr i, _) \<Rightarrow> Some (as_output (pi_final_state i)) | _ \<Rightarrow> None)"

text \<open>
  \<open>invoke_parallel\<close> keeps the branches of earlier fan-outs and merges them again at the next one, so a
  value that an earlier branch wrote comes back over a newer value of the main path: on this
  valid graph, whose node after the first fan-in sets the output to \<open>new\<close>, \<open>invoke\<close> returns \<open>new\<close>
  and \<open>invoke_parallel\<close> returns \<open>old\<close>.
\<close>

theorem invoke_parallel_revives_old_branches:
  "validate two_fan_outs = Inr () \<and>
   output_of (invoke two_fan_outs (agent_state_new ''q'') ()) = Some (Some ''new'') \<and>
   parallel_output_of (invoke_parallel two_fan_outs (agent_state_new ''q'') ()) = Some (Some ''old'')"
proof (intro conjI)
  show "validate two_fan_outs = Inr ()" by code_simp
  show "output_of (invoke two_fan_outs (agent_state_new ''q'') ()) = Some (Some ''new'')" by code_simp
  show "parallel_output_of (invoke_parallel two_fan_outs (agent_state_new ''q'') ()) = Some (Some ''old'')"
    by code_simp
qed


section \<open>START as the entry point\<close>

definition started_graph :: "(unit, agent_state) compiled_graph" where
  "started_graph = compiled_graph_new agent_serde sample_inbox [(''a'', log_node ''a'')]
     [Fixed START ''a'', Fixed ''a'' END] START replace_reduce []"

definition idle_planner :: "(unit, agent_state) planner" where
  "idle_planner ts s = ok \<lparr>inj_nodes = [], inj_edges = []\<rparr>"

definition error_of :: "(('e + 'a) \<times> 'w) option \<Rightarrow> 'e option" where
  "error_of r = (case r of Some (Inl e, _) \<Rightarrow> Some e | _ \<Rightarrow> None)"

text \<open>
  With \<open>START\<close> as the entry point \<open>invoke\<close> treats it as virtual and succeeds; \<open>invoke_dynamic\<close> (and a
  run from \<open>START\<close> by \<open>invoke_from_node\<close>) looks it up as a node and fails on the same valid graph.
\<close>

theorem start_entry_only_virtual_in_invoke:
  "validate started_graph = Inr () \<and>
   error_of (invoke started_graph (agent_state_new ''q'') ()) = None \<and>
   error_of (invoke_dynamic started_graph (agent_state_new ''q'') idle_planner ()) =
     Some (ExecutionError (''Node '' @ quoted START @ '' not found'')) \<and>
   error_of (invoke_from_node started_graph START (agent_state_new ''q'') ()) =
     Some (ExecutionError (''Node '' @ quoted START @ '' not found''))"
proof (intro conjI)
  show "validate started_graph = Inr ()" by code_simp
  show "error_of (invoke started_graph (agent_state_new ''q'') ()) = None" by code_simp
  show "error_of (invoke_dynamic started_graph (agent_state_new ''q'') idle_planner ()) =
     Some (ExecutionError (''Node '' @ quoted START @ '' not found''))" by code_simp
  show "error_of (invoke_from_node started_graph START (agent_state_new ''q'') ()) =
     Some (ExecutionError (''Node '' @ quoted START @ '' not found''))" by code_simp
qed

end
