(* ===== verification/Graph_Resume.thy ===== *)
theory Graph_Resume
  imports Graph_Engine_Props Checkpoint_Props
begin

text \<open>
  State history, time travel and resumption (\<open>compiled/graph.rs\<close>), and what they promise over a
  checkpointer: a runtime interrupt resumes from the very checkpoint it saved.
\<close>

section \<open>The operations\<close>

text \<open>\<open>m.await.ok()\<close> with the inner option: an error is \<open>None\<close>.\<close>

definition last_checkpoint_state :: "('w, 's) compiled_graph \<Rightarrow> ('w, ('s \<times> nat) option) geff" where
  "last_checkpoint_state g = (case cg_checkpointer g of
      Some cp \<Rightarrow> eff_catch (cp_last cp) (\<lambda>_. ok None)
    | None \<Rightarrow> ok None)"

definition checkpointer_locked :: "('w, 's) compiled_graph \<Rightarrow> ('w, 's) checkpointer graph_result" where
  "checkpointer_locked g = ok_or (CheckpointError
     ''state history / time-travel require a checkpointer (attach one with with_checkpointer)'')
     (cg_checkpointer g)"

definition get_state_history :: "('w, 's) compiled_graph \<Rightarrow> ('w, 's checkpoint_info list) geff" where
  "get_state_history g = eff_bind (lift_result (checkpointer_locked g)) (\<lambda>cp. cp_snapshots cp)"

definition get_state_history_page ::
  "('w, 's) compiled_graph \<Rightarrow> string option \<Rightarrow> nat \<Rightarrow> ('w, 's checkpoint_info list) geff" where
  "get_state_history_page g after limit =
     eff_bind (lift_result (checkpointer_locked g)) (\<lambda>cp. cp_snapshots_page cp after limit)"

definition fork_from ::
  "('w, 's) compiled_graph \<Rightarrow> string \<Rightarrow> string \<Rightarrow> 's option \<Rightarrow> ('w, 's graph_invocation) geff" where
  "fork_from g checkpoint_id continue_at_node override_state =
     eff_bind (lift_result (checkpointer_locked g)) (\<lambda>cp.
     eff_bind (cp_snapshots cp) (\<lambda>snaps.
     eff_bind (lift_result (ok_or (not_found checkpoint_id)
         (List.find (\<lambda>s. ci_id s = checkpoint_id) snaps))) (\<lambda>snapshot.
     let base_state = (case override_state of Some s \<Rightarrow> s | None \<Rightarrow> ci_state snapshot)
     in eff_bind (cp_checkpoint_lineage cp (ci_id snapshot)) (\<lambda>lineage.
        let fork_thread = (case lineage of Some (thread, _) \<Rightarrow> thread | None \<Rightarrow> DEFAULT_THREAD)
        in eff_bind (cp_save_fork_threaded cp (Some (ci_id snapshot)) fork_thread base_state
               (ci_recursion_count snapshot)) (\<lambda>_.
             invoke_from_node_with_count g continue_at_node base_state (ci_recursion_count snapshot))))))"

text \<open>\<open>None\<close> on any error on the way.\<close>

definition resolve_checkpoint_by_id ::
  "('w, 's) compiled_graph \<Rightarrow> string \<Rightarrow> ('w, ('s \<times> nat) option) geff" where
  "resolve_checkpoint_by_id g checkpoint_id =
     eff_catch
       (eff_bind (lift_result (checkpointer_locked g)) (\<lambda>cp.
        eff_bind (cp_checkpoint_lineage cp checkpoint_id) (\<lambda>lineage.
        let thread = (case lineage of Some (thread, _) \<Rightarrow> thread | None \<Rightarrow> DEFAULT_THREAD)
        in eff_bind (cp_snapshots_threaded cp thread) (\<lambda>snaps.
             ok (map_option (\<lambda>s. (ci_state s, ci_recursion_count s))
                   (List.find (\<lambda>s. ci_id s = checkpoint_id) snaps))))))
       (\<lambda>_. ok None)"

definition strip_after :: "string \<Rightarrow> string" where
  "strip_after n = (case strip_prefix n ''after_'' of Some m \<Rightarrow> m | None \<Rightarrow> n)"

definition create_resume_execution ::
  "('w, 's) compiled_graph \<Rightarrow> string \<Rightarrow> string option \<Rightarrow> ('w, 's graph_execution option) geff" where
  "create_resume_execution g interrupted_node checkpoint_id =
     eff_bind
       (case checkpoint_id of
          Some i \<Rightarrow> eff_bind (resolve_checkpoint_by_id g i) (\<lambda>r.
            case r of Some x \<Rightarrow> ok (Some x) | None \<Rightarrow> last_checkpoint_state g)
        | None \<Rightarrow> last_checkpoint_state g)
       (\<lambda>r. ok (map_option (\<lambda>(s, recursion_count).
          \<lparr>ge_state = s, ge_current_node = strip_after interrupted_node, ge_steps = [],
           ge_recursion_count = recursion_count, ge_interrupted_at = interrupted_node,
           ge_pending_interrupt = None\<rparr>) r))"

definition no_checkpoint :: "string \<Rightarrow> graph_error" where
  "no_checkpoint n = ResumeError (''cannot resume '' @ quoted n
     @ '': no checkpoint to resume from (attach a checkpointer)'')"

definition with_pending :: "string \<Rightarrow> json \<Rightarrow> 's graph_execution \<Rightarrow> 's graph_execution" where
  "with_pending n v ex = ex\<lparr>ge_pending_interrupt := Some \<lparr>pend_id = n, pend_value = v\<rparr>\<rparr>"

definition resume_with_value ::
  "('w, 's) compiled_graph \<Rightarrow> string \<Rightarrow> json \<Rightarrow> ('w, 's graph_invocation) geff" where
  "resume_with_value g interrupted_node v =
     eff_bind (create_resume_execution g interrupted_node None) (\<lambda>r.
     eff_bind (lift_result (ok_or (no_checkpoint interrupted_node) r)) (\<lambda>ex.
       invoke_with_execution g (with_pending interrupted_node v ex)))"

definition resume_from_interrupt ::
  "('w, 's) compiled_graph \<Rightarrow> string \<Rightarrow> json \<Rightarrow> json \<Rightarrow> ('w, 's graph_invocation) geff" where
  "resume_from_interrupt g interrupted_node payload v =
     eff_bind (create_resume_execution g interrupted_node
        (Option.bind (json_get payload CHECKPOINT_KEY) as_str)) (\<lambda>r.
     eff_bind (lift_result (ok_or (no_checkpoint interrupted_node) r)) (\<lambda>ex.
       invoke_with_execution g (with_pending interrupted_node v ex)))"

definition resume_from_checkpoint ::
  "('w, 's) compiled_graph \<Rightarrow> string \<Rightarrow> string \<Rightarrow> string \<Rightarrow> json \<Rightarrow> ('w, 's graph_invocation) geff" where
  "resume_from_checkpoint g thread checkpoint_id interrupted_node v =
     eff_bind (lift_result (checkpointer_locked g)) (\<lambda>cp.
     eff_bind (cp_snapshots_threaded cp thread) (\<lambda>snaps.
     eff_bind (lift_result (ok_or (not_found checkpoint_id)
         (List.find (\<lambda>s. ci_id s = checkpoint_id) snaps))) (\<lambda>snapshot.
       invoke_with_execution g
         \<lparr>ge_state = ci_state snapshot, ge_current_node = strip_after interrupted_node, ge_steps = [],
          ge_recursion_count = ci_recursion_count snapshot, ge_interrupted_at = interrupted_node,
          ge_pending_interrupt = Some \<lparr>pend_id = interrupted_node, pend_value = v\<rparr>\<rparr>)))"


section \<open>Resolving a checkpoint\<close>

context checkpoint_resolver
begin

lemma resolve_by_id:
  assumes "cg_checkpointer g = Some cp" and "inv w" and "(i, s, rc) \<in> set (hist w)"
  shows "resolve_checkpoint_by_id g i w = Some (Inr (Some (s, rc)), w)"
proof -
  obtain t p snaps info where "cp_checkpoint_lineage cp i w = Some (Inr (Some (t, p)), w)"
    "cp_snapshots_threaded cp t w = Some (Inr snaps, w)"
    "List.find (\<lambda>c. ci_id c = i) snaps = Some info" "ci_state info = s" "ci_recursion_count info = rc"
    using lineage_law [OF assms(2,3)] by blast
  with assms(1) show ?thesis
    by (simp add: resolve_checkpoint_by_id_def checkpointer_locked_def eff_catch_def eff_bind_def)
qed

lemma create_resume_by_id:
  assumes "cg_checkpointer g = Some cp" and "inv w" and "(i, s, rc) \<in> set (hist w)"
  shows "create_resume_execution g n (Some i) w = Some (Inr (Some
     \<lparr>ge_state = s, ge_current_node = strip_after n, ge_steps = [], ge_recursion_count = rc,
      ge_interrupted_at = n, ge_pending_interrupt = None\<rparr>), w)"
  by (simp add: create_resume_execution_def eff_bind_def resolve_by_id [OF assms])

lemma interrupt_then_resume:
  assumes g: "cg_checkpointer g = Some cp" and node: "get_node g n = Inr node"
    and exec: "node_execute node s (Some cfg) w = Some (Inl (InterruptRequest (JObject m)), w1)"
    and inv: "inv w1"
  shows "\<exists>i p w2. run_node g s n rc cfg w = Some (Inl (DynamicInterrupt n p), w2) \<and>
     json_get p CHECKPOINT_KEY = Some (JString i) \<and> inv w2 \<and> (i, s, rc - 1) \<in> set (hist w2) \<and>
     (\<forall>w3 v. inv w3 \<longrightarrow> (i, s, rc - 1) \<in> set (hist w3) \<longrightarrow>
        resume_from_interrupt g n p v w3 = invoke_with_execution g
          \<lparr>ge_state = s, ge_current_node = strip_after n, ge_steps = [], ge_recursion_count = rc - 1,
           ge_interrupted_at = n, ge_pending_interrupt = Some \<lparr>pend_id = n, pend_value = v\<rparr>\<rparr> w3)"
proof -
  obtain i w2 where i: "cp_save cp s (rc - 1) w1 = Some (Inr i, w2)" "inv w2" "(i, s, rc - 1) \<in> set (hist w2)"
    using save_then_last [OF inv, of s "rc - 1"] by metis
  let ?p = "json_insert CHECKPOINT_KEY (JString i) (JObject m)"
  have "run_node g s n rc cfg w = Some (Inl (DynamicInterrupt n ?p), w2)"
    using g node exec i(1) by (simp add: run_node_def eff_catch_def eff_bind_def)
  moreover have "resume_from_interrupt g n ?p v w3 = invoke_with_execution g
          \<lparr>ge_state = s, ge_current_node = strip_after n, ge_steps = [], ge_recursion_count = rc - 1,
           ge_interrupted_at = n, ge_pending_interrupt = Some \<lparr>pend_id = n, pend_value = v\<rparr>\<rparr> w3"
    if "inv w3" "(i, s, rc - 1) \<in> set (hist w3)" for w3 v
    using create_resume_by_id [OF g that]
    by (simp add: resume_from_interrupt_def eff_bind_def with_pending_def)
  ultimately show ?thesis using i(2,3) by (intro exI [of _ i] exI [of _ ?p] exI [of _ w2]) simp
qed

end

text \<open>
  What the builder installs: \<open>with_checkpointer\<close> with the in-memory checkpointer, and
  \<open>with_checkpoint_retention\<close> before or after it, on a graph without a territory.
\<close>

lemma with_checkpointer_memory:
  "cg_territory g = None \<Longrightarrow>
   cg_checkpointer (with_checkpointer (mem_now out) (memory_checkpointer out) g) = Some (retaining_memory out (cg_retention g))"
  by (simp add: with_checkpointer_def Let_def retaining_memory_def)

lemma retention_before_checkpointer:
  "cg_territory g = None \<Longrightarrow> cg_checkpointer (with_checkpointer (mem_now out) (memory_checkpointer out)
     (with_checkpoint_retention (mem_now out) r g)) = Some (retaining_memory out r)"
  by (simp add: with_checkpointer_memory with_checkpoint_retention_def)

lemma retention_after_checkpointer:
  "cg_territory g = None \<Longrightarrow> cg_retention g = retention_default \<Longrightarrow>
   cg_checkpointer (with_checkpoint_retention (mem_now out) r
     (with_checkpointer (mem_now out) (memory_checkpointer out) g)) = Some (retaining_memory out r)"
  by (simp add: with_checkpointer_def Let_def with_checkpoint_retention_def retaining_twice flip: retaining_memory_def)

lemma keeps_newest_default [simp]: "keeps_newest retention_default"
  by (simp add: keeps_newest_def retention_default_def)


definition ask_node :: "(nat mem_world, nat) graph_node" where
  "ask_node = interruptible_node ''ask'' (\<lambda>s d. case d of
      None \<Rightarrow> err (InterruptRequest (JObject [])) | Some _ \<Rightarrow> ok (su_full (s + 1)))"

definition ask_graph :: "(nat mem_world, nat) compiled_graph" where
  "ask_graph = with_checkpointer (mem_now sample_outside) (memory_checkpointer sample_outside)
     (compiled_graph_new \<lparr>to_value = (\<lambda>n. Inr (JInt (int n))), from_value = (\<lambda>_. Inl [])\<rparr>
       \<lparr>ib_get = (\<lambda>_. []), ib_put = (\<lambda>_ w. w)\<rparr> [(''ask'', ask_node)] [Fixed ''ask'' END] ''ask'' replace_reduce [])"

lemma ask_graph_sel [simp]:
  "cg_nodes ask_graph = [(''ask'', ask_node)]" "cg_edges ask_graph = [Fixed ''ask'' END]"
  "cg_checkpointer ask_graph = Some (retaining_memory sample_outside retention_default)"
  "cg_runtime_edges ask_graph = []" "cg_runtime_nodes ask_graph = []"
  "cg_conditional_routers ask_graph = []" "cg_runtime_routers ask_graph = []"
  "cg_entry_point ask_graph = ''ask''" "cg_interrupt_before ask_graph = []"
  "cg_interrupt_after ask_graph = []" "cg_default_reducer ask_graph = replace_reduce"
  "cg_recursion_limit ask_graph = 25"
  by (simp_all add: ask_graph_def with_checkpointer_def compiled_graph_new_def retaining_memory_def)


end
