(* ===== verification/Graph_History.thy ===== *)
theory Graph_History
  imports Graph_Resume
begin

text \<open>
  Time travel (\<open>fork_from\<close> of \<open>compiled/graph.rs\<close>) over the in-memory checkpointer as \<open>with_checkpointer\<close>
  installs it, and what becomes of it, and of the resumption by checkpoint id, over a territory.
\<close>

section \<open>Forks\<close>

lemma mem_hist_id: "(i, s, rc) \<in> set (mem_hist t w) \<Longrightarrow> i \<in> ids_of w t"
  by (auto simp: mem_hist_def hist_of_def ids_of_def)

lemma retained_all [simp]: "retained None None now ds = ds"
  by (simp add: retained_def excess_def too_old_def)


definition forked_world :: "nat mem_world" where
  "forked_world = push_data DEFAULT_THREAD (new_data sample_outside None DEFAULT_THREAD 7 3 mem_world_new) mem_world_new"

lemma forked_world_facts:
  "mem_inv sample_outside forked_world" "([], 7, 3) \<in> set (mem_hist DEFAULT_THREAD forked_world)"
  using mem_inv_push [OF sample_inv, of DEFAULT_THREAD None "7 :: nat" 3]
  unfolding forked_world_def mem_hist_push
  by (simp_all add: sample_outside_def mem_world_new_def)



section \<open>Territories\<close>

lemma territory_resolve:
  assumes g: "cg_checkpointer g = Some ((territory_memory out ns)\<lparr>cp_update_state := u\<rparr>)" and inv: "mem_inv out w"
    and i: "(i, s, rc) \<in> set (mem_hist (ns_default ns) w)"
  shows "resolve_checkpoint_by_id g i w = Some (Inr None, w)"
proof -
  have "i \<notin> ids_of w (ns_thread ns (ns_default ns))"
    using mem_inv_disjoint [OF inv ns_default_nested [of ns]] mem_hist_id [OF i] by blast
  then have "List.find (\<lambda>c. ci_id c = i)
      (map checkpoint_info_from_data (mem_view w (ns_thread ns (ns_default ns)))) = None"
    by (auto simp: find_None_iff ids_of_def checkpoint_info_from_data_def)
  moreover obtain p where "mem_lineage i w = Some (Inr (Some (ns_default ns, p)), w)"
    using mem_hist_lineage [OF inv i] by blast
  ultimately show ?thesis
    using g by (simp add: resolve_checkpoint_by_id_def checkpointer_locked_def territory_ops eff_bind_def
        eff_catch_def mem_snapshots_view [OF inv])
qed

lemma default_snapshots_view:
  assumes inv: "mem_inv out w"
  shows "default_snapshots (mem_list t) (mem_load t) w = Some (Inr (map (\<lambda>d. \<lparr>ci_id = cd_id d,
     ci_timestamp = 0, ci_seq = 0, ci_recursion_count = 0, ci_state = cd_state d, ci_parent = None\<rparr>) (mem_view w t)), w)"
proof -
  have load: "mem_load t (cd_id d) w = Some (Inr (cd_state d), w)" if "d \<in> set (mem_view w t)" for d
    using that find_Some_iff_mem [OF mem_inv_distinct [OF inv] that] by (simp add: mem_load_view)
  have "eff_for (\<lambda>i snaps. eff_bind (mem_load t i) (\<lambda>s. ok (snaps @ [\<lparr>ci_id = i, ci_timestamp = 0,
        ci_seq = 0, ci_recursion_count = 0, ci_state = s, ci_parent = None\<rparr>]))) (map cd_id ds) acc w =
      Some (Inr (acc @ map (\<lambda>d. \<lparr>ci_id = cd_id d, ci_timestamp = 0, ci_seq = 0, ci_recursion_count = 0,
        ci_state = cd_state d, ci_parent = None\<rparr>) ds), w)" if "set ds \<subseteq> set (mem_view w t)" for ds acc
    using that by (induction ds arbitrary: acc) (simp_all add: eff_bind_def load)
  then show ?thesis by (simp add: default_snapshots_def eff_bind_def mem_list_view [OF inv])
qed

lemma territory_fork:
  assumes g: "cg_checkpointer g = Some ((territory_memory out ns)\<lparr>cp_update_state := u\<rparr>)" and inv: "mem_inv out w"
    and i: "(i, s, rc) \<in> set (mem_hist (ns_default ns) w)"
  shows "fork_from g i n None w = invoke_from_node_with_count g n s 0
     (push_data (ns_thread ns (ns_default ns)) (new_data out (Some i) (ns_thread ns (ns_default ns)) s 0 w) w)"
proof -
  from i obtain d where d: "d \<in> set (mem_view w (ns_default ns))" "cd_id d = i" "cd_state d = s"
    by (auto simp: mem_hist_def hist_of_def)
  obtain p where lin: "mem_lineage i w = Some (Inr (Some (ns_default ns, p)), w)"
    using mem_hist_lineage [OF inv i] by blast
  let ?f = "\<lambda>d. \<lparr>ci_id = cd_id d, ci_timestamp = 0, ci_seq = 0, ci_recursion_count = 0,
     ci_state = cd_state d, ci_parent = None\<rparr>"
  have "List.find (\<lambda>c. ci_id c = ci_id (?f d)) (map ?f (mem_view w (ns_default ns))) = Some (?f d)"
    using mem_inv_distinct [OF inv] d(1) by (intro find_Some_iff_mem) (simp_all add: comp_def)
  with g d lin show ?thesis
    by (simp add: fork_from_def checkpointer_locked_def territory_ops eff_bind_def Let_def
        default_snapshots_view [OF inv] mem_save_fork_eq)
qed

text \<open>
  Over a territory the stamped checkpoint id of an interrupt is never found: the lineage of a
  checkpoint is its namespaced thread, which the territory prefixes once more when it lists the
  snapshots. So resuming by id is resuming from the newest checkpoint, whatever id is given. For
  the same reason a fork is recorded in a thread that the territory does not list, and its run
  starts with a recursion count of zero instead of the forked checkpoint's.
\<close>

theorem territory_resume_ignores_stamp:
  fixes g :: "(('s, 'x) mem_world_scheme, 's) compiled_graph"
  assumes g: "cg_checkpointer g = Some (territory_checkpointer (retaining_memory out retention_default) ns)"
    and inv: "mem_inv out w" and i: "(i, s, rc) \<in> set (mem_hist (ns_default ns) w)"
  shows "create_resume_execution g n (Some i) w = create_resume_execution g n None w \<and>
     create_resume_execution g n (Some i) w = Some (Inr (Some
       \<lparr>ge_state = fst (snd (last (mem_hist (ns_default ns) w))), ge_current_node = strip_after n,
        ge_steps = [], ge_recursion_count = snd (snd (last (mem_hist (ns_default ns) w))),
        ge_interrupted_at = n, ge_pending_interrupt = None\<rparr>), w) \<and>
     (\<exists>w'. mem_view w' (ns_default ns) = mem_view w (ns_default ns) \<and>
       fork_from g i n None w = invoke_from_node_with_count g n s 0 w')"
proof -
  have g': "cg_checkpointer g = Some ((territory_memory out ns)\<lparr>cp_update_state := default_update_state\<rparr>)"
    using g by (simp add: retaining_memory_def retaining_default)
       (simp add: territory_memory_def territory_checkpointer_def)
  have ne: "mem_hist (ns_default ns) w \<noteq> []" using i by auto
  have "create_resume_execution g n None w = Some (Inr (Some
       \<lparr>ge_state = fst (snd (last (mem_hist (ns_default ns) w))), ge_current_node = strip_after n,
        ge_steps = [], ge_recursion_count = snd (snd (last (mem_hist (ns_default ns) w))),
        ge_interrupted_at = n, ge_pending_interrupt = None\<rparr>), w)"
    using g' ne territory.last_law [OF inv, of ns]
    by (simp add: create_resume_execution_def last_checkpoint_state_def eff_bind_def eff_catch_def
        split: prod.splits)
  moreover have "create_resume_execution g n (Some i) w = create_resume_execution g n None w"
    by (simp add: create_resume_execution_def eff_bind_def territory_resolve [OF g' inv i])
  moreover have "\<exists>w'. mem_view w' (ns_default ns) = mem_view w (ns_default ns) \<and>
      fork_from g i n None w = invoke_from_node_with_count g n s 0 w'"
    using ns_default_nested [of ns] by (subst territory_fork [OF g' inv i]) (metis fun_upd_other mem_view_push)
  ultimately show ?thesis by simp
qed

definition territory_graph :: "(nat mem_world, nat) compiled_graph" where
  "territory_graph = with_territory ''a'' ask_graph"

definition territory_world :: "nat mem_world" where
  "territory_world =
     (let w = push_data (ns_default ''a'') (new_data sample_outside None (ns_default ''a'') 7 3 mem_world_new) mem_world_new
      in push_data (ns_default ''a'') (new_data sample_outside None (ns_default ''a'') 8 4 w) w)"

lemma territory_world_facts:
  "mem_inv sample_outside territory_world" "([], 7, 3) \<in> set (mem_hist (ns_default ''a'') territory_world)"
  "snd (last (mem_hist (ns_default ''a'') territory_world)) = (8, 4)"
  using mem_inv_push [OF mem_inv_push [OF sample_inv, of "ns_default ''a''" None "7 :: nat" 3],
      of "ns_default ''a''" None "8 :: nat" 4]
  unfolding territory_world_def Let_def mem_hist_push
  by (simp_all add: sample_outside_def mem_world_new_def)

theorem territory_resume_ignores_stamp_witness:
  "\<exists>ex. create_resume_execution territory_graph ''ask'' (Some []) territory_world =
       Some (Inr (Some ex), territory_world) \<and> ge_state ex = 8 \<and> ge_recursion_count ex = 4"
proof -
  have "cg_checkpointer territory_graph = Some
      (territory_checkpointer (retaining_memory sample_outside retention_default) ''a'')"
    by (simp add: territory_graph_def with_territory_def)
  from territory_resume_ignores_stamp [OF this territory_world_facts(1,2), of "''ask''", THEN conjunct2, THEN conjunct1]
  show ?thesis by (simp add: territory_world_facts(3))
qed

end
