(* ===== verification/Loop_Trace.thy ===== *)
theory Loop_Trace
  imports Lc_Prelude
begin

text \<open>
  The iterations of a loop as a transition system: \<open>loop_at\<close> says which locals and world a loop
  comes to. A loop that returns does so from an iteration it comes to, and two loops whose bodies
  correspond return corresponding results.
\<close>

definition loop_step ::
  "('c \<Rightarrow> ('w, 'e, ('c, 'r) control_flow) eff) \<Rightarrow> 'c \<times> 'w \<Rightarrow> 'c \<times> 'w \<Rightarrow> bool" where
  "loop_step body x y \<longleftrightarrow> body (fst x) (snd x) = Some (Inr (Continue (fst y)), snd y)"

abbreviation loop_at ::
  "('c \<Rightarrow> ('w, 'e, ('c, 'r) control_flow) eff) \<Rightarrow> 'c \<times> 'w \<Rightarrow> 'c \<times> 'w \<Rightarrow> bool" where
  "loop_at body \<equiv> (loop_step body)\<^sup>*\<^sup>*"

text \<open>The last iteration: it fails, or breaks.\<close>

definition loop_exit ::
  "('c \<Rightarrow> ('w, 'e, ('c, 'r) control_flow) eff) \<Rightarrow> 'c \<times> 'w \<Rightarrow> 'e + 'r \<Rightarrow> 'w \<Rightarrow> bool" where
  "loop_exit body x r w' \<longleftrightarrow>
     (case r of Inl e \<Rightarrow> body (fst x) (snd x) = Some (Inl e, w')
      | Inr b \<Rightarrow> body (fst x) (snd x) = Some (Inr (Break b), w'))"

lemma loop_at_result:
  "loop_at body x y \<Longrightarrow> eff_loop body (fst x) (snd x) = eff_loop body (fst y) (snd y)"
proof (induction rule: rtranclp_induct)
  case (step y z)
  then have "eff_loop body (fst y) (snd y) = eff_loop body (fst z) (snd z)"
    by (subst eff_loop.simps) (simp add: loop_step_def)
  with step.IH show ?case by simp
qed simp

lemma loop_exit_result: "loop_exit body x r w' \<Longrightarrow> eff_loop body (fst x) (snd x) = Some (r, w')"
  by (subst eff_loop.simps) (simp add: loop_exit_def split: sum.splits)

lemma eff_loop_Some_iff:
  "eff_loop body c w = Some (r, w') \<longleftrightarrow> (\<exists>x. loop_at body (c, w) x \<and> loop_exit body x r w')"
proof
  assume loop: "eff_loop body c w = Some (r, w')"
  let ?E = "\<lambda>e w'. \<exists>x. loop_at body (c, w) x \<and> loop_exit body x (Inl e) w'"
  let ?Q = "\<lambda>b w'. \<exists>x. loop_at body (c, w) x \<and> loop_exit body x (Inr b) w'"
  have "hoare (\<lambda>w1. loop_at body (c, w) (c1, w1)) (body c1)
      (\<lambda>k w1. case k of Continue c' \<Rightarrow> loop_at body (c, w) (c', w1) | Break b \<Rightarrow> ?Q b w1) ?E" for c1
  proof (rule hoareI)
    fix w1 k w2
    assume at: "loop_at body (c, w) (c1, w1)" and k: "body c1 w1 = Some (Inr k, w2)"
    show "case k of Continue c' \<Rightarrow> loop_at body (c, w) (c', w2) | Break b \<Rightarrow> ?Q b w2"
    proof (cases k)
      case (Continue c')
      with k have "loop_step body (c1, w1) (c', w2)" by (simp add: loop_step_def)
      with at Continue show ?thesis by (simp add: rtranclp.rtrancl_into_rtrancl)
    next
      case (Break b)
      with k have "loop_exit body (c1, w1) (Inr b) w2" by (simp add: loop_exit_def)
      with at Break show ?thesis by auto
    qed
  next
    fix w1 e w2
    assume at: "loop_at body (c, w) (c1, w1)" and k: "body c1 w1 = Some (Inl e, w2)"
    then have "loop_exit body (c1, w1) (Inl e) w2" by (simp add: loop_exit_def)
    with at show "?E e w2" by blast
  qed
  from eff_loop_invariant [where I = "\<lambda>c1 w1. loop_at body (c, w) (c1, w1)", OF this _ loop]
  show "\<exists>x. loop_at body (c, w) x \<and> loop_exit body x r w'" by (auto split: sum.splits)
next
  assume "\<exists>x. loop_at body (c, w) x \<and> loop_exit body x r w'"
  then show "eff_loop body c w = Some (r, w')"
    using loop_at_result loop_exit_result by fastforce
qed


text \<open>The result of an effect, with its values mapped.\<close>

definition map_result :: "('a \<Rightarrow> 'b) \<Rightarrow> (('e + 'a) \<times> 'w) option \<Rightarrow> (('e + 'b) \<times> 'w) option" where
  "map_result h = map_option (\<lambda>(r, w). (map_sum id h r, w))"

lemma map_result_simps [simp]:
  "map_result h None = None" "map_result h (Some (Inl e, w)) = Some (Inl e, w)"
  "map_result h (Some (Inr x, w)) = Some (Inr (h x), w)"
  by (simp_all add: map_result_def)

lemma map_result_eq_Inl [simp]: "map_result h r = Some (Inl e, w) \<longleftrightarrow> r = Some (Inl e, w)"
  by (cases r) (auto simp: map_result_def map_sum_def split: sum.splits)

lemma map_result_eq_Inr [simp]: "map_result h r = Some (Inr y, w) \<longleftrightarrow> (\<exists>x. r = Some (Inr x, w) \<and> y = h x)"
  by (cases r) (auto simp: map_result_def map_sum_def split: sum.splits)

lemma map_result_eff_bind: "map_result h (eff_bind m f w) = eff_bind m (\<lambda>x w. map_result h (f x w)) w"
  by (simp add: eff_bind_def split: option.splits sum.splits)

lemma eff_bind_map_result:
  assumes "m w = map_result h (m' w)" and "\<And>x w. f (h x) w = map_result k (f' x w)"
  shows "eff_bind m f w = map_result k (eff_bind m' f' w)"
  using assms by (cases "m' w") (auto simp: eff_bind_def split: sum.splits)

lemma map_result_id [simp]: "map_result (\<lambda>x. x) r = r"
  by (cases r) (auto simp: map_result_def map_sum_def split: sum.splits)

lemma eff_bind_map_same:
  "(\<And>x w. f x w = map_result k (f' x w)) \<Longrightarrow> eff_bind m f w = map_result k (eff_bind m f' w)"
  by (simp add: eff_bind_map_result [where h = "\<lambda>x. x"])

lemma map_control_flow_eq [simp]:
  "Continue y = map_control_flow f h k \<longleftrightarrow> (\<exists>x. k = Continue x \<and> y = f x)"
  "Break b = map_control_flow f h k \<longleftrightarrow> (\<exists>x. k = Break x \<and> b = h x)"
  by (cases k; auto)+

text \<open>\<open>body'\<close> does on \<open>f c\<close> what \<open>body\<close> does on \<open>c\<close>, as far as \<open>P\<close> holds, which \<open>body\<close> keeps.\<close>

definition loop_map ::
  "('c \<Rightarrow> bool) \<Rightarrow> ('c \<Rightarrow> 'd) \<Rightarrow> ('r \<Rightarrow> 'q) \<Rightarrow> ('c \<Rightarrow> ('w, 'e, ('c, 'r) control_flow) eff) \<Rightarrow>
   ('d \<Rightarrow> ('w, 'e, ('d, 'q) control_flow) eff) \<Rightarrow> bool" where
  "loop_map P f h body body' \<longleftrightarrow>
     (\<forall>c w. P c \<longrightarrow> body' (f c) w = map_result (map_control_flow f h) (body c w)) \<and>
     (\<forall>c w c' w'. P c \<longrightarrow> body c w = Some (Inr (Continue c'), w') \<longrightarrow> P c')"

lemma loop_step_map:
  assumes "loop_map P f h body body'" and "P c"
  shows "loop_step body' (f c, w) y \<longleftrightarrow> (\<exists>c'. fst y = f c' \<and> P c' \<and> loop_step body (c, w) (c', snd y))"
  using assms unfolding loop_map_def loop_step_def by (auto; blast)

lemma loop_exit_map:
  assumes "loop_map P f h body body'" and "P c"
  shows "loop_exit body' (f c, w) r' w' \<longleftrightarrow> (\<exists>r. loop_exit body (c, w) r w' \<and> r' = map_sum id h r)"
proof -
  have body: "body' (f c) w = map_result (map_control_flow f h) (body c w)"
    using assms by (simp add: loop_map_def)
  show ?thesis
  proof (cases r')
    case (Inl e)
    have "(\<exists>r. loop_exit body (c, w) r w' \<and> Inl e = map_sum id h r) \<longleftrightarrow> loop_exit body (c, w) (Inl e) w'"
      by (metis Inl_Inr_False id_apply map_sum.simps obj_sumE)
    with Inl body show ?thesis by (simp add: loop_exit_def)
  next
    case (Inr b)
    have "(\<exists>r. loop_exit body (c, w) r w' \<and> Inr b = map_sum id h r) \<longleftrightarrow>
        (\<exists>x. loop_exit body (c, w) (Inr x) w' \<and> b = h x)"
      by (metis Inl_Inr_False sum.inject(2) map_sum.simps obj_sumE)
    with Inr body show ?thesis by (auto simp: loop_exit_def)
  qed
qed

lemma loop_at_map_back:
  assumes lm: "loop_map P f h body body'"
  shows "loop_at body' x y \<Longrightarrow> x = (f c, w) \<Longrightarrow> P c \<Longrightarrow>
    \<exists>c1. fst y = f c1 \<and> P c1 \<and> loop_at body (c, w) (c1, snd y)"
proof (induction rule: rtranclp_induct)
  case base
  then show ?case by auto
next
  case (step y z)
  then obtain c1 where c1: "fst y = f c1" "P c1" "loop_at body (c, w) (c1, snd y)" by blast
  with step.hyps(2) loop_step_map [OF lm c1(2), of "snd y" z] obtain c2 where
    "fst z = f c2" "P c2" "loop_step body (c1, snd y) (c2, snd z)"
    by (metis prod.collapse)
  with c1(3) show ?case by (meson rtranclp.rtrancl_into_rtrancl)
qed

lemma loop_at_map:
  assumes lm: "loop_map P f h body body'"
  shows "loop_at body x y \<Longrightarrow> P (fst x) \<Longrightarrow> P (fst y) \<and> loop_at body' (f (fst x), snd x) (f (fst y), snd y)"
proof (induction rule: rtranclp_induct)
  case (step y z)
  then have y: "P (fst y)" "loop_at body' (f (fst x), snd x) (f (fst y), snd y)" by auto
  have "P (fst z)" using lm y(1) step.hyps(2) unfolding loop_map_def loop_step_def by blast
  moreover have "loop_step body' (f (fst y), snd y) (f (fst z), snd z)"
    using loop_step_map [OF lm y(1), of "snd y" "(f (fst z), snd z)"] step.hyps(2) \<open>P (fst z)\<close> by auto
  ultimately show ?case using y(2) by (meson rtranclp.rtrancl_into_rtrancl)
qed simp

lemma eff_loop_map:
  assumes lm: "loop_map P f h body body'" and c: "P c"
  shows "eff_loop body' (f c) w = map_result h (eff_loop body c w)"
proof -
  note exit = loop_exit_map [OF lm]
  show ?thesis
  proof (cases "eff_loop body c w")
    case (Some rw)
    obtain r w' where rw: "rw = (r, w')" by force
    with Some obtain x where x: "loop_at body (c, w) x" "loop_exit body x r w'" by (auto simp: eff_loop_Some_iff)
    with loop_at_map [OF lm x(1)] c exit [of "fst x" "snd x" "map_sum id h r" w']
    have "eff_loop body' (f c) w = Some (map_sum id h r, w')"
      by (auto simp: eff_loop_Some_iff intro!: exI [of _ "(f (fst x), snd x)"])
    with Some rw show ?thesis by (simp add: map_result_def)
  next
    case None
    have "eff_loop body' (f c) w = None"
    proof (rule ccontr)
      assume "eff_loop body' (f c) w \<noteq> None"
      then obtain r' w' y where y: "loop_at body' (f c, w) y" "loop_exit body' y r' w'"
        by (auto simp: eff_loop_Some_iff)
      from loop_at_map_back [OF lm y(1) refl c] obtain c1 where
        c1: "fst y = f c1" "P c1" "loop_at body (c, w) (c1, snd y)" by blast
      with y(2) exit [OF c1(2)] obtain r where "loop_exit body (c1, snd y) r w'" by (metis prod.collapse)
      with c1(3) have "eff_loop body c w = Some (r, w')" by (auto simp: eff_loop_Some_iff)
      with None show False by simp
    qed
    with None show ?thesis by simp
  qed
qed


section \<open>Simulation\<close>

text \<open>
  The results of two calls correspond: both do not return, both fail (\<open>E\<close> relates the errors and
  the worlds), or both succeed (\<open>Q\<close> relates the values and the worlds).
\<close>

definition rel_result ::
  "('e \<times> 'w \<Rightarrow> 'f \<times> 'v \<Rightarrow> bool) \<Rightarrow> ('a \<times> 'w \<Rightarrow> 'b \<times> 'v \<Rightarrow> bool) \<Rightarrow>
   (('e + 'a) \<times> 'w) option \<Rightarrow> (('f + 'b) \<times> 'v) option \<Rightarrow> bool" where
  "rel_result E Q x y \<longleftrightarrow>
     (x = None \<and> y = None) \<or>
     (\<exists>e w f v. x = Some (Inl e, w) \<and> y = Some (Inl f, v) \<and> E (e, w) (f, v)) \<or>
     (\<exists>a w b v. x = Some (Inr a, w) \<and> y = Some (Inr b, v) \<and> Q (a, w) (b, v))"

lemma rel_result_simps [simp]:
  "rel_result E Q None None"
  "rel_result E Q (Some (Inr a, w)) (Some (Inr b, v)) \<longleftrightarrow> Q (a, w) (b, v)"
  "rel_result E Q (Some (Inl e, w)) (Some (Inl f, v)) \<longleftrightarrow> E (e, w) (f, v)"
  by (simp_all add: rel_result_def)

lemma rel_result_bind:
  assumes "rel_result E Q (m w) (m' v)"
    and "\<And>a w1 b v1. Q (a, w1) (b, v1) \<Longrightarrow> rel_result E P (f a w1) (f' b v1)"
  shows "rel_result E P (eff_bind m f w) (eff_bind m' f' v)"
proof -
  from assms(1) consider "m w = None" "m' v = None"
    | e w1 e' v1 where "m w = Some (Inl e, w1)" "m' v = Some (Inl e', v1)" "E (e, w1) (e', v1)"
    | a w1 b v1 where "m w = Some (Inr a, w1)" "m' v = Some (Inr b, v1)" "Q (a, w1) (b, v1)"
    unfolding rel_result_def by (elim disjE exE conjE) simp_all
  then show ?thesis
  proof cases
    case 3
    with assms(2) show ?thesis by (simp add: eff_bind_def)
  qed (simp_all add: eff_bind_def rel_result_def)
qed

lemma rel_result_flip: "rel_result E Q x y \<longleftrightarrow> rel_result (\<lambda>a b. E b a) (\<lambda>a b. Q b a) y x"
  by (auto simp: rel_result_def)

text \<open>
  One iteration of two loops corresponds: both go round, with locals and worlds related by \<open>R\<close>, or
  both leave.
\<close>

definition rel_iteration ::
  "('c \<times> 'w \<Rightarrow> 'd \<times> 'v \<Rightarrow> bool) \<Rightarrow> ('a \<times> 'w \<Rightarrow> 'b \<times> 'v \<Rightarrow> bool) \<Rightarrow>
   ('c, 'a) control_flow \<times> 'w \<Rightarrow> ('d, 'b) control_flow \<times> 'v \<Rightarrow> bool" where
  "rel_iteration R Q x y \<longleftrightarrow>
     (\<exists>c d. fst x = Continue c \<and> fst y = Continue d \<and> R (c, snd x) (d, snd y)) \<or>
     (\<exists>a b. fst x = Break a \<and> fst y = Break b \<and> Q (a, snd x) (b, snd y))"

lemma rel_iteration_simps [simp]:
  "rel_iteration R Q (Continue c, w) (Continue d, v) \<longleftrightarrow> R (c, w) (d, v)"
  "rel_iteration R Q (Break a, w) (Break b, v) \<longleftrightarrow> Q (a, w) (b, v)"
  by (simp_all add: rel_iteration_def)

lemma rel_iteration_flip: "rel_iteration (\<lambda>a b. R b a) (\<lambda>a b. Q b a) x y = rel_iteration R Q y x"
  by (auto simp: rel_iteration_def)

definition loop_sim ::
  "('c \<times> 'w \<Rightarrow> 'd \<times> 'v \<Rightarrow> bool) \<Rightarrow> ('e \<times> 'w \<Rightarrow> 'f \<times> 'v \<Rightarrow> bool) \<Rightarrow> ('a \<times> 'w \<Rightarrow> 'b \<times> 'v \<Rightarrow> bool) \<Rightarrow>
   ('c \<Rightarrow> ('w, 'e, ('c, 'a) control_flow) eff) \<Rightarrow> ('d \<Rightarrow> ('v, 'f, ('d, 'b) control_flow) eff) \<Rightarrow> bool" where
  "loop_sim R E Q body body' \<longleftrightarrow> (\<forall>x y. R x y \<longrightarrow>
     rel_result E (rel_iteration R Q) (body (fst x) (snd x)) (body' (fst y) (snd y)))"

lemma loop_simI:
  "(\<And>c w d v. R (c, w) (d, v) \<Longrightarrow> rel_result E (rel_iteration R Q) (body c w) (body' d v)) \<Longrightarrow>
   loop_sim R E Q body body'"
  by (simp add: loop_sim_def)

lemma loop_sim_flip:
  "loop_sim R E Q body body' \<Longrightarrow> loop_sim (\<lambda>a b. R b a) (\<lambda>a b. E b a) (\<lambda>a b. Q b a) body' body"
proof -
  assume sim: "loop_sim R E Q body body'"
  have flip: "rel_iteration (\<lambda>a b. R b a) (\<lambda>a b. Q b a) = (\<lambda>x y. rel_iteration R Q y x)"
    by (intro ext) (rule rel_iteration_flip)
  have "rel_result (\<lambda>a b. E b a) (\<lambda>x y. rel_iteration R Q y x) (body' (fst y) (snd y)) (body (fst x) (snd x))"
    if "R x y" for x y
    using sim that rel_result_flip [of E "rel_iteration R Q"] by (simp add: loop_sim_def)
  then show ?thesis unfolding loop_sim_def flip by blast
qed

lemma loop_sim_at:
  assumes sim: "loop_sim R E Q body body'"
  shows "loop_at body x y \<Longrightarrow> R x x' \<Longrightarrow> \<exists>y'. loop_at body' x' y' \<and> R y y'"
proof (induction rule: rtranclp_induct)
  case base
  then show ?case by blast
next
  case (step y z)
  then obtain y' where y': "loop_at body' x' y'" "R y y'" by blast
  with sim have "rel_result E (rel_iteration R Q) (body (fst y) (snd y)) (body' (fst y') (snd y'))"
    by (simp add: loop_sim_def)
  with step.hyps(2) obtain d v where "body' (fst y') (snd y') = Some (Inr (Continue d), v)" "R z (d, v)"
    by (auto simp: rel_result_def rel_iteration_def loop_step_def)
  then have "loop_step body' y' (d, v)" by (simp add: loop_step_def)
  with y'(1) \<open>R z (d, v)\<close> show ?case by (meson rtranclp.rtrancl_into_rtrancl)
qed

lemma loop_sim_Some:
  assumes sim: "loop_sim R E Q body body'" and R: "R (c, w) (d, v)" and "eff_loop body c w = Some (r, w')"
  shows "rel_result E Q (eff_loop body c w) (eff_loop body' d v)"
proof -
  from assms(3) obtain x where x: "loop_at body (c, w) x" "loop_exit body x r w'" by (auto simp: eff_loop_Some_iff)
  from loop_sim_at [OF sim x(1) R] obtain y where y: "loop_at body' (d, v) y" "R x y" by blast
  with sim have "rel_result E (rel_iteration R Q) (body (fst x) (snd x)) (body' (fst y) (snd y))"
    by (simp add: loop_sim_def)
  with x(2) obtain r' v' where *: "loop_exit body' y r' v'" "rel_result E Q (Some (r, w')) (Some (r', v'))"
    by (fastforce simp: rel_result_def rel_iteration_def loop_exit_def split: sum.splits)
  with y(1) have "eff_loop body' d v = Some (r', v')" unfolding eff_loop_Some_iff by blast
  with assms(3) * show ?thesis by simp
qed

lemma eff_loop_sim:
  assumes sim: "loop_sim R E Q body body'" and R: "R (c, w) (d, v)"
  shows "rel_result E Q (eff_loop body c w) (eff_loop body' d v)"
proof (cases "eff_loop body c w")
  case (Some rw)
  with loop_sim_Some [OF sim R] show ?thesis by (cases rw) auto
next
  case None
  have "eff_loop body' d v = None"
  proof (rule ccontr)
    assume "eff_loop body' d v \<noteq> None"
    then obtain r v' where "eff_loop body' d v = Some (r, v')" by auto
    from loop_sim_Some [OF loop_sim_flip [OF sim] R this] this None
    show False by (auto simp: rel_result_def)
  qed
  with None show ?thesis by (simp add: rel_result_def)
qed

text \<open>What follows a loop can be done in its last iteration.\<close>

definition then_leave ::
  "('c \<Rightarrow> ('w, 'e, ('c, 'r) control_flow) eff) \<Rightarrow> ('r \<Rightarrow> ('w, 'e, 'q) eff) \<Rightarrow> 'c \<Rightarrow> ('w, 'e, ('c, 'q) control_flow) eff" where
  "then_leave body f c = eff_bind (body c) (\<lambda>k. case k of
      Continue c' \<Rightarrow> ok (Continue c')
    | Break x \<Rightarrow> eff_bind (f x) (\<lambda>y. ok (Break y)))"

lemma then_leave_step: "loop_step (then_leave body f) = loop_step body"
  by (intro ext) (auto simp: loop_step_def then_leave_def eff_bind_def
      split: option.splits sum.splits control_flow.splits)

lemma then_leave_exit:
  "loop_exit (then_leave body f) x r w' \<longleftrightarrow>
     (\<exists>e. r = Inl e \<and> loop_exit body x (Inl e) w') \<or>
     (\<exists>a w1. loop_exit body x (Inr a) w1 \<and> f a w1 = Some (r, w'))"
  by (auto simp: loop_exit_def then_leave_def eff_bind_def
      split: option.splits sum.splits control_flow.splits)

lemma eff_loop_then_leave: "eff_bind (eff_loop body c) f w = eff_loop (then_leave body f) c w"
proof -
  have "eff_loop (then_leave body f) c w = Some (r, w') \<longleftrightarrow> eff_bind (eff_loop body c) f w = Some (r, w')" for r w'
  proof -
    have "eff_loop (then_leave body f) c w = Some (r, w') \<longleftrightarrow>
        (\<exists>e. r = Inl e \<and> eff_loop body c w = Some (Inl e, w')) \<or>
        (\<exists>a w1. eff_loop body c w = Some (Inr a, w1) \<and> f a w1 = Some (r, w'))"
      unfolding eff_loop_Some_iff then_leave_step then_leave_exit by blast
    then show ?thesis by (auto simp: eff_bind_def split: option.splits sum.splits)
  qed
  then show ?thesis by (metis option.exhaust surj_pair)
qed

end
