(* ===== verification/Resume_Equiv.thy ===== *)
theory Resume_Equiv
  imports Graph_Resume Loop_Trace
begin

text \<open>
  An interrupt before a node changes when a run happens, not what it computes: a run that stopped
  before a node and was resumed from its newest checkpoint ends as the run that never stopped.
\<close>


section \<open>Interrupting before a node and resuming\<close>

text \<open>
  Errors other than an interrupt before a node; code of the caller (nodes and routers) that keeps
  \<open>I\<close> and does not answer with the engine's own interrupt error.
\<close>

definition no_before :: "graph_error \<Rightarrow> bool" where
  "no_before e \<longleftrightarrow> (\<forall>n. e = ExecutionInterrupted n \<longrightarrow> starts_with n ''after_'')"

definition calm :: "('w \<Rightarrow> bool) \<Rightarrow> ('w, 'a) geff \<Rightarrow> bool" where
  "calm I m \<longleftrightarrow> hoare I m (\<lambda>_. I) (\<lambda>e w. I w \<and> no_before e)"

definition calm_graph :: "('w \<Rightarrow> bool) \<Rightarrow> ('w, 's) compiled_graph \<Rightarrow> bool" where
  "calm_graph I g \<longleftrightarrow>
     (\<forall>n node. get_node g n = Inr node \<longrightarrow> (\<forall>s c. calm I (node_execute node s c))) \<and>
     (\<forall>n r. find_router g n = Some r \<longrightarrow> (\<forall>s. calm I (r s)))"

definition no_fan_out :: "('w, 's) compiled_graph \<Rightarrow> bool" where
  "no_fan_out g \<longleftrightarrow> (\<forall>n. find_fan_out_targets g n = None)"

lemma calm_ok: "calm I (ok x)"
  by (auto simp: calm_def intro: hoare_ok)

lemma calm_err: "no_before e \<Longrightarrow> calm I (err e)"
  by (auto simp: calm_def intro: hoare_err)

lemma calm_bind: "calm I m \<Longrightarrow> (\<And>x. calm I (f x)) \<Longrightarrow> calm I (eff_bind m f)"
  unfolding calm_def by (rule hoare_bind)

lemma calm_catch:
  assumes m: "calm I m" and h: "\<And>e. no_before e \<Longrightarrow> calm I (h e)"
  shows "calm I (eff_catch m h)"
  unfolding calm_def
proof (rule hoareI)
  fix w x w'
  assume w: "I w" and "eff_catch m h w = Some (Inr x, w')"
  then consider "m w = Some (Inr x, w')" | e w1 where "m w = Some (Inl e, w1)" "h e w1 = Some (Inr x, w')"
    by (auto simp: eff_catch_def split: option.splits sum.splits)
  then show "I w'"
  proof cases
    case 1
    with m w show ?thesis unfolding calm_def by (blast dest: hoare_InrD)
  next
    case 2
    with m w have "I w1" "no_before e" unfolding calm_def by (blast dest: hoare_InlD)+
    with 2(2) h show ?thesis unfolding calm_def by (blast dest: hoare_InrD)
  qed
next
  fix w e' w'
  assume w: "I w" and "eff_catch m h w = Some (Inl e', w')"
  then obtain e w1 where e: "m w = Some (Inl e, w1)" "h e w1 = Some (Inl e', w')"
    by (auto simp: eff_catch_def split: option.splits sum.splits)
  with m w have "I w1" "no_before e" unfolding calm_def by (blast dest: hoare_InlD)+
  with e(2) h show "I w' \<and> no_before e'" unfolding calm_def by (blast dest: hoare_InlD)
qed

lemma calm_option:
  "(x = None \<Longrightarrow> calm I m) \<Longrightarrow> (\<And>y. x = Some y \<Longrightarrow> calm I (n y)) \<Longrightarrow>
   calm I (case x of None \<Rightarrow> m | Some y \<Rightarrow> n y)"
  by (cases x) auto

lemma no_before_simps [simp]:
  "no_before (RoutingError x)" "no_before (ExecutionError x)" "no_before (DynamicInterrupt n p)"
  "no_before (ExecutionInterrupted (after_name n))"
  by (simp_all add: no_before_def after_name_def starts_with_def)

lemma calm_follow_edge: "calm_graph I g \<Longrightarrow> calm I (follow_edge g sfx n s e)"
proof (cases e)
  case (Conditional src rn ts dt)
  assume "calm_graph I g"
  with Conditional show ?thesis
    by (auto simp: calm_graph_def intro!: calm_bind calm_option calm_ok calm_err)
qed (auto intro: calm_ok calm_err)

lemma calm_find_static: "calm_graph I g \<Longrightarrow> calm I (find_static g n s es)"
proof (induction es)
  case Nil
  then show ?case by (auto simp: no_edge_def intro: calm_ok calm_err)
next
  case (Cons e es)
  then show ?case by (auto intro!: calm_bind calm_follow_edge calm_option calm_ok)
qed

lemma calm_find_next_node: "calm_graph I g \<Longrightarrow> calm I (find_next_node g n s)"
  unfolding find_next_node_def
  by (intro calm_option calm_bind calm_follow_edge calm_find_static calm_ok)

context checkpoint_store
begin

lemma save_facts:
  "inv w \<Longrightarrow> cp_save cp s rc w = Some (r, w') \<Longrightarrow>
   \<exists>i. r = Inr i \<and> inv w' \<and> hist w' \<noteq> [] \<and> snd (last (hist w')) = (s, rc)"
  by (erule (1) save_result) blast

lemma calm_save: "calm inv (cp_save cp s rc)"
  unfolding calm_def
proof (rule hoareI)
  show "inv w'" if "inv w" "cp_save cp s rc w = Some (Inr x, w')" for w x w'
    using save_facts [OF that] by blast
  show "inv w' \<and> no_before e" if "inv w" "cp_save cp s rc w = Some (Inl e, w')" for w e w'
    using save_facts [OF that] by blast
qed

lemma calm_save_step: "cg_checkpointer g = Some cp \<Longrightarrow> calm inv (save_step g s rc n steps)"
  by (simp add: save_step_def calm_bind calm_save calm_ok)

lemma calm_run_node:
  assumes g: "cg_checkpointer g = Some cp" and calm: "calm_graph inv g"
  shows "calm inv (run_node g s n rc cfg)"
proof (cases "get_node g n")
  case (Inl e)
  then show ?thesis by (auto simp: run_node_def get_node_def intro: calm_err split: option.splits)
next
  case (Inr node)
  have "calm inv (case e of
           InterruptRequest payload \<Rightarrow>
             (case cg_checkpointer g of
                Some cp \<Rightarrow> eff_bind (cp_save cp s (rc - 1)) (\<lambda>checkpoint_id.
                  err (DynamicInterrupt n (json_insert CHECKPOINT_KEY (JString checkpoint_id) payload)))
              | None \<Rightarrow> err (DynamicInterrupt n payload))
         | _ \<Rightarrow> err e)" if "no_before e" for e :: graph_error
    using that by (cases e) (auto simp: g intro!: calm_err calm_bind calm_save)
  with Inr calm show ?thesis
    by (auto simp: run_node_def calm_graph_def intro!: calm_catch)
qed

lemma calm_node_block:
  assumes "cg_checkpointer g = Some cp" and "calm_graph inv g"
  shows "calm inv (node_block g cfg s n rc steps)"
  unfolding node_block_def Let_def using assms
  by (intro calm_bind calm_run_node) (auto intro!: calm_bind calm_save_step calm_ok calm_err)

text \<open>The newest checkpoint is the state and the count of the locals.\<close>

definition saved :: "'s locals \<Rightarrow> 'w \<Rightarrow> bool" where
  "saved l w \<longleftrightarrow> inv w \<and> hist w \<noteq> [] \<and> snd (last (hist w)) = (l_state l, l_count l)"

lemma save_step_saved:
  assumes "cg_checkpointer g = Some cp" and "inv w" and "save_step g s rc n steps w = Some (r, w')"
  shows "\<exists>steps'. r = Inr steps' \<and> (\<forall>t. saved \<lparr>l_state = s, l_node = t, l_steps = steps', l_count = rc\<rparr> w')"
proof -
  obtain q w1 where "cp_save cp s rc w = Some (q, w1)"
    using assms by (auto simp: save_step_def eff_bind_def split: option.splits)
  with save_facts [OF assms(2) this] assms show ?thesis
    by (auto simp: save_step_def eff_bind_def saved_def)
qed

lemma advance_saved:
  assumes g: "cg_checkpointer g = Some cp" and calm: "calm_graph inv g" and nf: "no_fan_out g"
    and "inv w" and "advance g n s steps rc w = Some (r, w')"
  shows "case r of Inl e \<Rightarrow> no_before e | Inr l \<Rightarrow> saved l w'"
proof -
  have adv: "advance g n s steps rc = eff_bind (find_next_node g n s) (\<lambda>next_node.
            eff_bind (save_step g s rc next_node steps) (\<lambda>steps'.
              ok \<lparr>l_state = s, l_node = next_node, l_steps = steps', l_count = rc\<rparr>))"
    using nf by (simp add: advance_def no_fan_out_def)
  note nxt = calm_find_next_node [OF calm, of n s, unfolded calm_def]
  show ?thesis
  proof (cases r)
    case (Inl e)
    with assms(5) adv consider "find_next_node g n s w = Some (Inl e, w')"
      | t w1 where "find_next_node g n s w = Some (Inr t, w1)" "save_step g s rc t steps w1 = Some (Inl e, w')"
      by (auto elim!: eff_bind_InlE)
    then show ?thesis
    proof cases
      case 1
      with hoare_InlD [OF nxt assms(4)] Inl show ?thesis by auto
    next
      case 2
      with save_step_saved [OF g hoare_InrD [OF nxt assms(4)]] show ?thesis by blast
    qed
  next
    case (Inr l)
    with assms(5) adv obtain t w1 steps' where "find_next_node g n s w = Some (Inr t, w1)"
      "save_step g s rc t steps w1 = Some (Inr steps', w')"
      "l = \<lparr>l_state = s, l_node = t, l_steps = steps', l_count = rc\<rparr>"
      by (auto elim!: eff_bind_InrE)
    with save_step_saved [OF g hoare_InrD [OF nxt assms(4) this(1)] this(2)] Inr show ?thesis by simp
  qed
qed

lemma invoke_body_saved:
  assumes g: "cg_checkpointer g = Some cp" and calm: "calm_graph inv g" and nf: "no_fan_out g"
    and start: "l_node l \<noteq> START" and inv: "inv w"
  shows "invoke_body g limit cfg l w = Some (Inr (Continue l'), w') \<Longrightarrow> saved l' w'"
    and "invoke_body g limit cfg l w = Some (Inl (ExecutionInterrupted n), w') \<Longrightarrow>
      \<not> starts_with n ''after_'' \<Longrightarrow> l_node l = n \<and> w' = w"
proof -
  note blk = calm_node_block [OF g calm, of "make_node_config limit cfg None" "l_state l" "l_node l"
      "l_count l + 1" "l_steps l", unfolded calm_def]
  show "saved l' w'" if "invoke_body g limit cfg l w = Some (Inr (Continue l'), w')"
  proof -
    from that start obtain s steps w1 where
      "node_block g (make_node_config limit cfg None) (l_state l) (l_node l) (l_count l + 1) (l_steps l) w =
         Some (Inr (s, steps), w1)"
      and adv: "advance g (l_node l) s steps (l_count l + 1) w1 = Some (Inr l', w')"
      by (auto simp: invoke_body_def split: if_splits elim!: eff_bind_InrE)
    from hoare_InrD [OF blk inv this(1)] advance_saved [OF g calm nf _ adv] show ?thesis by simp
  qed
  show "l_node l = n \<and> w' = w"
    if body: "invoke_body g limit cfg l w = Some (Inl (ExecutionInterrupted n), w')"
      and "\<not> starts_with n ''after_''"
  proof (rule ccontr)
    assume "\<not> (l_node l = n \<and> w' = w)"
    with body start consider
      "node_block g (make_node_config limit cfg None) (l_state l) (l_node l) (l_count l + 1) (l_steps l) w =
         Some (Inl (ExecutionInterrupted n), w')"
      | s steps w1 where
      "node_block g (make_node_config limit cfg None) (l_state l) (l_node l) (l_count l + 1) (l_steps l) w =
         Some (Inr (s, steps), w1)"
      "advance g (l_node l) s steps (l_count l + 1) w1 = Some (Inl (ExecutionInterrupted n), w')"
      by (auto simp: invoke_body_def split: if_splits elim!: eff_bind_InlE)
    then have "no_before (ExecutionInterrupted n)"
    proof cases
      case 1
      from hoare_InlD [OF blk inv this] show ?thesis by simp
    next
      case 2
      from hoare_InrD [OF blk inv this(1)] advance_saved [OF g calm nf _ this(2)] show ?thesis by simp
    qed
    with \<open>\<not> starts_with n ''after_''\<close> show False by (simp add: no_before_def)
  qed
qed

end


text \<open>What of a graph does not depend on its \<open>interrupt_before\<close>.\<close>

lemma before_sel:
  "cg_nodes (g\<lparr>cg_interrupt_before := X\<rparr>) = cg_nodes g" "cg_edges (g\<lparr>cg_interrupt_before := X\<rparr>) = cg_edges g"
  "cg_entry_point (g\<lparr>cg_interrupt_before := X\<rparr>) = cg_entry_point g"
  "cg_default_reducer (g\<lparr>cg_interrupt_before := X\<rparr>) = cg_default_reducer g"
  "cg_conditional_routers (g\<lparr>cg_interrupt_before := X\<rparr>) = cg_conditional_routers g"
  "cg_checkpointer (g\<lparr>cg_interrupt_before := X\<rparr>) = cg_checkpointer g"
  "cg_interrupt_after (g\<lparr>cg_interrupt_before := X\<rparr>) = cg_interrupt_after g"
  "cg_runtime_nodes (g\<lparr>cg_interrupt_before := X\<rparr>) = cg_runtime_nodes g"
  "cg_runtime_edges (g\<lparr>cg_interrupt_before := X\<rparr>) = cg_runtime_edges g"
  "cg_runtime_routers (g\<lparr>cg_interrupt_before := X\<rparr>) = cg_runtime_routers g"
  by simp_all

lemma before_save_step: "save_step (g\<lparr>cg_interrupt_before := X\<rparr>) = save_step g"
  by (intro ext) (unfold save_step_def before_sel, rule refl)

lemma before_node_block: "node_block (g\<lparr>cg_interrupt_before := X\<rparr>) = node_block g"
  by (intro ext) (unfold node_block_def run_node_def get_node_def fold_update_def before_sel before_save_step, rule refl)

lemma before_follow_edge: "follow_edge (g\<lparr>cg_interrupt_before := X\<rparr>) sfx n s e = follow_edge g sfx n s e"
proof (cases e)
  case (Conditional src rn ts dt)
  show ?thesis unfolding Conditional follow_edge.simps find_router_def before_sel ..
qed simp_all

lemma before_find_static: "find_static (g\<lparr>cg_interrupt_before := X\<rparr>) n s es = find_static g n s es"
proof (induction es)
  case Nil
  show ?case unfolding find_static.simps no_edge_def is_fan_in_source_def before_sel ..
next
  case (Cons e es)
  show ?case unfolding find_static.simps before_follow_edge Cons ..
qed

lemma before_find_next_node: "find_next_node (g\<lparr>cg_interrupt_before := X\<rparr>) = find_next_node g"
  by (intro ext) (unfold find_next_node_def before_sel before_follow_edge before_find_static, rule refl)

lemma before_fan_out: "find_fan_out_targets (g\<lparr>cg_interrupt_before := X\<rparr>) = find_fan_out_targets g"
  by (rule ext) (unfold find_fan_out_targets_def before_sel, rule refl)

lemma before_advance: "no_fan_out g \<Longrightarrow> advance (g\<lparr>cg_interrupt_before := X\<rparr>) = advance g"
  by (intro ext) (simp add: advance_def no_fan_out_def before_find_next_node before_save_step before_fan_out)

text \<open>Steps recorded before the current iteration have no influence.\<close>

definition prepend_steps :: "execution_step list \<Rightarrow> 's locals \<Rightarrow> 's locals" where
  "prepend_steps p l = l\<lparr>l_steps := p @ l_steps l\<rparr>"

definition add_steps :: "execution_step list \<Rightarrow> 's graph_invocation \<Rightarrow> 's graph_invocation" where
  "add_steps p iv = iv\<lparr>inv_steps := p @ inv_steps iv\<rparr>"

lemma save_step_prepend: "save_step g s rc n (p @ steps) w = map_result ((@) p) (save_step g s rc n steps w)"
  unfolding save_step_def by (cases "cg_checkpointer g") (auto intro!: eff_bind_map_same)

lemma node_block_prepend:
  "node_block g cfg s n rc (p @ steps) w = map_result (map_prod id ((@) p)) (node_block g cfg s n rc steps w)"
  unfolding node_block_def Let_def append_assoc
  by (intro eff_bind_map_same) (auto intro!: eff_bind_map_result save_step_prepend)

lemma advance_prepend:
  assumes "no_fan_out g"
  shows "advance g n s (p @ steps) rc w = map_result (prepend_steps p) (advance g n s steps rc w)"
  using assms unfolding advance_def no_fan_out_def
  by (auto intro!: eff_bind_map_same eff_bind_map_result save_step_prepend simp: prepend_steps_def)

lemma prepend_steps_sel [simp]:
  "l_node (prepend_steps p l) = l_node l" "l_count (prepend_steps p l) = l_count l"
  "l_state (prepend_steps p l) = l_state l" "l_steps (prepend_steps p l) = p @ l_steps l"
  "finish (prepend_steps p l) = add_steps p (finish l)"
  by (simp_all add: prepend_steps_def finish_def add_steps_def)

lemma invoke_body_prepend:
  assumes "no_fan_out g"
  shows "loop_map (\<lambda>_. True) (prepend_steps p) (add_steps p) (invoke_body g limit cfg) (invoke_body g limit cfg)"
proof -
  have "invoke_body g limit cfg (prepend_steps p l) w =
      map_result (map_control_flow (prepend_steps p) (add_steps p)) (invoke_body g limit cfg l w)" for l w
    unfolding invoke_body_def prepend_steps_sel
    by (auto intro!: eff_bind_map_result advance_prepend node_block_prepend assms)
  then show ?thesis by (simp add: loop_map_def)
qed


section \<open>The resumed run\<close>

abbreviation uninterrupted :: "('w, 's) compiled_graph \<Rightarrow> ('w, 's) compiled_graph" where
  "uninterrupted g \<equiv> g\<lparr>cg_interrupt_before := []\<rparr>"

text \<open>
  The resumed loop, which exempts the node it re-enters, is the loop of the run that has no
  interrupt before a node.
\<close>

lemma execution_body_uninterrupted:
  assumes nf: "no_fan_out g" and ns: "no_start g" and n: "cg_interrupt_before g = [n]"
  shows "loop_map (\<lambda>l. l_node l \<noteq> START) (Pair None) (\<lambda>iv. iv)
     (invoke_body (uninterrupted g) (cg_recursion_limit g) node_config_default) (execution_body g True n)"
proof -
  note same = before_node_block before_advance [OF nf]
  have "execution_body g True n (None, l) w =
      map_result (map_control_flow (Pair None) (\<lambda>iv. iv))
        (invoke_body (uninterrupted g) (cg_recursion_limit g) node_config_default l w)"
    if "l_node l \<noteq> START" for l w
    using that n unfolding execution_body_def invoke_body_def same
    by (auto intro!: eff_bind_map_same)
  moreover have "l_node l' \<noteq> START"
    if "invoke_body (uninterrupted g) (cg_recursion_limit g) node_config_default l w = Some (Inr (Continue l'), w')"
    for l w l' w'
    using invoke_body_continue(5) [OF that] ns by (auto simp: no_start_def)
  ultimately show ?thesis by (auto simp: loop_map_def)
qed

text \<open>As far as the interrupted run comes, the uninterrupted one does the same.\<close>

lemma loop_step_uninterrupted:
  assumes "no_fan_out g" and "loop_step (invoke_body g limit cfg) x y"
  shows "loop_step (invoke_body (uninterrupted g) limit cfg) x y"
  using assms(2) unfolding loop_step_def invoke_body_def before_node_block before_advance [OF assms(1)]
  by (auto split: if_splits)

lemma loop_at_uninterrupted:
  assumes "no_fan_out g" and "loop_at (invoke_body g limit cfg) x y"
  shows "loop_at (invoke_body (uninterrupted g) limit cfg) x y"
  using assms(2) by (rule rtranclp_mono [THEN predicate2D, rotated])
    (auto intro: loop_step_uninterrupted [OF assms(1)])

context checkpoint_store
begin

lemma loop_at_saved:
  assumes g: "cg_checkpointer g = Some cp" and calm: "calm_graph inv g" and nf: "no_fan_out g"
    and ns: "no_start g"
  shows "loop_at (invoke_body g limit cfg) x y \<Longrightarrow> saved (fst x) (snd x) \<Longrightarrow> l_node (fst x) \<noteq> START \<Longrightarrow>
    saved (fst y) (snd y) \<and> l_node (fst y) \<noteq> START"
proof (induction rule: rtranclp_induct)
  case (step y z)
  then have y: "saved (fst y) (snd y)" "l_node (fst y) \<noteq> START" by auto
  from step.hyps(2) have body: "invoke_body g limit cfg (fst y) (snd y) = Some (Inr (Continue (fst z)), snd z)"
    by (simp add: loop_step_def)
  have "inv (snd y)" using y(1) by (simp add: saved_def)
  from invoke_body_saved(1) [OF g calm nf y(2) this body] invoke_body_continue(5) [OF body] ns
  show ?case by (auto simp: no_start_def)
qed simp

lemma create_resume_last:
  assumes "cg_checkpointer g = Some cp" and "saved l w"
  shows "create_resume_execution g n None w = Some (Inr (Some
     \<lparr>ge_state = l_state l, ge_current_node = strip_after n, ge_steps = [], ge_recursion_count = l_count l,
      ge_interrupted_at = n, ge_pending_interrupt = None\<rparr>), w)"
  using assms last_law [of w]
  by (simp add: create_resume_execution_def last_checkpoint_state_def eff_bind_def eff_catch_def saved_def)

lemma resumed_run:
  assumes g: "cg_checkpointer g = Some cp" and calm: "calm_graph inv g" and nf: "no_fan_out g"
    and ns: "no_start g" and entry: "cg_entry_point g \<noteq> START"
    and n: "cg_interrupt_before g = [n]" "\<not> starts_with n ''after_''" and inv: "inv w"
    and int: "invoke g s w = Some (Inl (ExecutionInterrupted n), w')"
  shows "\<exists>ex p. create_resume_execution g n None w' = Some (Inr (Some ex), w') \<and>
     invoke (uninterrupted g) s w = map_result (add_steps p) (resume g ex w')"
proof -
  let ?lim = "cg_recursion_limit g"
  let ?B = "invoke_body g ?lim node_config_default"
  let ?U = "invoke_body (uninterrupted g) ?lim node_config_default"
  let ?start = "\<lambda>steps. \<lparr>l_state = s, l_node = cg_entry_point g, l_steps = steps, l_count = 0\<rparr>"
  have inv_g: "invoke h s = eff_bind (save_step h s 0 (cg_entry_point h) []) (\<lambda>steps.
      eff_loop (invoke_body h (cg_recursion_limit h) node_config_default)
        \<lparr>l_state = s, l_node = cg_entry_point h, l_steps = steps, l_count = 0\<rparr>)" for h
    by (simp add: invoke_def invoke_with_config_def effective_limit_def node_config_default_def)
  obtain q w0 where q: "save_step g s 0 (cg_entry_point g) [] w = Some (q, w0)"
    using int unfolding inv_g by (auto simp: eff_bind_def split: option.splits)
  from save_step_saved [OF g inv q] obtain steps where q': "q = Inr steps" and s0: "saved (?start steps) w0"
    by blast
  have start: "eff_bind (save_step g s 0 (cg_entry_point g) []) f w = f steps w0"
    for f :: "execution_step list \<Rightarrow> ('w, 's graph_invocation) geff"
    using q q' by (simp add: eff_bind_def)
  have loop: "eff_loop ?B (?start steps) w0 = Some (Inl (ExecutionInterrupted n), w')"
    using int start unfolding inv_g by simp
  then obtain l w1 where at: "loop_at ?B (?start steps, w0) (l, w1)"
    and last: "?B l w1 = Some (Inl (ExecutionInterrupted n), w')"
    by (auto simp: eff_loop_Some_iff loop_exit_def)
  have l: "saved l w1" "l_node l \<noteq> START" using loop_at_saved [OF g calm nf ns at] s0 entry by auto
  have "inv w1" using l(1) by (simp add: saved_def)
  from invoke_body_saved(2) [OF g calm nf l(2) this last n(2)] have here: "l_node l = n" "w1 = w'" by auto
  let ?ex = "\<lparr>ge_state = l_state l, ge_current_node = strip_after n, ge_steps = [], ge_recursion_count = l_count l,
      ge_interrupted_at = n, ge_pending_interrupt = None\<rparr>"
  let ?l = "l\<lparr>l_steps := []\<rparr>"
  have "invoke (uninterrupted g) s w = eff_loop ?U (?start steps) w0"
    using start unfolding inv_g before_save_step by simp
  also have "\<dots> = eff_loop ?U l w'"
    using loop_at_result [OF loop_at_uninterrupted [OF nf at]] here by simp
  also have "\<dots> = eff_loop ?U (prepend_steps (l_steps l) ?l) w'" by (simp add: prepend_steps_def)
  also have "\<dots> = map_result (add_steps (l_steps l)) (eff_loop ?U ?l w')"
    by (rule eff_loop_map [OF invoke_body_prepend]) (use nf in \<open>auto simp: no_fan_out_def before_fan_out\<close>)
  also have "eff_loop ?U ?l w' = resume g ?ex w'"
  proof -
    have "eff_loop (execution_body g True n) (None, ?l) w' = map_result (\<lambda>iv. iv) (eff_loop ?U ?l w')"
      using l(2) by (intro eff_loop_map [OF execution_body_uninterrupted [OF nf ns n(1)]]) simp
    moreover have "resume g ?ex w' = eff_loop (execution_body g True n) (None, ?l) w'"
      using n(2) here
      by (cases l) (simp add: resume_def invoke_with_execution_def start_execution_def strip_after_def)
    ultimately show ?thesis by simp
  qed
  finally show ?thesis using create_resume_last [OF g, of l w' n] l(1) here by auto
qed

end


definition stop_graph :: "(nat mem_world, nat) compiled_graph" where
  "stop_graph = with_interrupt_before [''b'']
     (with_checkpointer (mem_now sample_outside) (memory_checkpointer sample_outside)
       (with_checkpoint_retention (mem_now sample_outside) (retention_max_checkpoints 1)
         (compiled_graph_new \<lparr>to_value = (\<lambda>n. Inr (JInt (int n))), from_value = (\<lambda>_. Inl [])\<rparr>
           \<lparr>ib_get = (\<lambda>_. []), ib_put = (\<lambda>_ w. w)\<rparr>
           [(''a'', sync_node ''a'' (\<lambda>n. Inr (su_full (Suc n)))), (''b'', sync_node ''b'' (\<lambda>n. Inr (su_full (n * 5))))]
           [Fixed ''a'' ''b'', Fixed ''b'' END] ''a'' replace_reduce [])))"

lemma stop_graph_sel [simp]:
  "cg_checkpointer stop_graph = Some (retaining_memory sample_outside (retention_max_checkpoints 1))"
  "cg_edges stop_graph = [Fixed ''a'' ''b'', Fixed ''b'' END]"
  "cg_runtime_edges stop_graph = []" "cg_runtime_nodes stop_graph = []"
  "cg_conditional_routers stop_graph = []" "cg_runtime_routers stop_graph = []"
  "cg_entry_point stop_graph = ''a''" "cg_interrupt_before stop_graph = [''b'']"
  "cg_nodes stop_graph = [(''a'', sync_node ''a'' (\<lambda>n. Inr (su_full (Suc n)))),
     (''b'', sync_node ''b'' (\<lambda>n. Inr (su_full (n * 5))))]"
  by (simp_all add: stop_graph_def with_interrupt_before_def with_checkpointer_def
      with_checkpoint_retention_def compiled_graph_new_def retaining_memory_def)

lemma stop_graph_ok:
  "calm_graph I stop_graph" "no_fan_out stop_graph" "no_start stop_graph" "cg_entry_point stop_graph \<noteq> START"
  by (auto simp: calm_graph_def get_node_def find_router_def sync_node_def calm_ok no_fan_out_def
      find_fan_out_targets_def no_start_def all_targets_def START_def END_def split: option.splits if_splits)


end
