(* ===== verification/Subgraph.thy ===== *)
theory Subgraph
  imports Graph_Resume
begin

text \<open>
  Subgraph nodes (\<open>subgraph.rs\<close>, \<open>add_subgraph\<close> of \<open>graph.rs\<close>, \<open>inject_subgraph\<close> of
  \<open>compiled/graph.rs\<close>): a node that runs a compiled graph of its own on a mapped state. The closures
  that map the states are functions; the output mapper, which writes through a \<open>&mut S\<close>, returns the
  new parent state. What crosses the boundary: the budget and the metadata of the parent downwards,
  state, errors and runtime interrupts upwards.
\<close>

section \<open>The node\<close>

definition subgraph_failed :: "string \<Rightarrow> graph_error \<Rightarrow> graph_error" where
  "subgraph_failed name e =
     ExecutionError (''Subgraph '' @ quoted name @ '' execution failed: '' @ error_display e)"

definition subgraph_execute ::
  "string \<Rightarrow> ('w, 't) compiled_graph \<Rightarrow> ('s \<Rightarrow> 't) \<Rightarrow> ('t \<Rightarrow> 's \<Rightarrow> 's) \<Rightarrow> 's \<Rightarrow> node_config option \<Rightarrow>
   ('w, 's state_update) geff" where
  "subgraph_execute name subgraph input_mapper output_mapper s config =
     (let sub_config = (case config of Some c \<Rightarrow> c | None \<Rightarrow> node_config_default)
      in eff_bind
           (eff_catch (invoke_with_config subgraph (input_mapper s) sub_config) (\<lambda>e.
              case e of DynamicInterrupt n p \<Rightarrow> err e | _ \<Rightarrow> err (subgraph_failed name e)))
           (\<lambda>sub_result.
              ok (su_with_metadata (output_mapper (inv_final_state sub_result) s)
                (smap_insert ''subgraph_recursion'' (JInt (int (inv_recursion_count sub_result)))
                  (smap_insert ''subgraph_steps'' (JInt (int (length (inv_steps sub_result)))) [])))))"

definition subgraph_node ::
  "string \<Rightarrow> ('w, 't) compiled_graph \<Rightarrow> ('s \<Rightarrow> 't) \<Rightarrow> ('t \<Rightarrow> 's \<Rightarrow> 's) \<Rightarrow> ('w, 's) graph_node" where
  "subgraph_node name subgraph input_mapper output_mapper =
     \<lparr>node_execute = subgraph_execute name subgraph input_mapper output_mapper, node_name = name\<rparr>"

definition same_state :: "string \<Rightarrow> ('w, 's) compiled_graph \<Rightarrow> ('w, 's) graph_node" where
  "same_state name subgraph = subgraph_node name subgraph (\<lambda>s. s) (\<lambda>sub_s parent_s. sub_s)"

record ('w, 't, 's) subgraph_builder =
  sb_name :: string
  sb_subgraph :: "('w, 't) compiled_graph option"
  sb_input_mapper :: "('s \<Rightarrow> 't) option"
  sb_output_mapper :: "('t \<Rightarrow> 's \<Rightarrow> 's) option"

definition subgraph_builder_new :: "string \<Rightarrow> ('w, 't, 's) subgraph_builder" where
  "subgraph_builder_new name =
     \<lparr>sb_name = name, sb_subgraph = None, sb_input_mapper = None, sb_output_mapper = None\<rparr>"

definition sb_set_subgraph ::
  "('w, 't) compiled_graph \<Rightarrow> ('w, 't, 's) subgraph_builder \<Rightarrow> ('w, 't, 's) subgraph_builder" where
  "sb_set_subgraph graph b = b\<lparr>sb_subgraph := Some graph\<rparr>"

definition sb_set_input_mapper ::
  "('s \<Rightarrow> 't) \<Rightarrow> ('w, 't, 's) subgraph_builder \<Rightarrow> ('w, 't, 's) subgraph_builder" where
  "sb_set_input_mapper f b = b\<lparr>sb_input_mapper := Some f\<rparr>"

definition sb_set_output_mapper ::
  "('t \<Rightarrow> 's \<Rightarrow> 's) \<Rightarrow> ('w, 't, 's) subgraph_builder \<Rightarrow> ('w, 't, 's) subgraph_builder" where
  "sb_set_output_mapper f b = b\<lparr>sb_output_mapper := Some f\<rparr>"

definition sb_build :: "('w, 't, 's) subgraph_builder \<Rightarrow> ('w, 's) graph_node graph_result" where
  "sb_build b =
     result_bind (ok_or (ValidationError ''Subgraph not set'') (sb_subgraph b)) (\<lambda>subgraph.
     result_bind (ok_or (ValidationError ''Input mapper not set'') (sb_input_mapper b)) (\<lambda>input_mapper.
     result_bind (ok_or (ValidationError ''Output mapper not set'') (sb_output_mapper b)) (\<lambda>output_mapper.
       Inr (subgraph_node (sb_name b) subgraph input_mapper output_mapper))))"

definition add_subgraph ::
  "string \<Rightarrow> ('w, 't) compiled_graph \<Rightarrow> ('s \<Rightarrow> 't) \<Rightarrow> ('t \<Rightarrow> 's \<Rightarrow> 's) \<Rightarrow>
   ('w, 's) state_graph \<Rightarrow> ('w, 's) state_graph" where
  "add_subgraph name subgraph input_mapper output_mapper sg =
     (let node = subgraph_node name subgraph input_mapper output_mapper
      in sg\<lparr>sg_nodes := smap_insert (node_name node) node (sg_nodes sg)\<rparr>)"

definition add_subgraph_same_state ::
  "string \<Rightarrow> ('w, 's) compiled_graph \<Rightarrow> ('w, 's) state_graph \<Rightarrow> ('w, 's) state_graph" where
  "add_subgraph_same_state name subgraph sg =
     (let node = same_state name subgraph
      in sg\<lparr>sg_nodes := smap_insert (node_name node) node (sg_nodes sg)\<rparr>)"

definition inject_subgraph ::
  "string \<Rightarrow> ('w, 't) compiled_graph \<Rightarrow> ('s \<Rightarrow> 't) \<Rightarrow> ('t \<Rightarrow> 's \<Rightarrow> 's) \<Rightarrow>
   ('w, 's) compiled_graph \<Rightarrow> ('w, 's) compiled_graph" where
  "inject_subgraph name subgraph input_mapper output_mapper g =
     g\<lparr>cg_runtime_nodes := smap_insert name
         (subgraph_node name subgraph input_mapper output_mapper) (cg_runtime_nodes g)\<rparr>"


section \<open>Nested graphs return\<close>

lemma keeps_subgraph:
  assumes "well_behaved I sub" and "no_start sub"
  shows "keeps I (node_execute (subgraph_node name sub inp out) s c)"
proof -
  have "keeps I (case e of DynamicInterrupt n p \<Rightarrow> err e | _ \<Rightarrow> err (subgraph_failed name e))" for e
    by (cases e) (simp_all add: keeps_err)
  then show ?thesis
    unfolding subgraph_node_def subgraph_execute_def Let_def graph_node.simps
    by (intro keeps_bind keeps_catch keeps_ok keeps_invoke_with_config [OF assms])
qed

lemma well_behaved_inject_subgraph:
  assumes "well_behaved I sub" and "no_start sub" and "well_behaved I g"
  shows "well_behaved I (inject_subgraph n sub inp out g)"
proof -
  let ?g = "inject_subgraph n sub inp out g"
  have "keeps I (node_execute node s c)" if "get_node ?g m = Inr node" for m node s c
  proof -
    have "node = subgraph_node n sub inp out \<or> get_node g m = Inr node"
      using that by (auto simp: get_node_def inject_subgraph_def split: option.splits if_splits)
    then show ?thesis using keeps_subgraph [OF assms(1,2)] assms(3) by (auto simp: well_behaved_def)
  qed
  moreover have "find_router ?g = find_router g" "cg_checkpointer ?g = cg_checkpointer g"
    by (simp_all add: fun_eq_iff find_router_def inject_subgraph_def split: option.split)
  ultimately show ?thesis using assms(3) by (simp add: well_behaved_def)
qed

text \<open>
  Nesting keeps termination: when a graph and a subgraph both satisfy what execution needs to return,
  so does the graph into which the subgraph is injected as a node; in particular its \<open>invoke\<close>
  returns, and the nested graph can itself be nested.
\<close>

theorem nested_execution_returns:
  fixes g :: "('w, 's) compiled_graph" and sub :: "('w, 't) compiled_graph"
  assumes "well_behaved I sub" and "no_start sub" and "well_behaved I g" and "no_start g" and "I w"
  shows "well_behaved I (inject_subgraph n sub inp out g) \<and> no_start (inject_subgraph n sub inp out g) \<and>
     invoke_with_config (inject_subgraph n sub inp out g) s cfg w \<noteq> None"
proof -
  have wb: "well_behaved I (inject_subgraph n sub inp out g)"
    by (rule well_behaved_inject_subgraph [OF assms(1-3)])
  have "no_start (inject_subgraph n sub inp out g)"
    using assms(4) by (simp add: no_start_def inject_subgraph_def)
  with wb keeps_not_None [OF keeps_invoke_with_config [OF wb this] assms(5)] show ?thesis by simp
qed

theorem nested_execution_returns_witness:
  "invoke_with_config (inject_subgraph ''sub'' spin_graph (\<lambda>n. n) (\<lambda>m n. m) spin_graph) 0 node_config_default () \<noteq> None"
  using nested_execution_returns [OF spin_graph_ok spin_graph_ok, where n = "''sub''" and w = "()"] by blast


section \<open>What crosses the boundary\<close>

lemma run_subgraph:
  assumes "get_node g n = Inr (subgraph_node nm sub inp out)"
  shows "run_node g s n rc cfg w = subgraph_execute nm sub inp out s (Some cfg) w"
proof -
  have other: "e \<noteq> InterruptRequest p"
    if "subgraph_execute nm sub inp out s (Some cfg) w = Some (Inl e, w')" for e p w'
    using that by (auto simp: subgraph_execute_def subgraph_failed_def eff_catch_def elim!: eff_bind_InlE
        split: option.splits sum.splits graph_error.splits)
  show ?thesis
  proof (cases "subgraph_execute nm sub inp out s (Some cfg) w")
    case None
    then show ?thesis using assms by (simp add: run_node_def subgraph_node_def eff_catch_def)
  next
    case (Some a)
    then show ?thesis using assms other
      by (cases a; cases "fst a") (auto simp: run_node_def subgraph_node_def eff_catch_def split: graph_error.splits)
  qed
qed

text \<open>
  C37. What crosses the boundary of a subgraph node. The nested run gets the mapped state and the
  configuration the parent gives its node, so the tighter of the two limits bounds it, and a
  decision the parent resumes the node with is in its metadata. On success the parent state is
  the output mapper's; a runtime interrupt inside comes out unchanged, without a checkpoint of
  the parent; every other error is reported as a failed subgraph.
\<close>

theorem subgraph_boundary:
  fixes g :: "('w, 's) compiled_graph" and sub :: "('w, 't) compiled_graph"
    and limit :: nat and base :: node_config and decision :: "json option"
  assumes "get_node g n = Inr (subgraph_node nm sub inp out)" and "limit > 0"
  defines "cfg \<equiv> make_node_config limit base decision"
  shows "(invoke_with_config sub (inp s) cfg w = Some (Inr iv, w') \<longrightarrow>
       length (executed (inv_steps iv)) \<le> min limit (cg_recursion_limit sub) \<and>
       (\<exists>upd. run_node g s n rc cfg w = Some (Inr upd, w') \<and>
         su_update upd = Some (out (inv_final_state iv) s) \<and>
         map_of (su_metadata upd) ''subgraph_steps'' = Some (JInt (int (length (inv_steps iv)))) \<and>
         map_of (su_metadata upd) ''subgraph_recursion'' = Some (JInt (int (inv_recursion_count iv))))) \<and>
     (invoke_with_config sub (inp s) cfg w = Some (Inl e, w') \<longrightarrow>
       run_node g s n rc cfg w = Some (Inl (case e of DynamicInterrupt m p \<Rightarrow> e | _ \<Rightarrow> subgraph_failed nm e), w')) \<and>
     (invoke_with_config sub (inp s) cfg w = None \<longrightarrow> run_node g s n rc cfg w = None) \<and>
     (\<forall>v. decision = Some v \<longrightarrow> map_of (nc_metadata cfg) INTERRUPT_RESUME_KEY = Some v)"
proof (intro conjI impI allI)
  note run = run_subgraph [OF assms(1)]
  show "length (executed (inv_steps iv)) \<le> min limit (cg_recursion_limit sub)"
    if "invoke_with_config sub (inp s) cfg w = Some (Inr iv, w')"
    using invoke_with_config_budget(1) [OF that] assms(2)
    by (simp add: cfg_def make_node_config_def effective_limit_def)
  show "\<exists>upd. run_node g s n rc cfg w = Some (Inr upd, w') \<and>
         su_update upd = Some (out (inv_final_state iv) s) \<and>
         map_of (su_metadata upd) ''subgraph_steps'' = Some (JInt (int (length (inv_steps iv)))) \<and>
         map_of (su_metadata upd) ''subgraph_recursion'' = Some (JInt (int (inv_recursion_count iv)))"
    if "invoke_with_config sub (inp s) cfg w = Some (Inr iv, w')"
    using that by (simp add: run subgraph_execute_def eff_catch_def eff_bind_def su_with_metadata_def)
  show "run_node g s n rc cfg w = Some (Inl (case e of DynamicInterrupt m p \<Rightarrow> e | _ \<Rightarrow> subgraph_failed nm e), w')"
    if "invoke_with_config sub (inp s) cfg w = Some (Inl e, w')"
    using that by (cases e) (simp_all add: run subgraph_execute_def eff_catch_def eff_bind_def)
  show "run_node g s n rc cfg w = None" if "invoke_with_config sub (inp s) cfg w = None"
    using that by (simp add: run subgraph_execute_def eff_catch_def eff_bind_def)
  show "map_of (nc_metadata cfg) INTERRUPT_RESUME_KEY = Some v" if "decision = Some v" for v
    using that by (simp add: cfg_def make_node_config_def)
qed

definition line_parent :: "(unit, nat) compiled_graph" where
  "line_parent = inject_subgraph ''sub'' line_graph (\<lambda>n. n) (\<lambda>m n. m + n) spin_graph"

theorem subgraph_boundary_witness:
  "\<exists>upd. run_node line_parent 1 ''sub'' 1 (make_node_config 25 node_config_default None) () = Some (Inr upd, ()) \<and>
     su_update upd = Some 11"
proof -
  have node: "get_node line_parent ''sub'' = Inr (subgraph_node ''sub'' line_graph (\<lambda>n. n) (\<lambda>m n. m + n))"
    by (simp add: line_parent_def inject_subgraph_def get_node_def spin_graph_def compiled_graph_new_def)
  have "invoke_with_config line_graph 1 (make_node_config 25 node_config_default None) () =
     Some (Inr \<lparr>inv_final_state = 10, inv_steps = [StepNode ''a'' [], StepNode ''b'' []],
       inv_recursion_count = 2\<rparr>, ())"
    by code_simp
  from subgraph_boundary [OF node, THEN conjunct1, THEN mp, OF _ this] show ?thesis by auto
qed


section \<open>One decision, two questions\<close>

definition ask :: "string \<Rightarrow> nat \<Rightarrow> (nat mem_world, nat) graph_node" where
  "ask name k = interruptible_node name (\<lambda>s d. case d of
      None \<Rightarrow> err (InterruptRequest (JObject [])) | Some _ \<Rightarrow> ok (su_full (s + k)))"

definition two_questions :: "(nat mem_world, nat) compiled_graph" where
  "two_questions = ask_graph\<lparr>cg_nodes := [(''ask1'', ask ''ask1'' 1), (''ask2'', ask ''ask2'' 10)],
     cg_edges := [Fixed ''ask1'' ''ask2'', Fixed ''ask2'' END], cg_entry_point := ''ask1''\<rparr>"

definition asking_parent :: "(nat mem_world, nat) compiled_graph" where
  "asking_parent = ask_graph\<lparr>
     cg_nodes := [(''sub'', same_state ''sub'' (two_questions\<lparr>cg_checkpointer := None\<rparr>))],
     cg_edges := [Fixed ''sub'' END], cg_entry_point := ''sub''\<rparr>"

definition answer :: "(nat mem_world, nat) compiled_graph \<Rightarrow> string \<Rightarrow> graph_error option \<times> (graph_error + nat) option" where
  "answer g n = (case invoke g 0 mem_world_new of
      Some (Inl e, w) \<Rightarrow> (Some e, map_option (\<lambda>(r, _). map_sum id inv_final_state r)
        (resume_with_value g n (JBool True) w))
    | _ \<Rightarrow> (None, None))"

text \<open>
  In a subgraph one decision answers every question. Two nodes ask for a decision in turn. In a flat
  graph, resuming the first with a decision suspends at the second. As a subgraph of a parent, the
  same graph runs to its end: the decision is in the configuration of the nested run, whose loop
  forwards it to all of its nodes, and the second node takes the decision made for the first.
\<close>

theorem subgraph_reuses_decision:
  "validate two_questions = Inr () \<and> validate asking_parent = Inr () \<and>
   (\<exists>p q. answer two_questions ''ask1'' =
     (Some (DynamicInterrupt ''ask1'' p), Some (Inl (DynamicInterrupt ''ask2'' q)))) \<and>
   (\<exists>p. answer asking_parent ''sub'' = (Some (DynamicInterrupt ''ask1'' p), Some (Inr 11)))"
proof (intro conjI)
  show "validate two_questions = Inr ()" "validate asking_parent = Inr ()" by code_simp+
  show "\<exists>p q. answer two_questions ''ask1'' =
     (Some (DynamicInterrupt ''ask1'' p), Some (Inl (DynamicInterrupt ''ask2'' q)))"
    by (rule exI, rule exI, code_simp)
  show "\<exists>p. answer asking_parent ''sub'' = (Some (DynamicInterrupt ''ask1'' p), Some (Inr 11))"
    by (rule exI, code_simp)
qed

end
