(* ===== verification/Graph_Stream.thy ===== *)
theory Graph_Stream
  imports Graph_Engine_Props Loop_Trace
begin

text \<open>
  Streaming execution (\<open>stream\<close> and \<open>stream_collected\<close> of \<open>compiled/stream.rs\<close>). The spawned producer
  and its bounded channel are an effect on the world paired with the items sent so far; the size of
  the channel bounds how far the producer may run ahead, not what it sends. The consumer may drop
  the stream: \<open>Some k\<close> says that the receiver is gone after \<open>k\<close> items, \<open>None\<close> that it reads to the
  end. A failed \<open>send\<close> ends the producer, except where the code ignores it.

  The stream is proved to refine \<open>invoke\<close>: the same error or final state, the same effects on the
  world, the same nodes in the same order.
\<close>

section \<open>The producer\<close>

datatype stream_stop = Hangup | Fault graph_error

type_synonym ('w, 's, 'a) producer = "('w \<times> 's stream_event list, stream_stop, 'a) eff"

definition listening :: "nat option \<Rightarrow> 's stream_event list \<Rightarrow> bool" where
  "listening k evs \<longleftrightarrow> (case k of None \<Rightarrow> True | Some n \<Rightarrow> length evs < n)"

definition send :: "nat option \<Rightarrow> 's stream_event \<Rightarrow> ('w, 's, unit) producer" where
  "send k ev = (\<lambda>(w, evs).
     if listening k evs then Some (Inr (), (w, evs @ [ev])) else Some (Inl Hangup, (w, evs)))"

text \<open>\<open>let _ = tx.send(..).await\<close>\<close>

definition send_ignored :: "nat option \<Rightarrow> 's stream_event \<Rightarrow> ('w, 's, unit) producer" where
  "send_ignored k ev = (\<lambda>(w, evs). Some (Inr (), (w, if listening k evs then evs @ [ev] else evs)))"

text \<open>An operation of the graph; its error ends the producer.\<close>

definition on_world :: "('w, 'a) geff \<Rightarrow> ('w, 's, 'a) producer" where
  "on_world m = (\<lambda>(w, evs). map_option (\<lambda>(r, w'). (map_sum Fault id r, (w', evs))) (m w))"

definition stream_save :: "('w, 's) compiled_graph \<Rightarrow> 's \<Rightarrow> nat \<Rightarrow> ('w, 's, unit) producer" where
  "stream_save g s recursion_count =
     (case cg_checkpointer g of
        None \<Rightarrow> ok ()
      | Some cp \<Rightarrow> eff_bind (on_world (cp_save cp s recursion_count)) (\<lambda>_. ok ()))"

record 's stream_locals =
  sl_state :: 's
  sl_node :: string
  sl_count :: nat

text \<open>The code repeats the body of \<open>run_node\<close> here.\<close>

definition stream_node ::
  "('w, 's) compiled_graph \<Rightarrow> nat option \<Rightarrow> 's \<Rightarrow> string \<Rightarrow> nat \<Rightarrow> ('w, 's, 's) producer" where
  "stream_node g k s current_node recursion_count =
     eff_bind (send k (EvEnterNode current_node s)) (\<lambda>_.
     eff_bind (on_world (run_node g s current_node recursion_count
         \<lparr>nc_recursion_limit = cg_recursion_limit g, nc_metadata = [], nc_debug = False\<rparr>)) (\<lambda>upd.
     eff_bind (send k (EvNodeComplete current_node upd)) (\<lambda>_.
     eff_bind (case su_update upd of
         None \<Rightarrow> ok s
       | Some new_state \<Rightarrow>
           let s' = cg_default_reducer g s new_state
           in eff_bind (send k (EvStateUpdate s')) (\<lambda>_. ok s')) (\<lambda>s'.
       if current_node \<in> set (cg_interrupt_after g)
       then eff_bind (stream_save g s' recursion_count) (\<lambda>_.
              err (Fault (ExecutionInterrupted (after_name current_node))))
       else ok s'))))"

definition send_branches ::
  "nat option \<Rightarrow> (string \<times> 's graph_invocation) list \<Rightarrow> ('w, 's, unit) producer" where
  "send_branches k results = eff_for (\<lambda>(name, inv) _. send_ignored k (EvNodeComplete name
     \<lparr>su_update = Some (inv_final_state inv), su_metadata = []\<rparr>)) results ()"

definition stream_fan_out ::
  "('w, 's) compiled_graph \<Rightarrow> nat option \<Rightarrow> string list \<Rightarrow> 's \<Rightarrow> nat \<Rightarrow> ('w, 's, 's stream_locals) producer" where
  "stream_fan_out g k targets s recursion_count =
     (let recursion_count' = recursion_count + 1
      in eff_bind (on_world (execute_parallel_branches g targets s recursion_count')) (\<lambda>results.
         eff_bind (send_branches k results) (\<lambda>_.
         eff_bind (on_world (lift_result (merge_parallel_states g (map as_branch results) s))) (\<lambda>merged.
         eff_bind (send k (EvStateUpdate merged)) (\<lambda>_.
         eff_bind (stream_save g merged recursion_count') (\<lambda>_.
           ok \<lparr>sl_state = merged, sl_node = or_END (find_fan_in_target g targets),
               sl_count = recursion_count'\<rparr>))))))"

definition stream_advance ::
  "('w, 's) compiled_graph \<Rightarrow> nat option \<Rightarrow> string \<Rightarrow> 's \<Rightarrow> nat \<Rightarrow> ('w, 's, 's stream_locals) producer" where
  "stream_advance g k current_node s recursion_count =
     (case find_fan_out_targets g current_node of
        Some targets \<Rightarrow> stream_fan_out g k targets s recursion_count
      | None \<Rightarrow>
          eff_bind (on_world (find_next_node g current_node s)) (\<lambda>next_node.
          eff_bind (stream_save g s recursion_count) (\<lambda>_.
            ok \<lparr>sl_state = s, sl_node = next_node, sl_count = recursion_count\<rparr>)))"

definition stream_body ::
  "('w, 's) compiled_graph \<Rightarrow> nat option \<Rightarrow> 's stream_locals \<Rightarrow>
   ('w, 's, ('s stream_locals, 's stream_locals) control_flow) producer" where
  "stream_body g k l =
     (if sl_node l = END \<or> sl_count l \<ge> cg_recursion_limit g then ok (Break l)
      else if sl_node l \<in> set (cg_interrupt_before g)
      then err (Fault (ExecutionInterrupted (sl_node l)))
      else if sl_node l \<noteq> START
      then eff_bind (stream_node g k (sl_state l) (sl_node l) (sl_count l + 1)) (\<lambda>s.
             eff_bind (stream_advance g k (sl_node l) s (sl_count l + 1)) (\<lambda>l'. ok (Continue l')))
      else eff_bind (stream_advance g k (sl_node l) (sl_state l) (sl_count l)) (\<lambda>l'. ok (Continue l')))"

definition stream_producer ::
  "('w, 's) compiled_graph \<Rightarrow> nat option \<Rightarrow> 's \<Rightarrow> ('w, 's, unit) producer" where
  "stream_producer g k input =
     eff_bind (send k (EvStart input)) (\<lambda>_.
     eff_bind (stream_save g input 0) (\<lambda>_.
     eff_bind (eff_loop (stream_body g k)
         \<lparr>sl_state = input, sl_node = cg_entry_point g, sl_count = 0\<rparr>) (\<lambda>l.
       if sl_node l \<noteq> END then err (Fault (RecursionLimitReached (cg_recursion_limit g)))
       else send_ignored k (EvEnd (sl_state l)))))"

text \<open>What the consumer receives: the items sent, and the error that ended the run, if it is there to hear it.\<close>

definition stream ::
  "('w, 's) compiled_graph \<Rightarrow> nat option \<Rightarrow> 's \<Rightarrow> 'w \<Rightarrow> ((graph_error + 's stream_event) list \<times> 'w) option" where
  "stream g k input w = map_option (\<lambda>(r, (w', evs)).
     (map Inr evs @ (case r of
        Inl (Fault e) \<Rightarrow> if listening k evs then [Inl e] else []
      | _ \<Rightarrow> []), w')) (stream_producer g k input (w, []))"

definition stream_collected ::
  "('w, 's) compiled_graph \<Rightarrow> 's \<Rightarrow> ('w, 's stream_event list) geff" where
  "stream_collected g input = (\<lambda>w. map_option (\<lambda>(items, w'). (all_ok items, w')) (stream g None input w))"


section \<open>Refinement of \<open>invoke\<close>\<close>

fun entered :: "'s stream_event list \<Rightarrow> string list" where
  "entered [] = []"
| "entered (EvEnterNode n s # evs) = n # entered evs"
| "entered (ev # evs) = entered evs"

lemma entered_append [simp]: "entered (xs @ ys) = entered xs @ entered ys"
  by (induction xs rule: entered.induct) auto

definition is_end :: "'s stream_event \<Rightarrow> bool" where
  "is_end ev = (case ev of EvEnd _ \<Rightarrow> True | _ \<Rightarrow> False)"

text \<open>The items sent so far go with the steps recorded so far.\<close>

definition emits :: "'s \<Rightarrow> string list \<Rightarrow> 's stream_event list \<Rightarrow> bool" where
  "emits s ns evs \<longleftrightarrow> evs \<noteq> [] \<and> hd evs = EvStart s \<and> entered evs = ns \<and> (\<forall>ev \<in> set evs. \<not> is_end ev)"

definition same_error ::
  "'s \<Rightarrow> graph_error \<times> 'w \<Rightarrow> stream_stop \<times> 'w \<times> 's stream_event list \<Rightarrow> bool" where
  "same_error s = (\<lambda>(e, w) (stop, v, evs). stop = Fault e \<and> v = w \<and> (\<exists>ns. emits s ns evs))"

definition same_state_as ::
  "'s \<Rightarrow> ('s \<times> execution_step list) \<times> 'w \<Rightarrow> 's \<times> 'w \<times> 's stream_event list \<Rightarrow> bool" where
  "same_state_as s = (\<lambda>((s1, steps), w) (s2, v, evs). s2 = s1 \<and> v = w \<and> emits s (executed steps) evs)"

lemma same_simps [simp]:
  "same_error s (e, w) (stop, v, evs) \<longleftrightarrow> stop = Fault e \<and> v = w \<and> (\<exists>ns. emits s ns evs)"
  "same_state_as s ((s1, steps), w) (s2, v, evs) \<longleftrightarrow> s2 = s1 \<and> v = w \<and> emits s (executed steps) evs"
  by (simp_all add: same_error_def same_state_as_def)

lemma listening_None [simp]: "listening None evs"
  by (simp add: listening_def)

lemma send_None [simp]: "send None ev (w, evs) = Some (Inr (), (w, evs @ [ev]))"
  by (simp add: send_def)

lemma send_ignored_None [simp]: "send_ignored None ev (w, evs) = Some (Inr (), (w, evs @ [ev]))"
  by (simp add: send_ignored_def)

lemma eff_bind_send [simp]: "eff_bind (send None ev) f (w, evs) = f () (w, evs @ [ev])"
  by (simp add: eff_bind_def)

lemma on_world_sim:
  assumes "emits s ns evs"
  shows "rel_result (same_error s) (\<lambda>(x, w1) (y, v, evs'). y = x \<and> v = w1 \<and> evs' = evs) (m w) (on_world m (w, evs))"
  using assms
  by (cases "m w") (auto simp: rel_result_def on_world_def same_error_def map_sum_def id_def split: sum.splits)

lemma on_world_bind:
  assumes "emits s ns evs"
    and "\<And>x w1. m w = Some (Inr x, w1) \<Longrightarrow> rel_result (same_error s) Q (f x w1) (f' x (w1, evs))"
  shows "rel_result (same_error s) Q (eff_bind m f w) (eff_bind (on_world m) f' (w, evs))"
  using assms
  by (cases "m w")
     (auto simp: rel_result_def on_world_def same_error_def eff_bind_def map_sum_def id_def split: sum.splits)

lemma save_sim:
  assumes "emits s (executed steps) evs"
    and "\<And>steps' w1. executed steps' = executed steps \<Longrightarrow>
      rel_result (same_error s) Q (f steps' w1) (f' () (w1, evs))"
  shows "rel_result (same_error s) Q (eff_bind (save_step g st rc n steps) f w)
     (eff_bind (stream_save g st rc) f' (w, evs))"
proof (cases "cg_checkpointer g")
  case None
  with assms(2) [of steps w] show ?thesis by (simp add: save_step_def stream_save_def)
next
  case (Some cp)
  have "rel_result (same_error s) Q (eff_bind (cp_save cp st rc) (\<lambda>i. f (steps @ [StepCheckpoint i n])) w)
      (eff_bind (on_world (cp_save cp st rc)) (\<lambda>_. f' ()) (w, evs))"
    using assms by (intro on_world_bind) auto
  with Some show ?thesis by (simp add: save_step_def stream_save_def eff_bind_assoc)
qed

lemma emits_snoc: "emits s ns evs \<Longrightarrow> \<not> is_end ev \<Longrightarrow> emits s (ns @ entered [ev]) (evs @ [ev])"
  by (auto simp: emits_def)

lemma node_sim:
  fixes s :: 's
  assumes "emits s (executed steps) evs"
  shows "rel_result (same_error s)
     (same_state_as s)
     (node_block g (make_node_config (cg_recursion_limit g) node_config_default None) st n rc steps w)
     (stream_node g None st n rc (w, evs))"
proof -
  have cfg: "make_node_config (cg_recursion_limit g) node_config_default None =
      \<lparr>nc_recursion_limit = cg_recursion_limit g, nc_metadata = [], nc_debug = False\<rparr>"
    by (simp add: make_node_config_def node_config_default_def)
  have enter: "emits s (executed steps @ [n]) (evs @ [EvEnterNode n st])"
    using emits_snoc [OF assms, of "EvEnterNode n st"] by (simp add: is_end_def)
  have after: "rel_result (same_error s)
       (same_state_as s)
       ((if n \<in> set (cg_interrupt_after g)
         then eff_bind (save_step g s' rc (after_name n) (steps @ [StepNode n md])) (\<lambda>_.
           err (ExecutionInterrupted (after_name n)))
         else ok (s', steps @ [StepNode n md])) w1)
       ((if n \<in> set (cg_interrupt_after g)
         then eff_bind (stream_save g s' rc) (\<lambda>_. err (Fault (ExecutionInterrupted (after_name n))))
         else ok s') (w1, evs'))"
    if "emits s (executed steps @ [n]) evs'" for s' md w1 evs'
    using that by (auto intro!: save_sim)
  show ?thesis
    unfolding node_block_def stream_node_def Let_def cfg eff_bind_send
  proof (rule on_world_bind [OF enter])
    fix upd :: "'s state_update" and w1
    have compl: "emits s (executed steps @ [n]) ((evs @ [EvEnterNode n st]) @ [EvNodeComplete n upd])"
      using emits_snoc [OF enter, of "EvNodeComplete n upd"] by (simp add: is_end_def)
    have updated: "emits s (executed steps @ [n])
        (((evs @ [EvEnterNode n st]) @ [EvNodeComplete n upd]) @ [EvStateUpdate s'])" for s'
      using emits_snoc [OF compl, of "EvStateUpdate s'"] by (simp add: is_end_def)
    show "rel_result (same_error s)
       (same_state_as s)
       ((if n \<in> set (cg_interrupt_after g)
         then eff_bind (save_step g (fold_update g st upd) rc (after_name n) (steps @ [StepNode n (su_metadata upd)]))
           (\<lambda>_. err (ExecutionInterrupted (after_name n)))
         else ok (fold_update g st upd, steps @ [StepNode n (su_metadata upd)])) w1)
       (eff_bind (send None (EvNodeComplete n upd)) (\<lambda>_.
          eff_bind (case su_update upd of None \<Rightarrow> ok st
            | Some new_state \<Rightarrow> eff_bind (send None (EvStateUpdate (cg_default_reducer g st new_state)))
                (\<lambda>_. ok (cg_default_reducer g st new_state))) (\<lambda>s'.
            if n \<in> set (cg_interrupt_after g)
            then eff_bind (stream_save g s' rc) (\<lambda>_. err (Fault (ExecutionInterrupted (after_name n))))
            else ok s')) (w1, evs @ [EvEnterNode n st]))"
      unfolding eff_bind_send fold_update_def
      using after [OF compl, of st] after [OF updated]
      by (cases "su_update upd") (simp_all only: option.case eff_bind_ok eff_bind_assoc eff_bind_send)
  qed
qed

text \<open>The locals of the two loops.\<close>

definition same_locals ::
  "'s \<Rightarrow> 's locals \<times> 'w \<Rightarrow> 's stream_locals \<times> 'w \<times> 's stream_event list \<Rightarrow> bool" where
  "same_locals s = (\<lambda>(l, w) (sl, v, evs). v = w \<and>
     sl = \<lparr>sl_state = l_state l, sl_node = l_node l, sl_count = l_count l\<rparr> \<and> emits s (executed (l_steps l)) evs)"

definition same_result ::
  "'s \<Rightarrow> 's graph_invocation \<times> 'w \<Rightarrow> unit \<times> 'w \<times> 's stream_event list \<Rightarrow> bool" where
  "same_result s = (\<lambda>(iv, w) (_, v, evs). v = w \<and>
     (\<exists>evs'. evs = evs' @ [EvEnd (inv_final_state iv)] \<and> emits s (executed (inv_steps iv)) evs'))"

lemma same_locals_simps [simp]:
  "same_locals s (l, w) (sl, v, evs) \<longleftrightarrow> v = w \<and>
     sl = \<lparr>sl_state = l_state l, sl_node = l_node l, sl_count = l_count l\<rparr> \<and> emits s (executed (l_steps l)) evs"
  "same_result s (iv, w) (u, v, evs) \<longleftrightarrow> v = w \<and>
     (\<exists>evs'. evs = evs' @ [EvEnd (inv_final_state iv)] \<and> emits s (executed (inv_steps iv)) evs')"
  by (simp_all add: same_locals_def same_result_def)

lemma emits_branches:
  assumes "emits s ns evs"
  shows "\<exists>evs'. emits s ns evs' \<and>
     send_branches None rs (w, evs) = Some (Inr (), (w, evs'))"
  using assms
proof (induction rs arbitrary: evs)
  case (Cons r rs)
  obtain name inv where r: "r = (name, inv)" by force
  let ?ev = "EvNodeComplete name \<lparr>su_update = Some (inv_final_state inv), su_metadata = []\<rparr>"
  have "emits s ns (evs @ [?ev])" using emits_snoc [OF Cons.prems, of ?ev] by (simp add: is_end_def)
  from Cons.IH [OF this] show ?case by (simp add: r eff_bind_def send_branches_def)
qed (simp add: send_branches_def)

lemma fan_out_sim:
  fixes w :: 'w
  assumes "emits s (executed steps) evs"
  shows "rel_result (same_error s) (same_locals s) (fan_out_block g ts st steps rc w)
     (stream_fan_out g None ts st rc (w, evs))"
  unfolding fan_out_block_def stream_fan_out_def Let_def
proof (rule on_world_bind [OF assms])
  fix rs and w1 :: 'w
  obtain evs1 where evs1: "emits s (executed steps) evs1"
    and sends: "send_branches None rs (w1, evs) = Some (Inr (), (w1, evs1))"
    using emits_branches [OF assms, of rs w1] by (elim exE conjE)
  have upd: "emits s (executed (steps @ branch_steps rs)) (evs1 @ [EvStateUpdate m])" for m
    using emits_snoc [OF evs1, of "EvStateUpdate m"] by (simp add: is_end_def)
  show "rel_result (same_error s) (same_locals s)
     (eff_bind (lift_result (merge_parallel_states g (map as_branch rs) st)) (\<lambda>merged.
        eff_bind (save_step g merged (rc + 1) (or_END (find_fan_in_target g ts)) (steps @ branch_steps rs)) (\<lambda>steps'.
          ok \<lparr>l_state = merged, l_node = or_END (find_fan_in_target g ts), l_steps = steps', l_count = rc + 1\<rparr>)) w1)
     (eff_bind (send_branches None rs) (\<lambda>_.
        eff_bind (on_world (lift_result (merge_parallel_states g (map as_branch rs) st))) (\<lambda>merged.
        eff_bind (send None (EvStateUpdate merged)) (\<lambda>_. eff_bind (stream_save g merged (rc + 1)) (\<lambda>_.
          ok \<lparr>sl_state = merged, sl_node = or_END (find_fan_in_target g ts), sl_count = rc + 1\<rparr>)))) (w1, evs))"
    unfolding eff_bind_Some [of "send_branches None rs", OF sends]
  proof (rule on_world_bind [OF evs1])
    fix m w2
    have "emits s (executed steps) (evs1 @ [EvStateUpdate m])" using upd by simp
    then show "rel_result (same_error s) (same_locals s)
       (eff_bind (save_step g m (rc + 1) (or_END (find_fan_in_target g ts)) (steps @ branch_steps rs)) (\<lambda>steps'.
          ok \<lparr>l_state = m, l_node = or_END (find_fan_in_target g ts), l_steps = steps', l_count = rc + 1\<rparr>) w2)
       (eff_bind (send None (EvStateUpdate m)) (\<lambda>_. eff_bind (stream_save g m (rc + 1)) (\<lambda>_.
          ok \<lparr>sl_state = m, sl_node = or_END (find_fan_in_target g ts), sl_count = rc + 1\<rparr>)) (w2, evs1))"
      unfolding eff_bind_send by (intro save_sim [OF upd]) simp
  qed
qed

lemma advance_sim:
  assumes "emits s (executed steps) evs"
  shows "rel_result (same_error s) (same_locals s) (advance g n st steps rc w) (stream_advance g None n st rc (w, evs))"
proof (cases "find_fan_out_targets g n")
  case None
  then show ?thesis
    unfolding advance_def stream_advance_def option.case None
    by (intro on_world_bind [OF assms] save_sim [OF assms]) (use assms in simp)
next
  case (Some ts)
  with fan_out_sim [OF assms] show ?thesis by (simp add: advance_def stream_advance_def)
qed

abbreviation stream_leave :: "('w, 's) compiled_graph \<Rightarrow> 's stream_locals \<Rightarrow> ('w, 's, unit) producer" where
  "stream_leave g l \<equiv> (if sl_node l \<noteq> END then err (Fault (RecursionLimitReached (cg_recursion_limit g)))
     else send_ignored None (EvEnd (sl_state l)))"

lemma continue_sim:
  assumes "rel_result (same_error s) (same_locals s) (m w) (m' v)"
  shows "rel_result (same_error s) (rel_iteration (same_locals s) (same_result s))
     (eff_bind m (\<lambda>l'. ok (Continue l')) w)
     (eff_bind (eff_bind m' (\<lambda>l'. ok (Continue l')))
       (\<lambda>k. case k of Continue c' \<Rightarrow> ok (Continue c') | Break x \<Rightarrow> f x) v)"
  unfolding eff_bind_assoc using assms by (rule rel_result_bind) simp

lemma body_sim:
  fixes g :: "('w, 's) compiled_graph"
  shows "loop_sim (same_locals s) (same_error s) (same_result s)
     (invoke_body g (cg_recursion_limit g) node_config_default) (then_leave (stream_body g None) (stream_leave g))"
proof (rule loop_simI)
  fix l :: "'s locals" and w :: 'w and sl v
  assume R: "same_locals s (l, w) (sl, v)"
  then obtain evs where v: "v = (w, evs)" and e: "emits s (executed (l_steps l)) evs"
    and sl: "sl = \<lparr>sl_state = l_state l, sl_node = l_node l, sl_count = l_count l\<rparr>"
    by (cases v) auto
  have node: "rel_result (same_error s) (rel_iteration (same_locals s) (same_result s))
      (eff_bind (node_block g (make_node_config (cg_recursion_limit g) node_config_default None) (l_state l)
          (l_node l) (l_count l + 1) (l_steps l)) (\<lambda>(s, steps).
         eff_bind (advance g (l_node l) s steps (l_count l + 1)) (\<lambda>l'. ok (Continue l'))) w)
      (eff_bind (eff_bind (stream_node g None (l_state l) (l_node l) (l_count l + 1)) (\<lambda>s.
         eff_bind (stream_advance g None (l_node l) s (l_count l + 1)) (\<lambda>l'. ok (Continue l'))))
        (\<lambda>k. case k of Continue c' \<Rightarrow> ok (Continue c') | Break x \<Rightarrow> f x) (w, evs))" for f
    unfolding eff_bind_assoc [of "stream_node g None (l_state l) (l_node l) (l_count l + 1)"]
  proof (rule rel_result_bind, rule node_sim [OF e])
    fix a and w1 :: 'w and b v1
    assume "same_state_as s (a, w1) (b, v1)"
    then obtain evs1 where "a = (b, snd a)" "v1 = (w1, evs1)" "emits s (executed (snd a)) evs1"
      by (cases a; cases v1) auto
    then show "rel_result (same_error s) (rel_iteration (same_locals s) (same_result s))
       ((case a of (s, steps) \<Rightarrow> eff_bind (advance g (l_node l) s steps (l_count l + 1)) (\<lambda>l'. ok (Continue l'))) w1)
       (eff_bind (eff_bind (stream_advance g None (l_node l) b (l_count l + 1)) (\<lambda>l'. ok (Continue l')))
         (\<lambda>k. case k of Continue c' \<Rightarrow> ok (Continue c') | Break x \<Rightarrow> f x) v1)"
      by (cases a) (auto intro!: continue_sim advance_sim)
  qed
  show "rel_result (same_error s) (rel_iteration (same_locals s) (same_result s))
      (invoke_body g (cg_recursion_limit g) node_config_default l w)
      (then_leave (stream_body g None) (stream_leave g) sl v)"
  proof (cases "l_node l = END \<or> l_count l \<ge> cg_recursion_limit g \<or> l_node l \<in> set (cg_interrupt_before g)")
    case True
    with e show ?thesis
      by (auto simp: invoke_body_def then_leave_def stream_body_def sl v eff_bind_def finish_def)
  next
    case False
    then show ?thesis
      using node
      by (auto simp: invoke_body_def then_leave_def stream_body_def sl v intro!: continue_sim advance_sim e)
  qed
qed

lemma stream_sim:
  fixes g :: "('w, 's) compiled_graph"
  shows "rel_result (same_error s) (same_result s) (invoke g s w) (stream_producer g None s (w, []))"
proof -
  have start: "emits s (executed []) [EvStart s]" by (simp add: emits_def is_end_def)
  have limit: "effective_limit g node_config_default = cg_recursion_limit g"
    by (simp add: effective_limit_def node_config_default_def)
  show ?thesis
    unfolding invoke_def invoke_with_config_def stream_producer_def limit eff_bind_send append_Nil
  proof (rule save_sim [OF start])
    fix steps and w1 :: 'w
    assume "executed steps = executed []"
    with start have "same_locals s (\<lparr>l_state = s, l_node = cg_entry_point g, l_steps = steps, l_count = 0\<rparr>, w1)
        (\<lparr>sl_state = s, sl_node = cg_entry_point g, sl_count = 0\<rparr>, w1, [EvStart s])"
      by simp
    from eff_loop_sim [OF body_sim this]
    show "rel_result (same_error s) (same_result s)
       (eff_loop (invoke_body g (cg_recursion_limit g) node_config_default)
          \<lparr>l_state = s, l_node = cg_entry_point g, l_steps = steps, l_count = 0\<rparr> w1)
       (eff_bind (eff_loop (stream_body g None) \<lparr>sl_state = s, sl_node = cg_entry_point g, sl_count = 0\<rparr>)
          (stream_leave g) (w1, [EvStart s]))"
      unfolding eff_loop_then_leave .
  qed
qed

lemma all_ok_map_Inr: "all_ok (map Inr evs) = Inr evs"
  by (induction evs) auto

lemma all_ok_error: "all_ok (map Inr evs @ [Inl e]) = Inl e"
  by (induction evs) auto

text \<open>
  C7. Streaming refines \<open>invoke\<close>. Read to its end, the stream of a graph on an input does what \<open>invoke\<close>
  does: it does not end if and only if \<open>invoke\<close> does not return; it leaves the same world (in
  particular the same checkpoints); when \<open>invoke\<close> fails, its last item is that error; when \<open>invoke\<close>
  succeeds, its last item is the end event with the final state of \<open>invoke\<close>, and the nodes whose
  entry it announced are the nodes \<open>invoke\<close> ran, in order. Before the last item there are only
  events, the first of them the start with the input, none of them the end.
\<close>

theorem stream_refines_invoke:
  fixes g :: "('w, 's) compiled_graph"
  shows "case invoke g s w of
      None \<Rightarrow> stream g None s w = None \<and> stream_collected g s w = None
    | Some (Inl e, w') \<Rightarrow> stream_collected g s w = Some (Inl e, w') \<and>
        (\<exists>ns evs. stream g None s w = Some (map Inr evs @ [Inl e], w') \<and> emits s ns evs)
    | Some (Inr iv, w') \<Rightarrow> \<exists>evs. emits s (executed (inv_steps iv)) evs \<and>
        stream g None s w = Some (map Inr (evs @ [EvEnd (inv_final_state iv)]), w') \<and>
        stream_collected g s w = Some (Inr (evs @ [EvEnd (inv_final_state iv)]), w')"
  using stream_sim [of s g w]
  unfolding rel_result_def
  by (auto simp: stream_def stream_collected_def all_ok_map_Inr all_ok_error simp flip: map_append
      split: sum.splits)

end
