(* ===== verification/Schema_Message.thy ===== *)
theory Schema_Message
  imports Json_Value
begin

text \<open>
  The chat messages of \<open>lc-schema\<close> (\<open>messages/message.rs\<close> and the media types beside it) with the
  tool calls of \<open>lc-shared\<close> (\<open>tool_types.rs\<close>): their constructors and builders, the view over the
  attachments, deduplication of tool calls and validation. A Rust string is the list of the bytes of
  its UTF-8 encoding.
\<close>

section \<open>Media attachments\<close>

record image_content =
  image_url :: string

record audio_content =
  audio_url :: string

record video_content =
  video_url :: string

record file_content =
  file_url :: string
  file_mime_type :: "string option"
  file_name :: "string option"

definition data_uri :: "string \<Rightarrow> string \<Rightarrow> string" where
  "data_uri mime data = ''data:'' @ mime @ '';base64,'' @ data"

definition uri_base64_data :: "string \<Rightarrow> string option" where
  "uri_base64_data url = (case split_once (CHR '','') url of
      None \<Rightarrow> None
    | Some (prefix, data) \<Rightarrow> if str_contains prefix ''base64'' then Some data else None)"

definition image_from_url :: "string \<Rightarrow> image_content" where
  "image_from_url url = \<lparr>image_url = url\<rparr>"

definition image_from_base64 :: "string \<Rightarrow> image_content" where
  "image_from_base64 data = \<lparr>image_url = data_uri ''image/png'' data\<rparr>"

definition image_from_base64_with_mime :: "string \<Rightarrow> string \<Rightarrow> image_content" where
  "image_from_base64_with_mime data mime = \<lparr>image_url = data_uri mime data\<rparr>"

definition image_is_base64 :: "image_content \<Rightarrow> bool" where
  "image_is_base64 i \<longleftrightarrow> starts_with (image_url i) ''data:''"

definition image_base64_data :: "image_content \<Rightarrow> string option" where
  "image_base64_data i = uri_base64_data (image_url i)"

definition audio_from_url :: "string \<Rightarrow> audio_content" where
  "audio_from_url url = \<lparr>audio_url = url\<rparr>"

definition audio_from_base64 :: "string \<Rightarrow> audio_content" where
  "audio_from_base64 data = \<lparr>audio_url = data_uri ''audio/wav'' data\<rparr>"

definition audio_from_base64_with_mime :: "string \<Rightarrow> string \<Rightarrow> audio_content" where
  "audio_from_base64_with_mime data mime = \<lparr>audio_url = data_uri mime data\<rparr>"

definition audio_is_base64 :: "audio_content \<Rightarrow> bool" where
  "audio_is_base64 a \<longleftrightarrow> starts_with (audio_url a) ''data:''"

definition audio_base64_data :: "audio_content \<Rightarrow> string option" where
  "audio_base64_data a = uri_base64_data (audio_url a)"

definition video_from_url :: "string \<Rightarrow> video_content" where
  "video_from_url url = \<lparr>video_url = url\<rparr>"

definition video_from_base64 :: "string \<Rightarrow> video_content" where
  "video_from_base64 data = \<lparr>video_url = data_uri ''video/mp4'' data\<rparr>"

definition video_from_base64_with_mime :: "string \<Rightarrow> string \<Rightarrow> video_content" where
  "video_from_base64_with_mime data mime = \<lparr>video_url = data_uri mime data\<rparr>"

definition video_is_base64 :: "video_content \<Rightarrow> bool" where
  "video_is_base64 v \<longleftrightarrow> starts_with (video_url v) ''data:''"

definition video_base64_data :: "video_content \<Rightarrow> string option" where
  "video_base64_data v = uri_base64_data (video_url v)"

definition file_from_url :: "string \<Rightarrow> file_content" where
  "file_from_url url = \<lparr>file_url = url, file_mime_type = None, file_name = None\<rparr>"

definition file_from_base64 :: "string \<Rightarrow> string \<Rightarrow> file_content" where
  "file_from_base64 data mime =
     \<lparr>file_url = data_uri mime data, file_mime_type = Some mime, file_name = None\<rparr>"

definition file_from_url_with_mime :: "string \<Rightarrow> string \<Rightarrow> file_content" where
  "file_from_url_with_mime url mime = \<lparr>file_url = url, file_mime_type = Some mime, file_name = None\<rparr>"

definition file_with_name :: "string \<Rightarrow> file_content \<Rightarrow> file_content" where
  "file_with_name n f = f\<lparr>file_name := Some n\<rparr>"

definition file_is_base64 :: "file_content \<Rightarrow> bool" where
  "file_is_base64 f \<longleftrightarrow> starts_with (file_url f) ''data:''"

definition file_base64_data :: "file_content \<Rightarrow> string option" where
  "file_base64_data f = uri_base64_data (file_url f)"

datatype modality = Image | Audio | Video | File

datatype media_part =
    ImagePart image_content
  | AudioPart audio_content
  | VideoPart video_content
  | FilePart file_content

definition data_uri_mime :: "string \<Rightarrow> string option" where
  "data_uri_mime url = (case strip_prefix url ''data:'' of
      None \<Rightarrow> None
    | Some rest \<Rightarrow> (let mime = takeWhile (\<lambda>c. c \<noteq> CHR '';'' \<and> c \<noteq> CHR '','') rest in
        if mime = [] then None else Some mime))"

primrec part_modality :: "media_part \<Rightarrow> modality" where
  "part_modality (ImagePart _) = Image"
| "part_modality (AudioPart _) = Audio"
| "part_modality (VideoPart _) = Video"
| "part_modality (FilePart _) = File"

primrec part_url :: "media_part \<Rightarrow> string" where
  "part_url (ImagePart m) = image_url m"
| "part_url (AudioPart m) = audio_url m"
| "part_url (VideoPart m) = video_url m"
| "part_url (FilePart m) = file_url m"

primrec part_mime_type :: "media_part \<Rightarrow> string option" where
  "part_mime_type (FilePart f) =
     (case file_mime_type f of Some m \<Rightarrow> Some m | None \<Rightarrow> data_uri_mime (file_url f))"
| "part_mime_type (ImagePart i) = data_uri_mime (image_url i)"
| "part_mime_type (AudioPart a) = data_uri_mime (audio_url a)"
| "part_mime_type (VideoPart v) = data_uri_mime (video_url v)"

definition part_name :: "media_part \<Rightarrow> string option" where
  "part_name p = (case p of FilePart f \<Rightarrow> file_name f | _ \<Rightarrow> None)"

definition part_base64_data :: "media_part \<Rightarrow> string option" where
  "part_base64_data p = uri_base64_data (part_url p)"

definition is_ascii_whitespace :: "char \<Rightarrow> bool" where
  "is_ascii_whitespace c \<longleftrightarrow> c \<in> set [CHR 0x20, CHR 0x09, CHR 0x0A, CHR 0x0C, CHR 0x0D]"

text \<open>The two decoders of the \<open>base64\<close> crate are parameters.\<close>

definition content_bytes ::
  "(string \<Rightarrow> string option) \<Rightarrow> (string \<Rightarrow> string option) \<Rightarrow> media_part \<Rightarrow> string option" where
  "content_bytes standard_decode url_safe_decode p = (case part_base64_data p of
      None \<Rightarrow> None
    | Some b64 \<Rightarrow> (let clean = filter (\<lambda>c. \<not> is_ascii_whitespace c \<and> c \<noteq> CHR ''='') b64 in
        case standard_decode clean of Some bytes \<Rightarrow> Some bytes | None \<Rightarrow> url_safe_decode clean))"

definition part_is_data_uri :: "media_part \<Rightarrow> bool" where
  "part_is_data_uri p \<longleftrightarrow> starts_with (part_url p) ''data:''"


section \<open>Tool calls and messages\<close>

record function_call =
  fn_name :: string
  fn_arguments :: string

record tool_call =
  tc_id :: string
  tc_type :: string
  tc_server_executed :: bool
  tc_function :: function_call

text \<open>\<open>ToolCallBuilder\<close> has the fields of the call it builds.\<close>

definition tool_call_builder :: "string \<Rightarrow> tool_call" where
  "tool_call_builder i = \<lparr>tc_id = i, tc_type = ''function'', tc_server_executed = False,
     tc_function = \<lparr>fn_name = [], fn_arguments = []\<rparr>\<rparr>"

definition builder_name :: "string \<Rightarrow> tool_call \<Rightarrow> tool_call" where
  "builder_name n b = b\<lparr>tc_function := (tc_function b)\<lparr>fn_name := n\<rparr>\<rparr>"

definition builder_arguments :: "string \<Rightarrow> tool_call \<Rightarrow> tool_call" where
  "builder_arguments a b = b\<lparr>tc_function := (tc_function b)\<lparr>fn_arguments := a\<rparr>\<rparr>"

definition builder_server_executed :: "bool \<Rightarrow> tool_call \<Rightarrow> tool_call" where
  "builder_server_executed x b = b\<lparr>tc_server_executed := x\<rparr>"

datatype message_type = System | Human | AI | Tool string

record message =
  msg_content :: string
  msg_images :: "image_content list"
  msg_audio :: "audio_content list"
  msg_videos :: "video_content list"
  msg_files :: "file_content list"
  msg_type :: message_type
  msg_name :: "string option"
  msg_additional_kwargs :: "json smap"
  msg_id :: "string option"
  msg_tool_calls :: "tool_call list option"

definition plain_message :: "message_type \<Rightarrow> string \<Rightarrow> message" where
  "plain_message t c = \<lparr>msg_content = c, msg_images = [], msg_audio = [], msg_videos = [],
     msg_files = [], msg_type = t, msg_name = None, msg_additional_kwargs = [], msg_id = None,
     msg_tool_calls = None\<rparr>"

definition system :: "string \<Rightarrow> message" where
  "system c = plain_message System c"

definition human :: "string \<Rightarrow> message" where
  "human c = plain_message Human c"

definition ai :: "string \<Rightarrow> message" where
  "ai c = plain_message AI c"

definition tool_message :: "string \<Rightarrow> string \<Rightarrow> message" where
  "tool_message i c = plain_message (Tool i) c"

text \<open>\<open>filter\<close> with the stateful test \<open>seen.insert(id)\<close>.\<close>

fun dedup_from :: "string set \<Rightarrow> tool_call list \<Rightarrow> tool_call list" where
  "dedup_from seen [] = []"
| "dedup_from seen (c # cs) =
     (if tc_id c \<in> seen then dedup_from seen cs
      else c # dedup_from (insert (tc_id c) seen) cs)"

definition dedup_tool_calls :: "tool_call list \<Rightarrow> tool_call list" where
  "dedup_tool_calls calls = dedup_from {} calls"

definition extend_dedup :: "tool_call list \<Rightarrow> tool_call list \<Rightarrow> tool_call list" where
  "extend_dedup existing incoming =
     fold (\<lambda>c ex. if list_ex (\<lambda>x. tc_id x = tc_id c) ex then ex else ex @ [c]) incoming existing"

definition ai_with_tool_calls :: "string \<Rightarrow> tool_call list \<Rightarrow> message" where
  "ai_with_tool_calls c calls = (ai c)\<lparr>msg_tool_calls := Some (dedup_tool_calls calls)\<rparr>"

definition with_name :: "string \<Rightarrow> message \<Rightarrow> message" where
  "with_name n m = m\<lparr>msg_name := Some n\<rparr>"

definition with_id :: "string \<Rightarrow> message \<Rightarrow> message" where
  "with_id i m = m\<lparr>msg_id := Some i\<rparr>"

definition with_image :: "image_content \<Rightarrow> message \<Rightarrow> message" where
  "with_image i m = m\<lparr>msg_images := msg_images m @ [i]\<rparr>"

definition with_images :: "image_content list \<Rightarrow> message \<Rightarrow> message" where
  "with_images is m = m\<lparr>msg_images := msg_images m @ is\<rparr>"

definition with_audio :: "audio_content \<Rightarrow> message \<Rightarrow> message" where
  "with_audio a m = m\<lparr>msg_audio := msg_audio m @ [a]\<rparr>"

definition with_video :: "video_content \<Rightarrow> message \<Rightarrow> message" where
  "with_video v m = m\<lparr>msg_videos := msg_videos m @ [v]\<rparr>"

definition with_file :: "file_content \<Rightarrow> message \<Rightarrow> message" where
  "with_file f m = m\<lparr>msg_files := msg_files m @ [f]\<rparr>"

definition human_with_image :: "string \<Rightarrow> string \<Rightarrow> message" where
  "human_with_image c url = with_image (image_from_url url) (human c)"

definition human_with_images :: "string \<Rightarrow> image_content list \<Rightarrow> message" where
  "human_with_images c is = with_images is (human c)"

definition human_with_audio :: "string \<Rightarrow> audio_content \<Rightarrow> message" where
  "human_with_audio c a = with_audio a (human c)"

definition human_with_video :: "string \<Rightarrow> video_content \<Rightarrow> message" where
  "human_with_video c v = with_video v (human c)"

definition human_with_file :: "string \<Rightarrow> file_content \<Rightarrow> message" where
  "human_with_file c f = with_file f (human c)"

definition clear_images :: "message \<Rightarrow> message" where
  "clear_images m = m\<lparr>msg_images := []\<rparr>"

definition clear_media :: "message \<Rightarrow> message" where
  "clear_media m = m\<lparr>msg_images := [], msg_audio := [], msg_videos := [], msg_files := []\<rparr>"

definition is_multimodal :: "message \<Rightarrow> bool" where
  "is_multimodal m \<longleftrightarrow>
     msg_images m \<noteq> [] \<or> msg_audio m \<noteq> [] \<or> msg_videos m \<noteq> [] \<or> msg_files m \<noteq> []"

definition media_parts :: "message \<Rightarrow> media_part list" where
  "media_parts m = map ImagePart (msg_images m) @ map AudioPart (msg_audio m)
     @ map VideoPart (msg_videos m) @ map FilePart (msg_files m)"

definition type_str :: "message \<Rightarrow> string" where
  "type_str m = (case msg_type m of
      System \<Rightarrow> ''system''
    | Human \<Rightarrow> ''human''
    | AI \<Rightarrow> ''ai''
    | Tool i \<Rightarrow> ''tool:'' @ i)"

definition has_tool_calls :: "message \<Rightarrow> bool" where
  "has_tool_calls m \<longleftrightarrow> (case msg_tool_calls m of None \<Rightarrow> False | Some cs \<Rightarrow> cs \<noteq> [])"

definition extend_tool_calls :: "tool_call list \<Rightarrow> message \<Rightarrow> message" where
  "extend_tool_calls calls m = (case msg_tool_calls m of
      Some existing \<Rightarrow> m\<lparr>msg_tool_calls := Some (extend_dedup existing calls)\<rparr>
    | None \<Rightarrow> m\<lparr>msg_tool_calls := Some (dedup_tool_calls calls)\<rparr>)"

definition tool_call_id :: "message \<Rightarrow> string option" where
  "tool_call_id m = (case msg_type m of Tool i \<Rightarrow> Some i | _ \<Rightarrow> None)"

datatype message_error = MissingToolCallId | EmptyToolCallId | MissingFunctionName | EmptyMessage

fun validate_calls :: "tool_call list \<Rightarrow> message_error option" where
  "validate_calls [] = None"
| "validate_calls (c # cs) =
     (if tc_id c = [] then Some EmptyToolCallId
      else if fn_name (tc_function c) = [] then Some MissingFunctionName
      else validate_calls cs)"

definition validate_role :: "message \<Rightarrow> message_error option" where
  "validate_role m = (case msg_type m of
      Tool i \<Rightarrow> if i = [] then Some MissingToolCallId else None
    | AI \<Rightarrow> validate_calls (case msg_tool_calls m of None \<Rightarrow> [] | Some cs \<Rightarrow> cs)
    | _ \<Rightarrow> None)"

definition validate_message :: "message \<Rightarrow> message_error + unit" where
  "validate_message m = (case validate_role m of
      Some e \<Rightarrow> Inl e
    | None \<Rightarrow>
        if msg_content m = [] \<and> \<not> is_multimodal m
           \<and> (case msg_tool_calls m of None \<Rightarrow> True | Some calls \<Rightarrow> calls = [])
        then Inl EmptyMessage else Inr ())"


section \<open>Laws\<close>

text \<open>A kept call is the first one with its id; the ids that occur are kept, each once.\<close>

lemma dedup_from_ids: "set (map tc_id (dedup_from seen cs)) = set (map tc_id cs) - seen"
  by (induction seen cs rule: dedup_from.induct) auto

lemma dedup_from_distinct: "distinct (map tc_id (dedup_from seen cs))"
proof (induction seen cs rule: dedup_from.induct)
  case (2 seen c cs)
  have "tc_id c \<notin> set (map tc_id (dedup_from (insert (tc_id c) seen) cs))"
    by (simp only: dedup_from_ids) simp
  with 2 show ?case by simp
qed simp

lemma dedup_from_first:
  "i \<notin> seen \<Longrightarrow> List.find (\<lambda>c. tc_id c = i) (dedup_from seen cs) = List.find (\<lambda>c. tc_id c = i) cs"
  by (induction seen cs rule: dedup_from.induct) auto

lemma dedup_from_append:
  "dedup_from seen (as @ bs) = dedup_from seen as @ dedup_from (seen \<union> set (map tc_id as)) bs"
  by (induction seen as rule: dedup_from.induct) (auto simp: insert_absorb)

lemma dedup_from_filter: "dedup_from seen cs = filter (\<lambda>c. tc_id c \<notin> seen) (dedup_from {} cs)"
proof (induction cs arbitrary: seen)
  case (Cons c cs)
  have "dedup_from (insert (tc_id c) seen) cs
      = filter (\<lambda>x. tc_id x \<notin> seen) (dedup_from {tc_id c} cs)"
    by (subst (1 2) Cons.IH) (auto intro: filter_cong)
  moreover have "dedup_from seen cs = filter (\<lambda>x. tc_id x \<notin> seen) (dedup_from {tc_id c} cs)"
    if "tc_id c \<in> seen"
    using that by (subst (1 2) Cons.IH) (auto intro: filter_cong)
  ultimately show ?case by auto
qed simp

text \<open>Appending with \<open>extend_dedup\<close> is deduplicating the concatenation.\<close>

lemma extend_dedup_eq: "extend_dedup existing incoming =
    existing @ dedup_from (set (map tc_id existing)) incoming"
proof (induction incoming arbitrary: existing)
  case (Cons c cs)
  have "extend_dedup existing (c # cs) =
      extend_dedup (if tc_id c \<in> set (map tc_id existing) then existing else existing @ [c]) cs"
    by (simp add: extend_dedup_def list_ex_iff image_iff) (metis (full_types))
  then show ?case by (auto simp: Cons.IH)
qed (simp add: extend_dedup_def)

lemma extend_dedup_dedup:
  "extend_dedup (dedup_tool_calls as) bs = dedup_tool_calls (as @ bs)"
  using dedup_from_ids [of "{}" as]
  by (simp add: extend_dedup_eq dedup_tool_calls_def dedup_from_append)

lemma extend_ai_with_tool_calls:
  "extend_tool_calls bs (ai_with_tool_calls c as) = ai_with_tool_calls c (as @ bs)"
  by (simp add: extend_tool_calls_def ai_with_tool_calls_def extend_dedup_dedup)

lemma extend_ai: "extend_tool_calls as (ai c) = ai_with_tool_calls c as"
  by (simp add: extend_tool_calls_def ai_with_tool_calls_def ai_def plain_message_def)

lemma fold_extend_tool_calls:
  "fold extend_tool_calls chunks (ai_with_tool_calls c as) = ai_with_tool_calls c (as @ concat chunks)"
  by (induction chunks arbitrary: as) (simp_all add: extend_ai_with_tool_calls)

text \<open>A data URI built from a MIME type without a comma gives its payload back.\<close>

lemma split_once_append: "c \<notin> set p \<Longrightarrow> split_once c (p @ c # q) = Some (p, q)"
  by (induction p) auto

lemma uri_base64_data_data_uri:
  assumes "CHR '','' \<notin> set mime"
  shows "uri_base64_data (data_uri mime data) = Some data"
proof -
  have "data_uri mime data = (''data:'' @ mime @ '';base64'') @ CHR '','' # data"
    by (simp add: data_uri_def)
  moreover have "str_contains (''data:'' @ mime @ '';base64'') ''base64''"
    unfolding str_contains_iff by (rule exI [of _ "''data:'' @ mime @ '';''"], rule exI [of _ "[]"]) simp
  ultimately show ?thesis
    using assms split_once_append [of "CHR '',''" "''data:'' @ mime @ '';base64''" data]
    by (simp add: uri_base64_data_def)
qed

lemma data_uri_mime_data_uri:
  assumes "mime \<noteq> []" and "CHR '','' \<notin> set mime" and "CHR '';'' \<notin> set mime"
  shows "data_uri_mime (data_uri mime data) = Some mime"
proof -
  have "takeWhile (\<lambda>c. c \<noteq> CHR '';'' \<and> c \<noteq> CHR '','') (mime @ '';base64,'' @ data) = mime"
    using assms(2,3) by (subst takeWhile_append2) auto
  moreover have "strip_prefix (data_uri mime data) ''data:'' = Some (mime @ '';base64,'' @ data)"
    unfolding data_uri_def by (rule strip_prefix_append)
  ultimately show ?thesis using assms(1) by (simp add: data_uri_mime_def)
qed

text \<open>What \<open>validate\<close> accepts.\<close>

definition well_formed_message :: "message \<Rightarrow> bool" where
  "well_formed_message m \<longleftrightarrow>
     msg_type m \<noteq> Tool []
     \<and> (msg_type m = AI \<longrightarrow> (\<forall>cs. msg_tool_calls m = Some cs \<longrightarrow>
          (\<forall>c \<in> set cs. tc_id c \<noteq> [] \<and> fn_name (tc_function c) \<noteq> [])))
     \<and> (msg_content m \<noteq> [] \<or> media_parts m \<noteq> [] \<or> has_tool_calls m)"

lemma validate_calls_None:
  "validate_calls cs = None \<longleftrightarrow> (\<forall>c \<in> set cs. tc_id c \<noteq> [] \<and> fn_name (tc_function c) \<noteq> [])"
  by (induction cs rule: validate_calls.induct) auto

lemma media_parts_Nil: "media_parts m = [] \<longleftrightarrow> \<not> is_multimodal m"
  by (auto simp: media_parts_def is_multimodal_def)

lemma validate_role_None: "validate_role m = None \<longleftrightarrow> msg_type m \<noteq> Tool []
     \<and> (msg_type m = AI \<longrightarrow> (\<forall>cs. msg_tool_calls m = Some cs \<longrightarrow>
          (\<forall>c \<in> set cs. tc_id c \<noteq> [] \<and> fn_name (tc_function c) \<noteq> [])))"
  by (auto simp: validate_role_def simp flip: validate_calls_None
      split: message_type.splits option.splits)

lemma validate_message_iff: "validate_message m = Inr () \<longleftrightarrow> well_formed_message m"
proof -
  have "validate_message m = Inr () \<longleftrightarrow> validate_role m = None
      \<and> (msg_content m \<noteq> [] \<or> media_parts m \<noteq> [] \<or> has_tool_calls m)"
    by (auto simp: validate_message_def media_parts_Nil has_tool_calls_def split: option.splits)
  then show ?thesis by (simp add: validate_role_None well_formed_message_def)
qed


section \<open>Streamed tool calls\<close>

text \<open>
  C38: Tool calls that arrive in chunks, each appended with \<open>extend_tool_calls\<close> to an AI message, give
  the message \<open>ai_with_tool_calls\<close> builds from all of them at once: every id occurs once, and the
  call kept under an id is the first that arrived with it.
\<close>

theorem streamed_tool_calls:
  "fold extend_tool_calls (chunk # chunks) (ai c) = ai_with_tool_calls c (concat (chunk # chunks))
   \<and> (\<exists>calls. msg_tool_calls (fold extend_tool_calls (chunk # chunks) (ai c)) = Some calls
        \<and> distinct (map tc_id calls)
        \<and> (\<forall>i. List.find (\<lambda>t. tc_id t = i) calls
             = List.find (\<lambda>t. tc_id t = i) (concat (chunk # chunks))))"
proof -
  have eq: "fold extend_tool_calls (chunk # chunks) (ai c) = ai_with_tool_calls c (concat (chunk # chunks))"
    by (simp add: extend_ai fold_extend_tool_calls)
  moreover have "msg_tool_calls (ai_with_tool_calls c (concat (chunk # chunks)))
      = Some (dedup_from {} (concat (chunk # chunks)))"
    by (simp add: ai_with_tool_calls_def dedup_tool_calls_def)
  ultimately show ?thesis
    by (intro conjI exI [of _ "dedup_from {} (concat (chunk # chunks))"] allI)
       (simp_all only: dedup_from_distinct dedup_from_first simp_thms empty_iff)
qed

end
