(* ===== verification/Session_Replay.thy ===== *)
theory Session_Replay
  imports Schema_Message
begin

text \<open>
  The event log of \<open>lc-sessions\<close>: the events and their payloads (\<open>events/model.rs\<close>), the session
  errors (\<open>store.rs\<close>), and the functions of \<open>events/replay.rs\<close> that project a list of events to
  turns and messages, summarise the oldest turns into a snapshot and merge projections. Event ids,
  turn indices and counts (\<open>u64\<close>, \<open>usize\<close>) are natural numbers; timestamps are \<open>i64\<close> milliseconds,
  as integers with the saturation of \<open>saturating_sub\<close> written out.
\<close>

section \<open>Events\<close>

datatype session_error =
    SessionNotFound string
  | StoreError string
  | Llm string
  | Memory string

datatype event_payload =
    UserMessage string
  | AssistantMessage string
  | ToolCall string json string
  | ToolResult string string
  | ToolEdit string json string string
  | ToolUndo string "string option"
  | Snapshot string nat
  | Metadata string json

record session_event =
  ev_id :: nat
  ev_session_id :: string
  ev_turn_index :: nat
  ev_ts :: int
  ev_branch :: string
  ev_payload :: event_payload

definition event_now ::
  "int \<Rightarrow> nat \<Rightarrow> string \<Rightarrow> nat \<Rightarrow> string \<Rightarrow> event_payload \<Rightarrow> session_event" where
  "event_now now i s t b p = \<lparr>ev_id = i, ev_session_id = s, ev_turn_index = t, ev_ts = now,
     ev_branch = b, ev_payload = p\<rparr>"

text \<open>\<open>chrono\<close>'s \<open>from_timestamp_millis\<close>, which has no result outside its range, is a parameter.\<close>

definition event_datetime :: "(int \<Rightarrow> int option) \<Rightarrow> session_event \<Rightarrow> int" where
  "event_datetime from_timestamp_millis e =
     (case from_timestamp_millis (ev_ts e) of None \<Rightarrow> 0 | Some t \<Rightarrow> t)"

record turn =
  turn_index :: nat
  turn_events :: "session_event list"

fun payload_user_message :: "event_payload \<Rightarrow> string option" where
  "payload_user_message (UserMessage c) = Some c"
| "payload_user_message _ = None"

definition user_message :: "turn \<Rightarrow> string option" where
  "user_message t = (case List.map_filter (\<lambda>e. payload_user_message (ev_payload e)) (turn_events t) of
      [] \<Rightarrow> None | c # _ \<Rightarrow> Some c)"

record projected_session =
  ps_session_id :: string
  ps_branch :: string
  ps_turns :: "turn list"
  ps_messages :: "message list"
  ps_last_id :: nat


section \<open>Projection\<close>

text \<open>\<open>is_char_boundary\<close>: the ends of the string, and every byte that is not a continuation byte.\<close>

definition is_char_boundary :: "string \<Rightarrow> nat \<Rightarrow> bool" where
  "is_char_boundary s i \<longleftrightarrow> i = 0 \<or> i = length s
     \<or> i < length s \<and> \<not> (128 \<le> (of_char (s ! i) :: nat) \<and> (of_char (s ! i) :: nat) < 192)"

fun char_floor :: "string \<Rightarrow> nat \<Rightarrow> nat" where
  "char_floor s 0 = 0"
| "char_floor s (Suc n) = (if is_char_boundary s (Suc n) then Suc n else char_floor s n)"

definition truncate :: "string \<Rightarrow> nat \<Rightarrow> string" where
  "truncate s n = (if length s \<le> n then s else take (char_floor s n) s)"

definition TOOL_OBSERVATION_PREVIEW_CHARS :: nat where
  "TOOL_OBSERVATION_PREVIEW_CHARS = 120"

definition tool_context_message :: "event_payload \<Rightarrow> message option" where
  "tool_context_message p = (case p of
      ToolCall tn _ _ \<Rightarrow> Some (system (''[tool call] '' @ tn))
    | ToolResult _ obs \<Rightarrow>
        Some (system (''[tool result] '' @ truncate obs TOOL_OBSERVATION_PREVIEW_CHARS))
    | ToolEdit tn _ _ old \<Rightarrow> Some (system (''[tool edit] '' @ tn @ '' (replaces '' @ old @ '')''))
    | ToolUndo i _ \<Rightarrow> Some (system (''[tool undo] '' @ i))
    | _ \<Rightarrow> None)"

text \<open>The messages an event adds to the projection.\<close>

definition event_messages :: "event_payload \<Rightarrow> message list" where
  "event_messages p = (case p of
      UserMessage c \<Rightarrow> [human c]
    | AssistantMessage c \<Rightarrow> [ai c]
    | Snapshot summary _ \<Rightarrow> [system (''[context summary] '' @ summary)]
    | Metadata _ _ \<Rightarrow> []
    | _ \<Rightarrow> (case tool_context_message p of None \<Rightarrow> [] | Some m \<Rightarrow> [m]))"

text \<open>Events that open a turn of their own, whatever their turn index.\<close>

definition opens_turn :: "event_payload \<Rightarrow> bool" where
  "opens_turn p = (case p of UserMessage _ \<Rightarrow> True | Snapshot _ _ \<Rightarrow> True | _ \<Rightarrow> False)"

text \<open>The macro \<open>current_turn!\<close> followed by a push into the turn it returns.\<close>

definition push_current_turn :: "session_event \<Rightarrow> turn list \<Rightarrow> turn list" where
  "push_current_turn e ts =
     (let ts = (if ts \<noteq> [] \<and> turn_index (last ts) = ev_turn_index e then ts
                else ts @ [\<lparr>turn_index = ev_turn_index e, turn_events = []\<rparr>]);
          t = last ts
      in butlast ts @ [t\<lparr>turn_events := turn_events t @ [e]\<rparr>])"

definition project_turn :: "session_event \<Rightarrow> turn list \<Rightarrow> turn list" where
  "project_turn e ts =
     (if opens_turn (ev_payload e)
      then ts @ [\<lparr>turn_index = ev_turn_index e, turn_events = [e]\<rparr>]
      else push_current_turn e ts)"

definition project_event :: "session_event \<Rightarrow> projected_session \<Rightarrow> projected_session" where
  "project_event e p = p\<lparr>
     ps_last_id := max (ps_last_id p) (ev_id e),
     ps_turns := project_turn e (ps_turns p),
     ps_messages := ps_messages p @ event_messages (ev_payload e)\<rparr>"

definition project :: "session_event list \<Rightarrow> session_error + projected_session" where
  "project events = (case events of
      [] \<Rightarrow> Inl (StoreError ''cannot project an empty event list'')
    | e # _ \<Rightarrow> Inr (fold project_event events \<lparr>ps_session_id = ev_session_id e,
        ps_branch = ev_branch e, ps_turns = [], ps_messages = [], ps_last_id = 0\<rparr>))"


section \<open>Compaction\<close>

definition summary_line :: "event_payload \<Rightarrow> string" where
  "summary_line p = (case p of
      UserMessage c \<Rightarrow> ''user: '' @ truncate c 120 @ [CHR 0x0A]
    | AssistantMessage c \<Rightarrow> ''ai: '' @ truncate c 120 @ [CHR 0x0A]
    | ToolCall tn _ _ \<Rightarrow> ''tool: '' @ tn @ [CHR 0x0A]
    | ToolResult _ obs \<Rightarrow> ''observation: '' @ truncate obs 120 @ [CHR 0x0A]
    | Snapshot s _ \<Rightarrow> ''summary: '' @ truncate s 200 @ [CHR 0x0A]
    | _ \<Rightarrow> [])"

definition turn_piece :: "turn \<Rightarrow> string" where
  "turn_piece t = concat (map (\<lambda>e. summary_line (ev_payload e)) (turn_events t))"

definition summarize_turns :: "turn list \<Rightarrow> string" where
  "summarize_turns ts = ''['' @ show_nat (length ts) @ '' earlier turns]'' @ [CHR 0x0A]
     @ join (''---'' @ [CHR 0x0A]) (filter (\<lambda>p. p \<noteq> []) (map turn_piece ts))"

text \<open>\<open>now\<close> is the reading of the clock that stamps the snapshot.\<close>

definition compact_to_snapshot ::
  "('w, session_error, int) eff \<Rightarrow> nat \<Rightarrow> session_event list \<Rightarrow> nat
   \<Rightarrow> ('w, session_error, session_event option) eff" where
  "compact_to_snapshot now next_id events max_turns =
     eff_bind (lift_result (project events)) (\<lambda>p.
       let total = length (ps_turns p) in
       if total \<le> max_turns then ok None
       else let dropped = total - max_turns in
         eff_bind now (\<lambda>t. ok (Some (event_now t next_id (ps_session_id p)
           (if events = [] then 0 else ev_turn_index (last events)) (ps_branch p)
           (Snapshot (summarize_turns (take dropped (ps_turns p))) dropped)))))"

definition compaction_prune_boundary ::
  "session_event list \<Rightarrow> nat \<Rightarrow> session_error + nat option" where
  "compaction_prune_boundary events max_turns =
     result_bind (project events) (\<lambda>p.
       let total = length (ps_turns p) in
       if total \<le> max_turns then Inr None
       else let dropped = total - max_turns in
         Inr (if dropped < total then
                (case turn_events (ps_turns p ! dropped) of [] \<Rightarrow> None | e # _ \<Rightarrow> Some (ev_id e))
              else None))"

text \<open>\<open>i64::try_from(..).unwrap_or(i64::MAX)\<close> and \<open>i64::saturating_sub\<close>.\<close>

definition i64_max :: int where
  "i64_max = 2 ^ 63 - 1"

definition saturating_sub_i64 :: "int \<Rightarrow> int \<Rightarrow> int" where
  "saturating_sub_i64 a b = max (- (2 ^ 63)) (min i64_max (a - b))"

definition age_bounded_turns :: "turn list \<Rightarrow> nat \<Rightarrow> nat \<Rightarrow> int \<Rightarrow> nat" where
  "age_bounded_turns ts max_turns max_age_millis now_ms =
     (let max_age_ms = min (int max_age_millis) i64_max;
          cutoff = saturating_sub_i64 now_ms max_age_ms;
          recent = length (filter (\<lambda>t. turn_events t = [] \<or> cutoff \<le> ev_ts (last (turn_events t))) ts)
      in max (min max_turns recent) 1)"


section \<open>Merging, orphans and the session view\<close>

definition merge_turn :: "turn \<Rightarrow> turn list \<Rightarrow> turn list" where
  "merge_turn t ts =
     (if ts \<noteq> [] \<and> turn_index (last ts) = turn_index t
      then butlast ts @ [(last ts)\<lparr>turn_events := turn_events (last ts) @ turn_events t\<rparr>]
      else ts @ [t])"

definition merge_projections :: "projected_session \<Rightarrow> projected_session \<Rightarrow> projected_session" where
  "merge_projections base tail = base\<lparr>
     ps_turns := fold merge_turn (ps_turns tail) (ps_turns base),
     ps_messages := ps_messages base @ ps_messages tail,
     ps_last_id := max (ps_last_id base) (ps_last_id tail)\<rparr>"

definition turn_orphans :: "turn \<Rightarrow> nat" where
  "turn_orphans t =
     (let calls = set (List.map_filter (\<lambda>e. case ev_payload e of ToolCall _ _ c \<Rightarrow> Some c | _ \<Rightarrow> None)
                   (turn_events t))
      in length (filter (\<lambda>e. case ev_payload e of ToolResult c _ \<Rightarrow> c \<notin> calls | _ \<Rightarrow> False)
                   (turn_events t)))"

definition assert_no_orphan_tool_results :: "session_event list \<Rightarrow> session_error + nat" where
  "assert_no_orphan_tool_results events =
     result_bind (project events) (\<lambda>p. Inr (sum_list (map turn_orphans (ps_turns p))))"

datatype session_status = Active | Archived | Deleted

record session =
  sess_id :: string
  sess_user_id :: "string option"
  sess_messages :: "message list"
  sess_metadata :: "json smap"
  sess_created_at :: int
  sess_updated_at :: int
  sess_status :: session_status

text \<open>Times are \<open>Utc::now()\<close> readings in milliseconds, passed in the order the code takes them.\<close>

definition session_new :: "int \<Rightarrow> string \<Rightarrow> session" where
  "session_new now i = \<lparr>sess_id = i, sess_user_id = None, sess_messages = [], sess_metadata = [],
     sess_created_at = now, sess_updated_at = now, sess_status = Active\<rparr>"

definition with_user :: "string \<Rightarrow> session \<Rightarrow> session" where
  "with_user u s = s\<lparr>sess_user_id := Some u\<rparr>"

definition session_add_message :: "int \<Rightarrow> message \<Rightarrow> session \<Rightarrow> session" where
  "session_add_message now m s = s\<lparr>sess_messages := sess_messages s @ [m], sess_updated_at := now\<rparr>"

definition recent_messages :: "session \<Rightarrow> nat \<Rightarrow> message list" where
  "recent_messages s n = (let len = length (sess_messages s) in
     if len \<le> n then sess_messages s else drop (len - n) (sess_messages s))"

definition session_clear :: "int \<Rightarrow> session \<Rightarrow> session" where
  "session_clear now s = s\<lparr>sess_messages := [], sess_updated_at := now\<rparr>"

definition session_archive :: "int \<Rightarrow> session \<Rightarrow> session" where
  "session_archive now s = s\<lparr>sess_status := Archived, sess_updated_at := now\<rparr>"

definition session_delete :: "int \<Rightarrow> session \<Rightarrow> session" where
  "session_delete now s = s\<lparr>sess_status := Deleted, sess_updated_at := now\<rparr>"

definition to_session :: "(int \<Rightarrow> int option) \<Rightarrow> int \<Rightarrow> int \<Rightarrow> projected_session \<Rightarrow> session" where
  "to_session from_millis now1 now2 p =
     (let s = (session_new now1 (ps_session_id p))\<lparr>sess_messages := ps_messages p, sess_updated_at := now2\<rparr>
      in if ps_messages p \<noteq> []
         then s\<lparr>sess_created_at := (case ps_turns p of
             [] \<Rightarrow> sess_created_at s
           | t # _ \<Rightarrow> (case turn_events t of [] \<Rightarrow> sess_created_at s | e # _ \<Rightarrow> event_datetime from_millis e))\<rparr>
         else s)"

definition replay_active_session ::
  "(int \<Rightarrow> int option) \<Rightarrow> int \<Rightarrow> int \<Rightarrow> session_event list \<Rightarrow> session_error + session" where
  "replay_active_session from_millis now1 now2 events =
     result_bind (project events) (\<lambda>p. Inr ((to_session from_millis now1 now2 p)\<lparr>sess_status := Active\<rparr>))"

end
