(* ===== verification/Session_Replay_Laws.thy ===== *)
theory Session_Replay_Laws
  imports Session_Replay
begin

text \<open>
  What the projection of an event log is: the turns partition the events, a suffix that starts at a
  turn projects to the remaining turns (so compaction cuts exactly the summarised turns), and when
  merging the projections of two parts gives the projection of the whole.
\<close>

section \<open>The fields of a projection\<close>

definition project_turns :: "session_event list \<Rightarrow> turn list" where
  "project_turns es = fold project_turn es []"

definition project_messages :: "session_event list \<Rightarrow> message list" where
  "project_messages es = concat (map (\<lambda>e. event_messages (ev_payload e)) es)"

definition last_event_id :: "session_event list \<Rightarrow> nat" where
  "last_event_id es = fold (\<lambda>e n. max n (ev_id e)) es 0"

lemma fold_project_event:
  "fold project_event es p = p\<lparr>ps_turns := fold project_turn es (ps_turns p),
     ps_messages := ps_messages p @ project_messages es,
     ps_last_id := fold (\<lambda>e n. max n (ev_id e)) es (ps_last_id p)\<rparr>"
  by (induction es arbitrary: p) (auto simp: project_messages_def project_event_def)

lemma project_Nil [simp]: "project [] = Inl (StoreError ''cannot project an empty event list'')"
  by (simp add: project_def)

lemma project_eq:
  "es \<noteq> [] \<Longrightarrow> project es = Inr \<lparr>ps_session_id = ev_session_id (hd es), ps_branch = ev_branch (hd es),
     ps_turns = project_turns es, ps_messages = project_messages es, ps_last_id = last_event_id es\<rparr>"
  by (cases es)
     (simp_all add: project_def fold_project_event project_turns_def last_event_id_def
        project_event_def project_messages_def)

lemma project_InrE:
  assumes "project es = Inr p"
  obtains "es \<noteq> []" and "ps_turns p = project_turns es" and "ps_messages p = project_messages es"
    and "ps_last_id p = last_event_id es" and "ps_session_id p = ev_session_id (hd es)"
    and "ps_branch p = ev_branch (hd es)"
  using assms by (cases "es = []") (auto simp: project_eq)

lemma project_messages_append [simp]:
  "project_messages (xs @ ys) = project_messages xs @ project_messages ys"
  by (simp add: project_messages_def)

lemma project_turns_append: "project_turns (xs @ ys) = fold project_turn ys (project_turns xs)"
  by (simp add: project_turns_def)

lemma project_turns_simps [simp]:
  "project_turns [] = []" "project_turns (es @ [e]) = project_turn e (project_turns es)"
  by (simp_all add: project_turns_def)

lemma fold_max_id: "fold (\<lambda>e n. max n (ev_id e)) es n = max n (last_event_id es)"
proof -
  have "fold (\<lambda>e n. max n (ev_id e)) es (max n m) = max n (fold (\<lambda>e n. max n (ev_id e)) es m)" for m
    by (induction es arbitrary: m) (auto simp: max.assoc)
  from this [of 0] show ?thesis by (simp add: last_event_id_def)
qed

lemma last_event_id_simps [simp]:
  "last_event_id [] = 0" "last_event_id (e # es) = max (ev_id e) (last_event_id es)"
  using fold_max_id [of es "ev_id e"] by (simp_all add: last_event_id_def)

lemma last_event_id_append [simp]: "last_event_id (xs @ ys) = max (last_event_id xs) (last_event_id ys)"
  by (induction xs) auto

lemma last_event_id_sorted:
  "sorted (map ev_id es) \<Longrightarrow> es \<noteq> [] \<Longrightarrow> last_event_id es = ev_id (last es)"
proof (induction es rule: rev_induct)
  case (snoc e es)
  then show ?case
    by (cases es rule: rev_cases) (auto simp: sorted_append)
qed simp


section \<open>Turns\<close>

abbreviation single_turn :: "session_event \<Rightarrow> turn" where
  "single_turn e \<equiv> \<lparr>turn_index = ev_turn_index e, turn_events = [e]\<rparr>"

definition last_index :: "turn list \<Rightarrow> nat option" where
  "last_index ts = (if ts = [] then None else Some (turn_index (last ts)))"

lemma last_index_simps [simp]:
  "last_index [] = None" "last_index (ts @ [t]) = Some (turn_index t)"
  "last_index [t] = Some (turn_index t)" "last_index (ts @ [u, t]) = Some (turn_index t)"
  by (simp_all add: last_index_def)

lemma merge_turn_alt:
  "merge_turn t ts = (if last_index ts = Some (turn_index t)
     then butlast ts @ [(last ts)\<lparr>turn_events := turn_events (last ts) @ turn_events t\<rparr>]
     else ts @ [t])"
  by (simp add: merge_turn_def last_index_def)

lemma push_current_turn_eq: "push_current_turn e ts = merge_turn (single_turn e) ts"
  by (auto simp: push_current_turn_def merge_turn_def Let_def)

lemma project_turn_eq:
  "project_turn e ts = (if opens_turn (ev_payload e) then ts @ [single_turn e]
     else merge_turn (single_turn e) ts)"
  by (simp add: project_turn_def push_current_turn_eq)

lemma last_index_merge_turn [simp]: "last_index (merge_turn t ts) = Some (turn_index t)"
  by (cases ts rule: rev_cases) (auto simp: merge_turn_alt)

lemma last_index_project_turn [simp]: "last_index (project_turn e ts) = Some (ev_turn_index e)"
  by (simp add: project_turn_eq)

lemma last_index_project_turns:
  "last_index (project_turns es) = (if es = [] then None else Some (ev_turn_index (last es)))"
  by (cases es rule: rev_cases) auto

text \<open>The turns partition the events, none is empty, and the events of a turn carry its index.\<close>

lemma concat_merge_turn:
  "concat (map turn_events (merge_turn t ts)) = concat (map turn_events ts) @ turn_events t"
  by (cases ts rule: rev_cases) (auto simp: merge_turn_alt)

lemma concat_project_turns [simp]: "concat (map turn_events (project_turns es)) = es"
  by (induction es rule: rev_induct) (auto simp: project_turn_eq concat_merge_turn)

definition turns_wf :: "turn list \<Rightarrow> bool" where
  "turns_wf ts \<longleftrightarrow> (\<forall>t \<in> set ts. turn_events t \<noteq> []
     \<and> (\<forall>e \<in> set (turn_events t). ev_turn_index e = turn_index t))"

lemma turns_wf_merge_turn: "turns_wf ts \<Longrightarrow> turns_wf [t] \<Longrightarrow> turns_wf (merge_turn t ts)"
  by (cases ts rule: rev_cases) (auto simp: merge_turn_alt turns_wf_def)

lemma turns_wf_project_turns: "turns_wf (project_turns es)"
proof (induction es rule: rev_induct)
  case (snoc e es)
  have single: "turns_wf [single_turn e]" by (simp add: turns_wf_def)
  show ?case
    using snoc turns_wf_merge_turn [OF snoc single] by (simp add: project_turn_eq) (simp add: turns_wf_def)
qed (simp add: turns_wf_def)

lemma project_turns_Nil_iff [simp]: "project_turns es = [] \<longleftrightarrow> es = []"
  by (metis concat_project_turns concat.simps(1) list.simps(8) project_turns_simps(1))


section \<open>Merging projections\<close>

lemma merge_turn_assoc:
  "last_index ts = Some (turn_index t) \<Longrightarrow>
     fold merge_turn (merge_turn t ts) bs = merge_turn t (fold merge_turn ts bs)"
proof (cases ts rule: rev_cases)
  case (snoc us u)
  assume "last_index ts = Some (turn_index t)"
  with snoc show ?thesis
    by (cases "fold merge_turn us bs" rule: rev_cases) (auto simp: merge_turn_alt butlast_append)
qed simp

lemma fold_merge_turn:
  "fold merge_turn (merge_turn t ts) bs = merge_turn t (fold merge_turn ts bs)"
  using merge_turn_assoc [of ts t bs] by (auto simp: merge_turn_alt [of t ts])

lemma fold_merge_project_turns:
  "fold merge_turn (project_turns ys) bs = fold push_current_turn ys bs"
  by (induction ys rule: rev_induct)
     (auto simp: project_turn_eq push_current_turn_eq fold_merge_turn)

text \<open>No event that opens a turn has the turn index of the event before it.\<close>

fun fresh_openings :: "nat option \<Rightarrow> session_event list \<Rightarrow> bool" where
  "fresh_openings prev [] = True"
| "fresh_openings prev (e # es) =
     ((opens_turn (ev_payload e) \<longrightarrow> prev \<noteq> Some (ev_turn_index e))
      \<and> fresh_openings (Some (ev_turn_index e)) es)"

lemma length_merge_turn:
  "length (merge_turn t ts) = (if last_index ts = Some (turn_index t) then length ts else Suc (length ts))"
  by (cases ts rule: rev_cases) (auto simp: merge_turn_alt)

lemma length_project_turn:
  "length (project_turn e ts) =
     (if \<not> opens_turn (ev_payload e) \<and> last_index ts = Some (ev_turn_index e)
      then length ts else Suc (length ts))"
  by (simp add: project_turn_eq length_merge_turn)

lemma fold_push_shorter:
  assumes "length as < length bs" and "last_index as = last_index bs"
  shows "length (fold push_current_turn ys as) < length (fold project_turn ys bs)"
  using assms
proof (induction ys arbitrary: as bs)
  case (Cons y ys)
  then show ?case
    by (auto simp: push_current_turn_eq length_merge_turn length_project_turn intro!: Cons.IH)
qed simp

lemma fold_push_eq_project_iff:
  "fold push_current_turn ys bs = fold project_turn ys bs \<longleftrightarrow> fresh_openings (last_index bs) ys"
proof (induction ys arbitrary: bs)
  case (Cons y ys)
  show ?case
  proof (cases "opens_turn (ev_payload y) \<and> last_index bs = Some (ev_turn_index y)")
    case True
    then have "length (fold push_current_turn ys (push_current_turn y bs))
        < length (fold project_turn ys (project_turn y bs))"
      by (intro fold_push_shorter) (auto simp: push_current_turn_eq length_merge_turn length_project_turn)
    with True show ?thesis by auto
  next
    case False
    then have "push_current_turn y bs = project_turn y bs"
      by (auto simp: push_current_turn_eq project_turn_eq merge_turn_alt)
    then show ?thesis using False Cons.IH [of "project_turn y bs"] by auto
  qed
qed simp

lemma merge_projections_project:
  assumes "xs \<noteq> []" and "ys \<noteq> []"
    and "project xs = Inr a" and "project ys = Inr b" and "project (xs @ ys) = Inr c"
  shows "merge_projections a b = c\<lparr>ps_turns := fold push_current_turn ys (project_turns xs)\<rparr>"
  using assms
  by (auto simp: project_eq merge_projections_def fold_merge_project_turns)

section \<open>Cutting a log at a turn\<close>

lemma project_turn_append:
  "ts \<noteq> [] \<Longrightarrow> project_turn e (as @ ts) = as @ project_turn e ts"
  by (cases ts rule: rev_cases) (auto simp: project_turn_eq merge_turn_alt butlast_append last_index_def)

lemma drop_project_turn:
  assumes "d < length ts"
  shows "drop d (project_turn e ts) = project_turn e (drop d ts)"
  using project_turn_append [of "drop d ts" e "take d ts"] assms by simp

lemma project_turn_cases:
  obtains (new) "project_turn e ts = ts @ [single_turn e]" "project_turn e [] = [single_turn e]"
  | (joined) "length (project_turn e ts) = length ts"
proof (cases "\<not> opens_turn (ev_payload e) \<and> last_index ts = Some (ev_turn_index e)")
  case True
  then show ?thesis by (intro joined) (simp add: length_project_turn)
next
  case False
  then show ?thesis by (intro new) (auto simp: project_turn_eq merge_turn_alt)
qed

lemma concat_project_turn:
  "concat (map turn_events (project_turn e ts)) = concat (map turn_events ts) @ [e]"
  by (auto simp: project_turn_eq concat_merge_turn)

text \<open>A suffix that starts at a turn projects to the turns from there on.\<close>

lemma project_turns_drop:
  "project_turns (concat (map turn_events (drop d (project_turns es)))) = drop d (project_turns es)"
proof (induction es rule: rev_induct)
  case (snoc e es)
  let ?ts = "project_turns es"
  consider "d < length ?ts" | "d \<ge> length ?ts" by linarith
  then show ?case
  proof cases
    case 1
    then show ?thesis
      using snoc by (simp add: drop_project_turn concat_project_turn)
  next
    case 2
    show ?thesis
      using 2 by (cases rule: project_turn_cases [of e ?ts])
        (auto simp: project_turns_def drop_Cons')
  qed
qed simp

definition suffix_from_turn :: "nat \<Rightarrow> session_event list \<Rightarrow> session_event list" where
  "suffix_from_turn d es = concat (map turn_events (drop d (project_turns es)))"

lemma split_at_turn:
  "es = concat (map turn_events (take d (project_turns es))) @ suffix_from_turn d es"
  unfolding suffix_from_turn_def
  by (metis append_take_drop_id concat_append concat_project_turns map_append)

lemma set_suffix_from_turn: "set (suffix_from_turn d es) \<subseteq> set es"
  using split_at_turn [of es d] by (metis Un_upper2 set_append)

lemma project_turns_suffix: "project_turns (suffix_from_turn d es) = drop d (project_turns es)"
  by (simp add: suffix_from_turn_def project_turns_drop)

lemma turn_nonempty: "t \<in> set (project_turns es) \<Longrightarrow> turn_events t \<noteq> []"
  using turns_wf_project_turns by (auto simp: turns_wf_def)

lemma hd_suffix_from_turn:
  assumes "d < length (project_turns es)"
  shows "suffix_from_turn d es \<noteq> [] \<and> hd (suffix_from_turn d es) = hd (turn_events (project_turns es ! d))"
proof -
  have "drop d (project_turns es) = project_turns es ! d # drop (Suc d) (project_turns es)"
    using assms by (simp add: Cons_nth_drop_Suc)
  moreover have "turn_events (project_turns es ! d) \<noteq> []"
    using assms turn_nonempty nth_mem by blast
  ultimately show ?thesis by (simp add: suffix_from_turn_def)
qed

text \<open>With ascending ids, the events from a turn on are those with at least its first id.\<close>

lemma filter_suffix_from_turn:
  assumes "sorted_wrt (<) (map ev_id es)" and "d < length (project_turns es)"
  shows "filter (\<lambda>e. \<not> ev_id e < ev_id (hd (turn_events (project_turns es ! d)))) es
    = suffix_from_turn d es"
proof -
  define pre where "pre = concat (map turn_events (take d (project_turns es)))"
  obtain e suf where suf: "suffix_from_turn d es = e # suf" and e: "e = hd (turn_events (project_turns es ! d))"
    using hd_suffix_from_turn [OF assms(2)] by (cases "suffix_from_turn d es") auto
  have es: "es = pre @ e # suf"
    using split_at_turn [of es d] suf by (simp add: pre_def)
  have "\<forall>x \<in> set pre. ev_id x < ev_id e" and "\<forall>x \<in> set suf. ev_id e < ev_id x"
    using assms(1) by (auto simp: es sorted_wrt_append)
  then have "filter (\<lambda>x. \<not> ev_id x < ev_id e) es = e # suf"
    by (auto simp: es filter_empty_conv intro!: filter_True)
  then show ?thesis by (simp add: suf flip: e)
qed

text \<open>The log after a compaction that keeps \<open>k\<close> turns.\<close>

definition snapshot_event :: "int \<Rightarrow> nat \<Rightarrow> session_event list \<Rightarrow> session_event" where
  "snapshot_event now k es = (let dropped = length (project_turns es) - k in
     event_now now (Suc (ev_id (last es))) (ev_session_id (hd es)) (ev_turn_index (last es))
       (ev_branch (hd es)) (Snapshot (summarize_turns (take dropped (project_turns es))) dropped))"

definition compacted :: "int \<Rightarrow> nat \<Rightarrow> session_event list \<Rightarrow> session_event list" where
  "compacted now k es = (let ts = project_turns es in
     if length ts \<le> k then es
     else suffix_from_turn (if k = 0 then 0 else length ts - k) es @ [snapshot_event now k es])"

lemma compact_to_snapshot_eq:
  assumes "es \<noteq> []"
  shows "compact_to_snapshot now (Suc (ev_id (last es))) es k =
    (if length (project_turns es) \<le> k then ok None
     else eff_bind now (\<lambda>t. ok (Some (snapshot_event t k es))))"
  using assms by (intro ext) (simp add: compact_to_snapshot_def project_eq snapshot_event_def Let_def)

lemma compaction_prune_boundary_eq:
  assumes "es \<noteq> []"
  shows "compaction_prune_boundary es k =
    Inr (if length (project_turns es) \<le> k \<or> k = 0 then None
         else Some (ev_id (hd (turn_events (project_turns es ! (length (project_turns es) - k))))))"
proof -
  let ?ts = "project_turns es"
  have "turn_events (?ts ! (length ?ts - k)) \<noteq> []" if "k \<noteq> 0" "\<not> length ?ts \<le> k"
    using that turn_nonempty [OF nth_mem, of "length ?ts - k" es] by auto
  with assms show ?thesis
    by (auto simp: compaction_prune_boundary_def project_eq Let_def split: list.split)
qed

lemma suffix_from_turn_0 [simp]: "suffix_from_turn 0 es = es"
  by (simp add: suffix_from_turn_def)

lemma opens_turn_snapshot_event [simp]: "opens_turn (ev_payload (snapshot_event now k es))"
  by (simp add: snapshot_event_def event_now_def opens_turn_def Let_def)

text \<open>The turns after a compaction: the kept ones, and the snapshot as a turn of its own.\<close>

lemma project_turns_compacted:
  assumes "length (project_turns es) > k"
  shows "project_turns (compacted now k es) =
    drop (if k = 0 then 0 else length (project_turns es) - k) (project_turns es)
      @ [single_turn (snapshot_event now k es)]"
  using assms by (simp add: compacted_def Let_def project_turns_suffix project_turn_eq)

lemma length_project_turns_compacted:
  assumes "0 < k"
  shows "length (project_turns (compacted now k es)) \<le> Suc k"
proof (cases "length (project_turns es) > k")
  case True
  with assms show ?thesis by (simp add: project_turns_compacted)
next
  case False
  then show ?thesis by (simp add: compacted_def Let_def)
qed


section \<open>Orphaned tool results\<close>

definition orphans :: "session_event list \<Rightarrow> nat" where
  "orphans es = sum_list (map turn_orphans (project_turns es))"

lemma assert_no_orphan_tool_results_eq:
  "es \<noteq> [] \<Longrightarrow> assert_no_orphan_tool_results es = Inr (orphans es)"
  by (simp add: assert_no_orphan_tool_results_def project_eq orphans_def)

lemma turn_orphans_0_iff:
  "turn_orphans t = 0 \<longleftrightarrow> (\<forall>e \<in> set (turn_events t). \<forall>c obs. ev_payload e = ToolResult c obs \<longrightarrow>
     (\<exists>e' \<in> set (turn_events t). \<exists>tn inp. ev_payload e' = ToolCall tn inp c))"
proof -
  have calls: "set (List.map_filter (\<lambda>e. case ev_payload e of ToolCall _ _ c \<Rightarrow> Some c | _ \<Rightarrow> None) es)
      = {c. \<exists>e \<in> set es. \<exists>tn inp. ev_payload e = ToolCall tn inp c}" for es
    by (induction es) (auto simp: List.map_filter_simps split: event_payload.split)
  have result: "(case p of ToolResult c _ \<Rightarrow> P c | _ \<Rightarrow> False) \<longleftrightarrow> (\<exists>c obs. p = ToolResult c obs \<and> P c)" for p P
    by (cases p) auto
  show ?thesis
    unfolding turn_orphans_def Let_def calls result length_0_conv filter_empty_conv by blast
qed

lemma orphans_0_iff: "orphans es = 0 \<longleftrightarrow> (\<forall>t \<in> set (project_turns es). turn_orphans t = 0)"
  by (auto simp: orphans_def)

lemma orphans_suffix: "orphans es = 0 \<Longrightarrow> orphans (suffix_from_turn d es) = 0"
  by (auto simp: orphans_0_iff project_turns_suffix dest: in_set_dropD)

lemma set_merge_turn:
  "t' \<in> set (merge_turn t ts) \<Longrightarrow> t' \<in> set ts \<or> t' = t
     \<or> ts \<noteq> [] \<and> t' = (last ts)\<lparr>turn_events := turn_events (last ts) @ turn_events t\<rparr>"
  by (cases ts rule: rev_cases) (auto simp: merge_turn_alt split: if_splits)

lemma turn_orphans_append:
  "turn_orphans t = 0 \<Longrightarrow> turn_orphans u = 0 \<Longrightarrow>
     turn_orphans (t\<lparr>turn_events := turn_events t @ turn_events u\<rparr>) = 0"
  by (fastforce simp: turn_orphans_0_iff)

lemma orphans_merge_turn:
  assumes "\<forall>t \<in> set ts. turn_orphans t = 0" and "turn_orphans u = 0"
  shows "\<forall>t \<in> set (merge_turn u ts). turn_orphans t = 0"
  using assms by (auto dest!: set_merge_turn intro: turn_orphans_append)

lemma orphans_snoc:
  assumes "orphans es = 0" and "\<And>c obs. ev_payload e \<noteq> ToolResult c obs"
  shows "orphans (es @ [e]) = 0"
proof -
  have single: "turn_orphans (single_turn e) = 0"
    using assms(2) by (simp add: turn_orphans_0_iff)
  then show ?thesis
    using assms(1) orphans_merge_turn [of "project_turns es" "single_turn e"]
    by (auto simp: orphans_0_iff project_turn_eq)
qed

lemma orphans_compacted:
  assumes "orphans es = 0"
  shows "orphans (compacted now k es) = 0"
proof (cases "length (project_turns es) > k")
  case True
  let ?d = "if k = 0 then 0 else length (project_turns es) - k"
  have "orphans (suffix_from_turn ?d es @ [snapshot_event now k es]) = 0"
    by (intro orphans_snoc orphans_suffix assms)
       (auto simp: snapshot_event_def event_now_def Let_def)
  with True show ?thesis by (simp add: compacted_def Let_def)
next
  case False
  with assms show ?thesis by (simp add: compacted_def Let_def)
qed

text \<open>A call followed at once by its result, both under the same turn index.\<close>

lemma orphans_call_result:
  assumes "orphans es = 0" and "ev_payload a = ToolCall tn inp c" and "ev_payload b = ToolResult c obs"
    and "ev_turn_index a = ev_turn_index b"
  shows "orphans (es @ [a, b]) = 0"
proof -
  have not_open: "\<not> opens_turn (ev_payload a)" "\<not> opens_turn (ev_payload b)"
    by (simp_all add: assms(2,3) opens_turn_def)
  let ?u = "\<lparr>turn_index = ev_turn_index a, turn_events = [a, b]\<rparr>"
  have "project_turns (es @ [a, b]) = merge_turn (single_turn b) (merge_turn (single_turn a) (project_turns es))"
    using not_open by (simp add: project_turns_append project_turn_eq)
  also have "\<dots> = merge_turn ?u (project_turns es)"
    using assms(4) by (cases "project_turns es" rule: rev_cases) (auto simp: merge_turn_alt butlast_append)
  finally have eq: "project_turns (es @ [a, b]) = merge_turn ?u (project_turns es)" .
  have "turn_orphans ?u = 0"
    using assms(2,3) by (auto simp: turn_orphans_0_iff)
  with orphans_merge_turn [of "project_turns es" ?u] assms(1) show ?thesis
    by (simp add: orphans_0_iff eq)
qed


section \<open>Checkpointed projections\<close>

text \<open>
  C28: Folding the projection of a replayed tail into the projection of the events before it gives
  the messages, the last event id, the session and the branch of projecting all of the events at
  once; it gives the same turns exactly when no user message or snapshot of the tail carries the
  turn index of the event before it.
\<close>

theorem merge_projections_exact:
  assumes "project xs = Inr a" and "project ys = Inr b" and "project (xs @ ys) = Inr c"
  shows "ps_messages (merge_projections a b) = ps_messages c
      \<and> ps_last_id (merge_projections a b) = ps_last_id c
      \<and> ps_session_id (merge_projections a b) = ps_session_id c
      \<and> ps_branch (merge_projections a b) = ps_branch c
      \<and> (merge_projections a b = c \<longleftrightarrow> fresh_openings (Some (ev_turn_index (last xs))) ys)"
proof -
  have ne: "xs \<noteq> []" "ys \<noteq> []"
    using assms by (auto elim: project_InrE)
  note eq = merge_projections_project [OF ne assms]
  have "merge_projections a b = c \<longleftrightarrow>
      fold push_current_turn ys (project_turns xs) = fold project_turn ys (project_turns xs)"
    unfolding eq using assms(3) ne by (auto simp: project_eq project_turns_append)
  also have "\<dots> \<longleftrightarrow> fresh_openings (Some (ev_turn_index (last xs))) ys"
    using ne by (simp add: fold_push_eq_project_iff last_index_project_turns)
  finally show ?thesis by (simp add: eq)
qed


text \<open>
  At a checkpoint taken right after the session was created the first chat turn has the index of the
  creation event, and the merge joins the two; later checkpoints merge to the full projection.
\<close>

theorem merge_projections_exact_witness:
  "\<exists>m u0 a0 u1 a1 p0 p1 p2 p3 p4.
     project [m] = Inr p0 \<and> project [u0, a0] = Inr p1 \<and> project [m, u0, a0] = Inr p2
     \<and> ps_messages (merge_projections p0 p1) = ps_messages p2 \<and> merge_projections p0 p1 \<noteq> p2
     \<and> project [u1, a1] = Inr p3 \<and> project [m, u0, a0, u1, a1] = Inr p4
     \<and> merge_projections p2 p3 = p4"
proof -
  define m where "m = event_now 0 1 ''s'' 0 ''main'' (Metadata ''created'' (JObject []))"
  define u0 where "u0 = event_now 0 2 ''s'' 0 ''main'' (UserMessage ''hi'')"
  define a0 where "a0 = event_now 0 3 ''s'' 0 ''main'' (AssistantMessage ''hello'')"
  define u1 where "u1 = event_now 0 4 ''s'' 1 ''main'' (UserMessage ''how'')"
  define a1 where "a1 = event_now 0 5 ''s'' 1 ''main'' (AssistantMessage ''fine'')"
  note defs = m_def u0_def a0_def u1_def a1_def event_now_def opens_turn_def
  obtain p0 p1 p2 p3 p4 where ps: "project [m] = Inr p0" "project [u0, a0] = Inr p1"
      "project ([m] @ [u0, a0]) = Inr p2" "project [u1, a1] = Inr p3"
      "project ([m, u0, a0] @ [u1, a1]) = Inr p4"
    by (simp add: project_eq)
  have "merge_projections p0 p1 \<noteq> p2" "ps_messages (merge_projections p0 p1) = ps_messages p2"
    using merge_projections_exact [OF ps(1,2,3)] by (simp_all add: defs)
  moreover have "merge_projections p2 p3 = p4"
    using merge_projections_exact [of "[m, u0, a0]" p2 "[u1, a1]" p3 p4] ps by (simp add: defs)
  ultimately have "project [m] = Inr p0 \<and> project [u0, a0] = Inr p1 \<and> project [m, u0, a0] = Inr p2
     \<and> ps_messages (merge_projections p0 p1) = ps_messages p2 \<and> merge_projections p0 p1 \<noteq> p2
     \<and> project [u1, a1] = Inr p3 \<and> project [m, u0, a0, u1, a1] = Inr p4
     \<and> merge_projections p2 p3 = p4"
    using ps by simp
  then show ?thesis by (intro exI)
qed

end
