(* ===== verification/Session_Store.thy ===== *)
theory Session_Store
  imports Session_Replay_Laws "HOL-Library.Product_Lexorder"
begin

text \<open>
  The event store of \<open>lc-sessions\<close> (\<open>events/store.rs\<close>): the trait \<open>EventStore\<close> as a record of its
  methods on its own state \<open>'w\<close>, and \<open>MemoryEventStore\<close>, a \<open>BTreeMap\<close> keyed by session, branch and id, as
  a key-ordered association list. The striped lock of a session is held by the callers for the whole
  of an operation, so an operation is one step on the world.
\<close>

section \<open>The trait and the in-memory store\<close>

record 'w event_store =
  st_append :: "session_event \<Rightarrow> ('w, session_error, unit) eff"
  st_append_batch :: "session_event list \<Rightarrow> ('w, session_error, unit) eff"
  st_read :: "string \<Rightarrow> string \<Rightarrow> nat option \<Rightarrow> ('w, session_error, session_event list) eff"
  st_read_turns_range ::
    "string \<Rightarrow> string \<Rightarrow> nat \<Rightarrow> nat \<Rightarrow> ('w, session_error, session_event list) eff"
  st_fork :: "string \<Rightarrow> string \<Rightarrow> string \<Rightarrow> nat option \<Rightarrow> ('w, session_error, nat) eff"
  st_latest_id :: "string \<Rightarrow> string \<Rightarrow> ('w, session_error, nat) eff"
  st_clear_session :: "string \<Rightarrow> ('w, session_error, unit) eff"
  st_delete_before :: "string \<Rightarrow> string \<Rightarrow> nat \<Rightarrow> ('w, session_error, unit) eff"

type_synonym event_key = "string \<times> string \<times> nat"
type_synonym event_map = "(event_key \<times> session_event) list"

definition key_of :: "session_event \<Rightarrow> event_key" where
  "key_of e = (ev_session_id e, ev_branch e, ev_id e)"

text \<open>\<open>entry(..).or_insert_with(..)\<close>\<close>

definition or_insert :: "'k::linorder \<Rightarrow> 'v \<Rightarrow> ('k \<times> 'v) list \<Rightarrow> ('k \<times> 'v) list" where
  "or_insert k v m = (if contains_key m k then m else smap_insert k v m)"

text \<open>\<open>BTreeMap::range\<close> from a key on; the upper bounds of the sources are implied by their filters.\<close>

definition map_range :: "event_key \<Rightarrow> event_key option \<Rightarrow> event_map \<Rightarrow> event_map" where
  "map_range lo hi m =
     filter (\<lambda>(k, _). lo \<le> k \<and> (case hi of None \<Rightarrow> True | Some h \<Rightarrow> k \<le> h)) m"

definition on_branch :: "string \<Rightarrow> string \<Rightarrow> event_map \<Rightarrow> event_map" where
  "on_branch s b m = filter (\<lambda>((s', b', _), _). s' = s \<and> b' = b) m"

definition mem_append :: "session_event \<Rightarrow> event_map \<Rightarrow> event_map" where
  "mem_append e m = or_insert (key_of e) e m"

definition mem_append_batch :: "session_event list \<Rightarrow> event_map \<Rightarrow> event_map" where
  "mem_append_batch batch m = fold mem_append batch m"

definition mem_read :: "string \<Rightarrow> string \<Rightarrow> nat option \<Rightarrow> event_map \<Rightarrow> session_event list" where
  "mem_read s b after m =
     map snd (on_branch s b
       (map_range (s, b, (case after of None \<Rightarrow> 0 | Some a \<Rightarrow> a) + 1) None m))"

definition mem_read_turns_range ::
  "string \<Rightarrow> string \<Rightarrow> nat \<Rightarrow> nat \<Rightarrow> event_map \<Rightarrow> session_event list" where
  "mem_read_turns_range s b from_turn to_turn m =
     filter (\<lambda>e. from_turn \<le> ev_turn_index e \<and> ev_turn_index e \<le> to_turn)
       (map snd (on_branch s b (map_range (s, b, 0) None m)))"

text \<open>The copying loop of \<open>fork\<close>: it stops at the first id beyond \<open>until_id\<close>.\<close>

fun fork_copy ::
  "string \<Rightarrow> nat option \<Rightarrow> session_event list \<Rightarrow> event_map \<Rightarrow> nat \<Rightarrow> nat \<times> event_map" where
  "fork_copy dst until [] m copied = (copied, m)"
| "fork_copy dst until (e # es) m copied =
     (if (case until of None \<Rightarrow> False | Some u \<Rightarrow> u < ev_id e) then (copied, m)
      else let e' = e\<lparr>ev_branch := dst\<rparr>; k = key_of e' in
        fork_copy dst until es (smap_insert k e' m)
          (if contains_key m k then copied else copied + 1))"

definition mem_fork ::
  "string \<Rightarrow> string \<Rightarrow> string \<Rightarrow> nat option \<Rightarrow> event_map \<Rightarrow> nat \<times> event_map" where
  "mem_fork s src dst until m =
     fork_copy dst until (map snd (on_branch s src (map_range (s, src, 0) None m))) m 0"

definition mem_latest_id :: "string \<Rightarrow> string \<Rightarrow> event_map \<Rightarrow> nat" where
  "mem_latest_id s b m =
     (let ids = map (\<lambda>((_, _, i), _). i) (on_branch s b (map_range (s, b, 0) None m))
      in if ids = [] then 0 else last ids)"

definition mem_clear_session :: "string \<Rightarrow> event_map \<Rightarrow> event_map" where
  "mem_clear_session s m = fold smap_remove (map fst (filter (\<lambda>((s', _, _), _). s' = s) m)) m"

definition mem_delete_before :: "string \<Rightarrow> string \<Rightarrow> nat \<Rightarrow> event_map \<Rightarrow> event_map" where
  "mem_delete_before s b before_id m =
     (if before_id = 0 then m
      else let upper = before_id - 1 in
        fold smap_remove (map fst (on_branch s b (map_range (s, b, 0) (Some (s, b, upper)) m))) m)"

definition mem_len :: "event_map \<Rightarrow> nat" where
  "mem_len m = length m"

definition memory_event_store :: "event_map event_store" where
  "memory_event_store = \<lparr>
     st_append = (\<lambda>e m. Some (Inr (), mem_append e m)),
     st_append_batch = (\<lambda>es m. Some (Inr (), mem_append_batch es m)),
     st_read = (\<lambda>s b after m. Some (Inr (mem_read s b after m), m)),
     st_read_turns_range = (\<lambda>s b i j m. Some (Inr (mem_read_turns_range s b i j m), m)),
     st_fork = (\<lambda>s src dst until m.
        let (n, m') = mem_fork s src dst until m in Some (Inr n, m')),
     st_latest_id = (\<lambda>s b m. Some (Inr (mem_latest_id s b m), m)),
     st_clear_session = (\<lambda>s m. Some (Inr (), mem_clear_session s m)),
     st_delete_before = (\<lambda>s b i m. Some (Inr (), mem_delete_before s b i m))\<rparr>"


section \<open>The contract of an event store\<close>

text \<open>
  What the manager relies on, in terms of the log of each branch (\<open>log w s b\<close>): ids ascend, reading
  returns the log, an event beyond the end is appended, pruning removes the ids below the bound, and
  no operation touches another branch.
\<close>

definition branch_ok :: "string \<Rightarrow> string \<Rightarrow> session_event list \<Rightarrow> bool" where
  "branch_ok s b es \<longleftrightarrow> sorted_wrt (<) (map ev_id es)
     \<and> (\<forall>e \<in> set es. ev_session_id e = s \<and> ev_branch e = b \<and> 0 < ev_id e)"

definition log_end :: "session_event list \<Rightarrow> nat" where
  "log_end es = (if es = [] then 0 else ev_id (last es))"

locale event_log =
  fixes store :: "'w event_store"
    and log :: "'w \<Rightarrow> string \<Rightarrow> string \<Rightarrow> session_event list"
    and wf :: "'w \<Rightarrow> bool"
  assumes log_ok: "wf w \<Longrightarrow> branch_ok s b (log w s b)"
    and read_None: "wf w \<Longrightarrow> st_read store s b None w = Some (Inr (log w s b), w)"
    and latest_id: "wf w \<Longrightarrow> st_latest_id store s b w = Some (Inr (log_end (log w s b)), w)"
    and append: "wf w \<Longrightarrow> log_end (log w (ev_session_id e) (ev_branch e)) < ev_id e \<Longrightarrow>
      \<exists>w'. st_append store e w = Some (Inr (), w') \<and> wf w'
        \<and> (\<forall>s b. log w' s b = log w s b @ (if s = ev_session_id e \<and> b = ev_branch e then [e] else []))"
    and append_batch: "wf w \<Longrightarrow> branch_ok s b (log w s b @ es) \<Longrightarrow>
      \<exists>w'. st_append_batch store es w = Some (Inr (), w') \<and> wf w'
        \<and> log w' s b = log w s b @ es \<and> (\<forall>s' b'. (s', b') \<noteq> (s, b) \<longrightarrow> log w' s' b' = log w s' b')"
    and clear_session: "wf w \<Longrightarrow>
      \<exists>w'. st_clear_session store s w = Some (Inr (), w') \<and> wf w'
        \<and> (\<forall>s' b. log w' s' b = (if s' = s then [] else log w s' b))"
    and delete_before: "wf w \<Longrightarrow>
      \<exists>w'. st_delete_before store s b i w = Some (Inr (), w') \<and> wf w'
        \<and> log w' s b = filter (\<lambda>e. \<not> ev_id e < i) (log w s b)
        \<and> (\<forall>s' b'. (s', b') \<noteq> (s, b) \<longrightarrow> log w' s' b' = log w s' b')"
    and fork: "wf w \<Longrightarrow> dst \<noteq> src \<Longrightarrow> log w s dst = [] \<Longrightarrow>
      \<exists>n w'. st_fork store s src dst until w = Some (Inr n, w') \<and> wf w'
        \<and> n = length (log w' s dst)
        \<and> log w' s dst = map (\<lambda>e. e\<lparr>ev_branch := dst\<rparr>)
            (filter (\<lambda>e. case until of None \<Rightarrow> True | Some u \<Rightarrow> ev_id e \<le> u) (log w s src))
        \<and> (\<forall>s' b'. (s', b') \<noteq> (s, dst) \<longrightarrow> log w' s' b' = log w s' b')"


section \<open>The in-memory store keeps the contract\<close>

definition branch_log :: "event_map \<Rightarrow> string \<Rightarrow> string \<Rightarrow> session_event list" where
  "branch_log m s b = map snd (on_branch s b m)"

definition event_map_wf :: "event_map \<Rightarrow> bool" where
  "event_map_wf m \<longleftrightarrow> smap_wf m \<and> (\<forall>(k, e) \<in> set m. key_of e = k \<and> 0 < ev_id e)"

lemma event_map_wfD:
  assumes "event_map_wf m"
  shows "smap_wf m" and "\<And>k e. (k, e) \<in> set m \<Longrightarrow> k = key_of e \<and> 0 < ev_id e"
  using assms by (auto simp: event_map_wf_def)

text \<open>A branch is found in the map by the keys of its events.\<close>

lemma mem_branch_log_iff: "e \<in> set (branch_log m s b) \<longleftrightarrow> (\<exists>i. ((s, b, i), e) \<in> set m)"
  by (auto simp: branch_log_def on_branch_def image_iff)

lemma mem_branch_log:
  assumes "event_map_wf m"
  shows "e \<in> set (branch_log m s b) \<longleftrightarrow> (key_of e, e) \<in> set m \<and> ev_session_id e = s \<and> ev_branch e = b"
  using event_map_wfD(2) [OF assms] by (auto simp: mem_branch_log_iff key_of_def)

lemma map_of_eq_Some_wf: "event_map_wf m \<Longrightarrow> map_of m k = Some e \<longleftrightarrow> (k, e) \<in> set m"
  by (intro map_of_eq_Some_iff smap_wf_distinct) (simp add: event_map_wf_def)

lemma map_fst_on_branch:
  assumes "event_map_wf m"
  shows "map fst (on_branch s b m) = map key_of (branch_log m s b)"
  unfolding branch_log_def using event_map_wfD(2) [OF assms]
  by (fastforce simp: on_branch_def)

lemma branch_log_mem:
  assumes "event_map_wf m" and "e \<in> set (branch_log m s b)"
  shows "ev_session_id e = s \<and> ev_branch e = b \<and> 0 < ev_id e"
  using assms event_map_wfD(2) [OF assms(1), of "key_of e" e] by (simp add: mem_branch_log)

lemma branch_ok_branch_log:
  assumes "event_map_wf m"
  shows "branch_ok s b (branch_log m s b)"
proof -
  have "sorted_wrt (<) (map fst (on_branch s b m))"
    using event_map_wfD(1) [OF assms] unfolding smap_wf_def on_branch_def
    by (induction m) auto
  then have "sorted_wrt (\<lambda>x y. key_of x < key_of y) (branch_log m s b)"
    by (simp add: map_fst_on_branch [OF assms] sorted_wrt_map)
  then have "sorted_wrt (\<lambda>x y. ev_id x < ev_id y) (branch_log m s b)"
    using branch_log_mem [OF assms]
    by (elim sorted_wrt_mono_rel [rotated]) (force simp: key_of_def less_prod_def)
  then show ?thesis
    using branch_log_mem [OF assms] by (auto simp: branch_ok_def sorted_wrt_map)
qed

text \<open>Two logs with ascending ids and the same events are the same.\<close>

lemma branch_ok_eqI:
  assumes "branch_ok s b xs" and "branch_ok s b ys" and "set xs = set ys"
  shows "xs = ys"
proof -
  have "map ev_id xs = map ev_id ys"
    using assms unfolding branch_ok_def by (metis list.set_map strict_sorted_equal)
  moreover have "inj_on ev_id (set ys)"
    using assms(2) by (auto simp: branch_ok_def strict_sorted_iff distinct_map)
  ultimately show ?thesis
    using assms(3) by (auto intro: map_inj_on)
qed


lemma mem_branch_log_map_of:
  assumes "event_map_wf m"
  shows "e \<in> set (branch_log m s b) \<longleftrightarrow>
    map_of m (key_of e) = Some e \<and> ev_session_id e = s \<and> ev_branch e = b"
  using assms by (simp add: mem_branch_log map_of_eq_Some_wf)

lemma branch_log_eqI:
  assumes "event_map_wf m" and "branch_ok s b es"
    and "\<And>e. ev_session_id e = s \<Longrightarrow> ev_branch e = b \<Longrightarrow> map_of m (key_of e) = Some e \<longleftrightarrow> e \<in> set es"
  shows "branch_log m s b = es"
proof (rule branch_ok_eqI [OF branch_ok_branch_log [OF assms(1)] assms(2)])
  have "e \<in> set (branch_log m s b) \<longleftrightarrow> e \<in> set es" for e
  proof (cases "ev_session_id e = s \<and> ev_branch e = b")
    case True
    then show ?thesis using assms(3) [of e] by (simp add: mem_branch_log_map_of [OF assms(1)])
  next
    case False
    then show ?thesis
      using assms(2) by (auto simp: mem_branch_log_map_of [OF assms(1)] branch_ok_def)
  qed
  then show "set (branch_log m s b) = set es" by blast
qed

lemma branch_ok_log_end: "branch_ok s b es \<Longrightarrow> e \<in> set es \<Longrightarrow> ev_id e \<le> log_end es"
  by (cases es rule: rev_cases)
     (auto simp: branch_ok_def log_end_def sorted_wrt_append intro: less_imp_le)

lemma branch_ok_snoc:
  assumes "branch_ok s b es"
  shows "branch_ok s b (es @ [e]) \<longleftrightarrow> ev_session_id e = s \<and> ev_branch e = b \<and> log_end es < ev_id e"
  using assms branch_ok_log_end [OF assms]
  by (cases es rule: rev_cases)
     (auto simp: branch_ok_def log_end_def sorted_wrt_append)

lemma branch_ok_appendD: "branch_ok s b (xs @ ys) \<Longrightarrow> branch_ok s b xs"
  by (auto simp: branch_ok_def sorted_wrt_append)

lemma branch_ok_filter: "branch_ok s b es \<Longrightarrow> branch_ok s b (filter P es)"
  by (auto simp: branch_ok_def sorted_wrt_map sorted_wrt_filter)

text \<open>Appending.\<close>

lemma map_of_mem_append:
  "map_of (mem_append e m) = (if map_of m (key_of e) = None then (map_of m)(key_of e \<mapsto> e) else map_of m)"
  by (simp add: mem_append_def or_insert_def contains_key_iff)

lemma event_map_wf_insert:
  assumes "event_map_wf m" and "0 < ev_id e"
  shows "event_map_wf (smap_insert (key_of e) e m)"
proof -
  have wf: "smap_wf (smap_insert (key_of e) e m)"
    using assms(1) by (intro smap_wf_insert) (simp add: event_map_wf_def)
  have "k = key_of x \<and> 0 < ev_id x" if "(k, x) \<in> set (smap_insert (key_of e) e m)" for k x
  proof -
    have "map_of (smap_insert (key_of e) e m) k = Some x"
      using that wf by (intro map_of_is_SomeI smap_wf_distinct)
    then show ?thesis
      using assms event_map_wfD(2) [OF assms(1), of k x]
      by (auto simp: map_of_eq_Some_wf split: if_splits)
  qed
  with wf show ?thesis by (auto simp: event_map_wf_def)
qed

lemma mem_append_law:
  assumes wf: "event_map_wf m" and new: "log_end (branch_log m (ev_session_id e) (ev_branch e)) < ev_id e"
  shows "event_map_wf (mem_append e m)" and "mem_append e m = smap_insert (key_of e) e m"
    and "branch_log (mem_append e m) s b =
      branch_log m s b @ (if s = ev_session_id e \<and> b = ev_branch e then [e] else [])"
proof -
  note ok = branch_ok_branch_log [OF wf]
  have absent: "map_of m (key_of e) = None"
  proof (rule ccontr)
    assume "map_of m (key_of e) \<noteq> None"
    then obtain x where x: "map_of m (key_of e) = Some x" by auto
    then have k: "key_of x = key_of e"
      using event_map_wfD(2) [OF wf] by (auto simp: map_of_eq_Some_wf [OF wf])
    with x have "x \<in> set (branch_log m (ev_session_id e) (ev_branch e))"
      by (simp add: mem_branch_log_map_of [OF wf]) (simp add: key_of_def)
    from branch_ok_log_end [OF ok this] new k show False by (simp add: key_of_def)
  qed
  then show eq: "mem_append e m = smap_insert (key_of e) e m"
    by (simp add: mem_append_def or_insert_def contains_key_iff)
  show wf': "event_map_wf (mem_append e m)"
    using event_map_wf_insert [OF wf] new by (simp add: eq)
  let ?es = "branch_log m s b @ (if s = ev_session_id e \<and> b = ev_branch e then [e] else [])"
  show "branch_log (mem_append e m) s b = ?es"
  proof (rule branch_log_eqI [OF wf'])
    show "branch_ok s b ?es"
      using ok [of s b] new by (auto simp: branch_ok_snoc [OF ok])
    show "map_of (mem_append e m) (key_of x) = Some x \<longleftrightarrow> x \<in> set ?es"
      if "ev_session_id x = s" "ev_branch x = b" for x
      using that absent by (auto simp: mem_branch_log_map_of [OF wf] map_of_mem_append key_of_def)
  qed
qed

lemma mem_append_batch_law:
  assumes "event_map_wf m" and "branch_ok s b (branch_log m s b @ es)"
  shows "event_map_wf (mem_append_batch es m)
    \<and> branch_log (mem_append_batch es m) s b = branch_log m s b @ es
    \<and> (\<forall>s' b'. (s', b') \<noteq> (s, b) \<longrightarrow> branch_log (mem_append_batch es m) s' b' = branch_log m s' b')"
  using assms
proof (induction es arbitrary: m)
  case (Cons e es)
  have "branch_ok s b (branch_log m s b @ [e])"
    using branch_ok_appendD [of s b "branch_log m s b @ [e]" es] Cons.prems(2) by simp
  then have e: "ev_session_id e = s" "ev_branch e = b" "log_end (branch_log m s b) < ev_id e"
    by (simp_all add: branch_ok_snoc [OF branch_ok_branch_log [OF Cons.prems(1)]])
  note law = mem_append_law [of m e, OF Cons.prems(1), unfolded e(1,2), OF e(3)]
  have "branch_ok s b (branch_log (mem_append e m) s b @ es)"
    using Cons.prems(2) by (simp add: law(3))
  from Cons.IH [OF law(1) this] show ?case
    by (auto simp: mem_append_batch_def law(3))
qed (simp add: mem_append_batch_def)

text \<open>Reading.\<close>

lemma on_branch_map_range:
  assumes "event_map_wf m" and "lo \<le> 1"
  shows "on_branch s b (map_range (s, b, lo) None m) = on_branch s b m"
proof -
  have "lo \<le> i" if "((s, b, i), e) \<in> set m" for i e
    using event_map_wfD(2) [OF assms(1) that] assms(2) by (simp add: key_of_def)
  then show ?thesis
    unfolding on_branch_def map_range_def filter_filter
    by (intro filter_cong) auto
qed

lemma mem_read_None: "event_map_wf m \<Longrightarrow> mem_read s b None m = branch_log m s b"
  by (simp add: mem_read_def on_branch_map_range branch_log_def)

lemma mem_latest_id_eq: "event_map_wf m \<Longrightarrow> mem_latest_id s b m = log_end (branch_log m s b)"
proof -
  assume wf: "event_map_wf m"
  have "map (\<lambda>((_, _, i), _). i) xs = map (\<lambda>k. snd (snd k)) (map fst xs)" for xs :: event_map
    by auto
  then have "map (\<lambda>((_, _, i), _). i) (on_branch s b m) = map ev_id (branch_log m s b)"
    by (simp only: map_fst_on_branch [OF wf]) (simp add: key_of_def)
  then show ?thesis
    by (simp add: mem_latest_id_def on_branch_map_range [OF wf] log_end_def Let_def last_map)
qed

text \<open>Removing.\<close>

lemma fold_smap_remove:
  "map_of (fold smap_remove ks m) k = (if k \<in> set ks then None else map_of m k)"
  by (induction ks arbitrary: m) (auto simp: map_of_smap_remove)

lemma event_map_wf_fold_remove:
  assumes "event_map_wf m"
  shows "event_map_wf (fold smap_remove ks m)"
proof -
  have "event_map_wf (smap_remove k m)" if "event_map_wf m" for k and m :: event_map
    using that smap_wf_remove [of m k]
    by (auto simp: event_map_wf_def) (auto simp: smap_remove_def)
  with assms show ?thesis by (induction ks arbitrary: m) auto
qed

lemma branch_log_fold_remove:
  assumes "event_map_wf m"
  shows "branch_log (fold smap_remove ks m) s b =
    filter (\<lambda>e. key_of e \<notin> set ks) (branch_log m s b)"
  by (rule branch_log_eqI [OF event_map_wf_fold_remove [OF assms]])
     (auto simp: fold_smap_remove mem_branch_log_map_of [OF assms]
       intro: branch_ok_filter branch_ok_branch_log [OF assms])

lemma mem_clear_session_law:
  assumes "event_map_wf m"
  shows "event_map_wf (mem_clear_session s m)"
    and "branch_log (mem_clear_session s m) s' b = (if s' = s then [] else branch_log m s' b)"
proof -
  show "event_map_wf (mem_clear_session s m)"
    by (simp add: mem_clear_session_def event_map_wf_fold_remove [OF assms])
  have "key_of e \<in> set (map fst (filter (\<lambda>((s', _, _), _). s' = s) m)) \<longleftrightarrow> ev_session_id e = s"
    if "e \<in> set (branch_log m s' b)" for e
    using that by (force simp: mem_branch_log [OF assms] key_of_def)
  then show "branch_log (mem_clear_session s m) s' b = (if s' = s then [] else branch_log m s' b)"
    unfolding mem_clear_session_def branch_log_fold_remove [OF assms]
    using branch_log_mem [OF assms, of _ s' b] by (auto simp: filter_empty_conv intro!: filter_True)
qed

lemma mem_delete_before_law:
  assumes "event_map_wf m"
  shows "event_map_wf (mem_delete_before s b i m)"
    and "branch_log (mem_delete_before s b i m) s' b' =
      (if s' = s \<and> b' = b then filter (\<lambda>e. \<not> ev_id e < i) (branch_log m s b) else branch_log m s' b')"
proof -
  show "event_map_wf (mem_delete_before s b i m)"
    by (simp add: mem_delete_before_def Let_def event_map_wf_fold_remove [OF assms] assms)
  have "key_of e \<in> set (map fst (on_branch s b (map_range (s, b, 0) (Some (s, b, i - 1)) m)))
      \<longleftrightarrow> s' = s \<and> b' = b \<and> ev_id e < i" if e: "e \<in> set (branch_log m s' b')" and "i \<noteq> 0" for e
  proof -
    have mem: "((s', b', ev_id e), e) \<in> set m"
      using e by (auto simp: mem_branch_log [OF assms] key_of_def)
    have "key_of e = (s', b', ev_id e)"
      using e by (simp add: mem_branch_log [OF assms] key_of_def)
    moreover have "ev_id e \<le> i - 1 \<longleftrightarrow> ev_id e < i"
      using \<open>i \<noteq> 0\<close> by linarith
    ultimately show ?thesis
      using mem by (force simp: on_branch_def map_range_def)
  qed
  then show "branch_log (mem_delete_before s b i m) s' b' =
      (if s' = s \<and> b' = b then filter (\<lambda>e. \<not> ev_id e < i) (branch_log m s b) else branch_log m s' b')"
    by (auto simp: mem_delete_before_def Let_def branch_log_fold_remove [OF assms] intro!: filter_cong filter_True)
qed


text \<open>Forking onto an empty branch.\<close>

abbreviation fork_keeps :: "nat option \<Rightarrow> session_event \<Rightarrow> bool" where
  "fork_keeps until e \<equiv> (case until of None \<Rightarrow> True | Some u \<Rightarrow> ev_id e \<le> u)"

abbreviation rebranch :: "string \<Rightarrow> session_event list \<Rightarrow> session_event list" where
  "rebranch dst es \<equiv> map (\<lambda>e. e\<lparr>ev_branch := dst\<rparr>) es"

lemma fork_copy_law:
  assumes "event_map_wf m" and "branch_ok s dst (branch_log m s dst @ rebranch dst es)"
    and "fork_copy dst until es m n = (n', m')"
  shows "event_map_wf m' \<and> n' = n + length (takeWhile (fork_keeps until) es)
    \<and> branch_log m' s dst = branch_log m s dst @ rebranch dst (takeWhile (fork_keeps until) es)
    \<and> (\<forall>s' b'. (s', b') \<noteq> (s, dst) \<longrightarrow> branch_log m' s' b' = branch_log m s' b')"
  using assms
proof (induction es arbitrary: m n)
  case (Cons e es)
  let ?e = "e\<lparr>ev_branch := dst\<rparr>"
  show ?case
  proof (cases "fork_keeps until e")
    case True
    have "branch_ok s dst (branch_log m s dst @ [?e])"
      using branch_ok_appendD [of s dst "branch_log m s dst @ [?e]"] Cons.prems(2) by simp
    then have e: "ev_session_id ?e = s" "ev_branch ?e = dst" "log_end (branch_log m s dst) < ev_id ?e"
      by (simp_all add: branch_ok_snoc [OF branch_ok_branch_log [OF Cons.prems(1)]])
    note law = mem_append_law [of m ?e, OF Cons.prems(1), unfolded e(1,2), OF e(3)]
    have "\<not> contains_key m (key_of ?e)"
    proof
      assume "contains_key m (key_of ?e)"
      then have "mem_append ?e m = m" by (simp add: mem_append_def or_insert_def)
      with law(3) [of s dst] show False by simp
    qed
    with Cons.prems(3) True have copy: "fork_copy dst until es (mem_append ?e m) (Suc n) = (n', m')"
      by (simp add: law(2) Let_def split: option.splits)
    have "branch_ok s dst (branch_log (mem_append ?e m) s dst @ rebranch dst es)"
      using Cons.prems(2) by (simp add: law(3))
    from Cons.IH [OF law(1) this copy] True show ?thesis
      by (auto simp: law(3))
  next
    case False
    with Cons.prems show ?thesis by (auto split: option.splits)
  qed
qed simp

lemma takeWhile_sorted_ids:
  "sorted_wrt (<) (map ev_id es) \<Longrightarrow> takeWhile (fork_keeps until) es = filter (fork_keeps until) es"
proof (induction es)
  case (Cons e es)
  then show ?case
    by (cases until) (auto simp: filter_empty_conv [symmetric] intro!: filter_False [symmetric])
qed simp

lemma mem_fork_law:
  assumes wf: "event_map_wf m" and "dst \<noteq> src" and empty: "branch_log m s dst = []"
    and fork: "mem_fork s src dst until m = (n, m')"
  shows "event_map_wf m' \<and> n = length (branch_log m' s dst)
    \<and> branch_log m' s dst = rebranch dst (filter (fork_keeps until) (branch_log m s src))
    \<and> (\<forall>s' b'. (s', b') \<noteq> (s, dst) \<longrightarrow> branch_log m' s' b' = branch_log m s' b')"
proof -
  note ok = branch_ok_branch_log [OF wf, of s src]
  have "branch_ok s dst (branch_log m s dst @ rebranch dst (branch_log m s src))"
    using ok by (auto simp: empty branch_ok_def comp_def)
  moreover have "fork_copy dst until (branch_log m s src) m 0 = (n, m')"
    using fork by (simp add: mem_fork_def on_branch_map_range [OF wf] branch_log_def)
  ultimately show ?thesis
    using fork_copy_law [OF wf, of s dst "branch_log m s src" until 0 n m'] ok
    by (simp add: empty takeWhile_sorted_ids branch_ok_def)
qed

lemma memory_event_store_simps [simp]:
  "st_append memory_event_store e m = Some (Inr (), mem_append e m)"
  "st_append_batch memory_event_store es m = Some (Inr (), mem_append_batch es m)"
  "st_read memory_event_store s b after m = Some (Inr (mem_read s b after m), m)"
  "st_fork memory_event_store s src dst until m =
     (let (n, m') = mem_fork s src dst until m in Some (Inr n, m'))"
  "st_latest_id memory_event_store s b m = Some (Inr (mem_latest_id s b m), m)"
  "st_clear_session memory_event_store s m = Some (Inr (), mem_clear_session s m)"
  "st_delete_before memory_event_store s b i m = Some (Inr (), mem_delete_before s b i m)"
  by (simp_all add: memory_event_store_def)

interpretation mem: event_log memory_event_store branch_log event_map_wf
proof unfold_locales
  fix m :: event_map and s b :: string and e :: session_event and es :: "session_event list"
    and i :: nat and src dst :: string and until :: "nat option"
  assume wf: "event_map_wf m"
  show "branch_ok s b (branch_log m s b)"
    by (rule branch_ok_branch_log [OF wf])
  show "st_read memory_event_store s b None m = Some (Inr (branch_log m s b), m)"
    by (simp add: mem_read_None [OF wf])
  show "st_latest_id memory_event_store s b m = Some (Inr (log_end (branch_log m s b)), m)"
    by (simp add: mem_latest_id_eq [OF wf])
  show "\<exists>w'. st_append memory_event_store e m = Some (Inr (), w') \<and> event_map_wf w'
      \<and> (\<forall>s b. branch_log w' s b = branch_log m s b
           @ (if s = ev_session_id e \<and> b = ev_branch e then [e] else []))"
    if "log_end (branch_log m (ev_session_id e) (ev_branch e)) < ev_id e"
    using mem_append_law(1,3) [OF wf that] by simp
  show "\<exists>w'. st_append_batch memory_event_store es m = Some (Inr (), w') \<and> event_map_wf w'
      \<and> branch_log w' s b = branch_log m s b @ es
      \<and> (\<forall>s' b'. (s', b') \<noteq> (s, b) \<longrightarrow> branch_log w' s' b' = branch_log m s' b')"
    if "branch_ok s b (branch_log m s b @ es)"
    using mem_append_batch_law [OF wf that] by simp
  show "\<exists>w'. st_clear_session memory_event_store s m = Some (Inr (), w') \<and> event_map_wf w'
      \<and> (\<forall>s' b. branch_log w' s' b = (if s' = s then [] else branch_log m s' b))"
    using mem_clear_session_law [OF wf] by simp
  show "\<exists>w'. st_delete_before memory_event_store s b i m = Some (Inr (), w') \<and> event_map_wf w'
      \<and> branch_log w' s b = filter (\<lambda>e. \<not> ev_id e < i) (branch_log m s b)
      \<and> (\<forall>s' b'. (s', b') \<noteq> (s, b) \<longrightarrow> branch_log w' s' b' = branch_log m s' b')"
    using mem_delete_before_law [OF wf] by auto
  show "\<exists>n w'. st_fork memory_event_store s src dst until m = Some (Inr n, w') \<and> event_map_wf w'
      \<and> n = length (branch_log w' s dst)
      \<and> branch_log w' s dst = rebranch dst (filter (fork_keeps until) (branch_log m s src))
      \<and> (\<forall>s' b'. (s', b') \<noteq> (s, dst) \<longrightarrow> branch_log w' s' b' = branch_log m s' b')"
    if "dst \<noteq> src" "branch_log m s dst = []"
    using mem_fork_law [OF wf that, of until] by (cases "mem_fork s src dst until m") simp
qed


section \<open>Replayed appends\<close>

lemma mem_append_present: "map_of m (key_of e) \<noteq> None \<Longrightarrow> mem_append e m = m"
  by (simp add: mem_append_def or_insert_def contains_key_iff)

lemma mem_append_keys:
  "map_of m k \<noteq> None \<Longrightarrow> map_of (mem_append_batch es m) k = map_of m k"
  by (induction es arbitrary: m) (auto simp: mem_append_batch_def map_of_mem_append)

lemma mem_append_batch_keys: "e \<in> set es \<Longrightarrow> map_of (mem_append_batch es m) (key_of e) \<noteq> None"
proof (induction es arbitrary: m)
  case (Cons x es)
  have "map_of (mem_append x m) (key_of x) \<noteq> None" by (simp add: map_of_mem_append)
  with Cons mem_append_keys [of "mem_append x m" "key_of x" es] show ?case
    by (auto simp: mem_append_batch_def)
qed simp

lemma mem_append_batch_idle:
  "(\<And>e. e \<in> set es \<Longrightarrow> map_of m (key_of e) \<noteq> None) \<Longrightarrow> mem_append_batch es m = m"
  by (induction es) (auto simp: mem_append_batch_def mem_append_present)

text \<open>
  Appending is idempotent and never rewrites: an event that is stored stays as it is under every
  further append, and replaying any part of a batch that was appended, in any order and after any
  other appends, changes nothing.
\<close>

theorem replayed_appends_are_noops:
  assumes "map_of m k = Some e" and "set es' \<subseteq> set es"
  shows "map_of (mem_append_batch es m) k = Some e
    \<and> mem_append_batch es' (mem_append_batch others (mem_append_batch es m))
      = mem_append_batch others (mem_append_batch es m)"
proof -
  have "map_of (mem_append_batch others (mem_append_batch es m)) (key_of x) \<noteq> None" if "x \<in> set es'" for x
    using that assms(2) mem_append_batch_keys [of x es m] mem_append_keys [of "mem_append_batch es m" "key_of x" others]
    by auto
  then show ?thesis
    using assms(1) mem_append_keys [of m k es] by (simp add: mem_append_batch_idle)
qed

theorem replayed_appends_are_noops_witness:
  "\<exists>a b c. map_of [(key_of a, a)] (key_of a) = Some a \<and> set [c] \<subseteq> set [b, c]
    \<and> map_of (mem_append_batch [b, c] [(key_of a, a)]) (key_of a) = Some a
    \<and> mem_append_batch [c] (mem_append_batch [] (mem_append_batch [b, c] [(key_of a, a)]))
      = mem_append_batch [] (mem_append_batch [b, c] [(key_of a, a)])
    \<and> mem_append_batch [b, c] [(key_of a, a)] \<noteq> [(key_of a, a)]"
proof -
  define a where "a = event_now 0 1 ''s'' 0 ''main'' (UserMessage ''hi'')"
  define b where "b = event_now 5 1 ''s'' 0 ''main'' (UserMessage ''late duplicate'')"
  define c where "c = event_now 0 2 ''s'' 0 ''main'' (AssistantMessage ''hello'')"
  have "mem_append_batch [b, c] [(key_of a, a)] \<noteq> [(key_of a, a)]"
    unfolding a_def b_def c_def by code_simp
  with replayed_appends_are_noops [of "[(key_of a, a)]" "key_of a" a "[c]" "[b, c]" "[]"]
  show ?thesis by (intro exI [of _ a] exI [of _ b] exI [of _ c]) simp
qed

end
