(* ===== verification/Session_Manager.thy ===== *)
theory Session_Manager
  imports Session_Store
begin

text \<open>
  The event-sourced session manager of \<open>lc-sessions\<close> (\<open>events/manager.rs\<close>) with the checkpoint trait
  (\<open>events/checkpoint.rs\<close>) and what it uses of the memory components (\<open>lc-memory\<close>, \<open>base.rs\<close>).

  The world of the manager has the state of the event store (\<open>'s\<close>), that of the checkpoints
  (\<open>'c\<close>), the two maps the manager and its forks share through \<open>Arc\<close>s, and everything else (\<open>'x\<close>):
  the clock, the memory components behind their handles \<open>'h\<close> and the language model. A store is thus
  free in its own state and cannot touch the rest. An operation is a function of the world at its
  start: what it does when no other call of the manager runs meanwhile. \<open>chat\<close>, \<open>gc\<close> and
  \<open>record_tool_use\<close> hold the lock of their session and branch, so they do not overlap one another there;
  the other operations take no lock (\<open>Session_Races\<close>).
\<close>

section \<open>Memory components and checkpoints\<close>

datatype memory_error = LoadError string | SaveError string | ClearError string | OtherError string

primrec show_memory_error :: "memory_error \<Rightarrow> string" where
  "show_memory_error (LoadError e) = ''Failed to load memory: '' @ e"
| "show_memory_error (SaveError e) = ''Failed to save memory: '' @ e"
| "show_memory_error (ClearError e) = ''Failed to clear memory: '' @ e"
| "show_memory_error (OtherError e) = ''Memory error: '' @ e"

text \<open>\<open>serde_json::from_value::<Message>\<close> is a parameter of the conversion.\<close>

definition item_messages :: "(json \<Rightarrow> message option) \<Rightarrow> json \<Rightarrow> message list" where
  "item_messages from_value item = (case from_value item of
      Some m \<Rightarrow> [m]
    | None \<Rightarrow> (case as_str item of Some s \<Rightarrow> [system s] | None \<Rightarrow> []))"

definition memory_variables_to_messages :: "(json \<Rightarrow> message option) \<Rightarrow> json smap \<Rightarrow> message list" where
  "memory_variables_to_messages from_value vars =
     concat (map (\<lambda>k. case map_of vars k of
         Some (JArray items) \<Rightarrow> concat (map (item_messages from_value) items)
       | Some (JString s) \<Rightarrow> [system s]
       | _ \<Rightarrow> []) (sort (map fst vars)))"

record ('h, 'x) base_memory =
  load_memory_variables :: "'h \<Rightarrow> string smap \<Rightarrow> ('x, memory_error, json smap) eff"
  save_context :: "'h \<Rightarrow> string smap \<Rightarrow> string smap \<Rightarrow> ('x, memory_error, unit) eff"

record 'c session_checkpoint =
  cp_save :: "string \<Rightarrow> string \<Rightarrow> nat \<Rightarrow> projected_session \<Rightarrow> ('c, session_error, unit) eff"
  cp_latest :: "string \<Rightarrow> string \<Rightarrow> ('c, session_error, (nat \<times> projected_session) option) eff"
  cp_remove :: "string \<Rightarrow> string \<Rightarrow> ('c, session_error, unit) eff"

definition noop_checkpoint :: "'c session_checkpoint" where
  "noop_checkpoint = \<lparr>cp_save = (\<lambda>_ _ _ _. ok ()), cp_latest = (\<lambda>_ _. ok None), cp_remove = (\<lambda>_ _. ok ())\<rparr>"


section \<open>The manager and its world\<close>

record auto_compaction =
  ac_max_turns :: nat
  ac_max_age :: "nat option"

definition auto_compaction_new :: "nat \<Rightarrow> session_error + auto_compaction" where
  "auto_compaction_new n =
     (if n = 0 then Inl (StoreError ''AutoCompaction::max_turns must be >= 1'')
      else Inr \<lparr>ac_max_turns = n, ac_max_age = None\<rparr>)"

definition with_max_age :: "nat \<Rightarrow> auto_compaction \<Rightarrow> auto_compaction" where
  "with_max_age age p = p\<lparr>ac_max_age := Some age\<rparr>"

record ('s, 'c, 'h, 'x) session_world =
  sw_store :: 's
  sw_checkpoint :: 'c
  sw_session_memories :: "'h smap"
  sw_pending :: "(string \<times> string) smap"
  sw_outer :: 'x

text \<open>What the manager takes from outside: the methods of memory components, the clock, UUIDs,
  the decoding of messages and \<open>chrono\<close>'s conversion of timestamps.\<close>

record ('h, 'x) session_env =
  env_memory :: "('h, 'x) base_memory"
  env_utc_now :: "'x \<Rightarrow> int \<times> 'x"
  env_now_v7 :: "'x \<Rightarrow> string \<times> 'x"
  env_from_value :: "json \<Rightarrow> message option"
  env_from_millis :: "int \<Rightarrow> int option"

record ('s, 'c, 'h, 'x) session_manager =
  mgr_store :: "'s event_store"
  mgr_branch :: string
  mgr_memory :: "'h option"
  mgr_input_key :: string
  mgr_output_key :: string
  mgr_memory_factory :: "('x \<Rightarrow> 'h \<times> 'x) option"
  mgr_max_context_turns :: "nat option"
  mgr_auto_compaction :: "auto_compaction option"
  mgr_checkpoint :: "'c session_checkpoint option"

definition MAIN_BRANCH :: string where
  "MAIN_BRANCH = ''main''"

definition DEFAULT_AUTO_COMPACTION_TURNS :: nat where
  "DEFAULT_AUTO_COMPACTION_TURNS = 1024"

definition manager_new :: "'s event_store \<Rightarrow> ('s, 'c, 'h, 'x) session_manager" where
  "manager_new store = \<lparr>mgr_store = store, mgr_branch = MAIN_BRANCH, mgr_memory = None,
     mgr_input_key = ''input'', mgr_output_key = ''output'', mgr_memory_factory = None,
     mgr_max_context_turns = None,
     mgr_auto_compaction = Some \<lparr>ac_max_turns = DEFAULT_AUTO_COMPACTION_TURNS, ac_max_age = None\<rparr>,
     mgr_checkpoint = None\<rparr>"

definition with_branch :: "string \<Rightarrow> ('s, 'c, 'h, 'x) session_manager \<Rightarrow> ('s, 'c, 'h, 'x) session_manager" where
  "with_branch b m = m\<lparr>mgr_branch := b\<rparr>"

definition with_memory :: "'h \<Rightarrow> ('s, 'c, 'h, 'x) session_manager \<Rightarrow> ('s, 'c, 'h, 'x) session_manager" where
  "with_memory h m = m\<lparr>mgr_memory := Some h\<rparr>"

definition with_memory_factory ::
  "('x \<Rightarrow> 'h \<times> 'x) \<Rightarrow> ('s, 'c, 'h, 'x) session_manager \<Rightarrow> ('s, 'c, 'h, 'x) session_manager" where
  "with_memory_factory f m = m\<lparr>mgr_memory_factory := Some f\<rparr>"

definition with_memory_keys ::
  "string \<Rightarrow> string \<Rightarrow> ('s, 'c, 'h, 'x) session_manager \<Rightarrow> ('s, 'c, 'h, 'x) session_manager" where
  "with_memory_keys i out m = m\<lparr>mgr_input_key := i, mgr_output_key := out\<rparr>"

definition with_max_context_turns ::
  "nat \<Rightarrow> ('s, 'c, 'h, 'x) session_manager \<Rightarrow> ('s, 'c, 'h, 'x) session_manager" where
  "with_max_context_turns n m = m\<lparr>mgr_max_context_turns := Some n\<rparr>"

definition with_auto_compaction ::
  "auto_compaction \<Rightarrow> ('s, 'c, 'h, 'x) session_manager \<Rightarrow> ('s, 'c, 'h, 'x) session_manager" where
  "with_auto_compaction p m = m\<lparr>mgr_auto_compaction := Some p\<rparr>"

definition with_checkpoint ::
  "'c session_checkpoint \<Rightarrow> ('s, 'c, 'h, 'x) session_manager \<Rightarrow> ('s, 'c, 'h, 'x) session_manager" where
  "with_checkpoint c m = m\<lparr>mgr_checkpoint := Some c\<rparr>"

text \<open>Running an operation of the store, or of the outside, in the manager's world.\<close>

definition on_store :: "('s, 'e, 'a) eff \<Rightarrow> (('s, 'c, 'h, 'x) session_world, 'e, 'a) eff" where
  "on_store f w = map_option (\<lambda>(r, s). (r, w\<lparr>sw_store := s\<rparr>)) (f (sw_store w))"

definition on_outer :: "('x, 'e, 'a) eff \<Rightarrow> (('s, 'c, 'h, 'x) session_world, 'e, 'a) eff" where
  "on_outer f w = map_option (\<lambda>(r, x). (r, w\<lparr>sw_outer := x\<rparr>)) (f (sw_outer w))"

definition on_checkpoint :: "('c, 'e, 'a) eff \<Rightarrow> (('s, 'c, 'h, 'x) session_world, 'e, 'a) eff" where
  "on_checkpoint f w = map_option (\<lambda>(r, c). (r, w\<lparr>sw_checkpoint := c\<rparr>)) (f (sw_checkpoint w))"

definition reading :: "('x \<Rightarrow> 'a \<times> 'x) \<Rightarrow> ('x, 'e, 'a) eff" where
  "reading f x = (let (a, x') = f x in Some (Inr a, x'))"

definition utc_now :: "('h, 'x) session_env \<Rightarrow> (('s, 'c, 'h, 'x) session_world, session_error, int) eff" where
  "utc_now E = on_outer (reading (env_utc_now E))"


section \<open>Operations\<close>

definition next_id ::
  "('s, 'c, 'h, 'x) session_manager \<Rightarrow> string \<Rightarrow> (('s, 'c, 'h, 'x) session_world, session_error, nat) eff" where
  "next_id m s = eff_bind (on_store (st_latest_id (mgr_store m) s (mgr_branch m))) (\<lambda>i. ok (i + 1))"

definition session_memory ::
  "('s, 'c, 'h, 'x) session_manager \<Rightarrow> string \<Rightarrow> (('s, 'c, 'h, 'x) session_world, session_error, 'h option) eff" where
  "session_memory m s = (case mgr_memory_factory m of
      Some factory \<Rightarrow> (\<lambda>w. case map_of (sw_session_memories w) s of
          Some h \<Rightarrow> Some (Inr (Some h), w)
        | None \<Rightarrow> (let (h, x) = factory (sw_outer w) in
            Some (Inr (Some h), w\<lparr>sw_outer := x,
              sw_session_memories := smap_insert s h (sw_session_memories w)\<rparr>)))
    | None \<Rightarrow> ok (mgr_memory m))"

definition is_user_message :: "session_event \<Rightarrow> bool" where
  "is_user_message e = (case ev_payload e of UserMessage _ \<Rightarrow> True | _ \<Rightarrow> False)"

definition read_log ::
  "('s, 'c, 'h, 'x) session_manager \<Rightarrow> string
   \<Rightarrow> (('s, 'c, 'h, 'x) session_world, session_error, session_event list) eff" where
  "read_log m s = on_store (st_read (mgr_store m) s (mgr_branch m) None)"

definition following_id :: "session_event list \<Rightarrow> nat" where
  "following_id events = (if events = [] then 1 else ev_id (last events) + 1)"

definition turn_count ::
  "('s, 'c, 'h, 'x) session_manager \<Rightarrow> string \<Rightarrow> (('s, 'c, 'h, 'x) session_world, session_error, nat \<times> nat) eff" where
  "turn_count m s = eff_bind (read_log m s) (\<lambda>events.
     ok (following_id events, length (filter is_user_message events)))"

definition mgr_append ::
  "('h, 'x) session_env \<Rightarrow> ('s, 'c, 'h, 'x) session_manager \<Rightarrow> string \<Rightarrow> nat \<Rightarrow> event_payload
   \<Rightarrow> (('s, 'c, 'h, 'x) session_world, session_error, nat) eff" where
  "mgr_append E m s turn payload =
     eff_bind (next_id m s) (\<lambda>i.
     eff_bind (utc_now E) (\<lambda>t.
     eff_bind (on_store (st_append (mgr_store m) (event_now t i s turn (mgr_branch m) payload))) (\<lambda>_.
     ok i)))"

definition create_session ::
  "('h, 'x) session_env \<Rightarrow> ('s, 'c, 'h, 'x) session_manager
   \<Rightarrow> (('s, 'c, 'h, 'x) session_world, session_error, string) eff" where
  "create_session E m =
     eff_bind (on_outer (reading (env_now_v7 E))) (\<lambda>i.
     eff_bind (mgr_append E m i 0 (Metadata ''created'' (JObject []))) (\<lambda>_.
     ok i))"

definition modify :: "('w \<Rightarrow> 'w) \<Rightarrow> ('w, 'e, unit) eff" where
  "modify f w = Some (Inr (), f w)"

definition release_session_cache ::
  "string \<Rightarrow> (('s, 'c, 'h, 'x) session_world, session_error, unit) eff" where
  "release_session_cache s = modify (\<lambda>w. w\<lparr>
     sw_session_memories := smap_remove s (sw_session_memories w),
     sw_pending := smap_remove s (sw_pending w)\<rparr>)"

definition delete_session ::
  "('s, 'c, 'h, 'x) session_manager \<Rightarrow> string \<Rightarrow> (('s, 'c, 'h, 'x) session_world, session_error, unit) eff" where
  "delete_session m s =
     eff_bind (read_log m s) (\<lambda>events.
     eff_bind (on_store (st_clear_session (mgr_store m) s)) (\<lambda>_.
     eff_bind (case mgr_checkpoint m of None \<Rightarrow> ok ()
               | Some cp \<Rightarrow> on_checkpoint (cp_remove cp s (mgr_branch m))) (\<lambda>_.
     eff_bind (release_session_cache s) (\<lambda>_.
     if events \<noteq> [] then ok () else err (SessionNotFound s)))))"

definition read_existing ::
  "('s, 'c, 'h, 'x) session_manager \<Rightarrow> string
   \<Rightarrow> (('s, 'c, 'h, 'x) session_world, session_error, session_event list) eff" where
  "read_existing m s = eff_bind (read_log m s) (\<lambda>events.
     if events = [] then err (SessionNotFound s) else ok events)"

definition history ::
  "('s, 'c, 'h, 'x) session_manager \<Rightarrow> string
   \<Rightarrow> (('s, 'c, 'h, 'x) session_world, session_error, message list) eff" where
  "history m s = eff_bind (read_existing m s) (\<lambda>events.
     eff_bind (lift_result (project events)) (\<lambda>p. ok (ps_messages p)))"

definition replay_session ::
  "('h, 'x) session_env \<Rightarrow> ('s, 'c, 'h, 'x) session_manager \<Rightarrow> string
   \<Rightarrow> (('s, 'c, 'h, 'x) session_world, session_error, session) eff" where
  "replay_session E m s = eff_bind (read_existing m s) (\<lambda>events.
     eff_bind (utc_now E) (\<lambda>t1. eff_bind (utc_now E) (\<lambda>t2.
     lift_result (replay_active_session (env_from_millis E) t1 t2 events))))"

definition fork_session ::
  "('s, 'c, 'h, 'x) session_manager \<Rightarrow> string \<Rightarrow> string \<Rightarrow> nat option
   \<Rightarrow> (('s, 'c, 'h, 'x) session_world, session_error, ('s, 'c, 'h, 'x) session_manager) eff" where
  "fork_session m s dst until =
     eff_bind (on_store (st_fork (mgr_store m) s (mgr_branch m) dst until)) (\<lambda>_.
     ok ((manager_new (mgr_store m))\<lparr>mgr_branch := dst, mgr_memory := mgr_memory m,
       mgr_memory_factory := mgr_memory_factory m, mgr_input_key := mgr_input_key m,
       mgr_output_key := mgr_output_key m, mgr_max_context_turns := mgr_max_context_turns m,
       mgr_auto_compaction := mgr_auto_compaction m, mgr_checkpoint := mgr_checkpoint m\<rparr>))"

definition is_snapshot_turn :: "turn \<Rightarrow> bool" where
  "is_snapshot_turn t = (case turn_events t of
      [] \<Rightarrow> False
    | e # _ \<Rightarrow> (case ev_payload e of Snapshot _ _ \<Rightarrow> True | _ \<Rightarrow> False))"

definition last_n_turns_messages :: "session_event list \<Rightarrow> nat \<Rightarrow> session_error + message list" where
  "last_n_turns_messages events n = result_bind (project events) (\<lambda>p.
     let real_turns = filter (\<lambda>t. \<not> is_snapshot_turn t) (ps_turns p);
         skip_turns = length real_turns - n
     in if skip_turns < length real_turns then
          (let first_kept_id = (case turn_events (real_turns ! skip_turns) of
                 [] \<Rightarrow> 0 | e # _ \<Rightarrow> ev_id e)
           in Inr (concat (map (\<lambda>e. event_messages (ev_payload e))
                (filter (\<lambda>e. first_kept_id \<le> ev_id e) events))))
        else Inr (ps_messages p))"

definition compact_and_prune ::
  "('h, 'x) session_env \<Rightarrow> ('s, 'c, 'h, 'x) session_manager \<Rightarrow> string \<Rightarrow> nat
   \<Rightarrow> (('s, 'c, 'h, 'x) session_world, session_error, bool) eff" where
  "compact_and_prune E m s keep_turns =
     eff_bind (read_log m s) (\<lambda>events.
     eff_bind (compact_to_snapshot (utc_now E) (following_id events) events keep_turns) (\<lambda>snap.
     case snap of
       None \<Rightarrow> ok False
     | Some snapshot \<Rightarrow>
         eff_bind (lift_result (compaction_prune_boundary events keep_turns)) (\<lambda>prune_before.
         eff_bind (on_store (st_append (mgr_store m) snapshot)) (\<lambda>_.
         eff_bind (case prune_before of
             None \<Rightarrow> ok ()
           | Some before_id \<Rightarrow> on_store (st_delete_before (mgr_store m) s (mgr_branch m) before_id)) (\<lambda>_.
         ok True)))))"

text \<open>The language model: a list of messages to the content of the response, or the text of an error.\<close>

type_synonym 'x chat_model = "message list \<Rightarrow> ('x, string, string) eff"

definition chat_context ::
  "('h, 'x) session_env \<Rightarrow> ('s, 'c, 'h, 'x) session_manager \<Rightarrow> string \<Rightarrow> 'h option \<Rightarrow> string
   \<Rightarrow> (('s, 'c, 'h, 'x) session_world, session_error, message list) eff" where
  "chat_context E m s mem user =
     (case mem of
       Some h \<Rightarrow>
         eff_bind (eff_map_err (\<lambda>e. Memory (''failed to load memory: '' @ show_memory_error e))
             (on_outer (load_memory_variables (env_memory E) h [(mgr_input_key m, user)]))) (\<lambda>vars.
         ok (memory_variables_to_messages (env_from_value E) vars @ [human user]))
     | None \<Rightarrow>
         eff_bind (read_log m s) (\<lambda>events.
         eff_bind (lift_result (project events)) (\<lambda>p.
         eff_bind (case mgr_max_context_turns m of
             None \<Rightarrow> ok (ps_messages p)
           | Some n \<Rightarrow> lift_result (last_n_turns_messages events n)) (\<lambda>messages.
         ok (messages @ [human user])))))"

definition chat_save_memory ::
  "('h, 'x) session_env \<Rightarrow> ('s, 'c, 'h, 'x) session_manager \<Rightarrow> string \<Rightarrow> 'h option \<Rightarrow> string \<Rightarrow> string
   \<Rightarrow> (('s, 'c, 'h, 'x) session_world, session_error, unit) eff" where
  "chat_save_memory E m s mem user content =
     (case mem of
       None \<Rightarrow> ok ()
     | Some h \<Rightarrow> (\<lambda>w.
         if map_of (sw_pending w) s = Some (user, content) then Some (Inr (), w)
         else eff_map_err (\<lambda>e. Memory (''failed to save memory: '' @ show_memory_error e))
           (on_outer (save_context (env_memory E) h
              [(mgr_input_key m, user)] [(mgr_output_key m, content)])) w))"

definition chat_persist ::
  "('h, 'x) session_env \<Rightarrow> ('s, 'c, 'h, 'x) session_manager \<Rightarrow> string \<Rightarrow> nat \<Rightarrow> string \<Rightarrow> string
   \<Rightarrow> (('s, 'c, 'h, 'x) session_world, session_error, unit) eff" where
  "chat_persist E m s turn user content =
     eff_bind (next_id m s) (\<lambda>first_id.
     eff_bind (utc_now E) (\<lambda>t1. eff_bind (utc_now E) (\<lambda>t2.
     eff_bind (eff_catch
         (on_store (st_append_batch (mgr_store m)
            [event_now t1 first_id s turn (mgr_branch m) (UserMessage user),
             event_now t2 (first_id + 1) s turn (mgr_branch m) (AssistantMessage content)]))
         (\<lambda>e. eff_bind (modify (\<lambda>w. w\<lparr>sw_pending := smap_insert s (user, content) (sw_pending w)\<rparr>))
                (\<lambda>_. err e))) (\<lambda>_.
     modify (\<lambda>w. w\<lparr>sw_pending := smap_remove s (sw_pending w)\<rparr>)))))"

definition chat ::
  "('h, 'x) session_env \<Rightarrow> ('s, 'c, 'h, 'x) session_manager \<Rightarrow> string \<Rightarrow> 'x chat_model \<Rightarrow> string
   \<Rightarrow> (('s, 'c, 'h, 'x) session_world, session_error, string) eff" where
  "chat E m s llm user =
     eff_bind (turn_count m s) (\<lambda>(nid, turn).
     if nid = 1 then err (SessionNotFound s)
     else
       eff_bind (session_memory m s) (\<lambda>mem.
       eff_bind (chat_context E m s mem user) (\<lambda>messages.
       eff_bind (eff_map_err Llm (on_outer (llm messages))) (\<lambda>content.
       eff_bind (chat_save_memory E m s mem user content) (\<lambda>_.
       eff_bind (chat_persist E m s turn user content) (\<lambda>_.
       eff_bind (case mgr_auto_compaction m of
           None \<Rightarrow> ok False
         | Some policy \<Rightarrow> compact_and_prune E m s (ac_max_turns policy)) (\<lambda>_.
       ok content)))))))"

definition gc ::
  "('h, 'x) session_env \<Rightarrow> ('s, 'c, 'h, 'x) session_manager \<Rightarrow> string
   \<Rightarrow> (('s, 'c, 'h, 'x) session_world, session_error, bool) eff" where
  "gc E m s = (case mgr_auto_compaction m of
      None \<Rightarrow> ok False
    | Some policy \<Rightarrow>
        eff_bind (read_existing m s) (\<lambda>events.
        eff_bind (case ac_max_age policy of
            None \<Rightarrow> ok (ac_max_turns policy)
          | Some max_age \<Rightarrow> eff_bind (utc_now E) (\<lambda>now_ms.
              eff_bind (lift_result (project events)) (\<lambda>p.
              ok (age_bounded_turns (ps_turns p) (ac_max_turns policy) max_age now_ms)))) (\<lambda>keep_turns.
        compact_and_prune E m s keep_turns)))"

definition save_checkpoint ::
  "('s, 'c, 'h, 'x) session_manager \<Rightarrow> string \<Rightarrow> (('s, 'c, 'h, 'x) session_world, session_error, bool) eff" where
  "save_checkpoint m s = (case mgr_checkpoint m of
      None \<Rightarrow> ok False
    | Some cp \<Rightarrow>
        eff_bind (read_existing m s) (\<lambda>events.
        eff_bind (lift_result (project events)) (\<lambda>p.
        eff_bind (on_checkpoint (cp_save cp s (mgr_branch m) (ps_last_id p) p)) (\<lambda>_.
        ok True))))"

definition is_snapshot :: "event_payload \<Rightarrow> bool" where
  "is_snapshot p = (case p of Snapshot _ _ \<Rightarrow> True | _ \<Rightarrow> False)"

definition recover_from ::
  "session_event list \<Rightarrow> (nat \<times> projected_session) option \<Rightarrow> session_error + projected_session" where
  "recover_from events latest = (case latest of
      None \<Rightarrow> project events
    | Some (up_to_id, base) \<Rightarrow>
        if up_to_id \<le> (if events = [] then 0 else ev_id (last events))
           \<and> \<not> list_ex (\<lambda>e. up_to_id < ev_id e \<and> is_snapshot (ev_payload e)) events
        then (let tail = filter (\<lambda>e. up_to_id < ev_id e) events in
          if tail = [] then Inr base
          else result_bind (project tail) (\<lambda>t. Inr (merge_projections base t)))
        else project events)"

definition recover_session ::
  "('s, 'c, 'h, 'x) session_manager \<Rightarrow> string
   \<Rightarrow> (('s, 'c, 'h, 'x) session_world, session_error, projected_session) eff" where
  "recover_session m s =
     eff_bind (read_existing m s) (\<lambda>events.
     eff_bind (case mgr_checkpoint m of None \<Rightarrow> ok None
               | Some cp \<Rightarrow> on_checkpoint (cp_latest cp s (mgr_branch m))) (\<lambda>latest.
     lift_result (recover_from events latest)))"

definition record_tool_use ::
  "('h, 'x) session_env \<Rightarrow> ('s, 'c, 'h, 'x) session_manager \<Rightarrow> string \<Rightarrow> string \<Rightarrow> json \<Rightarrow> string \<Rightarrow> string
   \<Rightarrow> (('s, 'c, 'h, 'x) session_world, session_error, unit) eff" where
  "record_tool_use E m s tname input call_id observation =
     eff_bind (turn_count m s) (\<lambda>(nid, turn).
     if nid = 1 then err (SessionNotFound s)
     else
       eff_bind (mgr_append E m s turn (ToolCall tname input call_id)) (\<lambda>_.
       eff_bind (mgr_append E m s turn (ToolResult call_id observation)) (\<lambda>_.
       ok ())))"

end
