(* ===== verification/Session_Manager_Laws.thy ===== *)
theory Session_Manager_Laws
  imports Session_Manager
begin

text \<open>
  What each operation of the session manager does to the logs of its store, proved once over the
  contract \<open>event_log\<close> of the store.
\<close>

section \<open>Running operations in the manager's world\<close>

definition logs_of ::
  "('s \<Rightarrow> string \<Rightarrow> string \<Rightarrow> session_event list) \<Rightarrow> ('s, 'c, 'h, 'x) session_world
   \<Rightarrow> string \<times> string \<Rightarrow> session_event list" where
  "logs_of lg w = (\<lambda>(s, b). lg (sw_store w) s b)"

lemma logs_of_apply [simp]: "logs_of lg w (s, b) = lg (sw_store w) s b"
  by (simp add: logs_of_def)

text \<open>Steps of the outside world keep the store and the checkpoints.\<close>

definition outer_step :: "('s, 'c, 'h, 'x) session_world \<Rightarrow> ('s, 'c, 'h, 'x) session_world \<Rightarrow> bool" where
  "outer_step w w' \<longleftrightarrow> sw_store w' = sw_store w \<and> sw_checkpoint w' = sw_checkpoint w"

lemma outer_step_refl [simp]: "outer_step w w"
  by (simp add: outer_step_def)

lemma outer_stepD: "outer_step w w' \<Longrightarrow> sw_store w' = sw_store w"
  "outer_step w w' \<Longrightarrow> sw_checkpoint w' = sw_checkpoint w"
  "outer_step w w' \<Longrightarrow> logs_of lg w' = logs_of lg w"
  by (auto simp: outer_step_def logs_of_def)

lemma outer_step_trans: "outer_step w w' \<Longrightarrow> outer_step w' w'' \<Longrightarrow> outer_step w w''"
  by (simp add: outer_step_def)

lemma outer_step_updates [simp]:
  "outer_step w (w\<lparr>sw_outer := x\<rparr>)" "outer_step w (w\<lparr>sw_pending := p\<rparr>)"
  "outer_step w (w\<lparr>sw_session_memories := q\<rparr>)"
  by (simp_all add: outer_step_def)

definition outer_eff :: "(('s, 'c, 'h, 'x) session_world, 'e, 'a) eff \<Rightarrow> bool" where
  "outer_eff f \<longleftrightarrow> (\<forall>w r w'. f w = Some (r, w') \<longrightarrow> outer_step w w')"

lemma outer_effD: "outer_eff f \<Longrightarrow> f w = Some (r, w') \<Longrightarrow> outer_step w w'"
  by (auto simp: outer_eff_def)

lemma outer_eff_on_outer [simp]: "outer_eff (on_outer f)"
  by (auto simp: outer_eff_def on_outer_def outer_step_def)

lemma outer_eff_map_err [simp]: "outer_eff f \<Longrightarrow> outer_eff (eff_map_err g f)"
  by (auto simp: outer_eff_def eff_map_err_def)

lemma outer_eff_ok [simp]: "outer_eff (ok x)"
  by (simp add: outer_eff_def)

lemma outer_eff_bind: "outer_eff f \<Longrightarrow> (\<And>x. outer_eff (g x)) \<Longrightarrow> outer_eff (eff_bind f g)"
  unfolding outer_eff_def eff_bind_def
  by (fastforce split: option.splits sum.splits intro: outer_step_trans)

lemma outer_eff_lift_result [simp]: "outer_eff (lift_result r)"
  by (simp add: outer_eff_def lift_result_apply)

lemma utc_now_eq [simp]:
  "utc_now E w = Some (Inr (fst (env_utc_now E (sw_outer w))),
     w\<lparr>sw_outer := snd (env_utc_now E (sw_outer w))\<rparr>)"
  by (simp add: utc_now_def on_outer_def reading_def split: prod.split)

lemma outer_eff_session_memory: "outer_eff (session_memory m s)"
  by (auto simp: outer_eff_def session_memory_def outer_step_def split: option.splits prod.splits)

lemma session_memory_returns: "\<exists>mem w1. session_memory m s w = Some (Inr mem, w1)"
  by (cases "mgr_memory_factory m"; cases "map_of (sw_session_memories w) s")
     (auto simp: session_memory_def Let_def split: prod.split)

lemma outer_eff_save_memory: "outer_eff (chat_save_memory E m s mem user content)"
  unfolding outer_eff_def chat_save_memory_def
  using outer_effD [OF outer_eff_map_err [OF outer_eff_on_outer]]
  by (fastforce split: option.splits if_splits)

lemma eff_map_err_Inl: "eff_map_err g f w = Some (Inl e, w') \<Longrightarrow> \<exists>t. e = g t"
  by (auto simp: eff_map_err_def map_sum_eq_Inl)


lemma save_memory_Inl:
  assumes "chat_save_memory E m s mem user content w = Some (Inl e, w')"
  shows "\<exists>t. e = Memory t"
proof (cases mem)
  case (Some h)
  let ?save = "eff_map_err (\<lambda>e. Memory (''failed to save memory: '' @ show_memory_error e))
    (on_outer (save_context (env_memory E) h [(mgr_input_key m, user)] [(mgr_output_key m, content)]))"
  have "?save w = Some (Inl e, w')"
    using assms by (simp add: chat_save_memory_def Some split: if_splits)
  from eff_map_err_Inl [OF this] show ?thesis by blast
qed (use assms in \<open>simp add: chat_save_memory_def\<close>)

text \<open>The two events of a chat turn, and the log after a chat under a compaction policy.\<close>

definition turn_pair ::
  "int \<Rightarrow> int \<Rightarrow> string \<Rightarrow> string \<Rightarrow> string \<Rightarrow> string \<Rightarrow> session_event list \<Rightarrow> session_event list" where
  "turn_pair t1 t2 s b user content es =
     (let n = length (filter is_user_message es) in
      [event_now t1 (log_end es + 1) s n b (UserMessage user),
       event_now t2 (log_end es + 2) s n b (AssistantMessage content)])"

definition policy_compacted ::
  "int \<Rightarrow> auto_compaction option \<Rightarrow> session_event list \<Rightarrow> session_event list" where
  "policy_compacted t policy es = (case policy of
      None \<Rightarrow> es | Some p \<Rightarrow> compacted t (ac_max_turns p) es)"

definition tool_pair ::
  "int \<Rightarrow> int \<Rightarrow> string \<Rightarrow> string \<Rightarrow> string \<Rightarrow> json \<Rightarrow> string \<Rightarrow> string \<Rightarrow> session_event list
   \<Rightarrow> session_event list" where
  "tool_pair t1 t2 s b tname input call_id observation es =
     (let n = length (filter is_user_message es) in
      [event_now t1 (log_end es + 1) s n b (ToolCall tname input call_id),
       event_now t2 (log_end es + 2) s n b (ToolResult call_id observation)])"

text \<open>The two halves of a chat: up to the answer and its memory save, and the turn's persistence.\<close>

definition chat_answer ::
  "('h, 'x) session_env \<Rightarrow> ('s, 'c, 'h, 'x) session_manager \<Rightarrow> string \<Rightarrow> 'x chat_model \<Rightarrow> string
   \<Rightarrow> (('s, 'c, 'h, 'x) session_world, session_error, string) eff" where
  "chat_answer E m s llm user =
     eff_bind (session_memory m s) (\<lambda>mem.
     eff_bind (chat_context E m s mem user) (\<lambda>messages.
     eff_bind (eff_map_err Llm (on_outer (llm messages))) (\<lambda>content.
     eff_bind (chat_save_memory E m s mem user content) (\<lambda>_. ok content))))"

definition chat_commit ::
  "('h, 'x) session_env \<Rightarrow> ('s, 'c, 'h, 'x) session_manager \<Rightarrow> string \<Rightarrow> nat \<Rightarrow> string \<Rightarrow> string
   \<Rightarrow> (('s, 'c, 'h, 'x) session_world, session_error, string) eff" where
  "chat_commit E m s turn user content =
     eff_bind (chat_persist E m s turn user content) (\<lambda>_.
     eff_bind (case mgr_auto_compaction m of
         None \<Rightarrow> ok False
       | Some policy \<Rightarrow> compact_and_prune E m s (ac_max_turns policy)) (\<lambda>_.
     ok content))"

lemma chat_eq:
  "chat E m s llm user = eff_bind (turn_count m s) (\<lambda>(nid, turn).
     if nid = 1 then err (SessionNotFound s)
     else eff_bind (chat_answer E m s llm user) (chat_commit E m s turn user))"
  unfolding chat_def chat_answer_def chat_commit_def [abs_def] eff_bind_assoc eff_bind_ok ..

definition outside_returns :: "('h, 'x) session_env \<Rightarrow> 'x chat_model \<Rightarrow> bool" where
  "outside_returns E llm \<longleftrightarrow> (\<forall>msgs x. llm msgs x \<noteq> None)
     \<and> (\<forall>h inp x. load_memory_variables (env_memory E) h inp x \<noteq> None)
     \<and> (\<forall>h inp out x. save_context (env_memory E) h inp out x \<noteq> None)"

lemma returns_on_outer: "(\<And>x. f x \<noteq> None) \<Longrightarrow> eff_map_err g (on_outer f) w \<noteq> None"
  by (simp add: eff_map_err_def on_outer_def)

lemma save_memory_returns: "outside_returns E llm \<Longrightarrow> chat_save_memory E m s mem user content w \<noteq> None"
  using returns_on_outer [of "save_context (env_memory E) (the mem) [(mgr_input_key m, user)]
      [(mgr_output_key m, content)]" "\<lambda>e. Memory (''failed to save memory: '' @ show_memory_error e)" w]
  by (cases mem) (auto simp: chat_save_memory_def outside_returns_def)

lemma last_n_turns_messages_Inr: "es \<noteq> [] \<Longrightarrow> \<exists>msgs. last_n_turns_messages es n = Inr msgs"
  by (simp add: last_n_turns_messages_def project_eq Let_def)

section \<open>Operations over a store that keeps its contract\<close>

context event_log
begin

abbreviation ready :: "('w, 'c, 'h, 'x) session_manager \<Rightarrow> ('w, 'c, 'h, 'x) session_world \<Rightarrow> bool" where
  "ready m w \<equiv> mgr_store m = store \<and> wf (sw_store w)"

abbreviation log_at :: "('w, 'c, 'h, 'x) session_manager \<Rightarrow> string \<Rightarrow> ('w, 'c, 'h, 'x) session_world
    \<Rightarrow> session_event list" where
  "log_at m s w \<equiv> log (sw_store w) s (mgr_branch m)"

text \<open>The world after the log of one branch was set, everything else of the store kept.\<close>

definition log_set :: "string \<Rightarrow> string \<Rightarrow> session_event list \<Rightarrow> ('w, 'c, 'h, 'x) session_world
    \<Rightarrow> ('w, 'c, 'h, 'x) session_world \<Rightarrow> bool" where
  "log_set s b es w w' \<longleftrightarrow> wf (sw_store w') \<and> sw_checkpoint w' = sw_checkpoint w
     \<and> logs_of log w' = (logs_of log w)((s, b) := es)"

lemma log_setD:
  assumes "log_set s b es w w'"
  shows "wf (sw_store w')" and "log (sw_store w') s b = es" and "sw_checkpoint w' = sw_checkpoint w"
    and "logs_of log w' = (logs_of log w)((s, b) := es)"
  using assms by (auto simp: log_set_def fun_eq_iff)

lemma log_set_trans: "log_set s b es w w' \<Longrightarrow> log_set s b es' w' w'' \<Longrightarrow> log_set s b es' w w''"
  by (simp add: log_set_def)

lemma log_set_outer: "log_set s b es w w' \<Longrightarrow> outer_step w' w'' \<Longrightarrow> log_set s b es w w''"
  by (simp add: log_set_def outer_stepD)

lemma outer_log_set: "outer_step w w' \<Longrightarrow> log_set s b es w' w'' \<Longrightarrow> log_set s b es w w''"
  by (simp add: log_set_def outer_stepD)

lemma log_set_refl: "wf (sw_store w) \<Longrightarrow> log_set s b (log (sw_store w) s b) w w"
  by (auto simp: log_set_def)

lemma read_log_eq: "ready m w \<Longrightarrow> read_log m s w = Some (Inr (log_at m s w), w)"
  by (simp add: read_log_def on_store_def read_None)

lemma next_id_eq: "ready m w \<Longrightarrow> next_id m s w = Some (Inr (log_end (log_at m s w) + 1), w)"
  by (simp add: next_id_def eff_bind_def on_store_def latest_id)

lemma read_existing_eq:
  "ready m w \<Longrightarrow> read_existing m s w =
     (if log_at m s w = [] then Some (Inl (SessionNotFound s), w) else Some (Inr (log_at m s w), w))"
  by (simp add: read_existing_def eff_bind_def read_log_eq)

lemma log_positive: "wf w \<Longrightarrow> log w s b \<noteq> [] \<Longrightarrow> 0 < log_end (log w s b)"
  using log_ok [of w s b] by (auto simp: branch_ok_def log_end_def)

lemma turn_count_eq:
  "ready m w \<Longrightarrow> turn_count m s w =
     Some (Inr (log_end (log_at m s w) + 1, length (filter is_user_message (log_at m s w))), w)"
  by (simp add: turn_count_def eff_bind_def read_log_eq following_id_def log_end_def)

lemma store_append:
  assumes "wf (sw_store w)" and "log_end (log (sw_store w) (ev_session_id e) (ev_branch e)) < ev_id e"
  shows "\<exists>w'. on_store (st_append store e) w = Some (Inr (), w')
    \<and> log_set (ev_session_id e) (ev_branch e)
        (log (sw_store w) (ev_session_id e) (ev_branch e) @ [e]) w w'"
  using append [OF assms] by (auto simp: on_store_def log_set_def logs_of_def fun_eq_iff)

lemma mgr_append_law:
  assumes "ready m w"
  shows "\<exists>t w'. mgr_append E m s n p w = Some (Inr (log_end (log_at m s w) + 1), w')
    \<and> log_set s (mgr_branch m) (log_at m s w
        @ [event_now t (log_end (log_at m s w) + 1) s n (mgr_branch m) p]) w w'"
proof -
  define t where "t = fst (env_utc_now E (sw_outer w))"
  define w1 where "w1 = w\<lparr>sw_outer := snd (env_utc_now E (sw_outer w))\<rparr>"
  define e where "e = event_now t (log_end (log_at m s w) + 1) s n (mgr_branch m) p"
  have e: "ev_session_id e = s" "ev_branch e = mgr_branch m" "ev_id e = log_end (log_at m s w) + 1"
    by (simp_all add: e_def event_now_def)
  have w1: "outer_step w w1" by (simp add: w1_def)
  obtain w' where "on_store (st_append store e) w1 = Some (Inr (), w')"
    and "log_set s (mgr_branch m) (log_at m s w @ [e]) w1 w'"
    using store_append [of w1 e] assms e outer_stepD(1) [OF w1] by auto
  then show ?thesis
    using assms outer_log_set [OF w1]
    by (auto simp: mgr_append_def eff_bind_def next_id_eq e_def t_def w1_def
        intro!: exI [of _ "fst (env_utc_now E (sw_outer w))"] exI [of _ w'])
qed

lemma store_delete_before:
  assumes "wf (sw_store w)"
  shows "\<exists>w'. on_store (st_delete_before store s b i) w = Some (Inr (), w')
    \<and> log_set s b (filter (\<lambda>e. \<not> ev_id e < i) (log (sw_store w) s b)) w w'"
  using delete_before [OF assms, of s b i] by (force simp: on_store_def log_set_def logs_of_def fun_eq_iff)

text \<open>Compaction sets the log to its compacted form.\<close>

lemma compact_and_prune_law:
  assumes ready: "ready m w" and ne: "log_at m s w \<noteq> []"
  shows "\<exists>t w'. compact_and_prune E m s k w = Some (Inr (k < length (project_turns (log_at m s w))), w')
    \<and> log_set s (mgr_branch m) (compacted t k (log_at m s w)) w w'"
proof (cases "length (project_turns (log_at m s w)) \<le> k")
  case True
  with assms log_set_refl [of w] show ?thesis
    by (auto simp: compact_and_prune_def eff_bind_def read_log_eq following_id_def
        compact_to_snapshot_eq compacted_def)
next
  case False
  let ?es = "log_at m s w" and ?b = "mgr_branch m"
  define t where "t = fst (env_utc_now E (sw_outer w))"
  define w1 where "w1 = w\<lparr>sw_outer := snd (env_utc_now E (sw_outer w))\<rparr>"
  define e where "e = snapshot_event t k ?es"
  let ?d = "length (project_turns ?es) - k"
  have ok: "branch_ok s ?b ?es" using log_ok ready by simp
  have e: "ev_session_id e = s" "ev_branch e = ?b" "ev_id e = Suc (log_end ?es)"
    using ok ne by (auto simp: e_def snapshot_event_def event_now_def Let_def branch_ok_def log_end_def)
  have w1: "outer_step w w1" by (simp add: w1_def)
  obtain w2 where w2: "on_store (st_append store e) w1 = Some (Inr (), w2)"
    and set2: "log_set s ?b (?es @ [e]) w1 w2"
    using store_append [of w1 e] ready e outer_stepD(1) [OF w1] by auto
  have snap: "compact_to_snapshot (utc_now E) (following_id ?es) ?es k w = Some (Inr (Some e), w1)"
    using ne False by (simp add: following_id_def compact_to_snapshot_eq eff_bind_def t_def w1_def e_def)
  show ?thesis
  proof (cases "k = 0")
    case True
    with False have "compacted t k ?es = ?es @ [e]" by (simp add: compacted_def Let_def e_def)
    then show ?thesis
      using ready ne False True snap w2 outer_log_set [OF w1 set2]
      by (auto simp: compact_and_prune_def eff_bind_def read_log_eq compaction_prune_boundary_eq
          intro!: exI [of _ t])
  next
    case nz: False
    define i where "i = ev_id (hd (turn_events (project_turns ?es ! ?d)))"
    have "filter (\<lambda>x. \<not> ev_id x < i) ?es = suffix_from_turn ?d ?es"
      unfolding i_def using ok False nz by (intro filter_suffix_from_turn) (auto simp: branch_ok_def)
    moreover have "\<not> ev_id e < i"
    proof -
      have "hd (suffix_from_turn ?d ?es) \<in> set ?es"
        using hd_suffix_from_turn [of ?d ?es] set_suffix_from_turn [of ?d ?es] False nz
          hd_in_set [of "suffix_from_turn ?d ?es"] by fastforce
      then show ?thesis
        using hd_suffix_from_turn [of ?d ?es] branch_ok_log_end [OF ok] False nz e(3)
        by (fastforce simp: i_def)
    qed
    ultimately have keep: "filter (\<lambda>x. \<not> ev_id x < i) (?es @ [e]) = compacted t k ?es"
      using False nz by (simp add: compacted_def Let_def e_def)
    obtain w3 where "on_store (st_delete_before store s ?b i) w2 = Some (Inr (), w3)"
      and "log_set s ?b (compacted t k ?es) w2 w3"
      using store_delete_before [OF log_setD(1) [OF set2], of s ?b i] log_setD(2) [OF set2] keep by auto
    then show ?thesis
      using ready ne False nz snap w2 outer_log_set [OF w1 log_set_trans [OF set2]]
      by (auto simp: compact_and_prune_def eff_bind_def read_log_eq compaction_prune_boundary_eq i_def
          intro!: exI [of _ t])
  qed
qed


text \<open>Chatting.\<close>

lemma chat_context_None:
  assumes "ready m w" and "log_at m s w \<noteq> []"
  shows "\<exists>msgs. chat_context E m s None user w = Some (Inr msgs, w)"
proof (cases "mgr_max_context_turns m")
  case None
  with assms show ?thesis by (simp add: chat_context_def eff_bind_def read_log_eq project_eq)
next
  case (Some n)
  with assms last_n_turns_messages_Inr [OF assms(2), of n] show ?thesis
    by (auto simp: chat_context_def eff_bind_def read_log_eq project_eq)
qed

lemma chat_context_law:
  assumes "ready m w" and "log_at m s w \<noteq> []" and "chat_context E m s mem user w = Some (r, w')"
  shows "outer_step w w' \<and> (\<forall>e. r = Inl e \<longrightarrow> (\<exists>t. e = Memory t))"
proof (cases mem)
  case None
  with assms chat_context_None [OF assms(1,2), of E user] show ?thesis by auto
next
  case (Some h)
  have "outer_step w w'"
    using assms(3) unfolding chat_context_def Some option.case
    by (intro outer_effD [OF outer_eff_bind]) auto
  moreover have "\<exists>t. e = Memory t" if "r = Inl e" for e
    using assms(3) that unfolding chat_context_def Some option.case
    by (auto elim!: eff_bind_InlE dest: eff_map_err_Inl)
  ultimately show ?thesis by blast
qed

lemma chat_context_returns:
  assumes "ready m w" and "log_at m s w \<noteq> []" and "outside_returns E llm"
  shows "chat_context E m s mem user w \<noteq> None"
proof (cases mem)
  case None
  with assms chat_context_None [OF assms(1,2), of E user] show ?thesis by auto
next
  case (Some h)
  let ?f = "eff_map_err (\<lambda>e. Memory (''failed to load memory: '' @ show_memory_error e))
             (on_outer (load_memory_variables (env_memory E) h [(mgr_input_key m, user)]))"
  have "?f w \<noteq> None"
    using assms(3) by (intro returns_on_outer) (simp add: outside_returns_def)
  then show ?thesis
    by (auto simp: chat_context_def Some eff_bind_def split: option.splits sum.splits)
qed

lemma chat_persist_law:
  assumes "ready m w"
  shows "\<exists>t1 t2 w'. chat_persist E m s (length (filter is_user_message (log_at m s w))) user content w
      = Some (Inr (), w')
    \<and> log_set s (mgr_branch m)
        (log_at m s w @ turn_pair t1 t2 s (mgr_branch m) user content (log_at m s w)) w w'"
proof -
  let ?es = "log_at m s w" and ?b = "mgr_branch m"
  define t1 where "t1 = fst (env_utc_now E (sw_outer w))"
  define w1 where "w1 = w\<lparr>sw_outer := snd (env_utc_now E (sw_outer w))\<rparr>"
  define t2 where "t2 = fst (env_utc_now E (sw_outer w1))"
  define w2 where "w2 = w1\<lparr>sw_outer := snd (env_utc_now E (sw_outer w1))\<rparr>"
  define pair where "pair = turn_pair t1 t2 s ?b user content ?es"
  have w2: "outer_step w w2" by (simp add: w1_def w2_def outer_step_def)
  have ok: "branch_ok s ?b ?es" using log_ok assms by simp
  have "branch_ok s ?b (?es @ pair)"
    using ok branch_ok_log_end [OF ok]
    by (fastforce simp: pair_def turn_pair_def Let_def event_now_def branch_ok_def sorted_wrt_append)
  then obtain st where st: "st_append_batch store pair (sw_store w2) = Some (Inr (), st)"
    and wf: "wf st" and lg: "log st s ?b = ?es @ pair"
    and other: "\<forall>s' b'. (s', b') \<noteq> (s, ?b) \<longrightarrow> log st s' b' = log (sw_store w2) s' b'"
    using append_batch [of "sw_store w2" s ?b pair] assms outer_stepD(1) [OF w2] by auto
  have "log_set s ?b (?es @ pair) w (w2\<lparr>sw_store := st, sw_pending := smap_remove s (sw_pending w2)\<rparr>)"
    using wf lg other w2 by (auto simp: log_set_def outer_step_def logs_of_def fun_eq_iff)
  moreover have "chat_persist E m s (length (filter is_user_message ?es)) user content w
      = Some (Inr (), w2\<lparr>sw_store := st, sw_pending := smap_remove s (sw_pending w2)\<rparr>)"
    using assms st
    by (simp add: chat_persist_def eff_bind_def next_id_eq eff_catch_def on_store_def modify_def
        t1_def t2_def w1_def w2_def pair_def turn_pair_def Let_def)
  ultimately show ?thesis unfolding pair_def by blast
qed

lemma chat_answer_law:
  assumes "ready m w" and "log_at m s w \<noteq> []" and "chat_answer E m s llm user w = Some (r, w')"
  shows "outer_step w w' \<and> (\<forall>e. r = Inl e \<longrightarrow> (\<exists>t. e = Llm t \<or> e = Memory t))"
proof -
  let ?save = "\<lambda>mem content. eff_bind (chat_save_memory E m s mem user content) (\<lambda>_. ok content)"
  let ?ask = "\<lambda>mem messages. eff_bind (eff_map_err Llm (on_outer (llm messages))) (?save mem)"
  have save: "outer_step w1 w' \<and> (\<forall>e. r = Inl e \<longrightarrow> (\<exists>t. e = Llm t \<or> e = Memory t))"
    if "?save mem content w1 = Some (r, w')" for mem content w1 and r :: "session_error + string"
    using that outer_effD [OF outer_eff_save_memory, of E m s mem user content w1]
      save_memory_Inl [of E m s mem user content w1 _ w']
    by (fastforce simp: eff_bind_def split: option.splits sum.splits)
  have ask: "outer_step w1 w' \<and> (\<forall>e. r = Inl e \<longrightarrow> (\<exists>t. e = Llm t \<or> e = Memory t))"
    if "?ask mem messages w1 = Some (r, w')" for mem messages w1
  proof (cases "eff_map_err Llm (on_outer (llm messages)) w1")
    case (Some p)
    obtain q w2 where p: "p = (q, w2)" by (cases p)
    with Some have w2: "outer_step w1 w2"
      using outer_effD [OF outer_eff_map_err [OF outer_eff_on_outer]] by blast
    show ?thesis
    proof (cases q)
      case (Inl e)
      with that Some p w2 eff_map_err_Inl [of Llm "on_outer (llm messages)" w1 e w2] show ?thesis
        by (auto simp: eff_bind_def)
    next
      case (Inr content)
      with that Some p save [of mem content w2 r] outer_step_trans [OF w2] show ?thesis
        by (auto simp: eff_bind_Some)
    qed
  qed (use that in \<open>simp add: eff_bind_None\<close>)
  obtain mem w1 where mem: "session_memory m s w = Some (Inr mem, w1)"
    using session_memory_returns by blast
  have w1: "outer_step w w1" by (rule outer_effD [OF outer_eff_session_memory mem])
  have eqs: "ready m w1" "log_at m s w1 \<noteq> []" using outer_stepD(1) [OF w1] assms(1,2) by simp_all
  have run: "eff_bind (chat_context E m s mem user) (?ask mem) w1 = Some (r, w')"
    using assms(3) unfolding chat_answer_def by (simp add: eff_bind_Some [of "session_memory m s", OF mem])
  show ?thesis
  proof (cases "chat_context E m s mem user w1")
    case (Some p)
    obtain q w2 where p: "p = (q, w2)" by (cases p)
    note ctx = chat_context_law [OF eqs, of E mem user q w2, unfolded Some p]
    have w2: "outer_step w w2" using ctx outer_step_trans [OF w1] by blast
    show ?thesis
    proof (cases q)
      case (Inl e)
      with run Some p w2 ctx show ?thesis by (auto simp: eff_bind_def)
    next
      case (Inr messages)
      with run Some p ask [of messages mem w2] outer_step_trans [OF w2] show ?thesis
        by (auto simp: eff_bind_Some)
    qed
  qed (use run in \<open>simp add: eff_bind_None\<close>)
qed

lemma chat_commit_law:
  assumes "ready m w" and "log_at m s w \<noteq> []"
  shows "\<exists>t1 t2 t3 w'. chat_commit E m s (length (filter is_user_message (log_at m s w))) user content w
      = Some (Inr content, w')
    \<and> log_set s (mgr_branch m) (policy_compacted t3 (mgr_auto_compaction m)
        (log_at m s w @ turn_pair t1 t2 s (mgr_branch m) user content (log_at m s w))) w w'"
proof -
  let ?es = "log_at m s w" and ?b = "mgr_branch m"
  obtain t1 t2 w2 where per: "chat_persist E m s (length (filter is_user_message ?es)) user content w
      = Some (Inr (), w2)"
    and set2: "log_set s ?b (?es @ turn_pair t1 t2 s ?b user content ?es) w w2"
    using chat_persist_law [OF assms(1), of E s user content] by blast
  let ?es2 = "?es @ turn_pair t1 t2 s ?b user content ?es"
  have es2: "log_at m s w2 = ?es2" "ready m w2" using log_setD(1,2) [OF set2] assms by simp_all
  have ne2: "log_at m s w2 \<noteq> []" using assms(2) es2(1) by simp
  show ?thesis
  proof (cases "mgr_auto_compaction m")
    case None
    then show ?thesis using per set2 by (auto simp: chat_commit_def eff_bind_def policy_compacted_def)
  next
    case (Some policy)
    obtain t3 w3 where "compact_and_prune E m s (ac_max_turns policy) w2
        = Some (Inr (ac_max_turns policy < length (project_turns ?es2)), w3)"
      and set3: "log_set s ?b (compacted t3 (ac_max_turns policy) ?es2) w2 w3"
      using compact_and_prune_law [OF es2(2) ne2, of E "ac_max_turns policy"] unfolding es2(1) by blast
    then show ?thesis
      using per Some log_set_trans [OF set2 set3]
      by (auto simp: chat_commit_def eff_bind_def policy_compacted_def)
  qed
qed

lemma chat_law:
  assumes ready: "ready m w" and run: "chat E m s llm user w = Some (r, w')"
  shows "case r of
      Inl e \<Rightarrow> outer_step w w'
        \<and> (if log_at m s w = [] then e = SessionNotFound s else \<exists>t. e = Llm t \<or> e = Memory t)
    | Inr c \<Rightarrow> log_at m s w \<noteq> [] \<and> (\<exists>t1 t2 t3. log_set s (mgr_branch m)
        (policy_compacted t3 (mgr_auto_compaction m)
          (log_at m s w @ turn_pair t1 t2 s (mgr_branch m) user c (log_at m s w))) w w')"
proof (cases "log_at m s w = []")
  case True
  with assms show ?thesis
    by (auto simp: chat_def eff_bind_def turn_count_eq log_end_def)
next
  case False
  let ?n = "length (filter is_user_message (log_at m s w))"
  have "log_end (log_at m s w) \<noteq> 0"
    using log_positive [of "sw_store w" s "mgr_branch m"] ready False by simp
  then have run': "eff_bind (chat_answer E m s llm user) (chat_commit E m s ?n user) w = Some (r, w')"
    using run ready unfolding chat_eq by (simp add: eff_bind_Some [OF turn_count_eq])
  then obtain q w1 where q: "chat_answer E m s llm user w = Some (q, w1)"
    by (cases "chat_answer E m s llm user w") (auto simp: eff_bind_None)
  note answer = chat_answer_law [OF ready False q]
  show ?thesis
  proof (cases q)
    case (Inl e)
    with run' q answer False show ?thesis by (auto simp: eff_bind_Err)
  next
    case (Inr content)
    have eqs: "log_at m s w1 = log_at m s w" "ready m w1"
      using answer outer_stepD(1) ready by metis+
    from chat_commit_law [OF eqs(2), of s E user content] False
    obtain t1 t2 t3 w2 where
      commit: "chat_commit E m s ?n user content w1 = Some (Inr content, w2)"
      and set2: "log_set s (mgr_branch m) (policy_compacted t3 (mgr_auto_compaction m)
        (log_at m s w @ turn_pair t1 t2 s (mgr_branch m) user content (log_at m s w))) w1 w2"
      unfolding eqs(1) by blast
    have "r = Inr content" "w' = w2"
      using run' q Inr commit by (simp_all add: eff_bind_Some)
    with outer_log_set [OF conjunct1 [OF answer] set2] False show ?thesis by auto
  qed
qed


lemma chat_returns:
  assumes ready: "ready m w" and out: "outside_returns E llm"
  shows "chat E m s llm user w \<noteq> None"
proof (cases "log_at m s w = []")
  case True
  with ready show ?thesis by (simp add: chat_def eff_bind_def turn_count_eq log_end_def)
next
  case False
  let ?n = "length (filter is_user_message (log_at m s w))"
  have nz: "log_end (log_at m s w) \<noteq> 0"
    using log_positive [of "sw_store w" s "mgr_branch m"] ready False by simp
  have "chat_answer E m s llm user w \<noteq> None"
    unfolding chat_answer_def
  proof (rule eff_bind_returns)
    show "session_memory m s w \<noteq> None" using session_memory_returns [of m s w] by auto
    fix mem w1
    assume "session_memory m s w = Some (Inr mem, w1)"
    then have "outer_step w w1" by (rule outer_effD [OF outer_eff_session_memory])
    then have eqs: "ready m w1" "log_at m s w1 \<noteq> []" using outer_stepD(1) ready False by metis+
    show "eff_bind (chat_context E m s mem user) (\<lambda>messages.
        eff_bind (eff_map_err Llm (on_outer (llm messages))) (\<lambda>content.
        eff_bind (chat_save_memory E m s mem user content) (\<lambda>_. ok content))) w1 \<noteq> None"
      using out
      by (intro eff_bind_returns chat_context_returns [OF eqs out] returns_on_outer save_memory_returns)
         (auto simp: outside_returns_def)
  qed
  moreover have "chat_commit E m s ?n user content w1 \<noteq> None"
    if "chat_answer E m s llm user w = Some (Inr content, w1)" for content w1
  proof -
    have "outer_step w w1" using chat_answer_law [OF ready False that] by blast
    then have "log_at m s w1 = log_at m s w" "ready m w1" using outer_stepD(1) ready by metis+
    with chat_commit_law [of m w1 s E user content] False show ?thesis by auto
  qed
  ultimately have "eff_bind (chat_answer E m s llm user) (chat_commit E m s ?n user) w \<noteq> None"
    by (rule eff_bind_returns)
  then show ?thesis
    using nz ready unfolding chat_eq by (simp add: eff_bind_Some [OF turn_count_eq])
qed

text \<open>The other operations.\<close>

lemma record_tool_use_law:
  assumes ready: "ready m w"
  shows "\<exists>w'. record_tool_use E m s tname input call_id observation w =
      Some (if log_at m s w = [] then Inl (SessionNotFound s) else Inr (), w')
    \<and> (if log_at m s w = [] then w' = w
       else \<exists>t1 t2. log_set s (mgr_branch m)
         (log_at m s w @ tool_pair t1 t2 s (mgr_branch m) tname input call_id observation (log_at m s w)) w w')"
proof (cases "log_at m s w = []")
  case True
  with ready show ?thesis by (simp add: record_tool_use_def eff_bind_def turn_count_eq log_end_def)
next
  case False
  let ?es = "log_at m s w" and ?b = "mgr_branch m"
  let ?n = "length (filter is_user_message ?es)"
  have nz: "log_end ?es \<noteq> 0" using log_positive [of "sw_store w" s ?b] ready False by simp
  obtain t1 w1 where w1: "mgr_append E m s ?n (ToolCall tname input call_id) w = Some (Inr (log_end ?es + 1), w1)"
    and set1: "log_set s ?b (?es @ [event_now t1 (log_end ?es + 1) s ?n ?b (ToolCall tname input call_id)]) w w1"
    using mgr_append_law [OF ready] by blast
  note es1 = log_setD(2) [OF set1]
  have ready1: "ready m w1" using ready log_setD(1) [OF set1] by simp
  have end1: "log_end (log_at m s w1) = log_end ?es + 1"
    by (simp add: es1 log_end_def [of "_ @ [_]"] event_now_def)
  obtain t2 w2 where w2: "mgr_append E m s ?n (ToolResult call_id observation) w1
      = Some (Inr (log_end ?es + 2), w2)"
    and set2: "log_set s ?b (log_at m s w1
        @ [event_now t2 (log_end ?es + 2) s ?n ?b (ToolResult call_id observation)]) w1 w2"
    using mgr_append_law [OF ready1, of E s ?n "ToolResult call_id observation"] unfolding end1 by auto
  have "record_tool_use E m s tname input call_id observation w = Some (Inr (), w2)"
    using nz ready w1 w2 by (simp add: record_tool_use_def eff_bind_def turn_count_eq)
  moreover have "log_set s ?b (?es @ tool_pair t1 t2 s ?b tname input call_id observation ?es) w w2"
    using log_set_trans [OF set1 set2] unfolding es1 by (simp add: tool_pair_def Let_def)
  ultimately show ?thesis using False by auto
qed

lemma gc_law:
  assumes ready: "ready m w" and run: "gc E m s w = Some (r, w')"
  shows "outer_step w w' \<or> log_at m s w \<noteq> [] \<and> (\<exists>t k. log_set s (mgr_branch m) (compacted t k (log_at m s w)) w w')"
proof (cases "mgr_auto_compaction m = None \<or> log_at m s w = []")
  case True
  with assms show ?thesis by (auto simp: gc_def eff_bind_def read_existing_eq split: option.splits)
next
  case False
  then obtain policy where p: "mgr_auto_compaction m = Some policy" and ne: "log_at m s w \<noteq> []" by auto
  have "\<exists>k w1. outer_step w w1 \<and> compact_and_prune E m s k w1 = Some (r, w')"
  proof (cases "ac_max_age policy")
    case None
    with run ready p ne have "compact_and_prune E m s (ac_max_turns policy) w = Some (r, w')"
      by (simp add: gc_def eff_bind_def read_existing_eq)
    then show ?thesis using outer_step_refl by blast
  next
    case (Some age)
    let ?w1 = "w\<lparr>sw_outer := snd (env_utc_now E (sw_outer w))\<rparr>"
    have "\<exists>k. compact_and_prune E m s k ?w1 = Some (r, w')"
      using run ready p ne Some by (auto simp: gc_def eff_bind_def read_existing_eq project_eq)
    then show ?thesis by (metis outer_step_updates(1))
  qed
  then obtain k w1 where w1: "outer_step w w1" and go: "compact_and_prune E m s k w1 = Some (r, w')"
    by blast
  have eqs: "ready m w1" "log_at m s w1 = log_at m s w" using outer_stepD(1) [OF w1] ready by simp_all
  with compact_and_prune_law [OF eqs(1), of s E k] ne go outer_log_set [OF w1] show ?thesis
    by fastforce
qed

lemma create_session_law:
  assumes "ready m w"
  shows "\<exists>t w'. create_session E m w = Some (Inr (fst (env_now_v7 E (sw_outer w))), w')
    \<and> (let s = fst (env_now_v7 E (sw_outer w)) in
       log_set s (mgr_branch m) (log_at m s w @ [event_now t (log_end (log_at m s w) + 1) s 0 (mgr_branch m)
         (Metadata ''created'' (JObject []))]) w w')"
proof -
  define s where "s = fst (env_now_v7 E (sw_outer w))"
  define w1 where "w1 = w\<lparr>sw_outer := snd (env_now_v7 E (sw_outer w))\<rparr>"
  have w1: "outer_step w w1" by (simp add: w1_def)
  have uuid: "on_outer (reading (env_now_v7 E)) w = Some (Inr s :: session_error + string, w1)"
    by (simp add: on_outer_def reading_def s_def w1_def split: prod.split)
  have eqs: "ready m w1" "log_at m s w1 = log_at m s w" using outer_stepD(1) [OF w1] assms by simp_all
  obtain t w' where a: "mgr_append E m s 0 (Metadata ''created'' (JObject [])) w1
      = Some (Inr (log_end (log_at m s w) + 1), w')"
    and set': "log_set s (mgr_branch m) (log_at m s w @ [event_now t (log_end (log_at m s w) + 1) s 0
         (mgr_branch m) (Metadata ''created'' (JObject []))]) w1 w'"
    using mgr_append_law [OF eqs(1), of E s 0 "Metadata ''created'' (JObject [])"] unfolding eqs(2) by blast
  have "create_session E m w = Some (Inr s, w')"
    unfolding create_session_def using uuid a by (simp add: eff_bind_def)
  with outer_log_set [OF w1 set'] show ?thesis by (auto simp: s_def Let_def)
qed

lemma delete_session_law:
  assumes ready: "ready m w" and run: "delete_session m s w = Some (r, w')"
  shows "wf (sw_store w') \<and> logs_of log w' = (\<lambda>(s', b). if s' = s then [] else log (sw_store w) s' b)
    \<and> (case mgr_checkpoint m of
         None \<Rightarrow> sw_checkpoint w' = sw_checkpoint w
       | Some cp \<Rightarrow> \<exists>q. cp_remove cp s (mgr_branch m) (sw_checkpoint w) = Some (q, sw_checkpoint w'))"
proof -
  obtain st where st: "st_clear_session store s (sw_store w) = Some (Inr (), st)" and "wf st"
    and lg: "\<forall>s' b. log st s' b = (if s' = s then [] else log (sw_store w) s' b)"
    using clear_session [of "sw_store w" s] ready by blast
  have lg': "logs_of log w1 = (\<lambda>(s', b). if s' = s then [] else log (sw_store w) s' b)"
    if "sw_store w1 = st" for w1 :: "('w, 'a, 'b, 'c) session_world"
    using lg that by (auto simp: logs_of_def)
  from run ready st \<open>wf st\<close> show ?thesis
    by (auto simp: delete_session_def eff_bind_def read_log_eq on_store_def on_checkpoint_def
        release_session_cache_def modify_def lg'
        split: option.splits sum.splits if_splits)
qed

end

end
