(* ===== verification/Session_Spec.thy ===== *)
theory Session_Spec
  imports Session_Manager_Laws
begin

text \<open>
  The abstract machine the session manager implements: the log of every branch and the checkpoint
  kept for it, changed by the steps below. Its invariant: ids ascend, every tool result stands right
  behind its call in the same turn, and a stored checkpoint either is the projection of a prefix of
  the log or is older than a snapshot in the log.
\<close>

section \<open>The abstract machine\<close>

type_synonym branch_key = "string \<times> string"
type_synonym session_spec =
  "(branch_key \<Rightarrow> session_event list) \<times> (branch_key \<Rightarrow> (nat \<times> projected_session) option)"

inductive spec_step :: "session_spec \<Rightarrow> session_spec \<Rightarrow> bool" where
  created: "L (s, b) = [] \<Longrightarrow> C (s, b) = None \<Longrightarrow>
    spec_step (L, C) (L((s, b) := [event_now t 1 s 0 b (Metadata ''created'' (JObject []))]), C)"
| turn: "L (s, b) \<noteq> [] \<Longrightarrow>
    spec_step (L, C) (L((s, b) := L (s, b) @ turn_pair t1 t2 s b user content (L (s, b))), C)"
| tool_use: "L (s, b) \<noteq> [] \<Longrightarrow>
    spec_step (L, C) (L((s, b) := L (s, b) @ tool_pair t1 t2 s b tn inp cid obs (L (s, b))), C)"
| compaction: "L (s, b) \<noteq> [] \<Longrightarrow> spec_step (L, C) (L((s, b) := compacted t k (L (s, b))), C)"
| deleted: "C' = C \<or> C' = C((s, b) := None) \<Longrightarrow>
    spec_step (L, C) (\<lambda>(s', b'). if s' = s then [] else L (s', b'), C')"
| forked: "dst \<noteq> src \<Longrightarrow> L (s, dst) = [] \<Longrightarrow> C (s, dst) = None \<Longrightarrow>
    spec_step (L, C) (L((s, dst) := rebranch dst (filter (fork_keeps until) (L (s, src)))), C)"
| saved: "project (L (s, b)) = Inr p \<Longrightarrow>
    spec_step (L, C) (L, C((s, b) := Some (ps_last_id p, p)))"

text \<open>The properties of one log the invariant keeps.\<close>

fun tool_paired :: "session_event option \<Rightarrow> session_event list \<Rightarrow> bool" where
  "tool_paired prev [] = True"
| "tool_paired prev (e # es) =
     ((\<forall>c obs. ev_payload e = ToolResult c obs \<longrightarrow>
         (\<exists>p tn inp. prev = Some p \<and> ev_payload p = ToolCall tn inp c
            \<and> ev_turn_index p = ev_turn_index e))
      \<and> tool_paired (Some e) es)"

definition checkpoint_fits :: "nat \<times> projected_session \<Rightarrow> session_event list \<Rightarrow> bool" where
  "checkpoint_fits v es \<longleftrightarrow> (\<exists>pre. project pre = Inr (snd v) \<and> fst v = last_event_id pre
     \<and> ((\<exists>tail. es = pre @ tail) \<or> (\<exists>e \<in> set es. fst v < ev_id e \<and> is_snapshot (ev_payload e))))"

definition spec_inv :: "session_spec \<Rightarrow> bool" where
  "spec_inv S \<longleftrightarrow> (\<forall>s b. branch_ok s b (fst S (s, b)) \<and> tool_paired None (fst S (s, b))
     \<and> (\<forall>v. snd S (s, b) = Some v \<longrightarrow> fst S (s, b) \<noteq> [] \<longrightarrow> checkpoint_fits v (fst S (s, b))))"


section \<open>Logs under appends and cuts\<close>

lemma tool_paired_append:
  "tool_paired prev (xs @ ys) \<longleftrightarrow>
     tool_paired prev xs \<and> tool_paired (if xs = [] then prev else Some (last xs)) ys"
  by (induction xs arbitrary: prev) auto

lemma tool_paired_plain:
  "(\<And>e c obs. e \<in> set es \<Longrightarrow> ev_payload e \<noteq> ToolResult c obs) \<Longrightarrow> tool_paired prev es"
  by (induction es arbitrary: prev) auto

text \<open>Paired logs have no orphans.\<close>

lemma tool_paired_orphans: "tool_paired None es \<Longrightarrow> orphans es = 0"
proof (induction es rule: length_induct)
  case (1 es)
  show ?case
  proof (cases es rule: rev_cases)
    case Nil
    then show ?thesis by (simp add: orphans_def)
  next
    case (snoc us e)
    have us: "orphans us = 0"
      using 1 snoc by (simp add: tool_paired_append)
    show ?thesis
    proof (cases "\<exists>c obs. ev_payload e = ToolResult c obs")
      case False
      with us snoc show ?thesis by (simp add: orphans_snoc)
    next
      case True
      then obtain c obs where e: "ev_payload e = ToolResult c obs" by blast
      with 1(2) snoc obtain a tn inp where a: "us \<noteq> []" "last us = a" "ev_payload a = ToolCall tn inp c"
          "ev_turn_index a = ev_turn_index e"
        by (auto simp: tool_paired_append split: if_splits)
      define vs where "vs = butlast us"
      have us': "us = vs @ [a]" using a by (auto simp: vs_def)
      have "orphans vs = 0"
        using 1 snoc us' by (simp add: tool_paired_append)
      from orphans_call_result [OF this a(3) e a(4)] show ?thesis
        by (simp add: snoc us')
    qed
  qed
qed

lemma length_fold_project_turn:
  "length as = length bs \<Longrightarrow> last_index as = last_index bs \<Longrightarrow>
     length (fold project_turn ys as) = length (fold project_turn ys bs)"
  by (induction ys arbitrary: as bs) (auto simp: length_project_turn)

lemma fold_project_turn_append:
  "ts \<noteq> [] \<Longrightarrow> fold project_turn ys (as @ ts) = as @ fold project_turn ys ts"
proof (induction ys arbitrary: ts)
  case (Cons y ys)
  have "project_turn y ts \<noteq> []" by (auto simp: project_turn_eq merge_turn_alt)
  with Cons show ?case by (simp add: project_turn_append)
qed simp

lemma project_turns_take:
  "project_turns (concat (map turn_events (take d (project_turns es)))) = take d (project_turns es)"
proof (induction es rule: rev_induct)
  case (snoc e es)
  let ?ts = "project_turns es"
  have all: "project_turns (concat (map turn_events (project_turn e ?ts))) = project_turn e ?ts"
    by (simp add: concat_project_turn)
  show ?case
  proof (cases "d \<ge> length (project_turn e ?ts)")
    case True
    with all show ?thesis by simp
  next
    case False
    then have "take d (project_turn e ?ts) = take d ?ts"
      by (cases ?ts rule: rev_cases) (auto simp: project_turn_eq merge_turn_alt take_Cons' split: if_splits)
    with snoc show ?thesis by simp
  qed
qed simp

text \<open>A cut at a turn never separates a result from its call.\<close>

lemma hd_suffix_not_joined:
  assumes "suffix_from_turn d es = e # rest" and "0 < d" and "d < length (project_turns es)"
  shows "opens_turn (ev_payload e) \<or> last_index (take d (project_turns es)) \<noteq> Some (ev_turn_index e)"
proof (rule ccontr)
  let ?ts = "project_turns es"
  assume "\<not> ?thesis"
  then have join: "\<not> opens_turn (ev_payload e)" "last_index (take d ?ts) = Some (ev_turn_index e)" by auto
  have "?ts = fold project_turn (e # rest) (take d ?ts)"
    using split_at_turn [of es d] assms(1)
    by (metis project_turns_append project_turns_take)
  also have "length \<dots> = length (fold project_turn rest (project_turn e (take d ?ts)))" by simp
  finally have len: "length ?ts = length (fold project_turn rest (project_turn e (take d ?ts)))" .
  obtain us u where us: "take d ?ts = us @ [u]"
    using assms(2,3) by (cases "take d ?ts" rule: rev_cases) auto
  have u: "turn_index u = ev_turn_index e" using join(2) us by simp
  then have "project_turn e (take d ?ts) = us @ project_turn e [u]"
    using project_turn_append [of "[u]" e us] us by simp
  moreover have "project_turn e [u] \<noteq> []" by (auto simp: project_turn_eq merge_turn_alt)
  ultimately have "length ?ts = length us + length (fold project_turn rest (project_turn e [u]))"
    using len by (simp add: fold_project_turn_append)
  also have "length (fold project_turn rest (project_turn e [u])) = length (fold project_turn rest [single_turn e])"
    using join(1) u by (intro length_fold_project_turn) (auto simp: length_project_turn)
  also have "fold project_turn rest [single_turn e] = project_turns (e # rest)"
    by (simp add: project_turns_def project_turn_eq merge_turn_alt)
  also have "\<dots> = drop d ?ts"
    using project_turns_suffix [of d es] by (simp add: assms(1))
  finally show False
    using arg_cong [OF us, of length] assms(3) by simp
qed

lemma tool_paired_suffix:
  assumes "tool_paired None es"
  shows "tool_paired None (suffix_from_turn d es)"
proof (cases "0 < d \<and> d < length (project_turns es)")
  case False
  then consider "d = 0" | "drop d (project_turns es) = []" by fastforce
  then show ?thesis
    using assms by cases (simp_all add: suffix_from_turn_def)
next
  case True
  then obtain e rest where suf: "suffix_from_turn d es = e # rest"
    using hd_suffix_from_turn [of d es] by (cases "suffix_from_turn d es") auto
  define pre where "pre = concat (map turn_events (take d (project_turns es)))"
  have es: "es = pre @ e # rest" using split_at_turn [of es d] suf by (simp add: pre_def)
  have turns: "project_turns pre = take d (project_turns es)" by (simp add: pre_def project_turns_take)
  have pre: "pre \<noteq> []" using turns True by auto
  have paired: "tool_paired (Some (last pre)) (e # rest)"
    using assms pre unfolding es by (simp add: tool_paired_append)
  have "ev_payload e \<noteq> ToolResult c obs" for c obs
  proof
    assume e: "ev_payload e = ToolResult c obs"
    with paired have "ev_turn_index (last pre) = ev_turn_index e" by auto
    then have "last_index (take d (project_turns es)) = Some (ev_turn_index e)"
      using last_index_project_turns [of pre] pre by (simp add: turns)
    with hd_suffix_not_joined [OF suf] True e show False by (simp add: opens_turn_def)
  qed
  with paired show ?thesis by (simp add: suf)
qed


lemma log_end_append: "log_end (es @ [e]) = ev_id e"
  by (simp add: log_end_def)

lemma branch_ok_suffix: "branch_ok s b es \<Longrightarrow> branch_ok s b (suffix_from_turn d es)"
proof -
  assume ok: "branch_ok s b es"
  define pre where "pre = concat (map turn_events (take d (project_turns es)))"
  have "es = pre @ suffix_from_turn d es" using split_at_turn [of es d] by (simp add: pre_def)
  with ok have "branch_ok s b (pre @ suffix_from_turn d es)" by simp
  then show ?thesis by (simp add: branch_ok_def sorted_wrt_append)
qed

lemma branch_ok_compacted:
  assumes "branch_ok s b es" and "es \<noteq> []"
  shows "branch_ok s b (compacted t k es)"
proof (cases "length (project_turns es) \<le> k")
  case False
  let ?d = "if k = 0 then 0 else length (project_turns es) - k"
  have suf: "suffix_from_turn ?d es \<noteq> [] \<and> last (suffix_from_turn ?d es) = last es"
  proof -
    have "?d < length (project_turns es)" using False assms(2) by auto
    then have "suffix_from_turn ?d es \<noteq> []" using hd_suffix_from_turn by blast
    then show ?thesis using split_at_turn [of es ?d] by (metis last_appendR)
  qed
  have "branch_ok s b (suffix_from_turn ?d es @ [snapshot_event t k es])"
    using assms suf branch_ok_suffix [OF assms(1), of ?d]
    by (auto simp: branch_ok_snoc snapshot_event_def event_now_def Let_def log_end_def branch_ok_def [of s b es])
  with False show ?thesis by (simp add: compacted_def Let_def)
qed (use assms in \<open>simp add: compacted_def Let_def\<close>)

lemma tool_paired_compacted:
  assumes "tool_paired None es"
  shows "tool_paired None (compacted t k es)"
  using tool_paired_suffix [OF assms] assms
  by (auto simp: compacted_def Let_def tool_paired_append snapshot_event_def event_now_def)

lemma branch_ok_pair:
  assumes "branch_ok s b es" and "ev_session_id x = s" "ev_branch x = b" "ev_id x = log_end es + 1"
    and "ev_session_id y = s" "ev_branch y = b" "ev_id y = log_end es + 2"
  shows "branch_ok s b (es @ [x, y])"
proof -
  have "branch_ok s b (es @ [x])" using assms by (simp add: branch_ok_snoc)
  then have "branch_ok s b ((es @ [x]) @ [y])"
    using assms by (subst branch_ok_snoc) (simp_all add: log_end_append)
  then show ?thesis by simp
qed

lemma tool_paired_turn_pair:
  "tool_paired None es \<Longrightarrow> tool_paired None (es @ turn_pair t1 t2 s b user content es)"
  by (simp add: tool_paired_append turn_pair_def event_now_def Let_def)

lemma tool_paired_tool_pair:
  "tool_paired None es \<Longrightarrow> tool_paired None (es @ tool_pair t1 t2 s b tn inp cid obs es)"
  by (simp add: tool_paired_append tool_pair_def event_now_def Let_def)

lemma tool_paired_rebranch:
  "tool_paired prev es \<Longrightarrow> tool_paired (map_option (\<lambda>e. e\<lparr>ev_branch := dst\<rparr>) prev) (rebranch dst es)"
  by (induction es arbitrary: prev) fastforce+

lemma tool_paired_takeWhile: "tool_paired prev es \<Longrightarrow> tool_paired prev (takeWhile P es)"
  by (induction es arbitrary: prev) auto

text \<open>Checkpoints stay good under appends and compaction.\<close>

lemma checkpoint_fits_append: "checkpoint_fits v es \<Longrightarrow> checkpoint_fits v (es @ new)"
  unfolding checkpoint_fits_def by fastforce

lemma checkpoint_fits_bound:
  assumes "checkpoint_fits v es" and "branch_ok s b es"
  shows "fst v \<le> log_end es"
proof -
  from assms(1) obtain pre where pre: "project pre = Inr (snd v)" "fst v = last_event_id pre"
    and "(\<exists>tail. es = pre @ tail) \<or> (\<exists>e \<in> set es. fst v < ev_id e)"
    unfolding checkpoint_fits_def by blast
  then consider tail where "es = pre @ tail" | e where "e \<in> set es" "fst v < ev_id e" by blast
  then show ?thesis
  proof cases
    case 1
    have "pre \<noteq> []" using pre(1) by (auto elim: project_InrE)
    moreover have "sorted (map ev_id pre)"
      using assms(2) 1 by (auto simp: branch_ok_def sorted_wrt_append strict_sorted_iff)
    ultimately have "fst v = ev_id (last pre)" by (simp add: pre(2) last_event_id_sorted)
    moreover have "last pre \<in> set es" using 1 \<open>pre \<noteq> []\<close> by simp
    ultimately show ?thesis using branch_ok_log_end [OF assms(2)] by metis
  next
    case 2
    with branch_ok_log_end [OF assms(2) 2(1)] show ?thesis by simp
  qed
qed

lemma checkpoint_fits_compacted:
  assumes "checkpoint_fits v es" and "branch_ok s b es" and "es \<noteq> []"
  shows "checkpoint_fits v (compacted t k es)"
proof (cases "length (project_turns es) \<le> k")
  case False
  have "fst v < ev_id (snapshot_event t k es)"
    using checkpoint_fits_bound [OF assms(1,2)] assms(3)
    by (simp add: snapshot_event_def event_now_def Let_def log_end_def)
  moreover have "is_snapshot (ev_payload (snapshot_event t k es))"
    by (simp add: snapshot_event_def event_now_def is_snapshot_def Let_def)
  moreover have "snapshot_event t k es \<in> set (compacted t k es)"
    using False by (simp add: compacted_def Let_def)
  ultimately show ?thesis using assms(1) unfolding checkpoint_fits_def by blast
qed (use assms in \<open>simp add: compacted_def Let_def\<close>)


section \<open>The invariant\<close>

lemma spec_inv_upd:
  assumes "spec_inv (L, C)" and "branch_ok s b es" and "tool_paired None es"
    and "\<And>v. C (s, b) = Some v \<Longrightarrow> es \<noteq> [] \<Longrightarrow> checkpoint_fits v es"
  shows "spec_inv (L((s, b) := es), C)"
  using assms by (auto simp: spec_inv_def)

lemma spec_invD:
  assumes "spec_inv (L, C)"
  shows "branch_ok s b (L (s, b))" and "tool_paired None (L (s, b))"
    and "C (s, b) = Some v \<Longrightarrow> L (s, b) \<noteq> [] \<Longrightarrow> checkpoint_fits v (L (s, b))"
  using assms unfolding spec_inv_def fst_conv snd_conv by blast+

lemma spec_step_inv: "spec_step S S' \<Longrightarrow> spec_inv S \<Longrightarrow> spec_inv S'"
proof (induction rule: spec_step.induct)
  case (created L s b C t)
  then show ?case
    by (intro spec_inv_upd) (auto simp: branch_ok_def event_now_def)
next
  case (turn L s b t1 t2 user content C)
  note inv = spec_invD [OF turn(2), of s b]
  show ?case
    by (intro spec_inv_upd [OF turn(2)] tool_paired_turn_pair inv(2) checkpoint_fits_append)
       (auto simp: turn_pair_def Let_def event_now_def inv(3) turn(1) intro!: branch_ok_pair inv(1))
next
  case (tool_use L s b t1 t2 tn inp cid obs C)
  note inv = spec_invD [OF tool_use(2), of s b]
  show ?case
    by (intro spec_inv_upd [OF tool_use(2)] tool_paired_tool_pair inv(2) checkpoint_fits_append)
       (auto simp: tool_pair_def Let_def event_now_def inv(3) tool_use(1) intro!: branch_ok_pair inv(1))
next
  case (compaction L s b C t k)
  note inv = spec_invD [OF compaction(2), of s b]
  show ?case
    by (intro spec_inv_upd [OF compaction(2)] branch_ok_compacted tool_paired_compacted inv
        checkpoint_fits_compacted [OF _ inv(1)] compaction(1))
next
  case (deleted C' C s b L)
  then show ?case by (auto simp: spec_inv_def branch_ok_def split: if_splits)
next
  case (forked dst src L s C until)
  note inv = spec_invD [OF forked(4), of s src]
  have "takeWhile (fork_keeps until) (L (s, src)) = filter (fork_keeps until) (L (s, src))"
    using inv(1) by (intro takeWhile_sorted_ids) (simp add: branch_ok_def)
  then have "tool_paired None (rebranch dst (filter (fork_keeps until) (L (s, src))))"
    using tool_paired_rebranch [OF tool_paired_takeWhile [OF inv(2), of "fork_keeps until"], of dst] by simp
  moreover have "branch_ok s dst (rebranch dst (filter (fork_keeps until) (L (s, src))))"
    using branch_ok_filter [OF inv(1), of "fork_keeps until"] by (auto simp: branch_ok_def comp_def)
  ultimately show ?case
    using forked by (intro spec_inv_upd) auto
next
  case (saved L s b p C)
  then have "checkpoint_fits (ps_last_id p, p) (L (s, b))"
    unfolding checkpoint_fits_def by (auto elim: project_InrE)
  with saved show ?case by (auto simp: spec_inv_def)
qed

lemma spec_steps_inv: "spec_step\<^sup>*\<^sup>* S S' \<Longrightarrow> spec_inv S \<Longrightarrow> spec_inv S'"
  by (induction rule: rtranclp_induct) (auto intro: spec_step_inv)



section \<open>Recovery\<close>

text \<open>Two projections that agree in everything but the boundaries of their turns.\<close>

definition same_session :: "projected_session \<Rightarrow> projected_session \<Rightarrow> bool" where
  "same_session p q \<longleftrightarrow> ps_session_id p = ps_session_id q \<and> ps_branch p = ps_branch q
     \<and> ps_messages p = ps_messages q \<and> ps_last_id p = ps_last_id q
     \<and> concat (map turn_events (ps_turns p)) = concat (map turn_events (ps_turns q))"

lemma same_session_refl [simp]: "same_session p p"
  by (simp add: same_session_def)

lemma concat_fold_merge_turn:
  "concat (map turn_events (fold merge_turn ts bs)) = concat (map turn_events bs) @ concat (map turn_events ts)"
  by (induction ts arbitrary: bs) (simp_all add: concat_merge_turn)

lemma same_session_merge:
  assumes "project xs = Inr a" and "project ys = Inr b" and "project (xs @ ys) = Inr c"
  shows "same_session (merge_projections a b) c"
  using assms
  by (auto elim!: project_InrE simp: same_session_def merge_projections_def concat_fold_merge_turn)

lemma recover_from_correct:
  assumes ok: "branch_ok s b es" and ne: "es \<noteq> []"
    and fits: "\<And>v. latest = Some v \<Longrightarrow> checkpoint_fits v es"
  shows "\<exists>p full. recover_from es latest = Inr p \<and> project es = Inr full \<and> same_session p full"
proof -
  obtain full where full: "project es = Inr full" using ne by (simp add: project_eq)
  show ?thesis
  proof (cases latest)
    case None
    with full show ?thesis by (simp add: recover_from_def)
  next
    case (Some v)
    obtain u base where v: "v = (u, base)" by (cases v)
    show ?thesis
    proof (cases "list_ex (\<lambda>e. u < ev_id e \<and> is_snapshot (ev_payload e)) es \<or> \<not> u \<le> ev_id (last es)")
      case True
      with full Some v ne show ?thesis by (auto simp: recover_from_def)
    next
      case False
      with fits [OF Some] v obtain pre tail where pre: "project pre = Inr base" "u = last_event_id pre"
        and es: "es = pre @ tail"
        by (auto simp: checkpoint_fits_def list_ex_iff)
      have "pre \<noteq> []" using pre(1) by (auto elim: project_InrE)
      moreover have "sorted (map ev_id pre)" and tail: "\<forall>x \<in> set pre. \<forall>y \<in> set tail. ev_id x < ev_id y"
        using ok by (auto simp: es branch_ok_def sorted_wrt_append strict_sorted_iff)
      ultimately have u: "u = ev_id (last pre)" by (simp add: pre(2) last_event_id_sorted)
      have le: "\<forall>x \<in> set pre. ev_id x \<le> u"
        using ok branch_ok_log_end [OF branch_ok_appendD [of s b pre tail]] \<open>pre \<noteq> []\<close>
        by (simp add: es u log_end_def)
      have "filter (\<lambda>e. u < ev_id e) es = tail"
        using tail le u \<open>pre \<noteq> []\<close> last_in_set [of pre]
        by (auto simp: es filter_empty_conv not_less intro!: filter_True)
      with False Some v ne have rec: "recover_from es latest = (if tail = [] then Inr base
          else result_bind (project tail) (\<lambda>t. Inr (merge_projections base t)))"
        by (auto simp: recover_from_def Let_def)
      show ?thesis
      proof (cases "tail = []")
        case True
        with rec full pre es show ?thesis by simp
      next
        case False
        then obtain t where t: "project tail = Inr t" by (simp add: project_eq)
        with rec False full same_session_merge [OF pre(1) t] es show ?thesis by simp
      qed
    qed
  qed
qed

end
