(* ===== verification/Session_Refine.thy ===== *)
theory Session_Refine
  imports Session_Spec
begin

text \<open>
  The steps of the session manager and its forks refine the abstract machine of \<open>Session_Spec\<close>, over
  the contract of a store and the contract of a checkpoint.
\<close>

section \<open>The contract of a checkpoint\<close>

text \<open>
  A checkpoint keeps one projection per slot; \<open>slot\<close> is where it files a session's branch, and the
  keys \<open>K\<close> in use have slots of their own. Saving and removing either take effect or leave the
  slots as they are.
\<close>

locale checkpoint_contract =
  fixes cp :: "'c session_checkpoint"
    and slot :: "string \<Rightarrow> string \<Rightarrow> 'k"
    and view :: "'c \<Rightarrow> 'k \<Rightarrow> (nat \<times> projected_session) option"
    and K :: "branch_key set"
  assumes save: "cp_save cp s b u p c = Some (r, c') \<Longrightarrow>
      view c' = view c \<or> view c' = (view c)(slot s b := Some (u, p))"
    and latest: "cp_latest cp s b c = Some (q, c') \<Longrightarrow>
      view c' = view c \<and> (\<forall>v. q = Inr v \<longrightarrow> v = view c (slot s b))"
    and remove: "cp_remove cp s b c = Some (r, c') \<Longrightarrow>
      view c' = view c \<or> view c' = (view c)(slot s b := None)"
    and slots: "(s, b) \<in> K \<Longrightarrow> (s', b') \<in> K \<Longrightarrow> slot s b = slot s' b' \<Longrightarrow> s = s' \<and> b = b'"

definition stored :: "(string \<Rightarrow> string \<Rightarrow> 'k) \<Rightarrow> ('c \<Rightarrow> 'k \<Rightarrow> (nat \<times> projected_session) option)
    \<Rightarrow> branch_key set \<Rightarrow> 'c \<Rightarrow> branch_key \<Rightarrow> (nat \<times> projected_session) option" where
  "stored slot vw K c = (\<lambda>(s, b). if (s, b) \<in> K then vw c (slot s b) else None)"

context checkpoint_contract
begin

lemma stored_upd:
  assumes "(s, b) \<in> K" and "view c' = (view c)(slot s b := v)"
  shows "stored slot view K c' = (stored slot view K c)((s, b) := v)"
proof (rule ext)
  fix k :: branch_key
  obtain s' b' where k: "k = (s', b')" by (cases k)
  show "stored slot view K c' k = ((stored slot view K c)((s, b) := v)) k"
    using assms slots [OF assms(1), of s' b'] by (auto simp: stored_def k)
qed

lemma stored_same: "view c' = view c \<Longrightarrow> stored slot view K c' = stored slot view K c"
  by (auto simp: stored_def fun_eq_iff)

end


section \<open>Steps of a manager and its forks\<close>

text \<open>
  A serial history: one call has returned before the next begins. The code enforces this by a lock for
  \<open>chat\<close>, \<open>gc\<close> and \<open>record_tool_use\<close> only; histories in which other calls overlap are not steps here.
  The world moves by any operation of the manager on any branch \<open>b\<close> (a fork of the manager is the
  manager with another branch) and any session in use, whatever it returns, and by the outside.
  A new session's id is fresh (UUIDs do not repeat), and a fork goes to a branch that is not in use.
\<close>

inductive session_step ::
  "('h, 'x) session_env \<Rightarrow> ('s, 'c, 'h, 'x) session_manager \<Rightarrow> branch_key set
   \<Rightarrow> ('s \<Rightarrow> string \<Rightarrow> string \<Rightarrow> session_event list) \<Rightarrow> (string \<Rightarrow> string \<Rightarrow> 'k)
   \<Rightarrow> ('c \<Rightarrow> 'k \<Rightarrow> (nat \<times> projected_session) option)
   \<Rightarrow> ('s, 'c, 'h, 'x) session_world \<Rightarrow> ('s, 'c, 'h, 'x) session_world \<Rightarrow> bool"
  for E m K lg slot vw
where
  chat_step: "(s, b) \<in> K \<Longrightarrow> chat E (m\<lparr>mgr_branch := b\<rparr>) s llm user w = Some (r, w') \<Longrightarrow>
    session_step E m K lg slot vw w w'"
| tool_step: "(s, b) \<in> K \<Longrightarrow>
    record_tool_use E (m\<lparr>mgr_branch := b\<rparr>) s tn inp cid obs w = Some (r', w') \<Longrightarrow>
    session_step E m K lg slot vw w w'"
| gc_step: "(s, b) \<in> K \<Longrightarrow> gc E (m\<lparr>mgr_branch := b\<rparr>) s w = Some (r2, w') \<Longrightarrow>
    session_step E m K lg slot vw w w'"
| create_step: "(fst (env_now_v7 E (sw_outer w)), b) \<in> K \<Longrightarrow>
    lg (sw_store w) (fst (env_now_v7 E (sw_outer w))) b = [] \<Longrightarrow>
    vw (sw_checkpoint w) (slot (fst (env_now_v7 E (sw_outer w))) b) = None \<Longrightarrow>
    create_session E (m\<lparr>mgr_branch := b\<rparr>) w = Some (r3, w') \<Longrightarrow>
    session_step E m K lg slot vw w w'"
| delete_step: "(s, b) \<in> K \<Longrightarrow> delete_session (m\<lparr>mgr_branch := b\<rparr>) s w = Some (r4, w') \<Longrightarrow>
    session_step E m K lg slot vw w w'"
| fork_step: "(s, dst) \<in> K \<Longrightarrow> dst \<noteq> b \<Longrightarrow> lg (sw_store w) s dst = [] \<Longrightarrow>
    vw (sw_checkpoint w) (slot s dst) = None \<Longrightarrow>
    fork_session (m\<lparr>mgr_branch := b\<rparr>) s dst until w = Some (r5, w') \<Longrightarrow>
    session_step E m K lg slot vw w w'"
| save_step: "(s, b) \<in> K \<Longrightarrow> save_checkpoint (m\<lparr>mgr_branch := b\<rparr>) s w = Some (r6, w') \<Longrightarrow>
    session_step E m K lg slot vw w w'"
| recover_step: "(s, b) \<in> K \<Longrightarrow> recover_session (m\<lparr>mgr_branch := b\<rparr>) s w = Some (r7, w') \<Longrightarrow>
    session_step E m K lg slot vw w w'"
| release_step: "release_session_cache s w = Some (r8, w') \<Longrightarrow> session_step E m K lg slot vw w w'"
| outside_step: "w' = w\<lparr>sw_outer := x\<rparr> \<Longrightarrow> session_step E m K lg slot vw w w'"

definition spec_of ::
  "('s \<Rightarrow> string \<Rightarrow> string \<Rightarrow> session_event list) \<Rightarrow> (string \<Rightarrow> string \<Rightarrow> 'k)
   \<Rightarrow> ('c \<Rightarrow> 'k \<Rightarrow> (nat \<times> projected_session) option) \<Rightarrow> branch_key set
   \<Rightarrow> ('s, 'c, 'h, 'x) session_world \<Rightarrow> session_spec" where
  "spec_of lg slot vw K w = (logs_of lg w, stored slot vw K (sw_checkpoint w))"

locale durable_sessions = event_log store log wf + checkpoint_contract cp slot view K
  for store :: "'s event_store" and log wf
    and cp :: "'c session_checkpoint" and slot :: "string \<Rightarrow> string \<Rightarrow> 'k" and view K
begin

lemma spec_of_log_set:
  assumes "log_set s b es w w'"
  shows "spec_of log slot view K w' = ((fst (spec_of log slot view K w))((s, b) := es),
    snd (spec_of log slot view K w))"
  using log_setD(3,4) [OF assms] by (simp add: spec_of_def)

lemma spec_of_outer: "outer_step w w' \<Longrightarrow> spec_of log slot view K w' = spec_of log slot view K w"
  by (simp add: spec_of_def outer_stepD)

lemma spec_of_fst [simp]: "fst (spec_of log slot view K w) (s, b) = log (sw_store w) s b"
  by (simp add: spec_of_def)

lemma spec_of_pair: "spec_of log slot view K w = (fst (spec_of log slot view K w), snd (spec_of log slot view K w))"
  by simp

text \<open>A step that sets one log is a step of the abstract machine when the new log is one of its logs.\<close>

lemma log_set_step:
  assumes set': "log_set s b es w w'"
    and "\<And>L C. L (s, b) = log (sw_store w) s b \<Longrightarrow> spec_step (L, C) (L((s, b) := es), C)"
  shows "spec_step (spec_of log slot view K w) (spec_of log slot view K w')"
  unfolding spec_of_log_set [OF set'] by (subst spec_of_pair, rule assms(2)) simp


abbreviation serves :: "('s, 'c, 'h, 'x) session_manager \<Rightarrow> bool" where
  "serves m \<equiv> mgr_store m = store \<and> (mgr_checkpoint m = None \<or> mgr_checkpoint m = Some cp)"

abbreviation refines :: "('s, 'c, 'h, 'x) session_world \<Rightarrow> ('s, 'c, 'h, 'x) session_world \<Rightarrow> bool" where
  "refines w w' \<equiv> wf (sw_store w')
     \<and> spec_step\<^sup>*\<^sup>* (spec_of log slot view K w) (spec_of log slot view K w')"

lemma outer_refines: "wf (sw_store w) \<Longrightarrow> outer_step w w' \<Longrightarrow> refines w w'"
  using outer_stepD(1) spec_of_outer by fastforce

lemma log_set_refines:
  assumes "log_set s b es w w'"
    and "\<And>L C. L (s, b) = log (sw_store w) s b \<Longrightarrow> spec_step (L, C) (L((s, b) := es), C)"
  shows "refines w w'"
  using log_setD(1) [OF assms(1)] log_set_step [OF assms] by auto

lemma checkpoint_refines:
  assumes "wf (sw_store w)" and "sw_store w' = sw_store w"
    and "spec_step (spec_of log slot view K w)
      (fst (spec_of log slot view K w), stored slot view K (sw_checkpoint w'))
      \<or> stored slot view K (sw_checkpoint w') = stored slot view K (sw_checkpoint w)"
  shows "refines w w'"
proof -
  have "spec_of log slot view K w' = (fst (spec_of log slot view K w), stored slot view K (sw_checkpoint w'))"
    using assms(2) by (simp add: spec_of_def logs_of_def)
  with assms show ?thesis by (auto simp: spec_of_def)
qed

lemma chat_refines:
  assumes "serves m" and wf: "wf (sw_store w)" and "chat E m s llm user w = Some (r, w')"
  shows "refines w w'"
proof -
  have ready: "ready m w" using assms by simp
  note law = chat_law [OF ready assms(3)]
  let ?es = "log_at m s w" and ?b = "mgr_branch m"
  show ?thesis
  proof (cases r)
    case (Inl e)
    with law outer_refines [OF wf] show ?thesis by simp
  next
    case (Inr c)
    with law obtain t1 t2 t3 where ne: "?es \<noteq> []"
      and set': "log_set s ?b (policy_compacted t3 (mgr_auto_compaction m)
        (?es @ turn_pair t1 t2 s ?b user c ?es)) w w'" by auto
    define es2 where "es2 = ?es @ turn_pair t1 t2 s ?b user c ?es"
    define S where "S = ((fst (spec_of log slot view K w))((s, ?b) := es2), snd (spec_of log slot view K w))"
    have "spec_step (spec_of log slot view K w) S"
      unfolding S_def es2_def using ne
      by (subst spec_of_pair) (metis spec_of_fst spec_step.turn)
    moreover have "spec_step\<^sup>*\<^sup>* S (spec_of log slot view K w')"
    proof (cases "mgr_auto_compaction m")
      case None
      with set' show ?thesis
        by (simp add: spec_of_log_set [OF set'] S_def es2_def policy_compacted_def)
    next
      case (Some p)
      have "spec_step S ((fst S)((s, ?b) := compacted t3 (ac_max_turns p) (fst S (s, ?b))), snd S)"
        using spec_step.compaction [of "fst S" s ?b "snd S" t3 "ac_max_turns p"] ne
        by (simp add: S_def es2_def)
      moreover have "(fst S)((s, ?b) := compacted t3 (ac_max_turns p) (fst S (s, ?b)))
          = fst (spec_of log slot view K w')" and "snd S = snd (spec_of log slot view K w')"
        using spec_of_log_set [OF set'] Some by (simp_all add: S_def es2_def policy_compacted_def)
      ultimately show ?thesis by auto
    qed
    ultimately show ?thesis
      using log_setD(1) [OF set'] by (meson converse_rtranclp_into_rtranclp)
  qed
qed

lemma tool_refines:
  assumes "serves m" and wf: "wf (sw_store w)"
    and "record_tool_use E m s tn inp cid obs w = Some (r, w')"
  shows "refines w w'"
proof -
  have ready: "ready m w" using assms by simp
  note law = record_tool_use_law [OF ready, of E s tn inp cid obs]
  show ?thesis
  proof (cases "log_at m s w = []")
    case True
    with law assms outer_refines [OF wf] show ?thesis by auto
  next
    case False
    with law assms(3) obtain t1 t2 where "log_set s (mgr_branch m) (log_at m s w
        @ tool_pair t1 t2 s (mgr_branch m) tn inp cid obs (log_at m s w)) w w'" by auto
    then show ?thesis
      by (rule log_set_refines) (metis False spec_step.tool_use)
  qed
qed

lemma gc_refines:
  assumes "serves m" and wf: "wf (sw_store w)" and "gc E m s w = Some (r, w')"
  shows "refines w w'"
proof -
  have ready: "ready m w" using assms by simp
  from gc_law [OF ready assms(3)] show ?thesis
  proof
    assume "outer_step w w'"
    then show ?thesis by (rule outer_refines [OF wf])
  next
    assume "log_at m s w \<noteq> [] \<and> (\<exists>t k. log_set s (mgr_branch m) (compacted t k (log_at m s w)) w w')"
    then obtain t k where ne: "log_at m s w \<noteq> []"
      and "log_set s (mgr_branch m) (compacted t k (log_at m s w)) w w'" by blast
    from this(2) show ?thesis
      by (rule log_set_refines) (metis ne spec_step.compaction)
  qed
qed

lemma create_refines:
  assumes "serves m" and wf: "wf (sw_store w)" and "create_session E m w = Some (r, w')"
    and s: "s = fst (env_now_v7 E (sw_outer w))"
    and fresh: "(s, mgr_branch m) \<in> K" "log_at m s w = []" "view (sw_checkpoint w) (slot s (mgr_branch m)) = None"
  shows "refines w w'"
proof -
  have ready: "ready m w" using assms by simp
  let ?b = "mgr_branch m"
  obtain t where set': "log_set s ?b [event_now t 1 s 0 ?b (Metadata ''created'' (JObject []))] w w'"
    using create_session_law [OF ready, of E] assms(3) fresh(2)
    by (auto simp: Let_def log_end_def simp flip: s)
  have "snd (spec_of log slot view K w) (s, ?b) = None"
    using fresh by (simp add: spec_of_def stored_def)
  then have "spec_step (spec_of log slot view K w) (spec_of log slot view K w')"
    unfolding spec_of_log_set [OF set']
    by (subst spec_of_pair) (metis fresh(2) spec_of_fst spec_step.created)
  with log_setD(1) [OF set'] show ?thesis by auto
qed

lemma delete_refines:
  assumes "serves m" and wf: "wf (sw_store w)" and "(s, mgr_branch m) \<in> K"
    and "delete_session m s w = Some (r, w')"
  shows "refines w w'"
proof -
  have ready: "ready m w" using assms by simp
  let ?b = "mgr_branch m"
  let ?C = "stored slot view K (sw_checkpoint w)"
  note law = delete_session_law [OF ready assms(4)]
  have "stored slot view K (sw_checkpoint w') = ?C \<or> stored slot view K (sw_checkpoint w') = ?C((s, ?b) := None)"
  proof (cases "mgr_checkpoint m")
    case None
    with law show ?thesis by simp
  next
    case (Some c)
    with law assms(1) obtain q where "cp_remove cp s ?b (sw_checkpoint w) = Some (q, sw_checkpoint w')" by auto
    from remove [OF this] show ?thesis
      using stored_same stored_upd [OF assms(3)] by blast
  qed
  then have "spec_step (logs_of log w, ?C)
      (\<lambda>(s', b'). if s' = s then [] else logs_of log w (s', b'), stored slot view K (sw_checkpoint w'))"
    by (rule spec_step.deleted)
  moreover have "logs_of log w' = (\<lambda>(s', b'). if s' = s then [] else logs_of log w (s', b'))"
    using law by (simp add: fun_eq_iff)
  ultimately show ?thesis using law by (auto simp: spec_of_def)
qed

lemma fork_refines:
  assumes "serves m" and wf: "wf (sw_store w)" and "(s, dst) \<in> K" and "dst \<noteq> mgr_branch m"
    and fresh: "log (sw_store w) s dst = []" "view (sw_checkpoint w) (slot s dst) = None"
    and run: "fork_session m s dst until w = Some (r, w')"
  shows "refines w w'"
proof -
  let ?b = "mgr_branch m"
  obtain n st where st: "st_fork store s ?b dst until (sw_store w) = Some (Inr n, st)" "wf st"
    and lg: "log st s dst = rebranch dst (filter (fork_keeps until) (log (sw_store w) s ?b))"
    and other: "\<forall>s' b'. (s', b') \<noteq> (s, dst) \<longrightarrow> log st s' b' = log (sw_store w) s' b'"
    using fork [OF wf assms(4) fresh(1), of until] by blast
  have w': "w' = w\<lparr>sw_store := st\<rparr>"
    using run assms(1) st by (simp add: fork_session_def eff_bind_def on_store_def)
  have set': "log_set s dst (rebranch dst (filter (fork_keeps until) (log (sw_store w) s ?b))) w w'"
    using st lg other by (auto simp: w' log_set_def logs_of_def fun_eq_iff)
  have "snd (spec_of log slot view K w) (s, dst) = None"
    using fresh assms(3) by (simp add: spec_of_def stored_def)
  then have "spec_step (spec_of log slot view K w) (spec_of log slot view K w')"
    unfolding spec_of_log_set [OF set']
    by (subst spec_of_pair) (metis fresh(1) assms(4) spec_of_fst spec_step.forked)
  with st(2) show ?thesis by (auto simp: w')
qed

lemma save_refines:
  assumes "serves m" and wf: "wf (sw_store w)" and "(s, mgr_branch m) \<in> K"
    and "save_checkpoint m s w = Some (r, w')"
  shows "refines w w'"
proof (cases "mgr_checkpoint m = None \<or> log_at m s w = []")
  case True
  have "ready m w" using assms by simp
  with True assms(4) wf outer_refines [OF wf, of w'] show ?thesis
    by (auto simp: save_checkpoint_def eff_bind_def read_existing_eq split: option.splits)
next
  case False
  let ?b = "mgr_branch m"
  have cp: "mgr_checkpoint m = Some cp" and ne: "log_at m s w \<noteq> []" and ready: "ready m w"
    using False assms by auto
  obtain p where p: "project (log_at m s w) = Inr p" using ne by (simp add: project_eq)
  obtain q c' where save': "cp_save cp s ?b (ps_last_id p) p (sw_checkpoint w) = Some (q, c')"
    and w': "w' = w\<lparr>sw_checkpoint := c'\<rparr>"
    using assms(4) ready ne p
    by (auto simp: save_checkpoint_def cp eff_bind_def read_existing_eq on_checkpoint_def
        split: option.splits sum.splits)
  have "spec_step (spec_of log slot view K w)
      (fst (spec_of log slot view K w), (stored slot view K (sw_checkpoint w))((s, ?b) := Some (ps_last_id p, p)))"
    using spec_step.saved [of "logs_of log w" s ?b p] p by (simp add: spec_of_def)
  note saved = this
  show ?thesis
  proof (rule checkpoint_refines [OF wf])
    show "sw_store w' = sw_store w" by (simp add: w')
    have c': "sw_checkpoint w' = c'" by (simp add: w')
    from save [OF save'] show "spec_step (spec_of log slot view K w)
        (fst (spec_of log slot view K w), stored slot view K (sw_checkpoint w'))
      \<or> stored slot view K (sw_checkpoint w') = stored slot view K (sw_checkpoint w)"
    proof
      assume "view c' = view (sw_checkpoint w)"
      then show ?thesis unfolding c' by (intro disjI2 stored_same)
    next
      assume "view c' = (view (sw_checkpoint w))(slot s ?b := Some (ps_last_id p, p))"
      from stored_upd [OF assms(3) this] saved show ?thesis unfolding c' by (intro disjI1) simp
    qed
  qed
qed

lemma recover_refines:
  assumes "serves m" and wf: "wf (sw_store w)" and "recover_session m s w = Some (r, w')"
  shows "refines w w'"
proof -
  have ready: "ready m w" using assms by simp
  have "w' = w \<or> (\<exists>q c'. cp_latest cp s (mgr_branch m) (sw_checkpoint w) = Some (q, c')
      \<and> w' = w\<lparr>sw_checkpoint := c'\<rparr>)"
    using assms(1,3) ready
    by (auto simp: recover_session_def eff_bind_def read_existing_eq on_checkpoint_def lift_result_apply
        split: option.splits sum.splits if_splits)
  then show ?thesis
  proof (elim disjE exE conjE)
    assume "w' = w"
    then show ?thesis using wf by simp
  next
    fix q c'
    assume q: "cp_latest cp s (mgr_branch m) (sw_checkpoint w) = Some (q, c')"
      and w': "w' = w\<lparr>sw_checkpoint := c'\<rparr>"
    have "stored slot view K c' = stored slot view K (sw_checkpoint w)"
      using latest [OF q] by (intro stored_same) simp
    then show ?thesis by (intro checkpoint_refines [OF wf]) (simp_all add: w')
  qed
qed

lemma session_step_refines:
  assumes "session_step E m K log slot view w w'" and serves: "serves m" and wf: "wf (sw_store w)"
  shows "refines w w'"
proof -
  have serves': "serves (m\<lparr>mgr_branch := b\<rparr>)" for b using serves by simp
  from assms(1) show ?thesis
  proof cases
    case (release_step s r8)
    then show ?thesis
      by (intro outer_refines [OF wf]) (auto simp: release_session_cache_def modify_def outer_step_def)
  next
    case (outside_step x)
    then show ?thesis by (intro outer_refines [OF wf]) simp
  next
    case chat_step
    show ?thesis by (rule chat_refines [OF serves' wf chat_step(2)])
  next
    case tool_step
    show ?thesis by (rule tool_refines [OF serves' wf tool_step(2)])
  next
    case gc_step
    show ?thesis by (rule gc_refines [OF serves' wf gc_step(2)])
  next
    case create_step
    show ?thesis by (rule create_refines [OF serves' wf create_step(4) refl]) (use create_step in simp_all)
  next
    case delete_step
    show ?thesis by (rule delete_refines [OF serves' wf _ delete_step(2)]) (use delete_step in simp)
  next
    case fork_step
    show ?thesis by (rule fork_refines [OF serves' wf _ _ _ _ fork_step(5)]) (use fork_step in simp_all)
  next
    case save_step
    show ?thesis by (rule save_refines [OF serves' wf _ save_step(2)]) (use save_step in simp)
  next
    case recover_step
    show ?thesis by (rule recover_refines [OF serves' wf recover_step(2)])
  qed
qed

end

end
