(* ===== verification/Session_Checkpoint.thy ===== *)
theory Session_Checkpoint
  imports Session_Refine "HOL-Library.Word"
begin

unbundle bit_operations_syntax

text \<open>
  The durable checkpoint of \<open>lc-sessions\<close> (\<open>events/checkpoint.rs\<close>, \<open>FileCheckpoint\<close>): one file per
  session and branch, named by a sanitised stem and an FNV-1a hash of the raw names on 64-bit words.
  \<open>std::fs\<close> is a map of files with a schedule of faults: every call consumes one entry and fails
  when it holds an error (a missing file is not a fault but what the map says). A file holds the
  record \<open>serde_json\<close> would read from it, or text it cannot read and the reader's complaint.
\<close>

section \<open>File names\<close>

definition hash64 :: "string \<Rightarrow> 64 word" where
  "hash64 raw = fold (\<lambda>b acc. (acc XOR of_nat (of_char b)) * 0x100000001b3) raw 0xcbf29ce484222325"

definition is_continuation :: "char \<Rightarrow> bool" where
  "is_continuation c \<longleftrightarrow> 128 \<le> (of_char c :: nat) \<and> (of_char c :: nat) < 192"

text \<open>\<open>str::chars\<close>: the characters of a string, each as its bytes.\<close>

function utf8_chars :: "string \<Rightarrow> string list" where
  "utf8_chars [] = []"
| "utf8_chars (c # s) = (c # takeWhile is_continuation s) # utf8_chars (dropWhile is_continuation s)"
  by pat_completeness auto
termination
  by (relation "measure length") (auto simp: length_dropWhile_le le_imp_less_Suc)

definition is_stem_char :: "char \<Rightarrow> bool" where
  "is_stem_char c \<longleftrightarrow> (let n = of_char c :: nat in
     48 \<le> n \<and> n \<le> 57 \<or> 65 \<le> n \<and> n \<le> 90 \<or> 97 \<le> n \<and> n \<le> 122)
     \<or> c = CHR ''.'' \<or> c = CHR ''_'' \<or> c = CHR ''-''"

definition MAX_STEM_CHARS :: nat where
  "MAX_STEM_CHARS = 64"

definition sanitize_char :: "string \<Rightarrow> char" where
  "sanitize_char bytes = (case bytes of [c] \<Rightarrow> if is_stem_char c then c else CHR ''_'' | _ \<Rightarrow> CHR ''_'')"

definition sanitize :: "string \<Rightarrow> string" where
  "sanitize raw = (let out = map sanitize_char (take MAX_STEM_CHARS (utf8_chars raw)) in
     if out = [] then ''_'' else out)"

text \<open>\<open>{:016x}\<close>\<close>

definition hex16 :: "64 word \<Rightarrow> string" where
  "hex16 x = map (\<lambda>i. hex_digit (unat (drop_bit (4 * i) x AND 15))) (rev [0..<16])"

definition file_stem :: "string \<Rightarrow> string \<Rightarrow> string" where
  "file_stem s b = sanitize s @ ''-'' @ hex16 (hash64 s) @ ''__'' @ sanitize b @ ''-'' @ hex16 (hash64 b)"

definition path_for :: "string \<Rightarrow> string \<Rightarrow> string \<Rightarrow> string" where
  "path_for dir s b = dir @ ''/'' @ file_stem s b @ ''.json''"


section \<open>Files and the checkpoint\<close>

definition CHECKPOINT_FORMAT_VERSION :: nat where
  "CHECKPOINT_FORMAT_VERSION = 1"

record checkpoint_record =
  cr_version :: nat
  cr_up_to_id :: nat
  cr_projection :: projected_session

datatype file_contents = Encoded checkpoint_record | Unreadable string

datatype io_error = IoNotFound | IoOther string

definition show_io_error :: "io_error \<Rightarrow> string" where
  "show_io_error e = (case e of
      IoNotFound \<Rightarrow> ''No such file or directory (os error 2)'' | IoOther t \<Rightarrow> t)"

record file_system =
  fs_files :: "file_contents smap"
  fs_faults :: "string option list"
  fs_seq :: nat
  fs_pid :: nat

type_synonym 'a fs_call = "file_system \<Rightarrow> (io_error + 'a) \<times> file_system"

definition fs_call :: "(file_system \<Rightarrow> (io_error + 'a) \<times> file_system)
    \<Rightarrow> (file_system \<Rightarrow> file_system) \<Rightarrow> 'a fs_call" where
  "fs_call act on_fault f = (case fs_faults f of
      [] \<Rightarrow> act f
    | None # rest \<Rightarrow> act (f\<lparr>fs_faults := rest\<rparr>)
    | Some e # rest \<Rightarrow> (Inl (IoOther e), on_fault (f\<lparr>fs_faults := rest\<rparr>)))"

definition fs_create_dir_all :: "unit fs_call" where
  "fs_create_dir_all = fs_call (\<lambda>f. (Inr (), f)) id"

text \<open>A write that fails may leave a part of the text behind.\<close>

definition fs_write :: "string \<Rightarrow> file_contents \<Rightarrow> unit fs_call" where
  "fs_write path x = fs_call (\<lambda>f. (Inr (), f\<lparr>fs_files := smap_insert path x (fs_files f)\<rparr>))
     (\<lambda>f. f\<lparr>fs_files := smap_insert path (Unreadable ''EOF while parsing a value'') (fs_files f)\<rparr>)"

definition fs_rename :: "string \<Rightarrow> string \<Rightarrow> unit fs_call" where
  "fs_rename src dst = fs_call (\<lambda>f. case map_of (fs_files f) src of
      None \<Rightarrow> (Inl IoNotFound, f)
    | Some x \<Rightarrow> (Inr (), f\<lparr>fs_files := smap_insert dst x (smap_remove src (fs_files f))\<rparr>)) id"

definition fs_remove_file :: "string \<Rightarrow> unit fs_call" where
  "fs_remove_file path = fs_call (\<lambda>f. case map_of (fs_files f) path of
      None \<Rightarrow> (Inl IoNotFound, f)
    | Some _ \<Rightarrow> (Inr (), f\<lparr>fs_files := smap_remove path (fs_files f)\<rparr>)) id"

definition fs_read :: "string \<Rightarrow> file_contents fs_call" where
  "fs_read path = fs_call (\<lambda>f. case map_of (fs_files f) path of
      None \<Rightarrow> (Inl IoNotFound, f) | Some x \<Rightarrow> (Inr x, f)) id"

definition tmp_path :: "string \<Rightarrow> file_system \<Rightarrow> string \<times> file_system" where
  "tmp_path path f = (path @ ''.tmp-'' @ show_nat (fs_pid f) @ ''-'' @ show_nat (fs_seq f),
     f\<lparr>fs_seq := fs_seq f + 1\<rparr>)"

definition file_save ::
  "string \<Rightarrow> string \<Rightarrow> string \<Rightarrow> nat \<Rightarrow> projected_session \<Rightarrow> (file_system, session_error, unit) eff" where
  "file_save dir s b up_to projection f =
     (let path = path_for dir s b;
          record = \<lparr>cr_version = CHECKPOINT_FORMAT_VERSION, cr_up_to_id = up_to, cr_projection = projection\<rparr>
      in case fs_create_dir_all f of
        (Inl e, f1) \<Rightarrow> Some (Inl (StoreError (''failed to create checkpoint dir '' @ dir @ '': '' @ show_io_error e)), f1)
      | (Inr _, f1) \<Rightarrow>
          (let (tmp, f2) = tmp_path path f1 in
           case fs_write tmp (Encoded record) f2 of
             (Inl e, f3) \<Rightarrow> Some (Inl (StoreError (''failed to write checkpoint '' @ tmp @ '': '' @ show_io_error e)), f3)
           | (Inr _, f3) \<Rightarrow>
               (case fs_rename tmp path f3 of
                  (Inl e, f4) \<Rightarrow>
                    (let (_, f5) = fs_remove_file tmp f4 in
                     Some (Inl (StoreError (''failed to commit checkpoint '' @ path @ '': '' @ show_io_error e)), f5))
                | (Inr _, f4) \<Rightarrow> Some (Inr (), f4))))"

definition file_latest ::
  "string \<Rightarrow> string \<Rightarrow> string
   \<Rightarrow> (file_system, session_error, (nat \<times> projected_session) option) eff" where
  "file_latest dir s b f =
     (let path = path_for dir s b in
      case fs_read path f of
        (Inl IoNotFound, f1) \<Rightarrow> Some (Inr None, f1)
      | (Inl e, f1) \<Rightarrow> Some (Inl (StoreError (''failed to read checkpoint '' @ path @ '': '' @ show_io_error e)), f1)
      | (Inr (Unreadable e), f1) \<Rightarrow> Some (Inl (StoreError (''corrupt checkpoint '' @ path @ '': '' @ e)), f1)
      | (Inr (Encoded r), f1) \<Rightarrow>
          if cr_version r > CHECKPOINT_FORMAT_VERSION
          then Some (Inl (StoreError (''checkpoint '' @ path @ '' uses format version ''
            @ show_nat (cr_version r) @ '' but this build understands '' @ show_nat CHECKPOINT_FORMAT_VERSION)), f1)
          else Some (Inr (Some (cr_up_to_id r, cr_projection r)), f1))"

definition file_remove :: "string \<Rightarrow> string \<Rightarrow> string \<Rightarrow> (file_system, session_error, unit) eff" where
  "file_remove dir s b f =
     (let path = path_for dir s b in
      case fs_remove_file path f of
        (Inr _, f1) \<Rightarrow> Some (Inr (), f1)
      | (Inl IoNotFound, f1) \<Rightarrow> Some (Inr (), f1)
      | (Inl e, f1) \<Rightarrow> Some (Inl (StoreError (''failed to remove checkpoint '' @ path @ '': '' @ show_io_error e)), f1))"

definition file_checkpoint :: "string \<Rightarrow> file_system session_checkpoint" where
  "file_checkpoint dir = \<lparr>cp_save = file_save dir, cp_latest = file_latest dir, cp_remove = file_remove dir\<rparr>"



section \<open>The contract\<close>

definition is_snapshot_file :: "string \<Rightarrow> bool" where
  "is_snapshot_file path \<longleftrightarrow> take 5 (rev path) = rev ''.json''"

definition fs_view :: "file_system \<Rightarrow> string \<Rightarrow> (nat \<times> projected_session) option" where
  "fs_view f path = (if is_snapshot_file path then (case map_of (fs_files f) path of
      Some (Encoded r) \<Rightarrow>
        if cr_version r > CHECKPOINT_FORMAT_VERSION then None else Some (cr_up_to_id r, cr_projection r)
    | _ \<Rightarrow> None) else None)"

lemma is_snapshot_file_path_for [simp]: "is_snapshot_file (path_for dir s b)"
  by (simp add: is_snapshot_file_def path_for_def)

lemma show_nat_last: "show_nat n \<noteq> [] \<and> last (show_nat n) = char_of (48 + n mod 10)"
  by (subst (1 2) show_nat.simps) (auto simp: digit_def)

lemma digit_not_n: "char_of (48 + n mod 10 :: nat) \<noteq> CHR ''n''"
proof
  assume "char_of (48 + n mod 10) = CHR ''n''"
  then have "of_char (char_of (48 + n mod 10) :: char) = (110 :: nat)" by simp
  moreover have "n mod 10 < 10" by simp
  ultimately show False by simp
qed

lemma tmp_path_not_snapshot: "tmp_path p f = (tmp, f') \<Longrightarrow> \<not> is_snapshot_file tmp"
proof -
  assume "tmp_path p f = (tmp, f')"
  then have tmp: "tmp = (p @ ''.tmp-'' @ show_nat (fs_pid f) @ ''-'') @ show_nat (fs_seq f)"
    by (simp add: tmp_path_def)
  obtain ds d where ds: "show_nat (fs_seq f) = ds @ [d]"
    using show_nat_last [of "fs_seq f"] by (cases "show_nat (fs_seq f)" rule: rev_cases) auto
  then have "d \<noteq> CHR ''n''"
    using show_nat_last [of "fs_seq f"] digit_not_n [of "fs_seq f"] by auto
  then show ?thesis by (simp add: is_snapshot_file_def tmp ds)
qed

text \<open>The view only reads the snapshot files.\<close>

lemma fs_view_cong:
  "(\<And>p. is_snapshot_file p \<Longrightarrow> map_of (fs_files f') p = map_of (fs_files f) p) \<Longrightarrow> fs_view f' = fs_view f"
  by (auto simp: fs_view_def fun_eq_iff)

lemma fs_view_upd:
  assumes "is_snapshot_file path"
    and "map_of (fs_files f') path = x"
    and "\<And>p. is_snapshot_file p \<Longrightarrow> p \<noteq> path \<Longrightarrow> map_of (fs_files f') p = map_of (fs_files f) p"
  shows "fs_view f' = (fs_view f)(path := (case x of
      Some (Encoded r) \<Rightarrow>
        if cr_version r > CHECKPOINT_FORMAT_VERSION then None else Some (cr_up_to_id r, cr_projection r)
    | _ \<Rightarrow> None))"
  using assms by (auto simp: fs_view_def fun_eq_iff)

text \<open>What each call does to the files, whether or not it fails.\<close>

lemma fs_create_dir_all_files: "fs_create_dir_all f = (r, f') \<Longrightarrow> fs_files f' = fs_files f"
  by (auto simp: fs_create_dir_all_def fs_call_def split: list.splits option.splits)

lemma fs_write_files:
  "fs_write p x f = (r, f') \<Longrightarrow> (\<exists>y. fs_files f' = smap_insert p y (fs_files f))
     \<and> (r = Inr () \<longrightarrow> fs_files f' = smap_insert p x (fs_files f))"
  by (auto simp: fs_write_def fs_call_def split: list.splits option.splits)

lemma fs_rename_files:
  "fs_rename p q f = (r, f') \<Longrightarrow> fs_files f' = fs_files f \<and> r \<noteq> Inr ()
     \<or> r = Inr () \<and> (\<exists>x. map_of (fs_files f) p = Some x
          \<and> fs_files f' = smap_insert q x (smap_remove p (fs_files f)))"
  by (auto simp: fs_rename_def fs_call_def split: list.splits option.splits)

lemma fs_remove_file_files:
  "fs_remove_file p f = (r, f') \<Longrightarrow> fs_files f' = fs_files f \<or> fs_files f' = smap_remove p (fs_files f)"
  by (auto simp: fs_remove_file_def fs_call_def split: list.splits option.splits)

lemma fs_read_files:
  "fs_read p f = (r, f') \<Longrightarrow> fs_files f' = fs_files f
     \<and> (case r of Inl IoNotFound \<Rightarrow> map_of (fs_files f) p = None
        | Inl (IoOther e) \<Rightarrow> True
        | Inr x \<Rightarrow> map_of (fs_files f) p = Some x)"
  by (auto simp: fs_read_def fs_call_def split: list.splits option.splits)

lemma file_save_view:
  assumes "file_save dir s b u p f = Some (r, f')"
  shows "fs_view f' = fs_view f \<and> r \<noteq> Inr ()
    \<or> fs_view f' = (fs_view f)(path_for dir s b := Some (u, p)) \<and> r = Inr ()"
proof -
  define path where "path = path_for dir s b"
  define rec where "rec = \<lparr>cr_version = CHECKPOINT_FORMAT_VERSION, cr_up_to_id = u, cr_projection = p\<rparr>"
  obtain r1 f1 where d: "fs_create_dir_all f = (r1, f1)" by (cases "fs_create_dir_all f")
  note f1 = fs_create_dir_all_files [OF d]
  obtain tmp f2 where t: "tmp_path path f1 = (tmp, f2)" by (cases "tmp_path path f1")
  note tmp = tmp_path_not_snapshot [OF t]
  have f2: "fs_files f2 = fs_files f1" using t by (auto simp: tmp_path_def)
  obtain r3 f3 where w: "fs_write tmp (Encoded rec) f2 = (r3, f3)" by (cases "fs_write tmp (Encoded rec) f2")
  note f3 = fs_write_files [OF w]
  obtain r4 f4 where n: "fs_rename tmp path f3 = (r4, f4)" by (cases "fs_rename tmp path f3")
  note f4 = fs_rename_files [OF n]
  obtain r5 f5 where m: "fs_remove_file tmp f4 = (r5, f5)" by (cases "fs_remove_file tmp f4")
  note f5 = fs_remove_file_files [OF m]
  have neq: "q \<noteq> tmp" if "is_snapshot_file q" for q using that tmp by auto
  have path: "is_snapshot_file path" by (simp add: path_def)
  note run = assms [unfolded file_save_def Let_def path_def [symmetric] rec_def [symmetric] d t w n m prod.case]
  have view3: "fs_view f3 = fs_view f"
    using f3 f2 f1 neq by (intro fs_view_cong) auto
  show ?thesis
  proof (cases "r1 = Inr () \<and> r3 = Inr () \<and> r4 = Inr ()")
    case True
    then have r: "r = Inr ()" "f' = f4" using run by simp_all
    have files: "fs_files f4 = smap_insert path (Encoded rec) (smap_remove tmp (fs_files f3))"
      using True f4 f3 by auto
    have "fs_view f4 = (fs_view f3)(path := Some (u, p))"
      using fs_view_upd [OF path, of f4 "Some (Encoded rec)" f3] neq
      by (auto simp: files map_of_smap_remove rec_def)
    with view3 r show ?thesis by (simp add: path_def)
  next
    case False
    have "fs_view f' = fs_view f \<and> r \<noteq> Inr ()"
    proof (cases r1)
      case (Inl e)
      with run have "f' = f1" "r \<noteq> Inr ()" by auto
      with f1 show ?thesis by (auto intro!: fs_view_cong)
    next
      case r1: (Inr x)
      show ?thesis
      proof (cases r3)
        case (Inl e)
        with run r1 view3 show ?thesis by auto
      next
        case (Inr y)
        with False r1 obtain e where r4: "r4 = Inl e" by (cases r4) auto
        with run r1 Inr have r: "f' = f5" "r \<noteq> Inr ()" by auto
        have "fs_view f5 = fs_view f3"
          using f5 f4 r4 neq by (intro fs_view_cong) (auto simp: map_of_smap_remove)
        with r view3 show ?thesis by simp
      qed
    qed
    then show ?thesis by blast
  qed
qed

lemma file_latest_returns: "\<exists>q f'. file_latest dir s b f = Some (q, f')"
proof -
  obtain q f1 where q: "fs_read (path_for dir s b) f = (q, f1)" by (cases "fs_read (path_for dir s b) f")
  show ?thesis
  proof (cases q)
    case (Inl e)
    with q show ?thesis by (cases e) (simp_all add: file_latest_def Let_def)
  next
    case (Inr x)
    with q show ?thesis by (cases x) (simp_all add: file_latest_def Let_def)
  qed
qed

lemma file_latest_view:
  assumes "file_latest dir s b f = Some (r, f')"
  shows "fs_view f' = fs_view f \<and> (\<forall>v. r = Inr v \<longrightarrow> v = fs_view f (path_for dir s b))"
proof -
  obtain q f1 where q: "fs_read (path_for dir s b) f = (q, f1)" by (cases "fs_read (path_for dir s b) f")
  note law = fs_read_files [OF q]
  have f': "f' = f1" "fs_view f1 = fs_view f"
    using assms law by (auto simp: file_latest_def Let_def q intro!: fs_view_cong
        split: sum.splits io_error.splits file_contents.splits if_splits)
  with assms law show ?thesis
    by (auto simp: file_latest_def Let_def q fs_view_def
        split: sum.splits io_error.splits file_contents.splits if_splits)
qed

lemma file_remove_view:
  assumes "file_remove dir s b f = Some (r, f')"
  shows "fs_view f' = fs_view f \<or> fs_view f' = (fs_view f)(path_for dir s b := None)"
proof -
  obtain q f1 where q: "fs_remove_file (path_for dir s b) f = (q, f1)"
    by (cases "fs_remove_file (path_for dir s b) f")
  have "f' = f1"
    using assms by (auto simp: file_remove_def Let_def q split: sum.splits io_error.splits)
  moreover from fs_remove_file_files [OF q] have
    "fs_view f1 = fs_view f \<or> fs_view f1 = (fs_view f)(path_for dir s b := None)"
  proof
    assume "fs_files f1 = fs_files f"
    then show ?thesis by (auto intro!: disjI1 fs_view_cong)
  next
    assume "fs_files f1 = smap_remove (path_for dir s b) (fs_files f)"
    then show ?thesis
      using fs_view_upd [of "path_for dir s b" f1 None f] by (simp add: map_of_smap_remove)
  qed
  ultimately show ?thesis by simp
qed



section \<open>Which names have files of their own\<close>

definition safe_name :: "string \<Rightarrow> bool" where
  "safe_name n \<longleftrightarrow> n \<noteq> [] \<and> length n \<le> MAX_STEM_CHARS \<and> list_all is_stem_char n"

text \<open>Sessions whose ids are UUIDs, on branches with plain names.\<close>

definition uuid_keys :: "branch_key set" where
  "uuid_keys = {(s, b). safe_name s \<and> length s = 36 \<and> safe_name b}"

lemma stem_char_ascii: "is_stem_char c \<Longrightarrow> \<not> is_continuation c"
  by (auto simp: is_stem_char_def is_continuation_def Let_def)

lemma utf8_chars_ascii: "list_all is_stem_char s \<Longrightarrow> utf8_chars s = map (\<lambda>c. [c]) s"
proof (induction s)
  case (Cons c s)
  then have "takeWhile is_continuation s = [] \<and> dropWhile is_continuation s = s"
    by (cases s) (auto simp: stem_char_ascii)
  with Cons show ?case by simp
qed simp

lemma sanitize_safe: "safe_name n \<Longrightarrow> sanitize n = n"
proof -
  assume n: "safe_name n"
  have "map sanitize_char (map (\<lambda>c. [c]) xs) = xs" if "list_all is_stem_char xs" for xs
    using that by (induction xs) (auto simp: sanitize_char_def)
  with n show ?thesis by (simp add: sanitize_def safe_name_def utf8_chars_ascii Let_def del: map_map)
qed

lemma length_hex16 [simp]: "length (hex16 x) = 16"
  by (simp add: hex16_def)

lemma file_stem_inj:
  assumes "safe_name s" "safe_name b" "safe_name s'" "safe_name b'" and "length s = length s'"
    and "file_stem s b = file_stem s' b'"
  shows "s = s' \<and> b = b'"
proof -
  have eq: "s @ (''-'' @ hex16 (hash64 s) @ ''__'' @ b @ ''-'' @ hex16 (hash64 b))
      = s' @ (''-'' @ hex16 (hash64 s') @ ''__'' @ b' @ ''-'' @ hex16 (hash64 b'))"
    using assms by (simp add: file_stem_def sanitize_safe)
  then have s: "s = s'" using assms(5) by (metis append_eq_append_conv)
  with eq have rest: "b @ (''-'' @ hex16 (hash64 b)) = b' @ (''-'' @ hex16 (hash64 b'))" by simp
  have "length b = length b'" using arg_cong [OF rest, of length] by simp
  with rest s show ?thesis by simp
qed

lemma path_for_inj:
  "(s, b) \<in> uuid_keys \<Longrightarrow> (s', b') \<in> uuid_keys \<Longrightarrow> path_for dir s b = path_for dir s' b' \<Longrightarrow> s = s' \<and> b = b'"
  by (intro file_stem_inj) (auto simp: uuid_keys_def path_for_def)

interpretation file_cp: checkpoint_contract "file_checkpoint dir" "path_for dir" fs_view uuid_keys for dir
proof unfold_locales
  fix s b :: string and c c' :: file_system
  show "fs_view c' = fs_view c \<or> fs_view c' = (fs_view c)(path_for dir s b := Some (u, p))"
    if "cp_save (file_checkpoint dir) s b u p c = Some (r, c')" for u p r
    using that file_save_view [of dir s b u p c r c'] by (auto simp: file_checkpoint_def)
  show "fs_view c' = fs_view c \<and> (\<forall>v. q = Inr v \<longrightarrow> v = fs_view c (path_for dir s b))"
    if "cp_latest (file_checkpoint dir) s b c = Some (q, c')" for q
    using that by (intro file_latest_view) (simp add: file_checkpoint_def)
  show "fs_view c' = fs_view c \<or> fs_view c' = (fs_view c)(path_for dir s b := None)"
    if "cp_remove (file_checkpoint dir) s b c = Some (r, c')" for r
    using that by (intro file_remove_view) (simp add: file_checkpoint_def)
  show "s = s' \<and> b = b'" if "(s, b) \<in> uuid_keys" "(s', b') \<in> uuid_keys" "path_for dir s b = path_for dir s' b'"
    for s' b' using that by (rule path_for_inj)
qed

interpretation noop_cp: checkpoint_contract noop_checkpoint Pair "\<lambda>_ _. None" UNIV
  by unfold_locales (auto simp: noop_checkpoint_def)

interpretation durable: durable_sessions memory_event_store branch_log event_map_wf
  "file_checkpoint dir" "path_for dir" fs_view uuid_keys for dir ..

lemma hash_collision:
  "sanitize ''*;%+($$$*+#;(,&='' = sanitize ''+>%+$>(!!(/*<%+%''"
  "hash64 ''*;%+($$$*+#;(,&='' = hash64 ''+>%+$>(!!(/*<%+%''"
  by code_simp+

text \<open>
  C39: Sessions with UUIDs for ids on branches with plain names never share a snapshot file. Not every
  two sessions have files of their own: the two ids below are sanitised to the same stem and have
  the same 64-bit hash.
\<close>

theorem snapshot_file_names:
  assumes "(s, b) \<in> uuid_keys" and "(s', b') \<in> uuid_keys"
  shows "(path_for dir s b = path_for dir s' b' \<longleftrightarrow> s = s' \<and> b = b')
    \<and> path_for dir ''*;%+($$$*+#;(,&='' branch = path_for dir ''+>%+$>(!!(/*<%+%'' branch"
  using path_for_inj [OF assms] hash_collision by (auto simp: path_for_def file_stem_def)

theorem snapshot_file_names_witness:
  "path_for ''d'' ''01890a5d-ac96-774b-bcce-b302099a8057'' ''main''
     \<noteq> path_for ''d'' ''01890a5d-ac96-774b-bcce-b302099a8057'' ''retry''"
  using snapshot_file_names [of "''01890a5d-ac96-774b-bcce-b302099a8057''" "''main''"
      "''01890a5d-ac96-774b-bcce-b302099a8057''" "''retry''" "''d''"]
  by (simp add: uuid_keys_def safe_name_def MAX_STEM_CHARS_def is_stem_char_def Let_def)

end
