(* ===== verification/Session_Props.thy ===== *)
theory Session_Props
  imports Session_Checkpoint
begin

text \<open>
  The properties of the session manager over the in-memory store and the file checkpoint: a chat is
  atomic, compaction bounds the log, and a retried chat does not save its turn to memory twice; in
  every world that calls which do not overlap can reach, tool results keep their calls and recovery
  from a checkpoint gives the session back.
\<close>

section \<open>A chat turn\<close>

lemma chat_answer_plain:
  assumes "mgr_store m = memory_event_store" and "event_map_wf (sw_store w)"
    and "mgr_memory m = None" and "mgr_memory_factory m = None"
    and "branch_log (sw_store w) s (mgr_branch m) \<noteq> []"
  shows "\<exists>msgs. chat_answer E m s llm user w = eff_map_err Llm (on_outer (llm msgs)) w"
proof -
  obtain msgs where "chat_context E m s None user w = Some (Inr msgs, w)"
    using mem.chat_context_None [of m w s E user] assms by blast
  moreover have "eff_bind f (\<lambda>c. eff_bind (chat_save_memory E m s None user c) (\<lambda>_. ok c)) = f" for f
    unfolding chat_save_memory_def option.case eff_bind_ok eff_bind_ok_right ..
  ultimately show ?thesis
    using assms(3,4) by (auto simp: chat_answer_def session_memory_def eff_bind_Some [of "chat_context E m s None user"])
qed

lemma chat_plain_succeeds:
  assumes "mgr_store m = memory_event_store" and wf: "event_map_wf (sw_store w)"
    and plain: "mgr_memory m = None" "mgr_memory_factory m = None"
    and ne: "branch_log (sw_store w) s (mgr_branch m) \<noteq> []"
    and llm: "\<forall>msgs x. \<exists>c x'. llm msgs x = Some (Inr c, x')"
  shows "\<exists>c w'. chat E m s llm user w = Some (Inr c, w')"
proof -
  let ?es = "branch_log (sw_store w) s (mgr_branch m)"
  have ready: "mem.ready m w" using assms by simp
  obtain msgs where a: "chat_answer E m s llm user w = eff_map_err Llm (on_outer (llm msgs)) w"
    using chat_answer_plain [OF assms(1) wf plain ne] by blast
  obtain c x' where "llm msgs (sw_outer w) = Some (Inr c, x')" using llm by blast
  with a have a': "chat_answer E m s llm user w = Some (Inr c, w\<lparr>sw_outer := x'\<rparr>)"
    by (simp add: eff_map_err_def on_outer_def)
  have "mem.ready m (w\<lparr>sw_outer := x'\<rparr>)" using ready by simp
  from mem.chat_commit_law [OF this, of s E user c] ne
  obtain w2 where commit: "chat_commit E m s (length (filter is_user_message ?es)) user c (w\<lparr>sw_outer := x'\<rparr>)
      = Some (Inr c, w2)" by auto
  have "log_end ?es \<noteq> 0" using mem.log_positive [OF wf ne] by simp
  then have "chat E m s llm user w = Some (Inr c, w2)"
    unfolding chat_eq
    by (simp add: eff_bind_Some [of "turn_count m s", OF mem.turn_count_eq [OF ready]]
        eff_bind_Some [of "chat_answer E m s llm user", OF a'] commit)
  then show ?thesis by blast
qed

text \<open>
  C9: A chat whose language model and memory return always returns. When it fails, the event log is
  as it was, and the failure is that the session does not exist (exactly when its log is empty), the
  model's or the memory's. When it succeeds, the log of its branch is the old log followed by the
  user's message and the answer under the next two ids, compacted as the policy says; no other
  branch or session is touched. Without a memory component it succeeds whenever the model answers.
\<close>

theorem chat_turn_atomic:
  assumes "mgr_store m = memory_event_store" and "event_map_wf (sw_store w)" and "outside_returns E llm"
  shows "\<exists>r w'. chat E m s llm user w = Some (r, w') \<and> event_map_wf (sw_store w')
    \<and> (\<forall>s' b'. (s', b') \<noteq> (s, mgr_branch m) \<longrightarrow>
         branch_log (sw_store w') s' b' = branch_log (sw_store w) s' b')
    \<and> (case r of
         Inl e \<Rightarrow> sw_store w' = sw_store w
           \<and> (if branch_log (sw_store w) s (mgr_branch m) = [] then e = SessionNotFound s
              else \<exists>t. e = Llm t \<or> e = Memory t)
       | Inr c \<Rightarrow> \<exists>t1 t2 t3. branch_log (sw_store w') s (mgr_branch m)
           = policy_compacted t3 (mgr_auto_compaction m) (branch_log (sw_store w) s (mgr_branch m)
               @ turn_pair t1 t2 s (mgr_branch m) user c (branch_log (sw_store w) s (mgr_branch m))))
    \<and> (mgr_memory m = None \<and> mgr_memory_factory m = None
         \<and> branch_log (sw_store w) s (mgr_branch m) \<noteq> []
         \<and> (\<forall>msgs x. \<exists>c x'. llm msgs x = Some (Inr c, x')) \<longrightarrow> (\<exists>c. r = Inr c))"
proof -
  let ?es = "branch_log (sw_store w) s (mgr_branch m)"
  have ready: "mgr_store m = memory_event_store \<and> event_map_wf (sw_store w)" using assms by simp
  obtain r w' where run: "chat E m s llm user w = Some (r, w')"
    using mem.chat_returns [OF ready assms(3), of s user] by auto
  note law = mem.chat_law [OF ready run]
  have answers: "mgr_memory m = None \<and> mgr_memory_factory m = None \<and> ?es \<noteq> []
      \<and> (\<forall>msgs x. \<exists>c x'. llm msgs x = Some (Inr c, x')) \<longrightarrow> (\<exists>c. r = Inr c)"
    using chat_plain_succeeds [OF assms(1,2), of s llm E user] run by auto
  show ?thesis
  proof (cases r)
    case (Inl e)
    with law have "outer_step w w'" by simp
    then have "sw_store w' = sw_store w" by (rule outer_stepD)
    with run law Inl assms(2) answers show ?thesis
      by (intro exI [of _ r] exI [of _ w'] conjI) simp_all
  next
    case (Inr c)
    with law obtain t1 t2 t3 where set': "mem.log_set s (mgr_branch m)
        (policy_compacted t3 (mgr_auto_compaction m) (?es @ turn_pair t1 t2 s (mgr_branch m) user c ?es)) w w'"
      by auto
    have other: "branch_log (sw_store w') s' b' = branch_log (sw_store w) s' b'"
      if "(s', b') \<noteq> (s, mgr_branch m)" for s' b'
      using fun_cong [OF mem.log_setD(4) [OF set'], of "(s', b')"] that by (auto split: if_splits)
    show ?thesis
      using run Inr mem.log_setD(1,2) [OF set'] other
      by (intro exI [of _ r] exI [of _ w']) auto
  qed
qed

text \<open>A concrete outside: a clock that counts its readings, one UUID, an echoing model.\<close>

definition demo_env :: "(unit, int) session_env" where
  "demo_env = \<lparr>env_memory = \<lparr>load_memory_variables = (\<lambda>_ _. ok []), save_context = (\<lambda>_ _ _. ok ())\<rparr>,
     env_utc_now = (\<lambda>x. (x, x + 1)), env_now_v7 = (\<lambda>x. (''01890a5d-ac96-774b-bcce-b302099a8057'', x)),
     env_from_value = (\<lambda>_. None), env_from_millis = Some\<rparr>"

definition demo_llm :: "int chat_model" where
  "demo_llm = (\<lambda>msgs. ok ''ok'')"

definition demo_manager :: "(event_map, file_system, unit, int) session_manager" where
  "demo_manager = with_checkpoint (file_checkpoint ''d'')
     (with_auto_compaction \<lparr>ac_max_turns = 1, ac_max_age = None\<rparr> (manager_new memory_event_store))"

definition demo_world :: "(event_map, file_system, unit, int) session_world" where
  "demo_world = \<lparr>sw_store = [], sw_checkpoint = \<lparr>fs_files = [], fs_faults = [], fs_seq = 0, fs_pid = 7\<rparr>,
     sw_session_memories = [], sw_pending = [], sw_outer = 0\<rparr>"

definition demo_session :: string where
  "demo_session = ''01890a5d-ac96-774b-bcce-b302099a8057''"

definition demo_created :: "(event_map, file_system, unit, int) session_world" where
  "demo_created = demo_world\<lparr>sw_outer := 1,
     sw_store := [((demo_session, ''main'', 1),
       event_now 0 1 demo_session 0 ''main'' (Metadata ''created'' (JObject [])))]\<rparr>"

lemma demo_manager_simps [simp]:
  "mgr_store demo_manager = memory_event_store" "mgr_branch demo_manager = ''main''"
  "mgr_memory demo_manager = None" "mgr_memory_factory demo_manager = None"
  "mgr_auto_compaction demo_manager = Some \<lparr>ac_max_turns = 1, ac_max_age = None\<rparr>"
  "mgr_checkpoint demo_manager = Some (file_checkpoint ''d'')"
  by (simp_all add: demo_manager_def with_checkpoint_def with_auto_compaction_def manager_new_def
      MAIN_BRANCH_def)

lemma demo_returns: "outside_returns demo_env demo_llm"
  by (simp add: outside_returns_def demo_env_def demo_llm_def)

lemma demo_created_wf:
  "event_map_wf (sw_store demo_created)" "branch_log (sw_store demo_created) demo_session ''main'' \<noteq> []"
  by (simp_all add: demo_created_def event_map_wf_def key_of_def event_now_def branch_log_def on_branch_def)

lemma demo_create: "create_session demo_env demo_manager demo_world = Some (Inr demo_session, demo_created)"
  by code_simp

theorem chat_turn_atomic_witness:
  "mgr_store demo_manager = memory_event_store \<and> event_map_wf (sw_store demo_created)
   \<and> outside_returns demo_env demo_llm
   \<and> (\<exists>c w'. chat demo_env demo_manager demo_session demo_llm ''hi'' demo_created = Some (Inr c, w'))"
  using chat_turn_atomic [of demo_manager demo_created demo_env demo_llm demo_session "''hi''"]
    demo_returns demo_created_wf
  by (auto simp: demo_llm_def)

text \<open>
  C11: After a successful chat under a policy of at least one turn, the log projects to at most one
  turn more than the policy keeps; when the chat made it longer than that, what is left are the last
  turns the policy keeps, unchanged and in order, followed by the snapshot.
\<close>

theorem chat_bounds_log:
  assumes "mgr_store m = memory_event_store" and "event_map_wf (sw_store w)"
    and "mgr_auto_compaction m = Some policy" and "0 < ac_max_turns policy"
    and "chat E m s llm user w = Some (Inr c, w')"
  shows "length (project_turns (branch_log (sw_store w') s (mgr_branch m))) \<le> ac_max_turns policy + 1
    \<and> (\<exists>t1 t2 before. before = branch_log (sw_store w) s (mgr_branch m)
           @ turn_pair t1 t2 s (mgr_branch m) user c (branch_log (sw_store w) s (mgr_branch m))
         \<and> (if length (project_turns before) \<le> ac_max_turns policy
            then branch_log (sw_store w') s (mgr_branch m) = before
            else \<exists>t. project_turns (branch_log (sw_store w') s (mgr_branch m))
              = drop (length (project_turns before) - ac_max_turns policy) (project_turns before)
                @ [single_turn (snapshot_event t (ac_max_turns policy) before)]))"
proof -
  let ?es = "branch_log (sw_store w) s (mgr_branch m)" and ?k = "ac_max_turns policy"
  have ready: "mgr_store m = memory_event_store \<and> event_map_wf (sw_store w)" using assms by simp
  from mem.chat_law [OF ready assms(5)] assms(3) obtain t1 t2 t3 where set': "mem.log_set s (mgr_branch m)
      (compacted t3 ?k (?es @ turn_pair t1 t2 s (mgr_branch m) user c ?es)) w w'"
    by (auto simp: policy_compacted_def)
  define before where "before = ?es @ turn_pair t1 t2 s (mgr_branch m) user c ?es"
  have log': "branch_log (sw_store w') s (mgr_branch m) = compacted t3 ?k before"
    using mem.log_setD(2) [OF set'] by (simp add: before_def)
  have "if length (project_turns before) \<le> ?k then compacted t3 ?k before = before
      else project_turns (compacted t3 ?k before) = drop (length (project_turns before) - ?k) (project_turns before)
        @ [single_turn (snapshot_event t3 ?k before)]"
    using project_turns_compacted [of ?k before t3] assms(4) by (auto simp: compacted_def Let_def)
  moreover have "length (project_turns (compacted t3 ?k before)) \<le> ?k + 1"
    using length_project_turns_compacted [OF assms(4), of t3 before] by simp
  ultimately show ?thesis
    unfolding log' using before_def by (intro conjI exI [of _ t1] exI [of _ t2] exI [of _ before]) auto
qed


theorem chat_bounds_log_witness:
  "\<exists>c w'. chat demo_env demo_manager demo_session demo_llm ''hi'' demo_created = Some (Inr c, w')
     \<and> length (project_turns (branch_log (sw_store w') demo_session ''main'')) \<le> 2"
proof -
  obtain c w' where run: "chat demo_env demo_manager demo_session demo_llm ''hi'' demo_created = Some (Inr c, w')"
    using chat_plain_succeeds [of demo_manager demo_created demo_session demo_llm demo_env "''hi''"]
      demo_created_wf by (auto simp: demo_llm_def)
  with chat_bounds_log [OF demo_manager_simps(1) demo_created_wf(1) demo_manager_simps(5) _ run]
  show ?thesis by auto
qed


section \<open>Worlds that serial histories reach\<close>

text \<open>
  The calls of a history follow each other: one has returned before the next begins. For \<open>chat\<close>, \<open>gc\<close> and
  \<open>record_tool_use\<close> on one session and branch its lock sees to that; the other operations take no lock,
  and what can go wrong when they overlap is in \<open>Session_Races\<close>.
\<close>

definition no_sessions :: "(event_map, file_system, 'h, 'x) session_world \<Rightarrow> bool" where
  "no_sessions w \<longleftrightarrow> sw_store w = [] \<and> fs_files (sw_checkpoint w) = []"

lemma no_sessions_spec:
  assumes "no_sessions w"
  shows "event_map_wf (sw_store w)" and "spec_inv (spec_of branch_log (path_for dir) fs_view uuid_keys w)"
  using assms
  by (auto simp: no_sessions_def event_map_wf_def spec_inv_def spec_of_def logs_of_def stored_def
      fs_view_def branch_log_def on_branch_def branch_ok_def)

abbreviation serially_reachable where
  "serially_reachable E m dir w0 w \<equiv> (session_step E m uuid_keys branch_log (path_for dir) fs_view)\<^sup>*\<^sup>* w0 w"

abbreviation serves_files where
  "serves_files m dir \<equiv> mgr_store m = memory_event_store
     \<and> (mgr_checkpoint m = None \<or> mgr_checkpoint m = Some (file_checkpoint dir))"

lemma reachable_refines:
  assumes "serially_reachable E m dir w0 w" and "serves_files m dir" and "event_map_wf (sw_store w0)"
  shows "event_map_wf (sw_store w)
    \<and> spec_step\<^sup>*\<^sup>* (spec_of branch_log (path_for dir) fs_view uuid_keys w0)
        (spec_of branch_log (path_for dir) fs_view uuid_keys w)"
  using assms(1)
proof (induction rule: rtranclp_induct)
  case (step w w')
  with durable.session_step_refines [OF step(2) assms(2)] show ?case by (meson rtranclp_trans)
qed (use assms(3) in simp)

lemma reachable_inv:
  assumes "serially_reachable E m dir w0 w" and "serves_files m dir" and "no_sessions w0"
  shows "event_map_wf (sw_store w) \<and> spec_inv (spec_of branch_log (path_for dir) fs_view uuid_keys w)"
  using reachable_refines [OF assms(1,2)] no_sessions_spec [OF assms(3)] spec_steps_inv by blast


lemma demo_reachable: "serially_reachable demo_env demo_manager ''d'' demo_world demo_created"
proof (rule r_into_rtranclp, rule session_step.create_step [where b = "''main''"])
  show "(fst (env_now_v7 demo_env (sw_outer demo_world)), ''main'') \<in> uuid_keys"
    by (simp add: demo_env_def uuid_keys_def safe_name_def MAX_STEM_CHARS_def is_stem_char_def Let_def)
  show "create_session demo_env (demo_manager\<lparr>mgr_branch := ''main''\<rparr>) demo_world = Some (Inr demo_session, demo_created)"
    by code_simp
qed (simp_all add: demo_world_def branch_log_def on_branch_def fs_view_def)

lemma demo_no_sessions: "no_sessions demo_world"
  by (simp add: no_sessions_def demo_world_def)




lemma demo_key: "(demo_session, ''main'') \<in> uuid_keys"
  by (simp add: demo_session_def uuid_keys_def safe_name_def MAX_STEM_CHARS_def is_stem_char_def Let_def)

text \<open>A session that is created, saved to its file and then used: the log is longer than the file knows.\<close>

definition demo_files :: "projected_session \<Rightarrow> file_system" where
  "demo_files p = \<lparr>fs_files = [(path_for ''d'' demo_session ''main'', Encoded
     \<lparr>cr_version = CHECKPOINT_FORMAT_VERSION, cr_up_to_id = ps_last_id p, cr_projection = p\<rparr>)],
     fs_faults = [], fs_seq = 1, fs_pid = 7\<rparr>"

lemma demo_files_view:
  "fs_view (demo_files p) (path_for ''d'' demo_session ''main'') = Some (ps_last_id p, p)"
  "file_latest ''d'' demo_session ''main'' (demo_files p) = Some (Inr (Some (ps_last_id p, p)), demo_files p)"
  by (simp_all add: demo_files_def fs_view_def file_latest_def fs_read_def fs_call_def Let_def)

lemma demo_save:
  assumes "project (branch_log (sw_store demo_created) demo_session ''main'') = Inr p"
  shows "save_checkpoint demo_manager demo_session demo_created
    = Some (Inr True, demo_created\<lparr>sw_checkpoint := demo_files p\<rparr>)"
proof -
  have "file_save ''d'' demo_session ''main'' (ps_last_id p) p (sw_checkpoint demo_created)
      = Some (Inr (), demo_files p)"
    by (simp add: demo_files_def file_save_def Let_def fs_create_dir_all_def fs_call_def tmp_path_def fs_write_def
        fs_rename_def smap_remove_def demo_created_def demo_world_def)
  then show ?thesis
    using demo_created_wf assms mem.read_existing_eq [of demo_manager demo_created demo_session]
    by (simp add: save_checkpoint_def eff_bind_def lift_result_apply on_checkpoint_def file_checkpoint_def)
qed

lemma demo_saved_and_used:
  obtains p w where "serially_reachable demo_env demo_manager ''d'' demo_world w"
    and "sw_checkpoint w = demo_files p"
    and "length (branch_log (sw_store w) demo_session ''main'') > length (branch_log (sw_store demo_created) demo_session ''main'')"
proof -
  obtain p where p: "project (branch_log (sw_store demo_created) demo_session ''main'') = Inr p"
    using demo_created_wf(2) by (simp add: project_eq)
  define w1 where "w1 = demo_created\<lparr>sw_checkpoint := demo_files p\<rparr>"
  have same: "demo_manager\<lparr>mgr_branch := ''main''\<rparr> = demo_manager" by (rule session_manager.equality) simp_all
  have w1: "session_step demo_env demo_manager uuid_keys branch_log (path_for ''d'') fs_view demo_created w1"
    using session_step.save_step [OF demo_key, of demo_manager] demo_save [OF p] by (simp add: same w1_def)
  have ready: "mem.ready demo_manager w1" and ne: "branch_log (sw_store w1) demo_session ''main'' \<noteq> []"
    using demo_created_wf by (simp_all add: w1_def)
  from mem.record_tool_use_law [OF ready, of demo_env demo_session "''search''" JNull "''c1''" "''none''"] ne
  obtain w t1 t2 where run: "record_tool_use demo_env demo_manager demo_session ''search'' JNull ''c1'' ''none'' w1
      = Some (Inr (), w)"
    and set': "mem.log_set demo_session ''main'' (branch_log (sw_store w1) demo_session ''main''
        @ tool_pair t1 t2 demo_session ''main'' ''search'' JNull ''c1'' ''none''
          (branch_log (sw_store w1) demo_session ''main'')) w1 w" by auto
  have "session_step demo_env demo_manager uuid_keys branch_log (path_for ''d'') fs_view w1 w"
    using session_step.tool_step [OF demo_key, of demo_env demo_manager] run by (simp add: same)
  with demo_reachable w1 have "serially_reachable demo_env demo_manager ''d'' demo_world w" by simp
  moreover have "sw_checkpoint w = demo_files p" using mem.log_setD(3) [OF set'] by (simp add: w1_def)
  moreover have "length (branch_log (sw_store w) demo_session ''main'')
      > length (branch_log (sw_store demo_created) demo_session ''main'')"
    using mem.log_setD(2) [OF set'] by (simp add: w1_def tool_pair_def Let_def)
  ultimately show ?thesis by (rule that)
qed



section \<open>Retrying a chat\<close>

text \<open>The steps of a chat before the memory save leave the marker of a pending turn alone.\<close>

definition keeps_pending :: "(('s, 'c, 'h, 'x) session_world, 'e, 'a) eff \<Rightarrow> bool" where
  "keeps_pending f \<longleftrightarrow> (\<forall>w r w'. f w = Some (r, w') \<longrightarrow> sw_pending w' = sw_pending w)"

lemma keeps_pendingD: "keeps_pending f \<Longrightarrow> f w = Some (r, w') \<Longrightarrow> sw_pending w' = sw_pending w"
  by (auto simp: keeps_pending_def)

lemma keeps_pending_lifts [simp]:
  "keeps_pending (on_store f)" "keeps_pending (on_outer g)" "keeps_pending (ok x)"
  "keeps_pending (err e)" "keeps_pending (lift_result r)"
  by (auto simp: keeps_pending_def on_store_def on_outer_def lift_result_apply)

lemma keeps_pending_map_err [simp]: "keeps_pending f \<Longrightarrow> keeps_pending (eff_map_err g f)"
  by (auto simp: keeps_pending_def eff_map_err_def)

lemma keeps_pending_bind [intro]:
  "keeps_pending f \<Longrightarrow> (\<And>x. keeps_pending (g x)) \<Longrightarrow> keeps_pending (eff_bind f g)"
  unfolding keeps_pending_def eff_bind_def by (fastforce split: option.splits sum.splits)

lemma keeps_pending_option [intro]:
  "keeps_pending f \<Longrightarrow> (\<And>y. keeps_pending (g y)) \<Longrightarrow> keeps_pending (case x of None \<Rightarrow> f | Some y \<Rightarrow> g y)"
  by (cases x) auto

lemma keeps_pending_parts:
  "keeps_pending (turn_count m s)" "keeps_pending (session_memory m s)"
  "keeps_pending (chat_context E m s mem user)"
proof -
  show "keeps_pending (turn_count m s)"
    by (auto simp: turn_count_def read_log_def)
  show "keeps_pending (session_memory m s)"
    by (auto simp: keeps_pending_def session_memory_def split: option.splits prod.splits)
  show "keeps_pending (chat_context E m s mem user)"
    unfolding chat_context_def read_log_def
    by (intro keeps_pending_option keeps_pending_bind) simp_all
qed

text \<open>With the turn pending, the memory save is skipped, so it does not matter what it would do.\<close>

abbreviation saving_with where
  "saving_with save E \<equiv> E\<lparr>env_memory := (env_memory E)\<lparr>save_context := save\<rparr>\<rparr>"

lemma saving_with_parts:
  "chat_context (saving_with save E) = chat_context E"
  "chat_commit (saving_with save E) = chat_commit E"
proof -
  show "chat_context (saving_with save E) = chat_context E"
    by (simp add: fun_eq_iff chat_context_def split: option.split)
  have now: "utc_now (saving_with save E) = utc_now E" by (simp add: utc_now_def)
  show "chat_commit (saving_with save E) = chat_commit E"
    by (intro ext) (unfold chat_commit_def chat_persist_def compact_and_prune_def now, rule refl)
qed

lemma pending_save:
  "map_of (sw_pending w) s = Some (user, c) \<Longrightarrow> chat_save_memory E m s mem user c w = Some (Inr (), w)"
  by (cases mem) (simp_all add: chat_save_memory_def)

lemma pending_answer:
  assumes "map_of (sw_pending w) s = Some (user, c)"
    and same: "\<And>msgs x d x'. llm msgs x = Some (Inr d, x') \<Longrightarrow> d = c"
  shows "chat_answer (saving_with save E) m s llm user w = chat_answer E m s llm user w"
  unfolding chat_answer_def saving_with_parts
proof (rule eff_bind_cong [OF refl refl])
  fix mem w1
  assume "session_memory m s w = Some (Inr mem, w1)"
  then have p1: "sw_pending w1 = sw_pending w" by (rule keeps_pendingD [OF keeps_pending_parts(2)])
  let ?rest = "\<lambda>E messages. eff_bind (eff_map_err Llm (on_outer (llm messages))) (\<lambda>content.
      eff_bind (chat_save_memory E m s mem user content) (\<lambda>_. ok content))"
  show "eff_bind (chat_context E m s mem user) (?rest (saving_with save E)) w1
      = eff_bind (chat_context E m s mem user) (?rest E) w1"
  proof (rule eff_bind_cong [OF refl refl], rule eff_bind_cong [OF refl refl])
    fix messages w2 content w3
    assume "chat_context E m s mem user w1 = Some (Inr messages, w2)"
      and llm: "eff_map_err Llm (on_outer (llm messages)) w2 = Some (Inr content, w3)"
    then have "sw_pending w2 = sw_pending w1" and "sw_pending w3 = sw_pending w2"
      using keeps_pendingD [OF keeps_pending_parts(3)]
        keeps_pendingD [OF keeps_pending_map_err [OF keeps_pending_lifts(2)]] by blast+
    moreover have "content = c"
      using llm same by (auto simp: eff_map_err_def on_outer_def map_sum_eq_Inr)
    ultimately have "chat_save_memory F m s mem user content w3 = Some (Inr (), w3)" for F
      using assms(1) p1 by (intro pending_save) simp
    then show "eff_bind (chat_save_memory (saving_with save E) m s mem user content) (\<lambda>_. ok content) w3
        = eff_bind (chat_save_memory E m s mem user content) (\<lambda>_. ok content) w3"
      by (simp add: eff_bind_def)
  qed
qed

text \<open>A store whose batches fail.\<close>

definition failing_batches :: "string \<Rightarrow> event_map event_store" where
  "failing_batches t = memory_event_store\<lparr>st_append_batch := (\<lambda>_ m. Some (Inl (StoreError t), m))\<rparr>"


lemma failing_commit:
  assumes "mgr_store m = failing_batches t"
  shows "\<exists>w'. chat_commit E m s turn user content w = Some (Inl (StoreError t), w')
    \<and> sw_store w' = sw_store w \<and> map_of (sw_pending w') s = Some (user, content)"
  using assms
  by (simp add: chat_commit_def chat_persist_def eff_bind_def next_id_def on_store_def eff_catch_def
      failing_batches_def modify_def)

text \<open>Until it persists its turn, a chat only reads the store.\<close>

lemma failing_reads:
  assumes "mgr_store m = failing_batches t"
  shows "turn_count m s = turn_count (m\<lparr>mgr_store := memory_event_store\<rparr>) s"
    and "chat_answer E m s llm user = chat_answer E (m\<lparr>mgr_store := memory_event_store\<rparr>) s llm user"
proof -
  have log: "read_log m s = read_log (m\<lparr>mgr_store := memory_event_store\<rparr>) s"
    using assms by (simp add: read_log_def failing_batches_def)
  show "turn_count m s = turn_count (m\<lparr>mgr_store := memory_event_store\<rparr>) s"
    by (simp add: turn_count_def log)
  have "chat_context E m s mem user = chat_context E (m\<lparr>mgr_store := memory_event_store\<rparr>) s mem user" for mem
    by (simp add: chat_context_def log split: option.split)
  moreover have "chat_save_memory E m s mem user c = chat_save_memory E (m\<lparr>mgr_store := memory_event_store\<rparr>) s mem user c"
    for mem c by (cases mem) (auto simp: chat_save_memory_def fun_eq_iff)
  moreover have "session_memory m s = session_memory (m\<lparr>mgr_store := memory_event_store\<rparr>) s"
    by (simp add: session_memory_def split: option.split)
  ultimately show "chat_answer E m s llm user = chat_answer E (m\<lparr>mgr_store := memory_event_store\<rparr>) s llm user"
    by (simp add: chat_answer_def)
qed

lemma failing_chat:
  assumes "mgr_store m = failing_batches t" and wf: "event_map_wf (sw_store w)"
    and run: "chat E m s llm user w = Some (Inl (StoreError t), w1)"
  shows "sw_store w1 = sw_store w \<and> (\<exists>c. map_of (sw_pending w1) s = Some (user, c))"
proof -
  let ?m = "m\<lparr>mgr_store := memory_event_store\<rparr>"
  let ?es = "branch_log (sw_store w) s (mgr_branch m)" and ?n = "length (filter is_user_message (branch_log (sw_store w) s (mgr_branch m)))"
  have ready: "mem.ready ?m w" using wf by simp
  have tc: "turn_count m s w = Some (Inr (log_end ?es + 1, ?n), w)"
    using mem.turn_count_eq [OF ready, of s] by (simp add: failing_reads(1) [OF assms(1)])
  have ne: "?es \<noteq> []"
    using run by (auto simp: chat_eq eff_bind_Some [of "turn_count m s", OF tc] log_end_def)
  then have "log_end ?es \<noteq> 0" using mem.log_positive [OF wf ne] by simp
  with run have go: "eff_bind (chat_answer E m s llm user) (chat_commit E m s ?n user) w = Some (Inl (StoreError t), w1)"
    by (simp add: chat_eq eff_bind_Some [of "turn_count m s", OF tc])
  then obtain q w0 where q: "chat_answer E m s llm user w = Some (q, w0)"
    by (cases "chat_answer E m s llm user w") (auto simp: eff_bind_None)
  note law = mem.chat_answer_law [OF ready _ q [unfolded failing_reads(2) [OF assms(1)]]]
  show ?thesis
  proof (cases q)
    case (Inl e)
    with go q law ne show ?thesis by (auto simp: eff_bind_Err [of "chat_answer E m s llm user"])
  next
    case (Inr content)
    with go q have "chat_commit E m s ?n user content w0 = Some (Inl (StoreError t), w1)"
      by (simp add: eff_bind_Some [of "chat_answer E m s llm user"])
    moreover obtain w2 where "chat_commit E m s ?n user content w0 = Some (Inl (StoreError t), w2)"
      and "sw_store w2 = sw_store w0" and "map_of (sw_pending w2) s = Some (user, content)"
      using failing_commit [OF assms(1)] by blast
    moreover have "sw_store w0 = sw_store w" using law ne by (intro outer_stepD(1)) simp
    ultimately show ?thesis by simp
  qed
qed

text \<open>
  C29: When the store refuses the events of a chat's turn, the log is as it was and the turn, its input
  and its answer, is marked as pending. A retry in which the model gives that answer again does not
  save to memory: whatever the memory's \<open>save_context\<close> would do, the retry runs the same.
\<close>

theorem retry_saves_memory_once:
  assumes "mgr_store m = failing_batches t" and "event_map_wf (sw_store w)"
    and "chat E m s llm user w = Some (Inl (StoreError t), w1)"
  shows "sw_store w1 = sw_store w
    \<and> (\<exists>c. map_of (sw_pending w1) s = Some (user, c)
         \<and> (\<forall>llm' save. (\<forall>msgs x d x'. llm' msgs x = Some (Inr d, x') \<longrightarrow> d = c) \<longrightarrow>
              chat (saving_with save E) (m\<lparr>mgr_store := memory_event_store\<rparr>) s llm' user w1
              = chat E (m\<lparr>mgr_store := memory_event_store\<rparr>) s llm' user w1))"
proof -
  let ?m = "m\<lparr>mgr_store := memory_event_store\<rparr>"
  from failing_chat [OF assms] obtain c where store: "sw_store w1 = sw_store w"
    and c: "map_of (sw_pending w1) s = Some (user, c)" by blast
  have "chat (saving_with save E) ?m s llm' user w1 = chat E ?m s llm' user w1"
    if "\<forall>msgs x d x'. llm' msgs x = Some (Inr d, x') \<longrightarrow> d = c" for llm' save
  proof -
    have ready: "mem.ready ?m w1" using assms(2) store by simp
    have "chat_answer (saving_with save E) ?m s llm' user w1 = chat_answer E ?m s llm' user w1"
      using that by (intro pending_answer [OF c]) blast
    then have "eff_bind (chat_answer (saving_with save E) ?m s llm' user) (chat_commit E ?m s n user) w1
        = eff_bind (chat_answer E ?m s llm' user) (chat_commit E ?m s n user) w1" for n
      by (simp add: eff_bind_def)
    then show ?thesis
      unfolding chat_eq saving_with_parts
      by (simp add: eff_bind_Some [of "turn_count ?m s", OF mem.turn_count_eq [OF ready]])
  qed
  with store c show ?thesis by blast
qed

theorem retry_saves_memory_once_witness:
  "\<exists>w1 c. chat demo_env (demo_manager\<lparr>mgr_store := failing_batches ''disk full'', mgr_memory := Some ()\<rparr>)
       demo_session demo_llm ''hi'' demo_created = Some (Inl (StoreError ''disk full''), w1)
     \<and> sw_store w1 = sw_store demo_created \<and> map_of (sw_pending w1) demo_session = Some (''hi'', c)"
proof -
  let ?m = "demo_manager\<lparr>mgr_store := failing_batches ''disk full'', mgr_memory := Some ()\<rparr>"
  have "\<exists>w1. chat demo_env ?m demo_session demo_llm ''hi'' demo_created = Some (Inl (StoreError ''disk full''), w1)"
    by (rule exI, code_simp)
  then obtain w1 where run: "chat demo_env ?m demo_session demo_llm ''hi'' demo_created
      = Some (Inl (StoreError ''disk full''), w1)" by blast
  have "mgr_store ?m = failing_batches ''disk full''" by simp
  from retry_saves_memory_once [OF this demo_created_wf(1) run] run show ?thesis by blast
qed

end
