(* ===== verification/Session_Races.thy ===== *)
theory Session_Races
  imports Session_Props
begin

text \<open>
  What the session lock does not cover. Of the manager's operations only \<open>chat\<close>, \<open>gc\<close> and
  \<open>record_tool_use\<close> (\<open>events/manager.rs\<close>) take the lock of their session and branch; the others run
  beside them. Two operations are cut here into the parts between which another call can run, and
  \<open>delete_session\<close> is put in between: the two appends of \<open>record_tool_use\<close>, and the read and the
  write of \<open>save_checkpoint\<close>. So the properties of serial histories in \<open>Session_Props\<close> do not carry
  over to calls that overlap.
\<close>

section \<open>Operations cut in two\<close>

definition tool_call_part ::
  "('h, 'x) session_env \<Rightarrow> ('s, 'c, 'h, 'x) session_manager \<Rightarrow> string \<Rightarrow> string \<Rightarrow> json \<Rightarrow> string
   \<Rightarrow> (('s, 'c, 'h, 'x) session_world, session_error, nat) eff" where
  "tool_call_part E m s tname input call_id =
     eff_bind (turn_count m s) (\<lambda>(nid, turn).
     if nid = 1 then err (SessionNotFound s)
     else eff_bind (mgr_append E m s turn (ToolCall tname input call_id)) (\<lambda>_. ok turn))"

definition tool_result_part ::
  "('h, 'x) session_env \<Rightarrow> ('s, 'c, 'h, 'x) session_manager \<Rightarrow> string \<Rightarrow> string \<Rightarrow> string \<Rightarrow> nat
   \<Rightarrow> (('s, 'c, 'h, 'x) session_world, session_error, unit) eff" where
  "tool_result_part E m s call_id observation turn =
     eff_bind (mgr_append E m s turn (ToolResult call_id observation)) (\<lambda>_. ok ())"

definition checkpoint_read_part ::
  "('s, 'c, 'h, 'x) session_manager \<Rightarrow> string
   \<Rightarrow> (('s, 'c, 'h, 'x) session_world, session_error, projected_session) eff" where
  "checkpoint_read_part m s = eff_bind (read_existing m s) (\<lambda>events. lift_result (project events))"

definition checkpoint_write_part ::
  "('s, 'c, 'h, 'x) session_manager \<Rightarrow> 'c session_checkpoint \<Rightarrow> string \<Rightarrow> projected_session
   \<Rightarrow> (('s, 'c, 'h, 'x) session_world, session_error, bool) eff" where
  "checkpoint_write_part m cp s p =
     eff_bind (on_checkpoint (cp_save cp s (mgr_branch m) (ps_last_id p) p)) (\<lambda>_. ok True)"

text \<open>Run without anything in between, the parts are the operations.\<close>

lemma record_tool_use_parts:
  "record_tool_use E m s tname input call_id observation =
     eff_bind (tool_call_part E m s tname input call_id) (tool_result_part E m s call_id observation)"
proof (rule ext)
  fix w
  show "record_tool_use E m s tname input call_id observation w =
     eff_bind (tool_call_part E m s tname input call_id) (tool_result_part E m s call_id observation) w"
    unfolding record_tool_use_def tool_call_part_def tool_result_part_def [abs_def] eff_bind_assoc
    by (rule eff_bind_cong [OF refl refl]) (simp add: eff_bind_assoc split: prod.split)
qed

lemma save_checkpoint_parts:
  "mgr_checkpoint m = Some cp \<Longrightarrow>
     save_checkpoint m s = eff_bind (checkpoint_read_part m s) (checkpoint_write_part m cp s)"
  by (simp add: save_checkpoint_def checkpoint_read_part_def checkpoint_write_part_def [abs_def] eff_bind_assoc)


section \<open>A deletion in between\<close>

lemma deleted_log:
  assumes "mgr_store m = memory_event_store" and "event_map_wf (sw_store w)"
    and "delete_session m s w = Some (d, w')"
  shows "event_map_wf (sw_store w') \<and> branch_log (sw_store w') s b = []"
proof -
  have ready: "mgr_store m = memory_event_store \<and> event_map_wf (sw_store w)" using assms by simp
  from mem.delete_session_law [OF ready assms(3)] show ?thesis
    by (auto simp: logs_of_def fun_eq_iff dest!: spec [of _ s])
qed

lemma orphans_lone_result: "ev_payload e = ToolResult c obs \<Longrightarrow> orphans [e] = 1"
  by (simp add: orphans_def project_turns_def project_turn_def opens_turn_def push_current_turn_def
      turn_orphans_def map_filter_simps)

text \<open>
  C26: A deletion that runs between the two appends of \<open>record_tool_use\<close>, which nothing prevents, leaves
  the session behind with a single event: a tool result without its call. The orphan check reports
  it, and \<open>record_tool_use\<close> returns \<open>Ok\<close>.
\<close>

theorem delete_between_tool_events:
  assumes "mgr_store m = memory_event_store" and "event_map_wf (sw_store w)"
    and "tool_call_part E m s tname input call_id w = Some (Inr turn, w1)"
    and "delete_session m s w1 = Some (d, w2)"
  shows "\<exists>w3 e. tool_result_part E m s call_id observation turn w2 = Some (Inr (), w3)
    \<and> branch_log (sw_store w3) s (mgr_branch m) = [e] \<and> ev_payload e = ToolResult call_id observation
    \<and> assert_no_orphan_tool_results (branch_log (sw_store w3) s (mgr_branch m)) = Inr 1"
proof -
  let ?b = "mgr_branch m"
  have ready: "mgr_store m = memory_event_store \<and> event_map_wf (sw_store w)" using assms by simp
  have "event_map_wf (sw_store w1)"
  proof -
    obtain n where "mgr_append E m s n (ToolCall tname input call_id) w = Some (Inr (log_end (branch_log (sw_store w) s ?b) + 1), w1)"
      using assms(3) mem.mgr_append_law [OF ready, of E s "length (filter is_user_message (branch_log (sw_store w) s ?b))" "ToolCall tname input call_id"]
      by (auto simp: tool_call_part_def mem.turn_count_eq [OF ready] eff_bind_def split: if_splits option.splits sum.splits)
    with mem.mgr_append_law [OF ready, of E s n "ToolCall tname input call_id"] show ?thesis
      by (auto dest: mem.log_setD(1))
  qed
  with assms(1) have "event_map_wf (sw_store w2)" and gone: "branch_log (sw_store w2) s ?b = []"
    using deleted_log [OF assms(1) _ assms(4)] by auto
  then have ready2: "mgr_store m = memory_event_store \<and> event_map_wf (sw_store w2)" using assms(1) by simp
  define e where "e t = event_now t 1 s turn ?b (ToolResult call_id observation)" for t
  obtain t w3 where w3: "mgr_append E m s turn (ToolResult call_id observation) w2 = Some (Inr 1, w3)"
    and set3: "mem.log_set s ?b [e t] w2 w3"
    using mem.mgr_append_law [OF ready2, of E s turn "ToolResult call_id observation"]
    by (auto simp: gone log_end_def e_def)
  have "ev_payload (e t) = ToolResult call_id observation" by (simp add: e_def event_now_def)
  moreover from this have "assert_no_orphan_tool_results [e t] = Inr 1"
    by (simp add: assert_no_orphan_tool_results_eq orphans_lone_result)
  moreover have "tool_result_part E m s call_id observation turn w2 = Some (Inr (), w3)"
    using w3 by (simp add: tool_result_part_def eff_bind_Some)
  ultimately show ?thesis using mem.log_setD(2) [OF set3] by auto
qed

text \<open>
  C27: A deletion that runs between the read and the write of \<open>save_checkpoint\<close> leaves every branch of
  the session without events and yet its checkpoint stored, with the projection of the deleted
  history. Any log the session has later (an append that was under way recreates it) whose last id is
  that of the checkpoint is recovered as the deleted history.
\<close>

theorem delete_between_checkpoint_parts:
  assumes "mgr_store m = memory_event_store" and "event_map_wf (sw_store w)"
    and "checkpoint_read_part m s w = Some (Inr p, w1)"
    and "delete_session m s w1 = Some (d, w2)"
    and "checkpoint_write_part m (file_checkpoint dir) s p w2 = Some (Inr saved, w3)"
  shows "branch_log (sw_store w3) s b = []
    \<and> project (branch_log (sw_store w) s (mgr_branch m)) = Inr p
    \<and> fs_view (sw_checkpoint w3) (path_for dir s (mgr_branch m)) = Some (ps_last_id p, p)
    \<and> (\<forall>es. es \<noteq> [] \<and> sorted (map ev_id es) \<and> ev_id (last es) = ps_last_id p \<longrightarrow>
         recover_from es (fs_view (sw_checkpoint w3) (path_for dir s (mgr_branch m))) = Inr p)"
proof -
  have ready: "mgr_store m = memory_event_store \<and> event_map_wf (sw_store w)" using assms by simp
  have p: "project (branch_log (sw_store w) s (mgr_branch m)) = Inr p" and w1: "w1 = w"
    using assms(3) by (auto simp: checkpoint_read_part_def eff_bind_def mem.read_existing_eq [OF ready]
        lift_result_apply split: if_splits)
  have gone: "branch_log (sw_store w2) s b = []"
    using deleted_log [OF assms(1) _ assms(4)] assms(2) w1 by simp
  obtain f where f: "file_save dir s (mgr_branch m) (ps_last_id p) p (sw_checkpoint w2) = Some (Inr (), f)"
    and w3: "w3 = w2\<lparr>sw_checkpoint := f\<rparr>"
    using assms(5) by (auto simp: checkpoint_write_part_def eff_bind_def on_checkpoint_def file_checkpoint_def
        split: option.splits sum.splits)
  have view: "fs_view (sw_checkpoint w3) (path_for dir s (mgr_branch m)) = Some (ps_last_id p, p)"
    using file_save_view [OF f] w3 by auto
  have "recover_from es (Some (ps_last_id p, p)) = Inr p"
    if "es \<noteq> []" "sorted (map ev_id es)" "ev_id (last es) = ps_last_id p" for es
  proof -
    have le: "ev_id e \<le> ps_last_id p" if "e \<in> set es" for e
      using that \<open>es \<noteq> []\<close> \<open>sorted (map ev_id es)\<close> \<open>ev_id (last es) = ps_last_id p\<close>
      by (induction es rule: rev_induct) (auto simp: sorted_append)
    then have "filter (\<lambda>e. ps_last_id p < ev_id e) es = []"
      by (auto simp: filter_empty_conv not_less)
    moreover have "\<not> list_ex (\<lambda>e. ps_last_id p < ev_id e \<and> is_snapshot (ev_payload e)) es"
      using le by (auto simp: list_ex_iff not_less)
    ultimately show ?thesis using that by (simp add: recover_from_def)
  qed
  with p gone view w3 show ?thesis by simp
qed


section \<open>Both at a concrete input\<close>

lemma demo_deletes: "delete_session demo_manager demo_session demo_created = Some (Inr (), demo_created\<lparr>sw_store := []\<rparr>)"
  by code_simp

theorem delete_between_tool_events_witness:
  "\<exists>turn w1 d w2 w3.
     tool_call_part demo_env demo_manager demo_session ''search'' JNull ''c1'' demo_created = Some (Inr turn, w1)
   \<and> delete_session demo_manager demo_session w1 = Some (d, w2)
   \<and> tool_result_part demo_env demo_manager demo_session ''c1'' ''none'' turn w2 = Some (Inr (), w3)
   \<and> assert_no_orphan_tool_results (branch_log (sw_store w3) demo_session ''main'') = Inr 1"
proof -
  have "\<exists>w1 d w2. tool_call_part demo_env demo_manager demo_session ''search'' JNull ''c1'' demo_created = Some (Inr 0, w1)
      \<and> delete_session demo_manager demo_session w1 = Some (d, w2)"
    by (intro exI conjI, code_simp, code_simp)
  then obtain w1 d w2 where call: "tool_call_part demo_env demo_manager demo_session ''search'' JNull ''c1'' demo_created
      = Some (Inr 0, w1)" and del: "delete_session demo_manager demo_session w1 = Some (d, w2)" by blast
  from delete_between_tool_events [OF demo_manager_simps(1) demo_created_wf(1) call del] call del
  show ?thesis by auto
qed

lemma demo_writes: "\<exists>w3. checkpoint_write_part demo_manager (file_checkpoint ''d'') demo_session p
    (demo_created\<lparr>sw_store := []\<rparr>) = Some (Inr True, w3)"
  by (simp add: checkpoint_write_part_def eff_bind_def on_checkpoint_def file_checkpoint_def file_save_def
      Let_def fs_create_dir_all_def fs_call_def tmp_path_def fs_write_def fs_rename_def demo_created_def
      demo_world_def)

theorem delete_between_checkpoint_parts_witness:
  "\<exists>p w3. checkpoint_read_part demo_manager demo_session demo_created = Some (Inr p, demo_created)
    \<and> checkpoint_write_part demo_manager (file_checkpoint ''d'') demo_session p (demo_created\<lparr>sw_store := []\<rparr>)
        = Some (Inr True, w3)
    \<and> branch_log (sw_store w3) demo_session ''main'' = []
    \<and> fs_view (sw_checkpoint w3) (path_for ''d'' demo_session ''main'') = Some (ps_last_id p, p)"
proof -
  obtain p where p: "project (branch_log (sw_store demo_created) demo_session ''main'') = Inr p"
    using demo_created_wf(2) by (simp add: project_eq)
  then have read: "checkpoint_read_part demo_manager demo_session demo_created = Some (Inr p, demo_created)"
    using demo_created_wf mem.read_existing_eq [of demo_manager demo_created demo_session]
    by (simp add: checkpoint_read_part_def eff_bind_def lift_result_apply)
  obtain w3 where "checkpoint_write_part demo_manager (file_checkpoint ''d'') demo_session p
      (demo_created\<lparr>sw_store := []\<rparr>) = Some (Inr True, w3)"
    using demo_writes by blast
  with delete_between_checkpoint_parts [OF demo_manager_simps(1) demo_created_wf(1) read demo_deletes this] read
  show ?thesis by auto
qed

end
