(* ===== verification/Ssrf_Address.thy ===== *)
theory Ssrf_Address
  imports Lc_Prelude "HOL-Library.Word"
begin

text \<open>
  The address classification behind the SSRF protection of \<open>lc-core\<close> (\<open>ssrf.rs\<close>): which IP
  addresses a guarded request may not be sent to. An \<open>Ipv4Addr\<close> is a 32-bit word and an \<open>Ipv6Addr\<close> a
  128-bit word; octets and segments are read off most significant first, as \<open>std::net\<close> does.

  The reference is a table of CIDR blocks. \<open>is_private_ipv4\<close> and \<open>is_private_ipv6\<close> are proved to
  decide membership in these tables, which makes visible where the code blocks more, or less, than
  the ranges its comments name.
\<close>

unbundle bit_operations_syntax

type_synonym ipv4_addr = "32 word"
type_synonym ipv6_addr = "128 word"

datatype ip_addr = V4 ipv4_addr | V6 ipv6_addr


section \<open>Addresses (\<open>std::net\<close>)\<close>

definition octet :: "ipv4_addr \<Rightarrow> nat \<Rightarrow> 8 word" where
  "octet v4 i = ucast (drop_bit (8 * (3 - i)) v4)"

definition segment :: "ipv6_addr \<Rightarrow> nat \<Rightarrow> 16 word" where
  "segment v6 i = ucast (drop_bit (16 * (7 - i)) v6)"

text \<open>\<open>Ipv6Addr::to_ipv4_mapped\<close>: the addresses \<open>::ffff:a.b.c.d\<close>.\<close>

definition to_ipv4_mapped :: "ipv6_addr \<Rightarrow> ipv4_addr option" where
  "to_ipv4_mapped v6 =
     (if (\<forall>i \<in> set [0..<5]. segment v6 i = 0) \<and> segment v6 5 = 0xffff
      then Some (push_bit 16 (ucast (segment v6 6)) OR ucast (segment v6 7)) else None)"

definition embedded_v4 :: "ipv6_addr \<Rightarrow> ipv4_addr" where
  "embedded_v4 v6 = push_bit 16 (ucast (segment v6 6)) OR ucast (segment v6 7)"


section \<open>Private addresses\<close>

definition is_private_ipv4 :: "ipv4_addr \<Rightarrow> bool" where
  "is_private_ipv4 v4 = (let a = octet v4 0; b = octet v4 1 in
     if a = 0 then True
     else if a = 10 then True
     else if a = 100 then b AND 0b11000000 = 0b01000000
     else if a = 127 then True
     else if a = 169 then b = 254
     else if a = 172 then 16 \<le> b \<and> b \<le> 31
     else if a = 192 \<and> b = 0 then True
     else if a = 192 \<and> b = 88 then True
     else if a = 192 \<and> b = 168 then True
     else if a = 198 then b AND 0xfe = 0x12 \<or> b = 51
     else if a = 203 \<and> b = 0 then octet v4 2 = 113
     else if 224 \<le> a then True
     else False)"

definition is_private_ipv6 :: "ipv6_addr \<Rightarrow> bool" where
  "is_private_ipv6 v6 =
     (if v6 = 1 then True
      else if segment v6 0 AND 0xfe00 = 0xfc00 then True
      else if segment v6 0 = 0xfe80 then True
      else if v6 = 0 then True
      else if segment v6 0 AND 0xffc0 = 0xfec0 then True
      else if segment v6 0 AND 0xff00 = 0xff00 then True
      else if segment v6 0 = 0x2001 \<and> segment v6 1 = 0x0db8 then True
      else if segment v6 0 = 0x2002 then True
      else if segment v6 0 = 0x0064 \<and> segment v6 1 = 0xff9b then is_private_ipv4 (embedded_v4 v6)
      else if list_all (\<lambda>i. segment v6 i = 0) [0..<6] \<and> (segment v6 6 \<noteq> 0 \<or> segment v6 7 \<noteq> 0)
      then is_private_ipv4 (embedded_v4 v6)
      else False)"

definition is_private_ip :: "ip_addr \<Rightarrow> bool" where
  "is_private_ip ip = (case ip of
      V4 v4 \<Rightarrow> if octet v4 0 = 0 then True else is_private_ipv4 v4
    | V6 v6 \<Rightarrow> (case to_ipv4_mapped v6 of
        Some v4 \<Rightarrow> if octet v4 0 = 0 then True else is_private_ipv4 v4
      | None \<Rightarrow> is_private_ipv6 v6))"


section \<open>CIDR blocks\<close>

text \<open>\<open>(net, n)\<close> is the block of the addresses that agree with \<open>net\<close> in their first \<open>n\<close> bits.\<close>

definition in_block :: "'l::len word \<Rightarrow> 'l word \<times> nat \<Rightarrow> bool" where
  "in_block a b = (drop_bit (LENGTH('l) - snd b) a = drop_bit (LENGTH('l) - snd b) (fst b))"

definition dotted :: "int \<Rightarrow> int \<Rightarrow> int \<Rightarrow> int \<Rightarrow> ipv4_addr" where
  "dotted a b c d = word_of_int (((a * 256 + b) * 256 + c) * 256 + d)"

definition grouped :: "int \<Rightarrow> int \<Rightarrow> ipv6_addr" where
  "grouped a b = word_of_int ((a * 65536 + b) * 2 ^ 96)"

definition blocked_v4 :: "(ipv4_addr \<times> nat) list" where
  "blocked_v4 = [(dotted 0 0 0 0, 8), (dotted 10 0 0 0, 8), (dotted 100 64 0 0, 10),
     (dotted 127 0 0 0, 8), (dotted 169 254 0 0, 16), (dotted 172 16 0 0, 12),
     (dotted 192 0 0 0, 16), (dotted 192 88 0 0, 16), (dotted 192 168 0 0, 16),
     (dotted 198 18 0 0, 15), (dotted 198 51 0 0, 16), (dotted 203 0 113 0, 24),
     (dotted 224 0 0 0, 3)]"

definition blocked_v6 :: "(ipv6_addr \<times> nat) list" where
  "blocked_v6 = [(0, 128), (1, 128), (grouped 0xfc00 0, 7), (grouped 0xfe80 0, 16),
     (grouped 0xfec0 0, 10), (grouped 0xff00 0, 8), (grouped 0x2001 0x0db8, 32),
     (grouped 0x2002 0, 16)]"

text \<open>Blocks whose addresses carry an IPv4 address in their last 32 bits.\<close>

definition embedding_v6 :: "(ipv6_addr \<times> nat) list" where
  "embedding_v6 = [(0xffff00000000, 96), (grouped 0x0064 0xff9b, 32), (0, 96)]"

text \<open>The special-purpose IPv4 blocks the comments of the code name (RFC 6890, RFC 5735).\<close>

definition special_v4 :: "(ipv4_addr \<times> nat) list" where
  "special_v4 = [(dotted 0 0 0 0, 8), (dotted 10 0 0 0, 8), (dotted 100 64 0 0, 10),
     (dotted 127 0 0 0, 8), (dotted 169 254 0 0, 16), (dotted 172 16 0 0, 12),
     (dotted 192 0 0 0, 24), (dotted 192 0 2 0, 24), (dotted 192 88 99 0, 24),
     (dotted 192 168 0 0, 16), (dotted 198 18 0 0, 15), (dotted 198 51 100 0, 24),
     (dotted 203 0 113 0, 24), (dotted 224 0 0 0, 4), (dotted 240 0 0 0, 4)]"


section \<open>Words as numbers\<close>

lemma uint_drop_bit: "uint (drop_bit n w) = uint w div 2 ^ n"
  unfolding unsigned_drop_bit_eq
  by (simp add: drop_bit_eq_div take_bit_int_eq_self)

lemma uint_octet: "uint (octet v i) = uint v div 2 ^ (8 * (3 - i)) mod 256"
  unfolding octet_def unsigned_ucast_eq uint_drop_bit by (simp add: take_bit_eq_mod)

lemma uint_segment: "uint (segment v i) = uint v div 2 ^ (16 * (7 - i)) mod 65536"
  unfolding segment_def unsigned_ucast_eq uint_drop_bit by (simp add: take_bit_eq_mod)

lemma in_block_iff:
  fixes a :: "'l::len word"
  shows "in_block a (net, n) \<longleftrightarrow>
    uint a div 2 ^ (LENGTH('l) - n) = uint net div 2 ^ (LENGTH('l) - n)"
  by (simp only: in_block_def word_uint_eq_iff uint_drop_bit fst_conv snd_conv)

lemma masked_eq_iff:
  fixes x :: "'l::len word"
  assumes "m = NOT (mask n)" and "y AND m = y"
  shows "x AND m = y \<longleftrightarrow> uint x div 2 ^ n = uint y div 2 ^ n"
proof -
  have top: "z AND m = push_bit n (drop_bit n z)" for z :: "'l word"
    unfolding assms(1) by (rule bit_eqI) (auto simp: bit_simps)
  have "drop_bit n (z AND m) = drop_bit n z" for z :: "'l word"
    unfolding assms(1) by (rule bit_eqI) (auto simp: bit_simps dest: bit_imp_le_length)
  then have "x AND m = y \<longleftrightarrow> drop_bit n x = drop_bit n y"
    using top assms(2) by metis
  then show ?thesis
    by (simp only: word_uint_eq_iff uint_drop_bit)
qed

lemma embedded_v4_eq: "embedded_v4 v6 = ucast v6"
proof (rule bit_eqI)
  fix n assume "possible_bit TYPE(32 word) n"
  then have "n < 32" by simp
  then show "bit (embedded_v4 v6) n = bit (ucast v6 :: 32 word) n"
   apply (auto simp: embedded_v4_def segment_def bit_simps)
  done
qed

lemma mask8: "(0b11000000 :: 8 word) = NOT (mask 6)" "(0xfe :: 8 word) = NOT (mask 1)"
  by (simp_all add: mask_eq_exp_minus_1)
lemma mask16: "(0xfe00 :: 16 word) = NOT (mask 9)" "(0xffc0 :: 16 word) = NOT (mask 6)"
  "(0xff00 :: 16 word) = NOT (mask 8)"
  by (simp_all add: mask_eq_exp_minus_1)

lemma uint_v4_bounds: "0 \<le> uint (v::ipv4_addr)" "uint (v::ipv4_addr) < 4294967296"
  using uint_lt2p [of v] by simp_all

lemma digits_eq:
  fixes q :: int
  assumes "0 \<le> r" and "r < k"
  shows "q * k + r = n \<longleftrightarrow> q = n div k \<and> r = n mod k"
  using assms by auto

lemma div_split:
  fixes y :: int
  assumes "0 < m" and "0 < k"
  shows "y div m = y div (m * k) * k + y mod (m * k) div m"
proof -
  have "y = (y div (m * k) * k) * m + y mod (m * k)"
    using mult_div_mod_eq [of "m * k" y] by (simp add: mult_ac)
  then have "y div m = ((y div (m * k) * k) * m + y mod (m * k)) div m" by (rule arg_cong)
  then show ?thesis using assms by simp
qed

lemma v4_div:
  fixes v :: ipv4_addr
  defines "x \<equiv> uint v" and "a \<equiv> uint (octet v 0)" and "b \<equiv> uint (octet v (Suc 0))"
    and "c \<equiv> uint (octet v 2)"
  shows "x div 16777216 = a" and "x div 4194304 = a * 4 + b div 64" and "x div 1048576 = a * 16 + b div 16"
    and "x div 131072 = a * 128 + b div 2" and "x div 65536 = a * 256 + b"
    and "x div 256 = (a * 256 + b) * 256 + c" and "x div 536870912 = a div 32"
proof -
  have "x div 16777216 < 256"
    using uint_v4_bounds [of v] unfolding x_def by linarith
  then have "x div 16777216 mod 256 = x div 16777216"
    unfolding x_def by (intro mod_pos_pos_trivial) (simp_all add: pos_imp_zdiv_nonneg_iff)
  then have a: "x div 16777216 = a" and b: "x div 65536 mod 256 = b" and c: "x div 256 mod 256 = c"
    by (simp_all add: a_def b_def c_def x_def uint_octet)
  have nest: "x div 4194304 = x div 65536 div 64" "x div 1048576 = x div 65536 div 16"
    "x div 131072 = x div 65536 div 2" "x div 65536 = x div 256 div 256"
    "x div 16777216 = x div 65536 div 256" "x div 536870912 = x div 16777216 div 32"
    by (simp_all flip: zdiv_zmult2_eq)
  have ab: "x div 65536 div 256 = a" using a nest(5) by simp
  show "x div 16777216 = a" by (rule a)
  show "x div 4194304 = a * 4 + b div 64" 
    using div_split [of 64 4 "x div 65536"] ab b unfolding nest(1) by simp
  show "x div 1048576 = a * 16 + b div 16"
    using div_split [of 16 16 "x div 65536"] ab b unfolding nest(2) by simp
  show "x div 131072 = a * 128 + b div 2"
    using div_split [of 2 128 "x div 65536"] ab b unfolding nest(3) by simp
  show two: "x div 65536 = a * 256 + b"
    using div_split [of 1 256 "x div 65536"] ab b by simp
  show "x div 256 = (a * 256 + b) * 256 + c"
    using div_split [of 1 256 "x div 256"] two c nest(4) by simp
  show "x div 536870912 = a div 32"
    unfolding nest(6) a ..
qed

lemma uint_dotted: "uint (dotted a b c d) = (((a * 256 + b) * 256 + c) * 256 + d) mod 4294967296"
  unfolding dotted_def uint_word_of_int_eq by (simp add: take_bit_eq_mod)

lemma is_private_ipv4_table: "is_private_ipv4 v \<longleftrightarrow> list_ex (in_block v) blocked_v4"
proof -
  define a b c where "a = uint (octet v 0)" and "b = uint (octet v (Suc 0))" and "c = uint (octet v 2)"
  have bounds: "0 \<le> a" "a < 256" "0 \<le> b" "b < 256" "0 \<le> c" "c < 256"
    using uint_lt2p [of "octet v 0"] uint_lt2p [of "octet v (Suc 0)"] uint_lt2p [of "octet v 2"]
    by (simp_all add: a_def b_def c_def)
  have R: "list_ex (in_block v) blocked_v4 \<longleftrightarrow>
     a = 0 \<or> a = 10 \<or> a * 4 + b div 64 = 401 \<or> a = 127 \<or> a * 256 + b = 43518 \<or> a * 16 + b div 16 = 2753
      \<or> a * 256 + b = 49152 \<or> a * 256 + b = 49240 \<or> a * 256 + b = 49320 \<or> a * 128 + b div 2 = 25353
      \<or> a * 256 + b = 50739 \<or> (a * 256 + b) * 256 + c = 13303921 \<or> a div 32 = 7"
    by (simp add: blocked_v4_def in_block_iff uint_dotted v4_div flip: a_def b_def c_def)
  have "(octet v (Suc 0) AND 0b11000000 = 0b01000000) \<longleftrightarrow> b div 64 = 1"
     "(octet v (Suc 0) AND 0xfe = 0x12) \<longleftrightarrow> b div 2 = 9"
    using masked_eq_iff [OF mask8(1), of "0b01000000" "octet v (Suc 0)"] masked_eq_iff [OF mask8(2), of "0x12" "octet v (Suc 0)"]
    by (simp_all add: b_def)
  then have L: "is_private_ipv4 v \<longleftrightarrow>
     a = 0 \<or> a = 10 \<or> a = 100 \<and> b div 64 = 1 \<or> a = 127 \<or> a = 169 \<and> b = 254 \<or> a = 172 \<and> 16 \<le> b \<and> b \<le> 31
      \<or> a = 192 \<and> b = 0 \<or> a = 192 \<and> b = 88 \<or> a = 192 \<and> b = 168 \<or> a = 198 \<and> (b div 2 = 9 \<or> b = 51)
      \<or> a = 203 \<and> b = 0 \<and> c = 113 \<or> 224 \<le> a"
    by (auto simp add: is_private_ipv4_def Let_def word_uint_eq_iff word_le_def a_def [symmetric] b_def [symmetric] c_def [symmetric])
  have "0 \<le> b div 64" "b div 64 < 4" "0 \<le> b div 16" "b div 16 < 16" "0 \<le> b div 2" "b div 2 < 128"
    "b div 16 = 1 \<longleftrightarrow> 16 \<le> b \<and> b \<le> 31" "a div 32 = 7 \<longleftrightarrow> 224 \<le> a"
    using bounds by auto
  then have R2: "a * 4 + b div 64 = 401 \<longleftrightarrow> a = 100 \<and> b div 64 = 1"
    "a * 16 + b div 16 = 2753 \<longleftrightarrow> a = 172 \<and> 16 \<le> b \<and> b \<le> 31"
    "a * 128 + b div 2 = 25353 \<longleftrightarrow> a = 198 \<and> b div 2 = 9" "a div 32 = 7 \<longleftrightarrow> 224 \<le> a"
    by (simp_all add: digits_eq)
  have two: "a * 256 + b = n \<longleftrightarrow> a = n div 256 \<and> b = n mod 256" for n
    using bounds(3,4) by (rule digits_eq)
  have R3: "(a * 256 + b) * 256 + c = 13303921 \<longleftrightarrow> a = 203 \<and> b = 0 \<and> c = 113"
    "a * 256 + b = 43518 \<longleftrightarrow> a = 169 \<and> b = 254" "a * 256 + b = 49152 \<longleftrightarrow> a = 192 \<and> b = 0"
    "a * 256 + b = 49240 \<longleftrightarrow> a = 192 \<and> b = 88" "a * 256 + b = 49320 \<longleftrightarrow> a = 192 \<and> b = 168"
    "a * 256 + b = 50739 \<longleftrightarrow> a = 198 \<and> b = 51"
    unfolding digits_eq [OF bounds(5,6)] two by simp_all
  show ?thesis
    unfolding L R R2 R3 by blast
qed

lemma v6_div:
  fixes v :: ipv6_addr
  defines "x \<equiv> uint v"
  shows "x div 2 ^ 112 = uint (segment v 0)"
    and "x div 2 ^ 121 = uint (segment v 0) div 512" and "x div 2 ^ 118 = uint (segment v 0) div 64"
    and "x div 2 ^ 120 = uint (segment v 0) div 256"
    and "x div 2 ^ 96 = uint (segment v 0) * 65536 + uint (segment v (Suc 0))"
proof -
  have "x div 2 ^ 112 < 65536"
    using uint_lt2p [of v] unfolding x_def by simp
  then have "x div 2 ^ 112 mod 65536 = x div 2 ^ 112"
    unfolding x_def by (intro mod_pos_pos_trivial) (simp_all add: pos_imp_zdiv_nonneg_iff)
  then show a: "x div 2 ^ 112 = uint (segment v 0)"
    by (simp add: x_def uint_segment)
  have nest: "x div 2 ^ 121 = x div 2 ^ 112 div 512" "x div 2 ^ 118 = x div 2 ^ 112 div 64"
    "x div 2 ^ 120 = x div 2 ^ 112 div 256" "x div 2 ^ 112 = x div 2 ^ 96 div 65536"
    by (simp_all flip: zdiv_zmult2_eq)
  show "x div 2 ^ 121 = uint (segment v 0) div 512" "x div 2 ^ 118 = uint (segment v 0) div 64"
    "x div 2 ^ 120 = uint (segment v 0) div 256"
    unfolding nest(1-3) a by (rule refl)+
  show "x div 2 ^ 96 = uint (segment v 0) * 65536 + uint (segment v (Suc 0))"
    using div_split [of 1 65536 "x div 2 ^ 96"] a nest(4) by (simp add: x_def uint_segment)
qed

lemma uint_grouped: "uint (grouped a b) = ((a * 65536 + b) * 2 ^ 96) mod 2 ^ 128"
  unfolding grouped_def uint_word_of_int_eq by (simp add: take_bit_eq_mod)

lemma high_bits_eq:
  "uint v div 2 ^ (16 * (6 - i)) = n \<longleftrightarrow>
     uint v div 2 ^ (16 * (7 - i)) = n div 65536 \<and> uint (segment v (Suc i)) = n mod 65536" if "i < 7"
proof -
  have "uint v div 2 ^ (16 * (7 - i)) = uint v div 2 ^ (16 * (6 - i)) div 65536"
  proof -
    have "16 * (7 - i) = 16 * (6 - i) + 16" using that by simp
    then show ?thesis by (simp only: power_add) (simp flip: zdiv_zmult2_eq)
  qed
  moreover have "uint (segment v (Suc i)) = uint v div 2 ^ (16 * (6 - i)) mod 65536"
    by (simp add: uint_segment)
  ultimately show ?thesis
    by (metis mult_div_mod_eq)
qed

lemma upper_segments:
  "uint v div 2 ^ 32 = n \<longleftrightarrow>
     uint (segment v 0) = n div 65536 div 65536 div 65536 div 65536 div 65536
      \<and> uint (segment v 1) = n div 65536 div 65536 div 65536 div 65536 mod 65536
      \<and> uint (segment v 2) = n div 65536 div 65536 div 65536 mod 65536
      \<and> uint (segment v 3) = n div 65536 div 65536 mod 65536
      \<and> uint (segment v 4) = n div 65536 mod 65536 \<and> uint (segment v 5) = n mod 65536"
  using high_bits_eq [of 0 v] high_bits_eq [of 1 v] high_bits_eq [of 2 v] high_bits_eq [of 3 v]
    high_bits_eq [of 4 v] v6_div(1) [of v]
  by (simp add: eval_nat_numeral) 

lemma all_segments_zero:
  assumes "uint v div 2 ^ 32 = 0" and "segment v 6 = 0" and "segment v 7 = 0"
  shows "v = 0"
  using high_bits_eq [of 5 v 0] high_bits_eq [of 6 v 0] assms
  by (simp add: word_uint_eq_iff)

lemma segment_lists: "[0..<5] = [0, 1, 2, 3, 4::nat]" "[0..<6] = [0, 1, 2, 3, 4, 5::nat]"
  by code_simp+

lemma in_block_two_segments:
  assumes "0 \<le> a" "a < 65536" "0 \<le> b" "b < 65536"
  shows "in_block v (grouped a b, 32) \<longleftrightarrow> uint (segment v 0) = a \<and> uint (segment v 1) = b"
proof -
  have ab: "0 \<le> a * 65536 + b" "a * 65536 + b < 65536 * 65536"
    using assms by linarith+
  have "uint (grouped a b) = (a * 65536 + b) * 2 ^ 96"
    unfolding uint_grouped using ab by (intro mod_pos_pos_trivial) simp_all
  moreover have "uint (segment v 0) * 65536 + uint (segment v 1) = a * 65536 + b \<longleftrightarrow>
     uint (segment v 0) = a \<and> uint (segment v 1) = b"
    using digits_eq [of "uint (segment v 1)" 65536 "uint (segment v 0)" "a * 65536 + b"] 
      uint_lt2p [of "segment v 1"] assms by simp
  ultimately show ?thesis
    using v6_div(5) [of v] by (simp add: in_block_iff mult.commute)
qed

lemma in_blocked_v6:
  "list_ex (in_block v) blocked_v6 \<longleftrightarrow>
     v = 0 \<or> v = 1 \<or> segment v 0 AND 0xfe00 = 0xfc00 \<or> segment v 0 = 0xfe80
      \<or> segment v 0 AND 0xffc0 = 0xfec0 \<or> segment v 0 AND 0xff00 = 0xff00
      \<or> segment v 0 = 0x2001 \<and> segment v 1 = 0x0db8 \<or> segment v 0 = 0x2002"
proof -
  have whole: "in_block v (0, 128) \<longleftrightarrow> v = 0" "in_block v (1, 128) \<longleftrightarrow> v = 1"
    by (simp_all add: in_block_def)
  have masked: "segment v 0 AND 0xfe00 = 0xfc00 \<longleftrightarrow> in_block v (grouped 0xfc00 0, 7)"
    "segment v 0 AND 0xffc0 = 0xfec0 \<longleftrightarrow> in_block v (grouped 0xfec0 0, 10)"
    "segment v 0 AND 0xff00 = 0xff00 \<longleftrightarrow> in_block v (grouped 0xff00 0, 8)"
    using masked_eq_iff [OF mask16(1), of "0xfc00" "segment v 0"]
      masked_eq_iff [OF mask16(2), of "0xfec0" "segment v 0"]
      masked_eq_iff [OF mask16(3), of "0xff00" "segment v 0"] v6_div(2,3,4) [of v]
    by (simp_all add: in_block_iff uint_grouped)
  have one: "in_block v (grouped 0xfe80 0, 16) \<longleftrightarrow> segment v 0 = 0xfe80"
    "in_block v (grouped 0x2002 0, 16) \<longleftrightarrow> segment v 0 = 0x2002"
    using v6_div(1) [of v] by (simp_all add: in_block_iff uint_grouped word_uint_eq_iff)
  have two: "in_block v (grouped 0x2001 0x0db8, 32) \<longleftrightarrow> segment v 0 = 0x2001 \<and> segment v 1 = 0x0db8"
    by (simp add: in_block_two_segments word_uint_eq_iff)
  show ?thesis
    unfolding blocked_v6_def masked by (simp add: whole one two)
qed

lemma in_embedding_v6:
  "list_ex (in_block v) embedding_v6 \<longleftrightarrow>
     (\<forall>i \<in> set [0..<5]. segment v i = 0) \<and> segment v 5 = 0xffff
      \<or> segment v 0 = 0x0064 \<and> segment v 1 = 0xff9b
      \<or> list_all (\<lambda>i. segment v i = 0) [0..<6]"
proof -
  have two: "in_block v (grouped 0x0064 0xff9b, 32) \<longleftrightarrow> segment v 0 = 0x0064 \<and> segment v 1 = 0xff9b"
    by (simp add: in_block_two_segments word_uint_eq_iff)
  have upper: "in_block v (0xffff00000000, 96) \<longleftrightarrow> (\<forall>i \<in> set [0..<5]. segment v i = 0) \<and> segment v 5 = 0xffff"
    "in_block v (0, 96) \<longleftrightarrow> list_all (\<lambda>i. segment v i = 0) [0..<6]"
    using upper_segments [of v "0xffff"] upper_segments [of v 0]
    by (simp_all add: in_block_iff word_uint_eq_iff segment_lists)
  show ?thesis
    unfolding embedding_v6_def by (simp only: list_ex_iff list.set bex_simps two upper) blast
qed

lemma private_ipv6_table:
  "is_private_ip (V6 v) \<longleftrightarrow> list_ex (in_block v) blocked_v6
     \<or> list_ex (in_block v) embedding_v6 \<and> list_ex (in_block (ucast v)) blocked_v4"
proof -
  have not_zero: "is_private_ipv4 u" if "octet u 0 = 0" for u
    using that by (simp add: is_private_ipv4_def)
  have zero: "v = 0" if "list_all (\<lambda>i. segment v i = 0) [0..<6]" "segment v 6 = 0" "segment v 7 = 0"
    using that upper_segments [of v 0] by (intro all_segments_zero) (simp_all add: segment_lists)
  have mapped: "to_ipv4_mapped v = (if (\<forall>i \<in> set [0..<5]. segment v i = 0) \<and> segment v 5 = 0xffff
      then Some (ucast v) else None)"
    unfolding to_ipv4_mapped_def embedded_v4_def [symmetric] embedded_v4_eq ..
  show ?thesis
  proof (cases "(\<forall>i \<in> set [0..<5]. segment v i = 0) \<and> segment v 5 = 0xffff")
    case True
    then have "segment v 0 = 0" by simp
    moreover have "v \<noteq> 0" "v \<noteq> 1" using True by (auto simp: segment_def)
    ultimately have "\<not> list_ex (in_block v) blocked_v6" by (simp add: in_blocked_v6)
    moreover have "list_ex (in_block v) embedding_v6" unfolding in_embedding_v6 using True by blast
    moreover have "is_private_ip (V6 v) \<longleftrightarrow> is_private_ipv4 (ucast v)"
      using True not_zero by (simp add: is_private_ip_def mapped)
    ultimately show ?thesis by (simp add: is_private_ipv4_table)
  next
    case False
    then have "to_ipv4_mapped v = None" by (simp add: mapped)
    then have "is_private_ip (V6 v) = is_private_ipv6 v" by (simp add: is_private_ip_def)
    then show ?thesis
      unfolding in_blocked_v6 in_embedding_v6 is_private_ipv4_table [symmetric] is_private_ipv6_def embedded_v4_eq
      using False zero by argo
  qed
qed

text \<open>A block inside a block, and the documented IPv4 ranges.\<close>

lemma in_block_mono:
  fixes a :: "'l::len word"
  assumes "in_block a (net, n)" and "in_block net (net', n')" and "n' \<le> n" and "n \<le> LENGTH('l)"
  shows "in_block a (net', n')"
proof -
  have "drop_bit (LENGTH('l) - n') x = drop_bit (n - n') (drop_bit (LENGTH('l) - n) x)" for x :: "'l word"
    using assms(3,4) by (simp add: drop_bit_drop_bit)
  then show ?thesis using assms(1,2) unfolding in_block_def fst_conv snd_conv by metis
qed

lemma special_v4_refused:
  assumes "list_ex (in_block v) special_v4"
  shows "is_private_ip (V4 v)"
proof -
  have "\<exists>s \<in> set special_v4. in_block v s"
    using assms by (simp add: list_ex_iff)
  then obtain net n where s: "(net, n) \<in> set special_v4" "in_block v (net, n)" by auto
  have cover: "list_all (\<lambda>(net, n). n \<le> 32 \<and> list_ex (\<lambda>(net', n'). n' \<le> n \<and> in_block net (net', n')) blocked_v4) special_v4"
    by (simp add: special_v4_def blocked_v4_def in_block_iff uint_dotted)
  then obtain net' n' where "(net', n') \<in> set blocked_v4" "n' \<le> n" "in_block net (net', n')" "n \<le> 32"
    using s(1) by (fastforce simp: list_all_iff list_ex_iff)
  then have "list_ex (in_block v) blocked_v4"
    using in_block_mono [OF s(2)] by (fastforce simp: list_ex_iff)
  then show ?thesis
    by (simp add: is_private_ip_def flip: is_private_ipv4_table)
qed

text \<open>The two directions in which the code and its comments part: a public host the code refuses,
  and a link-local address it admits.\<close>

lemma table_gaps:
  "is_private_ip (V4 (dotted 192 0 43 10))" "\<not> list_ex (in_block (dotted 192 0 43 10)) special_v4"
  "in_block (grouped 0xfe90 0) (grouped 0xfe80 0, 10)" "\<not> is_private_ip (V6 (grouped 0xfe90 0))"
  by code_simp+

text \<open>
  The NAT64 prefix: the comment and the test of the code name \<open>64:ff9b::/96\<close>, the code looks at the
  first two groups only and so takes all of \<open>64:ff9b::/32\<close> for it. An address of the difference.
\<close>

lemma nat64_gap:
  defines "a \<equiv> grouped 0x0064 0xff9b + 0x1000000000000000a000001"
  shows "in_block a (grouped 0x0064 0xff9b, 32)" "\<not> in_block a (grouped 0x0064 0xff9b, 96)"
    "is_private_ip (V6 a)"
  unfolding a_def by code_simp+

text \<open>
  C16. An address is refused exactly when it lies in one of the listed CIDR blocks, or lies in one of
  three IPv6 blocks and its last 32 bits, read as an IPv4 address, do. The tables are those of the
  code, which in two places are not those of its comments: of the link-local block \<open>fe80::/10\<close> only
  \<open>fe80::/16\<close> is listed, and the NAT64 block is \<open>64:ff9b::/32\<close>, where the comment and the test name
  \<open>64:ff9b::/96\<close> (see \<open>table_gaps\<close> and \<open>nat64_gap\<close>).
\<close>

theorem is_private_ip_table:
  "is_private_ip ip \<longleftrightarrow> (case ip of
      V4 v4 \<Rightarrow> list_ex (in_block v4) blocked_v4
    | V6 v6 \<Rightarrow> list_ex (in_block v6) blocked_v6
        \<or> list_ex (in_block v6) embedding_v6 \<and> list_ex (in_block (ucast v6)) blocked_v4)"
proof (cases ip)
  case (V4 v)
  have "is_private_ip (V4 v) \<longleftrightarrow> is_private_ipv4 v"
    by (simp add: is_private_ip_def is_private_ipv4_def)
  then show ?thesis by (simp add: V4 is_private_ipv4_table)
next
  case (V6 v)
  then show ?thesis by (simp add: private_ipv6_table)
qed

end
