(* ===== verification/Utf8.thy ===== *)
theory Utf8
  imports Main
begin

text \<open>
  UTF-8 as Rust's \<open>core::str\<close> has it, on lists of bytes: validation (\<open>from_utf8\<close>, \<open>valid_up_to\<close>) and the
  lossy conversion, which puts the replacement character in the place of each invalid sequence.
\<close>

text \<open>
  \<open>utf8_follow b\<close> has the ranges of the bytes that must follow the
  first byte \<open>b\<close> of a character.
\<close>

definition utf8_follow :: "int \<Rightarrow> (int \<times> int) list option" where
  "utf8_follow b =
     (if b < 0x80 then Some []
      else if 0xc2 \<le> b \<and> b \<le> 0xdf then Some [(0x80, 0xbf)]
      else if b = 0xe0 then Some [(0xa0, 0xbf), (0x80, 0xbf)]
      else if b = 0xed then Some [(0x80, 0x9f), (0x80, 0xbf)]
      else if 0xe1 \<le> b \<and> b \<le> 0xef then Some [(0x80, 0xbf), (0x80, 0xbf)]
      else if b = 0xf0 then Some [(0x90, 0xbf), (0x80, 0xbf), (0x80, 0xbf)]
      else if 0xf1 \<le> b \<and> b \<le> 0xf3 then Some [(0x80, 0xbf), (0x80, 0xbf), (0x80, 0xbf)]
      else if b = 0xf4 then Some [(0x80, 0x8f), (0x80, 0xbf), (0x80, 0xbf)]
      else None)"

fun utf8_match :: "(int \<times> int) list \<Rightarrow> string \<Rightarrow> nat" where
  "utf8_match ((lo, hi) # rs) (c # cs) =
     (if lo \<le> of_char c \<and> of_char c \<le> hi then Suc (utf8_match rs cs) else 0)"
| "utf8_match rs cs = 0"

text \<open>Whether the bytes begin with a character, and the length of it or of the invalid sequence.\<close>

definition utf8_step :: "char \<Rightarrow> string \<Rightarrow> bool \<times> nat" where
  "utf8_step c cs = (case utf8_follow (of_char c) of
      None \<Rightarrow> (False, 1)
    | Some rs \<Rightarrow> let k = utf8_match rs cs in (k = length rs, Suc k))"

function valid_up_to :: "string \<Rightarrow> nat" where
  "valid_up_to [] = 0"
| "valid_up_to (c # cs) = (case utf8_step c cs of
      (valid, n) \<Rightarrow> if valid then n + valid_up_to (drop n (c # cs)) else 0)"
  by pat_completeness auto

function from_utf8_lossy :: "string \<Rightarrow> string" where
  "from_utf8_lossy [] = []"
| "from_utf8_lossy (c # cs) = (case utf8_step c cs of
      (valid, n) \<Rightarrow> (if valid then take n (c # cs) else [CHR 0xEF, CHR 0xBF, CHR 0xBD])
        @ from_utf8_lossy (drop n (c # cs)))"
  by pat_completeness auto

lemma utf8_step_pos: "utf8_step c cs = (v, n) \<Longrightarrow> 0 < n"
  by (auto simp: utf8_step_def Let_def split: option.splits)

termination valid_up_to
  by (relation "measure length") (auto dest!: sym [of "(_, _)"] utf8_step_pos simp: neq0_conv)

termination from_utf8_lossy
  by (relation "measure length") (auto dest!: sym [of "(_, _)"] utf8_step_pos)

definition from_utf8 :: "string \<Rightarrow> nat + string" where
  "from_utf8 bytes = (if valid_up_to bytes = length bytes then Inr bytes else Inl (valid_up_to bytes))"


section \<open>UTF-8\<close>

definition is_utf8 :: "string \<Rightarrow> bool" where
  "is_utf8 bs \<longleftrightarrow> valid_up_to bs = length bs"

lemma utf8_match_le: "utf8_match rs cs \<le> length rs" "utf8_match rs cs \<le> length cs"
  by (induction rs cs rule: utf8_match.induct) auto

lemma utf8_match_append: "utf8_match rs cs = length rs \<Longrightarrow> utf8_match rs (cs @ ds) = length rs"
  by (induction rs cs rule: utf8_match.induct) (auto split: if_splits)

lemma utf8_match_take: "utf8_match rs (take k cs) = min k (utf8_match rs cs)"
  by (induction rs cs arbitrary: k rule: utf8_match.induct) (auto simp: take_Cons split: nat.splits)

lemma utf8_follow_le: "utf8_follow b = Some rs \<Longrightarrow> length rs \<le> 3"
  by (auto simp: utf8_follow_def split: if_splits)

lemma utf8_step_le: "utf8_step c cs = (v, n) \<Longrightarrow> n \<le> Suc (length cs) \<and> n \<le> 4"
proof (cases "utf8_follow (of_char c)")
  case (Some rs)
  assume "utf8_step c cs = (v, n)"
  then have "n = Suc (utf8_match rs cs)" by (simp add: utf8_step_def Let_def Some)
  then show ?thesis
    using utf8_match_le [of rs cs] utf8_follow_le [OF Some] by simp
qed (simp add: utf8_step_def)

lemma utf8_step_append: "utf8_step c cs = (True, n) \<Longrightarrow> utf8_step c (cs @ ds) = (True, n)"
  by (auto simp: utf8_step_def Let_def utf8_match_append split: option.splits)

lemma utf8_step_take:
  "utf8_step c cs = (True, n) \<Longrightarrow>
     (if n \<le> Suc k then utf8_step c (take k cs) = (True, n) else \<not> fst (utf8_step c (take k cs)))"
  by (auto simp: utf8_step_def Let_def utf8_match_take split: option.splits)

lemma valid_up_to_Cons:
  "valid_up_to (c # cs) = (if fst (utf8_step c cs)
     then snd (utf8_step c cs) + valid_up_to (drop (snd (utf8_step c cs)) (c # cs)) else 0)"
  by (simp split: prod.splits)

declare valid_up_to.simps(2) [simp del]

lemma drop_step_less: "utf8_step c cs = (v, n) \<Longrightarrow> length (drop n (c # cs)) < length (c # cs)"
  using utf8_step_pos [of c cs v n] by simp

lemma valid_up_to_le: "valid_up_to bs \<le> length bs"
proof (induction bs rule: length_induct)
  case (1 bs)
  show ?case
  proof (cases bs)
    case (Cons c cs)
    obtain v n where st: "utf8_step c cs = (v, n)" by (cases "utf8_step c cs")
    then have "valid_up_to (drop n (c # cs)) \<le> length (drop n (c # cs))"
      using 1 drop_step_less [OF st] Cons by blast
    then show ?thesis using utf8_step_le [OF st] by (auto simp: Cons valid_up_to_Cons st)
  qed simp
qed

lemma is_utf8_Cons:
  "is_utf8 (c # cs) \<longleftrightarrow> (\<exists>n. utf8_step c cs = (True, n) \<and> is_utf8 (drop n (c # cs)))"
proof (cases "utf8_step c cs")
  case (Pair v n)
  show ?thesis
    using utf8_step_le [OF Pair] by (auto simp: is_utf8_def valid_up_to_Cons Pair)
qed

lemma is_utf8_Nil [simp]: "is_utf8 []"
  by (simp add: is_utf8_def)

lemma is_utf8_append: "is_utf8 xs \<Longrightarrow> is_utf8 ys \<Longrightarrow> is_utf8 (xs @ ys)"
proof (induction xs rule: length_induct)
  case (1 xs)
  show ?case
  proof (cases xs)
    case (Cons c cs)
    then obtain n where st: "utf8_step c cs = (True, n)" and rest: "is_utf8 (drop n (c # cs))"
      using 1 is_utf8_Cons by blast
    have "is_utf8 (drop n (c # cs) @ ys)"
      using 1 drop_step_less [OF st] rest Cons by blast
    then have "is_utf8 (drop n ((c # cs) @ ys))"
      using utf8_step_le [OF st] by (simp only: drop_append) simp
    then show ?thesis
      using utf8_step_append [OF st, of ys] is_utf8_Cons [of c "cs @ ys"] Cons by auto
  qed (use 1 in simp)
qed

lemma is_utf8_char: "utf8_step c cs = (True, n) \<Longrightarrow> is_utf8 (take n (c # cs))"
  using utf8_step_take [of c cs n "n - 1"] utf8_step_pos [of c cs True n]
  by (cases n) (auto simp: is_utf8_Cons)

lemma is_utf8_replacement: "is_utf8 [CHR 0xEF, CHR 0xBF, CHR 0xBD]"
  by code_simp

lemma from_utf8_lossy_is_utf8: "is_utf8 (from_utf8_lossy bs)"
proof (induction bs rule: length_induct)
  case (1 bs)
  show ?case
  proof (cases bs)
    case (Cons c cs)
    obtain v n where st: "utf8_step c cs = (v, n)" by (cases "utf8_step c cs")
    then have "is_utf8 (from_utf8_lossy (drop n (c # cs)))"
      using 1 drop_step_less [OF st] Cons by blast
    moreover have "is_utf8 (if v then take n (c # cs) else [CHR 0xEF, CHR 0xBF, CHR 0xBD])"
      using is_utf8_char [of c cs n] st is_utf8_replacement by auto
    ultimately show ?thesis using is_utf8_append by (simp add: Cons st)
  qed simp
qed

lemma from_utf8_lossy_valid: "is_utf8 bs \<Longrightarrow> from_utf8_lossy bs = bs"
proof (induction bs rule: length_induct)
  case (1 bs)
  show ?case
  proof (cases bs)
    case (Cons c cs)
    then obtain n where st: "utf8_step c cs = (True, n)" and rest: "is_utf8 (drop n (c # cs))"
      using 1 is_utf8_Cons by blast
    then have "from_utf8_lossy (drop n (c # cs)) = drop n (c # cs)"
      using 1 drop_step_less [OF st] Cons by blast
    then show ?thesis by (simp add: Cons st)
  qed simp
qed

text \<open>The valid part of a string is valid, and a cut of a valid string loses less than a character.\<close>

lemma is_utf8_valid_part: "is_utf8 (take (valid_up_to bs) bs)"
proof (induction bs rule: length_induct)
  case (1 bs)
  show ?case
  proof (cases bs)
    case (Cons c cs)
    obtain v n where st: "utf8_step c cs = (v, n)" by (cases "utf8_step c cs")
    show ?thesis
    proof (cases v)
      case True
      let ?rest = "drop n (c # cs)"
      have "is_utf8 (take (valid_up_to ?rest) ?rest)"
        using 1 drop_step_less [OF st] Cons by blast
      moreover have "is_utf8 (take n (c # cs))" using is_utf8_char st True by simp
      ultimately have "is_utf8 (take n (c # cs) @ take (valid_up_to ?rest) ?rest)"
        by (rule is_utf8_append [rotated])
      then show ?thesis using st True utf8_step_le [OF st] by (simp add: Cons valid_up_to_Cons take_add)
    qed (simp add: Cons valid_up_to_Cons st)
  qed simp
qed

lemma valid_up_to_cut:
  assumes "is_utf8 bs" and "k \<le> length bs"
  shows "k < valid_up_to (take k bs) + 4"
  using assms
proof (induction bs arbitrary: k rule: length_induct)
  case (1 bs)
  show ?case
  proof (cases bs)
    case (Cons c cs)
    then obtain n where st: "utf8_step c cs = (True, n)" and rest: "is_utf8 (drop n (c # cs))"
      using 1 is_utf8_Cons by blast
    show ?thesis
    proof (cases "n \<le> k")
      case True
      then obtain j where k: "k = Suc j" using utf8_step_pos [OF st] by (cases k) auto
      have "k - n < valid_up_to (take (k - n) (drop n (c # cs))) + 4"
        using 1 drop_step_less [OF st] rest Cons by (metis diff_le_mono length_drop)
      moreover have "utf8_step c (take j cs) = (True, n)"
        using utf8_step_take [OF st, of j] True k by simp
      moreover have "drop n (take k (c # cs)) = take (k - n) (drop n (c # cs))"
        by (simp only: drop_take)
      ultimately show ?thesis using True by (simp add: Cons k valid_up_to_Cons)
    qed (use utf8_step_le [OF st] in linarith)
  qed (use 1 in simp)
qed

text \<open>No longer prefix is valid.\<close>

lemma is_utf8_le_valid: "is_utf8 xs \<Longrightarrow> length xs \<le> valid_up_to (xs @ ys)"
proof (induction xs rule: length_induct)
  case (1 xs)
  show ?case
  proof (cases xs)
    case (Cons c cs)
    then obtain n where st: "utf8_step c cs = (True, n)" and rest: "is_utf8 (drop n (c # cs))"
      using 1 is_utf8_Cons by blast
    have "length (drop n (c # cs)) \<le> valid_up_to (drop n (c # cs) @ ys)"
      using 1 drop_step_less [OF st] rest Cons by blast
    also have "drop n (c # cs) @ ys = drop n ((c # cs) @ ys)"
      using utf8_step_le [OF st] by (simp only: drop_append) simp
    finally show ?thesis
      using utf8_step_append [OF st, of ys] by (simp add: Cons valid_up_to_Cons)
  qed simp
qed

lemma valid_up_to_longest: "is_utf8 (take j bs) \<Longrightarrow> j \<le> length bs \<Longrightarrow> j \<le> valid_up_to bs"
  using is_utf8_le_valid [of "take j bs" "drop j bs"] by simp

end
