(* ===== verification/Guarded_Fetch.thy ===== *)
theory Guarded_Fetch
  imports Ssrf_Address Json_Value Utf8
begin

text \<open>
  The guarded requests of \<open>lc-core\<close> (\<open>ssrf.rs\<close>): parse, resolve once, refuse when any address is
  private, pin the addresses on a one-shot client, send, follow redirects by hand; and the bounded
  reading of a response body.

  The \<open>url\<close> crate, the resolver of \<open>tokio\<close> and \<open>reqwest\<close> are parameters (\<open>network\<close>). The resolver and
  the sender act on a state of their own, so that two lookups of a name may well give different
  answers. What the code relies on is stated by \<open>url_contract\<close> and \<open>reqwest_contract\<close>.
\<close>

section \<open>The outside\<close>

datatype tool_error = InvalidInput string | ExecutionFailed string | Timeout nat | ToolNotFound string
  | McpError int string "json option" | ControlAbort string | PermissionDenied string

datatype url_host = Domain_Host string | Ipv4_Host ipv4_addr | Ipv6_Host ipv6_addr

record socket_addr =
  sa_ip :: ip_addr
  sa_port :: nat

record 'u url_api =
  url_parse :: "string \<Rightarrow> string + 'u"
  url_join :: "'u \<Rightarrow> string \<Rightarrow> string + 'u"
  url_scheme :: "'u \<Rightarrow> string"
  url_host_of :: "'u \<Rightarrow> url_host option"
  url_host_str :: "'u \<Rightarrow> string option"
  url_port_or_known_default :: "'u \<Rightarrow> nat option"
  url_to_string :: "'u \<Rightarrow> string"

text \<open>The settings of a \<open>reqwest::Client\<close> that the code sets; \<open>client_builder\<close> has the defaults.\<close>

record http_client =
  hc_follow_redirects :: bool
  hc_timeout :: "nat option"
  hc_proxy :: bool
  hc_resolve :: "(string \<times> socket_addr list) list"

definition client_builder :: http_client where
  "client_builder = \<lparr>hc_follow_redirects = True, hc_timeout = None, hc_proxy = True, hc_resolve = []\<rparr>"

datatype http_body = No_Body | Json_Body json | Form_Body "(string \<times> string) list"

record http_request =
  rq_url :: string
  rq_body :: http_body

record http_response =
  rs_status :: nat
  rs_location :: "string option"
  rs_chunks :: "(string + string) list"

record ('u, 'x) network =
  net_url :: "'u url_api"
  net_lookup_host :: "string \<Rightarrow> nat \<Rightarrow> ('x, string, socket_addr list) eff"
  net_build :: "http_client \<Rightarrow> string option"
  net_send :: "http_client \<Rightarrow> http_request \<Rightarrow> ('x, string, http_response) eff"
  net_show_ip :: "ip_addr \<Rightarrow> string"


section \<open>Guarded requests\<close>

definition DEFAULT_GUARDED_TIMEOUT :: nat where
  "DEFAULT_GUARDED_TIMEOUT = 30"

definition MAX_REDIRECTS :: nat where
  "MAX_REDIRECTS = 10"

definition MAX_FETCH_BYTES :: nat where
  "MAX_FETCH_BYTES = 50 * 1024 * 1024"

definition parse_http_url :: "'u url_api \<Rightarrow> string \<Rightarrow> tool_error + 'u" where
  "parse_http_url api url = (case url_parse api url of
      Inl e \<Rightarrow> Inl (InvalidInput (''Invalid URL: '' @ e))
    | Inr parsed \<Rightarrow>
        if url_scheme api parsed \<notin> {''http'', ''https''}
        then Inl (InvalidInput (''URL scheme not supported: '' @ url_scheme api parsed))
        else if url_host_str api parsed = None then Inl (InvalidInput ''URL has no host'')
        else Inr parsed)"

definition resolve_url_addrs :: "('u, 'x) network \<Rightarrow> 'u \<Rightarrow> ('x, tool_error, socket_addr list) eff" where
  "resolve_url_addrs net parsed = (
     let port = (case url_port_or_known_default (net_url net) parsed of Some p \<Rightarrow> p | None \<Rightarrow> 80) in
     case url_host_of (net_url net) parsed of
       Some (Ipv4_Host ip) \<Rightarrow> ok [\<lparr>sa_ip = V4 ip, sa_port = port\<rparr>]
     | Some (Ipv6_Host ip) \<Rightarrow> ok [\<lparr>sa_ip = V6 ip, sa_port = port\<rparr>]
     | Some (Domain_Host host) \<Rightarrow>
         eff_bind
           (eff_map_err (\<lambda>e. ExecutionFailed (''DNS resolution failed for '' @ host @ '': '' @ e))
             (net_lookup_host net host port))
           (\<lambda>addrs. if addrs = []
             then err (ExecutionFailed (''DNS resolution returned no addresses for '' @ host))
             else ok addrs)
     | None \<Rightarrow> err (InvalidInput ''URL has no host''))"

definition url_points_to_private_ip :: "('u, 'x) network \<Rightarrow> string \<Rightarrow> ('x, tool_error, bool) eff" where
  "url_points_to_private_ip net url =
     eff_bind (lift_result (parse_http_url (net_url net) url)) (\<lambda>parsed.
     eff_bind (resolve_url_addrs net parsed) (\<lambda>addrs.
     ok (list_ex (\<lambda>sa. is_private_ip (sa_ip sa)) addrs)))"

definition ensure_all_public :: "('u, 'x) network \<Rightarrow> socket_addr list \<Rightarrow> tool_error + unit" where
  "ensure_all_public net addrs = (case find is_private_ip (map sa_ip addrs) of
      Some bad \<Rightarrow> Inl (ExecutionFailed (''Request to private/internal IP address ('' @ net_show_ip net bad
        @ '') is blocked by SSRF protection. Call .with_allow_private_ips(true) to allow.''))
    | None \<Rightarrow> Inr ())"

text \<open>The host is known to be present when a client is built; the outer \<open>option\<close> is the \<open>expect\<close>.\<close>

definition pinned_client ::
  "('u, 'x) network \<Rightarrow> 'u \<Rightarrow> socket_addr list \<Rightarrow> nat option \<Rightarrow> (tool_error + http_client) option" where
  "pinned_client net parsed addrs timeout = (
     let builder = client_builder\<lparr>hc_follow_redirects := False\<rparr>;
         builder = builder\<lparr>hc_timeout := Some (case timeout of Some t \<Rightarrow> t | None \<Rightarrow> DEFAULT_GUARDED_TIMEOUT)\<rparr>;
         builder = builder\<lparr>hc_proxy := False\<rparr>;
         is_ip_literal = (case url_host_of (net_url net) parsed of
           Some (Ipv4_Host _) \<Rightarrow> True | Some (Ipv6_Host _) \<Rightarrow> True | _ \<Rightarrow> False);
         build = (\<lambda>b. case net_build net b of
             Some e \<Rightarrow> Inl (ExecutionFailed (''failed to build HTTP client: '' @ e))
           | None \<Rightarrow> Inr b)
     in if is_ip_literal then Some (build builder)
        else (case url_host_str (net_url net) parsed of
            None \<Rightarrow> None
          | Some host \<Rightarrow> Some (build (builder\<lparr>hc_resolve := hc_resolve builder @ [(host, addrs)]\<rparr>))))"

definition pinned :: "('u, 'x) network \<Rightarrow> 'u \<Rightarrow> socket_addr list \<Rightarrow> nat option \<Rightarrow> ('x, tool_error, http_client) eff" where
  "pinned net parsed addrs timeout w = map_option (\<lambda>r. (r, w)) (pinned_client net parsed addrs timeout)"

definition send_request :: "('u, 'x) network \<Rightarrow> http_client \<Rightarrow> http_request \<Rightarrow> ('x, tool_error, http_response) eff" where
  "send_request net client rq = eff_map_err (\<lambda>e. ExecutionFailed (''HTTP request failed: '' @ e)) (net_send net client rq)"

text \<open>What every guarded request begins with: parse, resolve, check, pin, send.\<close>

definition guarded_send ::
  "('u, 'x) network \<Rightarrow> string \<Rightarrow> http_body \<Rightarrow> bool \<Rightarrow> nat option \<Rightarrow> ('x, tool_error, http_response) eff" where
  "guarded_send net url body check_ssrf timeout =
     eff_bind (lift_result (parse_http_url (net_url net) url)) (\<lambda>parsed.
     eff_bind (resolve_url_addrs net parsed) (\<lambda>addrs.
     eff_bind (if check_ssrf then lift_result (ensure_all_public net addrs) else ok ()) (\<lambda>_.
     eff_bind (pinned net parsed addrs timeout) (\<lambda>client.
     send_request net client \<lparr>rq_url = url, rq_body = body\<rparr>))))"

definition resolve_redirect :: "'u url_api \<Rightarrow> string \<Rightarrow> string \<Rightarrow> tool_error + string" where
  "resolve_redirect api base location = (
     case result_bind (url_parse api base) (\<lambda>base_url. url_join api base_url location) of
       Inl e \<Rightarrow> Inl (InvalidInput (''invalid redirect target: '' @ e))
     | Inr joined \<Rightarrow>
         if url_scheme api joined \<noteq> ''http'' \<and> url_scheme api joined \<noteq> ''https''
         then Inl (InvalidInput (''redirect target protocol not supported: '' @ url_scheme api joined))
         else Inr (url_to_string api joined))"

definition is_redirection :: "http_response \<Rightarrow> bool" where
  "is_redirection resp \<longleftrightarrow> 300 \<le> rs_status resp \<and> rs_status resp < 400"

primrec guarded_get_hops ::
  "nat \<Rightarrow> ('u, 'x) network \<Rightarrow> string \<Rightarrow> bool \<Rightarrow> nat option \<Rightarrow> ('x, tool_error, http_response) eff" where
  "guarded_get_hops 0 net current check_ssrf timeout =
     err (ExecutionFailed ''request redirect count exceeded the limit of 10 times'')"
| "guarded_get_hops (Suc n) net current check_ssrf timeout =
     eff_bind (guarded_send net current No_Body check_ssrf timeout) (\<lambda>resp.
       if \<not> is_redirection resp then ok resp
       else (case rs_location resp of
           None \<Rightarrow> ok resp
         | Some location \<Rightarrow>
             eff_bind (lift_result (resolve_redirect (net_url net) current location)) (\<lambda>target.
             guarded_get_hops n net target check_ssrf timeout)))"

definition guarded_get ::
  "('u, 'x) network \<Rightarrow> string \<Rightarrow> bool \<Rightarrow> nat option \<Rightarrow> ('x, tool_error, http_response) eff" where
  "guarded_get net url check_ssrf timeout = guarded_get_hops (MAX_REDIRECTS + 1) net url check_ssrf timeout"

definition guarded_post_json ::
  "('u, 'x) network \<Rightarrow> string \<Rightarrow> json \<Rightarrow> bool \<Rightarrow> nat option \<Rightarrow> ('x, tool_error, http_response) eff" where
  "guarded_post_json net url body check_ssrf timeout = guarded_send net url (Json_Body body) check_ssrf timeout"

definition guarded_post_form ::
  "('u, 'x) network \<Rightarrow> string \<Rightarrow> (string \<times> string) list \<Rightarrow> bool \<Rightarrow> nat option
     \<Rightarrow> ('x, tool_error, http_response) eff" where
  "guarded_post_form net url form check_ssrf timeout = guarded_send net url (Form_Body form) check_ssrf timeout"


section \<open>Reading a body\<close>

text \<open>The loop over the stream of chunks, and the conversion of what was read.\<close>

fun read_chunks :: "nat \<Rightarrow> string \<Rightarrow> (string + string) list \<Rightarrow> tool_error + string \<times> bool" where
  "read_chunks max_bytes body [] = Inr (body, False)"
| "read_chunks max_bytes body (Inl e # rest) = Inl (ExecutionFailed (''failed to read response body: '' @ e))"
| "read_chunks max_bytes body (Inr chunk # rest) = (
     let remaining = max_bytes - length body in
     if length chunk > remaining then Inr (body @ take remaining chunk, True)
     else read_chunks max_bytes (body @ chunk) rest)"

definition read_body_bounded :: "http_response \<Rightarrow> nat \<Rightarrow> tool_error + string \<times> bool" where
  "read_body_bounded response max_bytes =
     result_bind (read_chunks max_bytes [] (rs_chunks response)) (\<lambda>(body, truncated).
       let text = (if truncated
         then let valid = (case from_utf8 body of Inr _ \<Rightarrow> length body | Inl n \<Rightarrow> n)
              in (case from_utf8 (take valid body) of Inr s \<Rightarrow> s | Inl _ \<Rightarrow> [])
         else from_utf8_lossy body)
       in Inr (text, truncated))"


section \<open>What the code relies on\<close>

text \<open>One entry per request handed to \<open>reqwest\<close>: the client, the URL and the addresses contacted.\<close>

record sent_request =
  st_client :: http_client
  st_url :: string
  st_peers :: "ip_addr list"

text \<open>A client that follows no redirects and uses no proxy contacts the literal of the URL, or the
  addresses its host is overridden with.\<close>

definition documented_peers :: "'u url_api \<Rightarrow> sent_request \<Rightarrow> bool" where
  "documented_peers api st \<longleftrightarrow> (case url_parse api (st_url st) of
      Inl _ \<Rightarrow> st_peers st = []
    | Inr u \<Rightarrow> hc_follow_redirects (st_client st) \<or> hc_proxy (st_client st) \<or> (case url_host_of api u of
        None \<Rightarrow> st_peers st = []
      | Some (Ipv4_Host ip) \<Rightarrow> set (st_peers st) \<subseteq> {V4 ip}
      | Some (Ipv6_Host ip) \<Rightarrow> set (st_peers st) \<subseteq> {V6 ip}
      | Some (Domain_Host h) \<Rightarrow> (case map_of (hc_resolve (st_client st)) h of
          None \<Rightarrow> True
        | Some addrs \<Rightarrow> set (st_peers st) \<subseteq> sa_ip ` set addrs)))"

definition reqwest_contract :: "('u, 'x) network \<Rightarrow> ('x \<Rightarrow> sent_request list) \<Rightarrow> bool" where
  "reqwest_contract net sent \<longleftrightarrow>
     (\<forall>h p x r x'. net_lookup_host net h p x = Some (r, x') \<longrightarrow> sent x' = sent x) \<and>
     (\<forall>c rq x r x'. net_send net c rq x = Some (r, x') \<longrightarrow>
       (\<exists>peers. let st = \<lparr>st_client = c, st_url = rq_url rq, st_peers = peers\<rparr> in
          sent x' = sent x @ [st] \<and> documented_peers (net_url net) st))"

definition url_contract :: "'u url_api \<Rightarrow> bool" where
  "url_contract api \<longleftrightarrow> (\<forall>u h. url_host_of api u = Some (Domain_Host h) \<longrightarrow> url_host_str api u = Some h)"


section \<open>Guarded requests stay outside\<close>

lemma resolve_url_addrs_sent:
  assumes "reqwest_contract net sent" and "resolve_url_addrs net u w = Some (r, w')"
  shows "sent w' = sent w"
  using assms
  by (auto simp: resolve_url_addrs_def Let_def reqwest_contract_def eff_bind_def eff_map_err_Some
      split: option.splits url_host.splits sum.splits if_splits)

lemma resolve_url_addrs_literal:
  assumes "resolve_url_addrs net u w = Some (Inr addrs, w')"
  shows "url_host_of (net_url net) u = Some (Ipv4_Host a) \<Longrightarrow> sa_ip ` set addrs = {V4 a}"
    and "url_host_of (net_url net) u = Some (Ipv6_Host b) \<Longrightarrow> sa_ip ` set addrs = {V6 b}"
    and "url_host_of (net_url net) u \<noteq> None"
  using assms by (auto simp: resolve_url_addrs_def Let_def split: option.splits)

lemma ensure_all_public_iff:
  "ensure_all_public net addrs = Inr () \<longleftrightarrow> (\<forall>sa \<in> set addrs. \<not> is_private_ip (sa_ip sa))"
  by (auto simp: ensure_all_public_def find_None_iff find_Some_iff split: option.splits)

text \<open>A client built for a URL and its addresses contacts no other address.\<close>

lemma pinned_peers:
  assumes "url_contract (net_url net)" and "url_parse (net_url net) url = Inr u"
    and "resolve_url_addrs net u w = Some (Inr addrs, w')"
    and "pinned_client net u addrs t = Some (Inr c)"
    and "documented_peers (net_url net) \<lparr>st_client = c, st_url = url, st_peers = peers\<rparr>"
  shows "set peers \<subseteq> sa_ip ` set addrs"
  using assms resolve_url_addrs_literal [OF assms(3)]
  by (auto simp: pinned_client_def Let_def documented_peers_def client_builder_def url_contract_def
      split: option.splits url_host.splits if_splits)


definition goes_outside :: "'u url_api \<Rightarrow> bool \<Rightarrow> sent_request \<Rightarrow> bool" where
  "goes_outside api check st \<longleftrightarrow>
     (check \<longrightarrow> list_all (\<lambda>ip. \<not> is_private_ip ip) (st_peers st)) \<and>
     (\<exists>u. url_parse api (st_url st) = Inr u \<and> url_scheme api u \<in> {''http'', ''https''})"

lemma parse_http_url_Inr:
  assumes "parse_http_url api url = Inr u"
  shows "url_parse api url = Inr u" and "url_scheme api u \<in> {''http'', ''https''}" and "url_host_str api u \<noteq> None"
  using assms by (auto simp: parse_http_url_def split: sum.splits if_splits)

text \<open>A guarded request either sends nothing, or one request to addresses that have been checked.\<close>

lemma guarded_send_sent:
  assumes net: "reqwest_contract net sent" "url_contract (net_url net)"
    and run: "guarded_send net url body check t w = Some (r, w')"
  shows "\<exists>new. sent w' = sent w @ new \<and> length new \<le> 1 \<and> list_all (goes_outside (net_url net) check) new"
proof -
  let ?claim = "sent w' = sent w \<or> (\<exists>st. sent w' = sent w @ [st] \<and> goes_outside (net_url net) check st)"
  have ?claim
    using run [unfolded guarded_send_def]
  proof (cases rule: eff_bindE)
    case (Ok u w1)
    then have u: "parse_http_url (net_url net) url = Inr u" and [simp]: "w1 = w"
      by (simp_all add: lift_result_apply)
    from Ok(2) show ?thesis
    proof (cases rule: eff_bindE)
      case Err
      then show ?thesis using resolve_url_addrs_sent [OF net(1)] by simp
    next
      case resolved: (Ok addrs w2)
      then have same: "sent w2 = sent w" using resolve_url_addrs_sent [OF net(1)] by simp
      from resolved(2) show ?thesis
      proof (cases rule: eff_bindE)
        case Err
        then show ?thesis using same by (cases check) (simp_all add: lift_result_apply)
      next
        case checked: (Ok _ w3)
        then have [simp]: "w3 = w2" and public: "check \<longrightarrow> ensure_all_public net addrs = Inr ()"
          by (cases check; simp add: lift_result_apply)+
        from checked(2) show ?thesis
        proof (cases rule: eff_bindE)
          case Err
          then show ?thesis using same by (auto simp: pinned_def)
        next
          case built: (Ok c w4)
          then have c: "pinned_client net u addrs t = Some (Inr c)" and [simp]: "w4 = w2"
            by (auto simp: pinned_def)
          from built(2) obtain r0 where "net_send net c \<lparr>rq_url = url, rq_body = body\<rparr> w2 = Some (r0, w')"
            by (auto simp: send_request_def eff_map_err_Some)
          then obtain peers where st: "sent w' = sent w2 @ [\<lparr>st_client = c, st_url = url, st_peers = peers\<rparr>]"
            and doc: "documented_peers (net_url net) \<lparr>st_client = c, st_url = url, st_peers = peers\<rparr>"
            using net(1) unfolding reqwest_contract_def Let_def by fastforce
          have "set peers \<subseteq> sa_ip ` set addrs"
            using pinned_peers [OF net(2) parse_http_url_Inr(1) [OF u] _ c doc] resolved(1) by simp
          then have "goes_outside (net_url net) check \<lparr>st_client = c, st_url = url, st_peers = peers\<rparr>"
            using public parse_http_url_Inr [OF u]
            by (auto simp: goes_outside_def ensure_all_public_iff list_all_iff)
          then show ?thesis using st same by auto
        qed
      qed
    qed
  qed (simp add: lift_result_apply)
  then show ?thesis
  proof (elim disjE exE)
    assume "sent w' = sent w"
    then show ?thesis by (intro exI [of _ "[]"]) simp
  next
    fix st assume "sent w' = sent w @ [st] \<and> goes_outside (net_url net) check st"
    then show ?thesis by (intro exI [of _ "[st]"]) simp
  qed
qed

lemma guarded_get_hops_sent:
  assumes net: "reqwest_contract net sent" "url_contract (net_url net)"
  shows "guarded_get_hops n net url check t w = Some (r, w') \<Longrightarrow>
    \<exists>new. sent w' = sent w @ new \<and> length new \<le> n \<and> list_all (goes_outside (net_url net) check) new"
proof (induction n arbitrary: url w)
  case (Suc n)
  from Suc.prems [unfolded guarded_get_hops.simps] show ?case
  proof (cases rule: eff_bindE)
    case Err
    then show ?thesis using guarded_send_sent [OF net Err(1)] by auto
  next
    case (Ok resp w1)
    obtain new where new: "sent w1 = sent w @ new" "length new \<le> 1" "list_all (goes_outside (net_url net) check) new"
      using guarded_send_sent [OF net Ok(1)] by blast
    show ?thesis
    proof (cases "w' = w1")
      case True
      then show ?thesis using new by auto
    next
      case False
      then obtain target where "guarded_get_hops n net target check t w1 = Some (r, w')"
        using Ok(2) by (auto split: if_splits option.splits elim!: eff_bindE simp: lift_result_apply)
      from Suc.IH [OF this] obtain more where "sent w' = sent w1 @ more" "length more \<le> n"
        "list_all (goes_outside (net_url net) check) more" by blast
      then show ?thesis using new by (intro exI [of _ "new @ more"]) auto
    qed
  qed
qed auto

text \<open>No call of the guarded path hangs or panics by itself.\<close>

lemma guarded_send_returns:
  assumes "url_contract (net_url net)"
    and "\<And>h p x. net_lookup_host net h p x \<noteq> None" and "\<And>c rq x. net_send net c rq x \<noteq> None"
  shows "guarded_send net url body check t w \<noteq> None"
proof -
  have dns: "eff_bind (eff_map_err f (net_lookup_host net h p)) (\<lambda>addrs. if addrs = [] then err e else ok addrs) x \<noteq> None"
    for f h p x and e :: tool_error
    by (intro eff_bind_returns eff_map_err_returns assms(2)) auto
  have resolve: "resolve_url_addrs net u x \<noteq> None" for u x
  proof (cases "url_host_of (net_url net) u")
    case (Some h)
    then show ?thesis using dns by (cases h) (simp_all add: resolve_url_addrs_def Let_def del: not_None_eq)
  qed (simp add: resolve_url_addrs_def)
  have pinned: "pinned net u addrs t x \<noteq> None" if "url_host_str (net_url net) u \<noteq> None" for u addrs x
    using that by (auto simp: pinned_def pinned_client_def Let_def)
  show ?thesis
    unfolding guarded_send_def send_request_def
    using resolve pinned assms(3) parse_http_url_Inr(3) [of "net_url net" url]
    by (intro eff_bind_returns eff_map_err_returns) (auto simp: lift_result_apply)
qed

lemma guarded_get_returns:
  assumes "url_contract (net_url net)"
    and "\<And>h p x. net_lookup_host net h p x \<noteq> None" and "\<And>c rq x. net_send net c rq x \<noteq> None"
  shows "guarded_get net url check t w \<noteq> None"
proof -
  have "guarded_get_hops n net url check t w \<noteq> None" for n
  proof (induction n arbitrary: url w)
    case (Suc n)
    have "eff_bind (lift_result (resolve_redirect (net_url net) url l))
        (\<lambda>target. guarded_get_hops n net target check t) x \<noteq> None" for l x
      using Suc.IH by (intro eff_bind_returns) (auto simp: lift_result_apply)
    then show ?case
      unfolding guarded_get_hops.simps
      by (intro eff_bind_returns guarded_send_returns [OF assms]) (auto split: option.splits)
  qed simp
  then show ?thesis unfolding guarded_get_def .
qed


section \<open>Properties\<close>

definition sends_outside :: "('u, 'x) network \<Rightarrow> ('x \<Rightarrow> sent_request list) \<Rightarrow> bool \<Rightarrow> nat \<Rightarrow> 'x \<Rightarrow> 'x \<Rightarrow> bool" where
  "sends_outside net sent check n w w' \<longleftrightarrow>
     (\<exists>new. sent w' = sent w @ new \<and> length new \<le> n \<and> list_all (goes_outside (net_url net) check) new)"

lemma guarded_send_refuses:
  assumes "reqwest_contract net sent" and "parse_http_url (net_url net) url = Inr u"
    and "resolve_url_addrs net u w = Some (Inr addrs, w1)" and "\<exists>sa \<in> set addrs. is_private_ip (sa_ip sa)"
  shows "\<exists>m. guarded_send net url body True t w = Some (Inl (ExecutionFailed m), w1) \<and> sent w1 = sent w"
proof -
  obtain m where "ensure_all_public net addrs = Inl (ExecutionFailed m)"
    using assms(4) ensure_all_public_iff [of net addrs]
    by (auto simp: ensure_all_public_def split: option.splits)
  then show ?thesis
    using resolve_url_addrs_sent [OF assms(1,3)] assms(2,3)
    by (auto simp: guarded_send_def eff_bind_def lift_result_apply)
qed

text \<open>
  C15. Whatever the resolver answers, a guarded request with the check on contacts public addresses
  only, over at most eleven requests for a GET with its redirects and one for a POST; all of them
  are http(s). When one of the addresses a host resolves to is private, whatever the others are, the
  request is refused as it stands before anything is sent: a POST, a GET, and so each redirect
  of a GET. The only assumptions are the documented behaviour of \<open>reqwest\<close> and \<open>url\<close>.
\<close>

theorem guarded_requests_stay_outside:
  assumes "reqwest_contract net sent" and "url_contract (net_url net)"
  shows "(guarded_get net url check t w = Some (r, w') \<longrightarrow> sends_outside net sent check (MAX_REDIRECTS + 1) w w')
    \<and> (guarded_post_json net url body check t w = Some (r, w') \<longrightarrow> sends_outside net sent check 1 w w')
    \<and> (guarded_post_form net url form check t w = Some (r, w') \<longrightarrow> sends_outside net sent check 1 w w')
    \<and> (parse_http_url (net_url net) url = Inr u \<longrightarrow> resolve_url_addrs net u w = Some (Inr addrs, w1) \<longrightarrow>
        (\<exists>sa \<in> set addrs. is_private_ip (sa_ip sa)) \<longrightarrow> sent w1 = sent w \<and>
        (\<forall>n. \<exists>m. guarded_get_hops (Suc n) net url True t w = Some (Inl (ExecutionFailed m), w1)) \<and>
        (\<exists>m. guarded_get net url True t w = Some (Inl (ExecutionFailed m), w1)) \<and>
        (\<exists>m. guarded_post_json net url body True t w = Some (Inl (ExecutionFailed m), w1)) \<and>
        (\<exists>m. guarded_post_form net url form True t w = Some (Inl (ExecutionFailed m), w1)))"
proof (intro conjI impI allI)
  assume bad: "parse_http_url (net_url net) url = Inr u" "resolve_url_addrs net u w = Some (Inr addrs, w1)"
    "\<exists>sa \<in> set addrs. is_private_ip (sa_ip sa)"
  note refused = guarded_send_refuses [OF assms(1) bad]
  show hops: "\<exists>m. guarded_get_hops (Suc n) net url True t w = Some (Inl (ExecutionFailed m), w1)" for n
    using refused [of No_Body t] by (auto simp: eff_bind_def)
  show "sent w1 = sent w" using refused [of No_Body t] by blast
  show "\<exists>m. guarded_get net url True t w = Some (Inl (ExecutionFailed m), w1)"
    using hops [of MAX_REDIRECTS] by (simp add: guarded_get_def)
  show "\<exists>m. guarded_post_json net url body True t w = Some (Inl (ExecutionFailed m), w1)"
    "\<exists>m. guarded_post_form net url form True t w = Some (Inl (ExecutionFailed m), w1)"
    using refused unfolding guarded_post_json_def guarded_post_form_def by blast+
qed (use guarded_get_hops_sent [OF assms] guarded_send_sent [OF assms] in
      \<open>unfold sends_outside_def guarded_get_def guarded_post_json_def guarded_post_form_def, blast+\<close>)

text \<open>A resolver that answers with a public address first and with a private one from then on, and
  a server that redirects every request to itself.\<close>

definition demo_url :: "string url_api" where
  "demo_url = \<lparr>url_parse = (\<lambda>s. Inr s), url_join = (\<lambda>_ l. Inr l), url_scheme = (\<lambda>_. ''http''),
     url_host_of = (\<lambda>s. Some (Domain_Host s)), url_host_str = (\<lambda>s. Some s),
     url_port_or_known_default = (\<lambda>_. Some 80), url_to_string = (\<lambda>s. s)\<rparr>"

definition rebinding :: "(string, nat \<times> sent_request list) network" where
  "rebinding = \<lparr>net_url = demo_url,
     net_lookup_host = (\<lambda>h p (n, l). Some (Inr [\<lparr>sa_ip = V4 (if n = 0 then dotted 8 8 8 8 else dotted 10 0 0 1),
       sa_port = p\<rparr>], (Suc n, l))),
     net_build = (\<lambda>_. None),
     net_send = (\<lambda>c rq (n, l). Some (Inr \<lparr>rs_status = 302, rs_location = Some (rq_url rq), rs_chunks = []\<rparr>,
       (n, l @ [\<lparr>st_client = c, st_url = rq_url rq,
         st_peers = (case map_of (hc_resolve c) (rq_url rq) of None \<Rightarrow> [] | Some as \<Rightarrow> map sa_ip as)\<rparr>]))),
     net_show_ip = (\<lambda>_. ''10.0.0.1'')\<rparr>"

lemma rebinding_contracts: "reqwest_contract rebinding snd" "url_contract (net_url rebinding)"
  by (auto simp: rebinding_def demo_url_def reqwest_contract_def url_contract_def documented_peers_def
      split: option.splits)

theorem guarded_requests_stay_outside_witness:
  "map_option (map_prod isl (\<lambda>w. map st_peers (snd w))) (guarded_get rebinding ''a.com'' True None (0, []))
     = Some (True, [[V4 (dotted 8 8 8 8)]])
   \<and> sends_outside rebinding snd True (MAX_REDIRECTS + 1) (0, [])
       (snd (the (guarded_get rebinding ''a.com'' True None (0, []))))
   \<and> (\<exists>m. guarded_post_json rebinding ''a.com'' JNull True None (1, []) = Some (Inl (ExecutionFailed m), (2, [])))"
proof (intro conjI)
  show run: "map_option (map_prod isl (\<lambda>w. map st_peers (snd w))) (guarded_get rebinding ''a.com'' True None (0, []))
     = Some (True, [[V4 (dotted 8 8 8 8)]])"
    by code_simp
  then obtain r w' where "guarded_get rebinding ''a.com'' True None (0, []) = Some (r, w')"
    by (cases "guarded_get rebinding ''a.com'' True None (0, [])") auto
  then show "sends_outside rebinding snd True (MAX_REDIRECTS + 1) (0, [])
       (snd (the (guarded_get rebinding ''a.com'' True None (0, []))))"
    using guarded_requests_stay_outside [OF rebinding_contracts, of "''a.com''" True None "(0, [])" r w'] by simp
  have "parse_http_url (net_url rebinding) ''a.com'' = Inr ''a.com''"
    "resolve_url_addrs rebinding ''a.com'' (1, []) =
       Some (Inr [\<lparr>sa_ip = V4 (dotted 10 0 0 1), sa_port = 80\<rparr>], (2, []))"
    by (simp_all add: parse_http_url_def resolve_url_addrs_def rebinding_def demo_url_def eff_bind_def eff_map_err_def)
  moreover have "is_private_ip (V4 (dotted 10 0 0 1))" by code_simp
  ultimately show "\<exists>m. guarded_post_json rebinding ''a.com'' JNull True None (1, []) = Some (Inl (ExecutionFailed m), (2, []))"
    using guarded_requests_stay_outside [OF rebinding_contracts, of "''a.com''" True None "(1, [])" undefined undefined JNull undefined
        "''a.com''" "[\<lparr>sa_ip = V4 (dotted 10 0 0 1), sa_port = 80\<rparr>]" "(2, [])"]
    by simp
qed

lemma read_chunks_append:
  "read_chunks m body (map Inr cs @ rest) =
     (if length (body @ concat cs) \<le> m then read_chunks m (body @ concat cs) rest
      else Inr (take m (body @ concat cs), True))" if "length body \<le> m"
  using that
proof (induction cs arbitrary: body)
  case (Cons c cs)
  show ?case
    using Cons.IH [of "body @ c"] Cons.prems by (auto simp: Let_def)
qed simp

text \<open>
  C21. A body is read up to \<open>max_bytes\<close> bytes, and nothing after the chunk that exceeds them is asked
  for. What is returned is always valid UTF-8: the whole body, converted lossily, when it fits;
  otherwise the longest prefix of its first \<open>max_bytes\<close> bytes that is valid UTF-8, which is at most
  three bytes shorter than \<open>max_bytes\<close> when the body is text. An error of the stream before the limit is the error of the read.
\<close>

theorem read_body_bounded_correct:
  assumes "rs_chunks resp = map Inr cs @ rest"
  shows "(length (concat cs) \<le> m \<and> rest = [] \<longrightarrow>
      read_body_bounded resp m = Inr (from_utf8_lossy (concat cs), False) \<and> is_utf8 (from_utf8_lossy (concat cs)))
    \<and> (length (concat cs) \<le> m \<and> rest = Inl e # others \<longrightarrow>
      read_body_bounded resp m = Inl (ExecutionFailed (''failed to read response body: '' @ e)))
    \<and> (m < length (concat cs) \<longrightarrow> (\<exists>n \<le> m. read_body_bounded resp m = Inr (take n (concat cs), True)
      \<and> is_utf8 (take n (concat cs)) \<and> (\<forall>k \<le> m. is_utf8 (take k (concat cs)) \<longrightarrow> k \<le> n)
      \<and> (is_utf8 (concat cs) \<longrightarrow> m < n + 4)))"
proof (intro conjI impI)
  define body where "body = concat cs"
  have chunks: "read_chunks m [] (rs_chunks resp) =
      (if length body \<le> m then read_chunks m body rest else Inr (take m body, True))"
    unfolding assms(1) body_def by (subst read_chunks_append) simp_all
  show "read_body_bounded resp m = Inr (from_utf8_lossy (concat cs), False)"
    if "length (concat cs) \<le> m \<and> rest = []"
    using that by (simp add: read_body_bounded_def chunks body_def)
  show "is_utf8 (from_utf8_lossy (concat cs))"
    by (rule from_utf8_lossy_is_utf8)
  show "read_body_bounded resp m = Inl (ExecutionFailed (''failed to read response body: '' @ e))"
    if "length (concat cs) \<le> m \<and> rest = Inl e # others"
    using that by (simp add: read_body_bounded_def chunks body_def)
  show "\<exists>n \<le> m. read_body_bounded resp m = Inr (take n (concat cs), True)
      \<and> is_utf8 (take n (concat cs)) \<and> (\<forall>k \<le> m. is_utf8 (take k (concat cs)) \<longrightarrow> k \<le> n)
      \<and> (is_utf8 (concat cs) \<longrightarrow> m < n + 4)" if "m < length (concat cs)"
  proof -
    define n where "n = valid_up_to (take m body)"
    have le: "n \<le> m" using valid_up_to_le [of "take m body"] that by (simp add: n_def body_def)
    then have valid: "is_utf8 (take n body)"
      using is_utf8_valid_part [of "take m body"] by (simp add: n_def [symmetric] min_def)
    have "read_body_bounded resp m = Inr (take n body, True)"
      using that valid le
      by (simp add: read_body_bounded_def chunks from_utf8_def n_def [symmetric] is_utf8_def min_def flip: body_def)
    moreover have "k \<le> n" if "k \<le> m" "is_utf8 (take k body)" for k
      using valid_up_to_longest [of k "take m body"] that \<open>m < length (concat cs)\<close>
      by (simp add: n_def body_def min_def)
    ultimately show ?thesis
      using le valid valid_up_to_cut [of body m] that by (auto simp: n_def body_def)
  qed
qed

text \<open>A cut in the middle of a two-byte character.\<close>

definition cut_response :: http_response where
  "cut_response = \<lparr>rs_status = 200, rs_location = None,
     rs_chunks = [Inr ''a'', Inr [CHR 0xC3, CHR 0xA9], Inl ''reset'']\<rparr>"

theorem read_body_bounded_correct_witness:
  "(\<exists>n \<le> 2. read_body_bounded cut_response 2 = Inr (take n [CHR ''a'', CHR 0xC3, CHR 0xA9], True) \<and> 2 < n + 4)
   \<and> read_body_bounded cut_response 2 = Inr (''a'', True)
   \<and> read_body_bounded cut_response 3 = Inl (ExecutionFailed ''failed to read response body: reset'')"
proof -
  let ?cs = "[''a'', [CHR 0xC3, CHR 0xA9]]"
  have cs: "rs_chunks cut_response = map Inr ?cs @ [Inl ''reset'']"
    by (simp add: cut_response_def)
  have "is_utf8 (concat ?cs)" by code_simp
  then have "\<exists>n \<le> 2. read_body_bounded cut_response 2 = Inr (take n [CHR ''a'', CHR 0xC3, CHR 0xA9], True) \<and> 2 < n + 4"
    using read_body_bounded_correct [OF cs, where m = 2] by auto
  moreover have "read_body_bounded cut_response 2 = Inr (''a'', True)" by code_simp
  moreover have "read_body_bounded cut_response 3 = Inl (ExecutionFailed ''failed to read response body: reset'')"
    using read_body_bounded_correct [OF cs, where m = 3] by auto
  ultimately show ?thesis by blast
qed

end
