(* ===== verification/Circuit_Breaker.thy ===== *)
theory Circuit_Breaker
  imports Lc_Prelude "HOL-Library.Word"
begin

text \<open>
  The circuit breaker of the callback handlers (\<open>lc-callbacks/src/circuit_breaker.rs\<close>). An \<open>Instant\<close>
  is a natural number read from a clock that does not run backwards; the failure count keeps its
  32 bits, so that its increment is proved not to wrap. Each operation holds the one mutex and is
  a step of the transition system \<open>breaker_step\<close>.
\<close>

datatype breaker_state = Closed "32 word" | Opened nat | HalfOpen

record breaker_status =
  refused :: nat
  total_calls :: nat
  trips :: nat

record circuit_breaker =
  trip_threshold :: "32 word"
  cooldown :: nat
  cb_state :: breaker_state
  cb_status :: breaker_status

definition DEFAULT_TRIP_THRESHOLD :: "32 word" where
  "DEFAULT_TRIP_THRESHOLD = 5"

definition breaker_new :: "32 word \<Rightarrow> nat \<Rightarrow> circuit_breaker" where
  "breaker_new threshold cool = \<lparr>trip_threshold = max threshold 1, cooldown = cool, cb_state = Closed 0,
     cb_status = \<lparr>refused = 0, total_calls = 0, trips = 0\<rparr>\<rparr>"

definition with_cooldown :: "nat \<Rightarrow> circuit_breaker" where
  "with_cooldown cool = breaker_new DEFAULT_TRIP_THRESHOLD cool"

text \<open>\<open>Instant::elapsed\<close> at the time \<open>now\<close>.\<close>

definition elapsed :: "nat \<Rightarrow> nat \<Rightarrow> nat" where
  "elapsed now since = now - since"

definition allow :: "nat \<Rightarrow> circuit_breaker \<Rightarrow> bool \<times> circuit_breaker" where
  "allow now cb0 = (let cb = cb0\<lparr>cb_status := (cb_status cb0)\<lparr>total_calls := total_calls (cb_status cb0) + 1\<rparr>\<rparr> in
     case cb_state cb of
       Closed _ \<Rightarrow> (True, cb)
     | Opened since \<Rightarrow>
         if elapsed now since \<ge> cooldown cb then (True, cb\<lparr>cb_state := HalfOpen\<rparr>)
         else (False, cb\<lparr>cb_status := (cb_status cb)\<lparr>refused := refused (cb_status cb) + 1\<rparr>\<rparr>)
     | HalfOpen \<Rightarrow> (True, cb))"

definition record_success :: "circuit_breaker \<Rightarrow> circuit_breaker" where
  "record_success cb = (case cb_state cb of
      Closed _ \<Rightarrow> cb\<lparr>cb_state := Closed 0\<rparr>
    | HalfOpen \<Rightarrow> cb\<lparr>cb_state := Closed 0\<rparr>
    | Opened _ \<Rightarrow> cb)"

definition record_failure :: "nat \<Rightarrow> circuit_breaker \<Rightarrow> circuit_breaker" where
  "record_failure now cb = (case cb_state cb of
      Closed consecutive_failures \<Rightarrow>
        let next = consecutive_failures + 1 in
        if next \<ge> trip_threshold cb
        then cb\<lparr>cb_status := (cb_status cb)\<lparr>trips := trips (cb_status cb) + 1\<rparr>, cb_state := Opened now\<rparr>
        else cb\<lparr>cb_state := Closed next\<rparr>
    | HalfOpen \<Rightarrow> cb\<lparr>cb_status := (cb_status cb)\<lparr>trips := trips (cb_status cb) + 1\<rparr>, cb_state := Opened now\<rparr>
    | Opened _ \<Rightarrow> cb)"

definition is_open :: "circuit_breaker \<Rightarrow> bool" where
  "is_open cb = (case cb_state cb of Opened _ \<Rightarrow> True | _ \<Rightarrow> False)"

definition breaker_default :: circuit_breaker where
  "breaker_default = with_cooldown 30000000000"


section \<open>Runs\<close>

text \<open>What a caller does to a breaker, with what it sees.\<close>

datatype breaker_event = Allowed bool | Succeeded | Failed

inductive breaker_step :: "circuit_breaker \<Rightarrow> nat \<Rightarrow> breaker_event \<Rightarrow> circuit_breaker \<Rightarrow> bool" where
  step_allow: "allow now cb = (b, cb') \<Longrightarrow> breaker_step cb now (Allowed b) cb'"
| step_success: "breaker_step cb now Succeeded (record_success cb)"
| step_failure: "breaker_step cb now Failed (record_failure now cb)"

text \<open>A run is a sequence of timed events; the times do not decrease.\<close>

inductive breaker_run :: "circuit_breaker \<Rightarrow> nat \<Rightarrow> (nat \<times> breaker_event) list \<Rightarrow> circuit_breaker \<Rightarrow> bool" where
  run_nil: "breaker_run cb now [] cb"
| run_cons: "breaker_step cb t e cb1 \<Longrightarrow> now \<le> t \<Longrightarrow> breaker_run cb1 t es cb2
    \<Longrightarrow> breaker_run cb now ((t, e) # es) cb2"

inductive_simps breaker_step_iff: "breaker_step cb t e cb'"
inductive_simps breaker_run_simps: "breaker_run cb now [] cb'" "breaker_run cb now (te # es) cb'"

lemmas breaker_defs = allow_def record_success_def record_failure_def elapsed_def Let_def

definition breaker_inv :: "circuit_breaker \<Rightarrow> bool" where
  "breaker_inv cb \<longleftrightarrow> 0 < trip_threshold cb \<and> refused (cb_status cb) \<le> total_calls (cb_status cb) \<and>
     (case cb_state cb of Closed n \<Rightarrow> n < trip_threshold cb | Opened _ \<Rightarrow> 1 \<le> trips (cb_status cb)
       | HalfOpen \<Rightarrow> 1 \<le> trips (cb_status cb))"

lemma breaker_new_inv: "breaker_inv (breaker_new n c)"
proof -
  have "0 < max n 1" by (metis less_max_iff_disj word_gt_0 zero_neq_one)
  then show ?thesis by (simp add: breaker_inv_def breaker_new_def)
qed

text \<open>A failure is counted without wrapping.\<close>

lemma failure_count_exact:
  assumes "breaker_inv cb" and "cb_state cb = Closed n"
  shows "unat (n + 1) = unat n + 1"
proof -
  have "n < trip_threshold cb" using assms by (simp add: breaker_inv_def)
  then have "unat n + 1 < 2 ^ 32"
    using unsigned_less [of "trip_threshold cb", where 'a = nat] by (simp add: word_less_nat_alt)
  then show ?thesis by (simp add: unat_word_ariths)
qed

lemma breaker_step_inv: "breaker_step cb t e cb' \<Longrightarrow> breaker_inv cb \<Longrightarrow> breaker_inv cb'"
  by (induction rule: breaker_step.induct)
    (auto simp: breaker_defs breaker_inv_def not_le split: breaker_state.splits if_splits)

lemma breaker_run_inv: "breaker_run cb now es cb' \<Longrightarrow> breaker_inv cb \<Longrightarrow> breaker_inv cb'"
  by (induction rule: breaker_run.induct) (auto dest: breaker_step_inv)

lemma breaker_step_config:
  "breaker_step cb t e cb' \<Longrightarrow> trip_threshold cb' = trip_threshold cb \<and> cooldown cb' = cooldown cb"
  by (induction rule: breaker_step.induct)
    (auto simp: breaker_defs split: breaker_state.splits if_splits)


lemma breaker_run_config:
  "breaker_run cb now es cb' \<Longrightarrow> trip_threshold cb' = trip_threshold cb \<and> cooldown cb' = cooldown cb"
  by (induction rule: breaker_run.induct) (auto dest: breaker_step_config)


section \<open>When it trips\<close>

text \<open>\<open>streak_of n\<close>: somewhere among the outcomes there are \<open>n\<close> failures in a row.\<close>

definition streak_of :: "nat \<Rightarrow> breaker_event list \<Rightarrow> bool" where
  "streak_of n es \<longleftrightarrow> (\<exists>pre post. es = pre @ replicate n Failed @ post)"

definition is_outcome :: "breaker_event \<Rightarrow> bool" where
  "is_outcome e = (case e of Allowed _ \<Rightarrow> False | _ \<Rightarrow> True)"

lemma streak_of_success:
  assumes "n < k"
  shows "streak_of k (replicate n Failed @ Succeeded # es) \<longleftrightarrow> streak_of k es"
proof
  assume "streak_of k es"
  then show "streak_of k (replicate n Failed @ Succeeded # es)"
    unfolding streak_of_def by (metis append.assoc append_Cons)
next
  assume "streak_of k (replicate n Failed @ Succeeded # es)"
  then obtain pre post where eq: "replicate n Failed @ Succeeded # es = pre @ replicate k Failed @ post"
    by (auto simp: streak_of_def)
  have "n < length pre"
  proof (rule ccontr)
    assume "\<not> n < length pre"
    then have "(pre @ replicate k Failed @ post) ! n = Failed"
      using assms by (auto simp: nth_append)
    moreover have "(replicate n Failed @ Succeeded # es) ! n = Succeeded" by (simp add: nth_append)
    ultimately show False using eq by simp
  qed
  then have "es = drop (Suc n) pre @ replicate k Failed @ post"
    using arg_cong [OF eq, of "drop (Suc n)"] by simp
  then show "streak_of k es" by (auto simp: streak_of_def)
qed

lemma streak_of_short: "n < k \<Longrightarrow> \<not> streak_of k (replicate n Failed)"
  by (auto simp: streak_of_def dest: arg_cong [where f = length])

lemma trips_mono: "breaker_run cb now es cb' \<Longrightarrow> trips (cb_status cb) \<le> trips (cb_status cb')"
proof (induction rule: breaker_run.induct)
  case (run_cons cb t e cb1 now es cb2)
  have "trips (cb_status cb) \<le> trips (cb_status cb1)"
    using run_cons.hyps(1) by (induction rule: breaker_step.induct)
      (auto simp: breaker_defs split: breaker_state.splits if_splits)
  then show ?case using run_cons.IH by simp
qed simp

lemma closed_run_trips:
  assumes "breaker_run cb now es cb'" and "breaker_inv cb" and "cb_state cb = Closed n"
  shows "trips (cb_status cb') = trips (cb_status cb) \<longleftrightarrow>
    \<not> streak_of (unat (trip_threshold cb)) (replicate (unat n) Failed @ filter is_outcome (map snd es))"
  using assms
proof (induction arbitrary: n rule: breaker_run.induct)
  case (run_nil cb now)
  then show ?case by (simp add: streak_of_short breaker_inv_def word_less_nat_alt)
next
  case (run_cons cb t e cb1 now es cb2)
  have inv1: "breaker_inv cb1" and cfg: "trip_threshold cb1 = trip_threshold cb"
    using run_cons.hyps(1) run_cons.prems(1) breaker_step_inv breaker_step_config by blast+
  have n: "unat n < unat (trip_threshold cb)"
    using run_cons.prems by (simp add: breaker_inv_def word_less_nat_alt)
  show ?case
    using run_cons.hyps(1)
  proof cases
    case (step_allow b)
    then have "cb_state cb1 = Closed n" "trips (cb_status cb1) = trips (cb_status cb)"
      using run_cons.prems(2) by (auto simp: breaker_defs)
    then show ?thesis using run_cons.IH [OF inv1] cfg step_allow(1) by (simp add: is_outcome_def)
  next
    case step_success
    then have "cb_state cb1 = Closed 0" "trips (cb_status cb1) = trips (cb_status cb)"
      using run_cons.prems(2) by (auto simp: breaker_defs)
    then show ?thesis using run_cons.IH [OF inv1] cfg step_success(1) n by (simp add: is_outcome_def streak_of_success)
  next
    case step_failure
    have Suc: "unat (n + 1) = Suc (unat n)"
      using failure_count_exact [OF run_cons.prems] by simp
    have out: "replicate (unat n) Failed @ filter is_outcome (map snd ((t, e) # es)) =
        replicate (unat (n + 1)) Failed @ filter is_outcome (map snd es)"
      using step_failure(1) unfolding Suc by (simp add: is_outcome_def replicate_app_Cons_same)
    show ?thesis
    proof (cases "trip_threshold cb \<le> n + 1")
      case True
      then have "unat (trip_threshold cb) = unat (n + 1)"
        using n Suc by (simp add: word_le_nat_alt)
      then have "streak_of (unat (trip_threshold cb)) (replicate (unat (n + 1)) Failed @ filter is_outcome (map snd es))"
        unfolding streak_of_def by (metis append_Nil)
      moreover have "trips (cb_status cb1) = trips (cb_status cb) + 1"
        using step_failure True run_cons.prems(2) by (simp add: breaker_defs)
      ultimately show ?thesis using trips_mono [OF run_cons.hyps(3)] unfolding out by simp
    next
      case False
      then have "cb_state cb1 = Closed (n + 1)" "trips (cb_status cb1) = trips (cb_status cb)"
        using step_failure run_cons.prems(2) by (simp_all add: breaker_defs)
      then show ?thesis using run_cons.IH [OF inv1] cfg unfolding out by simp
    qed
  qed
qed


section \<open>When it recovers\<close>

text \<open>During its cooldown an open breaker refuses every call and ignores every outcome.\<close>

lemma open_run_waits:
  assumes "breaker_run cb now es cb'" and "cb_state cb = Opened since"
    and "\<forall>(t, e) \<in> set es. t < since + cooldown cb" and "since \<le> now"
  shows "cb_state cb' = Opened since \<and> cooldown cb' = cooldown cb \<and> (\<forall>(t, e) \<in> set es. e \<noteq> Allowed True)
    \<and> refused (cb_status cb') = refused (cb_status cb) + length (filter (\<lambda>(t, e). e = Allowed False) es)"
  using assms
proof (induction rule: breaker_run.induct)
  case (run_cons cb t e cb1 now es cb2)
  have t: "elapsed t since < cooldown cb"
    using run_cons.prems run_cons.hyps(2) by (auto simp: elapsed_def)
  have step: "cb_state cb1 = Opened since \<and> cooldown cb1 = cooldown cb \<and> e \<noteq> Allowed True \<and>
    refused (cb_status cb1) = refused (cb_status cb) + (if e = Allowed False then 1 else 0)"
    using run_cons.hyps(1)
  proof cases
    case (step_allow b)
    then show ?thesis using t run_cons.prems(1) by (auto simp: allow_def Let_def)
  next
    case step_success
    then show ?thesis using run_cons.prems(1) by (simp add: record_success_def)
  next
    case step_failure
    then show ?thesis using run_cons.prems(1) by (simp add: record_failure_def)
  qed
  then show ?case using run_cons by (auto simp: case_prod_beta)
qed simp



section \<open>Properties\<close>

text \<open>
  C20. In every run of a new breaker: it has tripped exactly when the outcomes recorded so far contain
  as many failures in a row as its threshold (at least one). From then on, while it is open and the
  cooldown lasts, every call is refused and counted and every outcome is ignored; once it is over
  the next call is admitted, whatever happened in between, and its outcome closes the breaker or
  opens it again with a fresh cooldown.
\<close>

theorem breaker_trips_and_recovers:
  assumes "breaker_run (breaker_new threshold cool) 0 es cb"
  shows "(trips (cb_status cb) = 0 \<longleftrightarrow>
      \<not> streak_of (max (unat threshold) 1) (filter is_outcome (map snd es)))
    \<and> (cb_state cb = Opened since \<and> since \<le> now \<and> breaker_run cb now waiting cb'
        \<and> (\<forall>(t, e) \<in> set waiting. t < since + cool) \<longrightarrow>
      (\<forall>(t, e) \<in> set waiting. e \<noteq> Allowed True)
      \<and> refused (cb_status cb') = refused (cb_status cb) + length (filter (\<lambda>(t, e). e = Allowed False) waiting)
      \<and> (\<forall>t \<ge> since + cool. \<exists>probe. allow t cb' = (True, probe)
          \<and> cb_state (record_success probe) = Closed 0
          \<and> (\<forall>t'. cb_state (record_failure t' probe) = Opened t')))"
proof (intro conjI impI)
  have thr: "unat (max threshold 1) = max (unat threshold) 1"
    by (simp add: max_def word_le_nat_alt)
  show "trips (cb_status cb) = 0 \<longleftrightarrow> \<not> streak_of (max (unat threshold) 1) (filter is_outcome (map snd es))"
    using closed_run_trips [OF assms breaker_new_inv, of 0] by (simp add: breaker_new_def thr)
next
  assume w: "cb_state cb = Opened since \<and> since \<le> now \<and> breaker_run cb now waiting cb'
      \<and> (\<forall>(t, e) \<in> set waiting. t < since + cool)"
  have cool: "cooldown cb = cool"
    using breaker_run_config [OF assms] by (simp add: breaker_new_def)
  note waits = open_run_waits [of cb now waiting cb' since]
  show "\<forall>(t, e) \<in> set waiting. e \<noteq> Allowed True"
    and "refused (cb_status cb') = refused (cb_status cb) + length (filter (\<lambda>(t, e). e = Allowed False) waiting)"
    using w waits cool by simp_all
  show "\<forall>t \<ge> since + cool. \<exists>probe. allow t cb' = (True, probe)
      \<and> cb_state (record_success probe) = Closed 0 \<and> (\<forall>t'. cb_state (record_failure t' probe) = Opened t')"
    using w waits cool by (auto simp: breaker_defs)
qed

text \<open>Two failures in a row trip a breaker with threshold two; it refuses until the cooldown is over.\<close>

theorem breaker_trips_and_recovers_witness:
  "\<exists>cb cb'. breaker_run (breaker_new 2 10) 0 [(1, Failed), (2, Succeeded), (3, Failed), (4, Failed)] cb
     \<and> trips (cb_status cb) = 1 \<and> cb_state cb = Opened 4
     \<and> breaker_run cb 4 [(5, Allowed False), (13, Succeeded)] cb' \<and> refused (cb_status cb') = 1
     \<and> fst (allow 14 cb')"
proof -
  define cb where "cb = record_failure 4 (record_failure 3 (record_success (record_failure 1 (breaker_new 2 10))))"
  define cb' where "cb' = record_success (snd (allow 5 cb))"
  have run: "breaker_run (breaker_new 2 10) 0 [(1, Failed), (2, Succeeded), (3, Failed), (4, Failed)] cb"
    by (simp add: breaker_run_simps breaker_step_iff cb_def)
  have cb: "trips (cb_status cb) = 1" "cb_state cb = Opened 4" "refused (cb_status cb) = 0" "\<not> fst (allow 5 cb)"
    unfolding cb_def by code_simp+
  have wait: "breaker_run cb 4 [(5, Allowed False), (13, Succeeded)] cb'"
    using cb(4) by (auto simp: breaker_run_simps breaker_step_iff cb'_def prod_eq_iff)
  have "refused (cb_status cb') = 1 \<and> fst (allow 14 cb')"
    using breaker_trips_and_recovers [OF run, of 4 4 "[(5, Allowed False), (13, Succeeded)]" cb'] cb wait
    by force
  then show ?thesis using run cb wait by blast
qed

end
