(* ===== verification/Prompt_Template.thy ===== *)
theory Prompt_Template
  imports Lc_Prelude Json_Value Utf8
begin

text \<open>
  The prompt templates of \<open>lc-prompts\<close>: the parser shared by all template types
  (\<open>template_parser.rs\<close>), \<open>PromptTemplate\<close> (\<open>prompt_template.rs\<close>) and the comparison of variables
  (\<open>validation.rs\<close>). A string is its UTF-8 bytes; braces are ASCII, so scanning bytes finds the same
  braces as scanning characters. The Unicode tables behind \<open>is_alphabetic\<close> and \<open>is_alphanumeric\<close> are a
  parameter (\<open>unicode\<close>) beyond ASCII.
\<close>

section \<open>Characters\<close>

record unicode =
  uc_alphabetic :: "string \<Rightarrow> bool"
  uc_numeric :: "string \<Rightarrow> bool"

function str_chars :: "string \<Rightarrow> string list" where
  "str_chars [] = []"
| "str_chars (c # cs) = (case utf8_step c cs of (_, n) \<Rightarrow> take n (c # cs) # str_chars (drop n (c # cs)))"
  by pat_completeness auto
termination
  by (relation "measure length") (auto dest!: sym [of "(_, _)"] utf8_step_pos)

definition ascii_letter :: "char \<Rightarrow> bool" where
  "ascii_letter c = (let b = (of_char c :: int) in 0x41 \<le> b \<and> b \<le> 0x5a \<or> 0x61 \<le> b \<and> b \<le> 0x7a)"

definition ascii_digit :: "char \<Rightarrow> bool" where
  "ascii_digit c = (let b = (of_char c :: int) in 0x30 \<le> b \<and> b \<le> 0x39)"

definition is_alphabetic :: "unicode \<Rightarrow> string \<Rightarrow> bool" where
  "is_alphabetic u c = (if length c = 1 then ascii_letter (hd c) else uc_alphabetic u c)"

definition is_alphanumeric :: "unicode \<Rightarrow> string \<Rightarrow> bool" where
  "is_alphanumeric u c =
     (if length c = 1 then ascii_letter (hd c) \<or> ascii_digit (hd c) else uc_alphabetic u c \<or> uc_numeric u c)"


section \<open>Templates\<close>

datatype prompts_error = MissingVariable string | MalformedTemplate string
  | InvalidNamespace string | NamespaceNotFound string | VersionNotFound string nat
  | HashNotFound string | AmbiguousHash string "nat list" | InvalidReference string
  | MessageFormat nat string prompts_error | UnusedVariables string "string list"
  | ExampleMissingVariable nat string | FewShotVariableMismatch "string list" "string list"

datatype template_segment = Text string | Variable string

definition is_valid_var_name :: "unicode \<Rightarrow> string \<Rightarrow> bool" where
  "is_valid_var_name u name = (case str_chars name of
      [] \<Rightarrow> False
    | c # cs \<Rightarrow> (is_alphabetic u c \<or> c = ''_'') \<and> list_all (\<lambda>c. is_alphanumeric u c \<or> c = ''_'') cs)"

record template_scan =
  ts_segments :: "template_segment list"
  ts_issues :: "string list"

definition push_segments :: "template_segment list \<Rightarrow> template_scan \<Rightarrow> template_scan" where
  "push_segments ss ts = ts\<lparr>ts_segments := ss @ ts_segments ts\<rparr>"

definition push_issue :: "string \<Rightarrow> template_scan \<Rightarrow> template_scan" where
  "push_issue i ts = ts\<lparr>ts_issues := i # ts_issues ts\<rparr>"

definition flush_text :: "string \<Rightarrow> template_segment list" where
  "flush_text t = (if t = [] then [] else [Text t])"

text \<open>The loop of \<open>scan_template\<close> on what is left of the template, with the text collected so far.\<close>

function scan_from :: "unicode \<Rightarrow> string \<Rightarrow> string \<Rightarrow> template_scan" where
  "scan_from u [] acc = \<lparr>ts_segments = flush_text acc, ts_issues = []\<rparr>"
| "scan_from u (c # cs) acc =
     (if c = CHR ''{'' then
        if cs \<noteq> [] \<and> hd cs = CHR ''{'' then scan_from u (tl cs) (acc @ ''{'')
        else if CHR ''}'' \<in> set cs then
          (let name = takeWhile (\<lambda>d. d \<noteq> CHR ''}'') cs in
           if is_valid_var_name u name
           then push_segments (flush_text acc @ [Variable name])
                  (scan_from u (tl (dropWhile (\<lambda>d. d \<noteq> CHR ''}'') cs)) [])
           else push_issue (''invalid variable name inside `{'' @ name @ ''}`'') (scan_from u cs (acc @ ''{'')))
        else push_issue ''unclosed `{` placeholder'' (scan_from u cs (acc @ ''{''))
      else if c = CHR ''}'' then
        if cs \<noteq> [] \<and> hd cs = CHR ''}'' then scan_from u (tl cs) (acc @ ''}'')
        else push_issue ''stray `}` with no matching `{`'' (scan_from u cs (acc @ ''}''))
      else scan_from u cs (acc @ [c]))"
  by pat_completeness auto
termination
  by (relation "measure (\<lambda>(u, cs, t). length cs)")
    (auto intro: le_imp_less_Suc order_trans [OF diff_le_self length_dropWhile_le])

definition scan_template :: "unicode \<Rightarrow> string \<Rightarrow> template_scan" where
  "scan_template u template = scan_from u template []"

definition parse_template :: "unicode \<Rightarrow> string \<Rightarrow> template_segment list" where
  "parse_template u template = ts_segments (scan_template u template)"

definition require_well_formed :: "template_scan \<Rightarrow> prompts_error + unit" where
  "require_well_formed ts = (case ts_issues ts of i # _ \<Rightarrow> Inl (MalformedTemplate i) | [] \<Rightarrow> Inr ())"

definition validate_template :: "unicode \<Rightarrow> string \<Rightarrow> prompts_error + unit" where
  "validate_template u template = require_well_formed (scan_template u template)"

fun format_segments :: "string smap \<Rightarrow> template_segment list \<Rightarrow> prompts_error + string" where
  "format_segments vars [] = Inr []"
| "format_segments vars (Text t # ss) = result_bind (format_segments vars ss) (\<lambda>s. Inr (t @ s))"
| "format_segments vars (Variable n # ss) = (case map_of vars n of
      None \<Rightarrow> Inl (MissingVariable n)
    | Some v \<Rightarrow> result_bind (format_segments vars ss) (\<lambda>s. Inr (v @ s)))"

definition template_variables :: "template_segment list \<Rightarrow> string list" where
  "template_variables ss = List.map_filter (\<lambda>s. case s of Variable n \<Rightarrow> Some n | Text _ \<Rightarrow> None) ss"

text \<open>\<open>PromptTemplate\<close>: the template with its segments, parsed once, and the number of renders.\<close>

record prompt_template =
  pt_template :: string
  pt_segments :: "template_segment list"
  pt_renders :: nat

definition template_new :: "unicode \<Rightarrow> string \<Rightarrow> prompt_template" where
  "template_new u t = \<lparr>pt_template = t, pt_segments = parse_template u t, pt_renders = 0\<rparr>"

definition template_format :: "string smap \<Rightarrow> (prompt_template, prompts_error, string) eff" where
  "template_format vars pt = (case format_segments vars (pt_segments pt) of
      Inr out \<Rightarrow> Some (Inr out, pt\<lparr>pt_renders := pt_renders pt + 1\<rparr>)
    | Inl e \<Rightarrow> Some (Inl e, pt))"

definition variables :: "prompt_template \<Rightarrow> string list" where
  "variables pt = template_variables (pt_segments pt)"

record variable_diff =
  vd_missing :: "string list"
  vd_unused :: "string list"

text \<open>\<open>dedup_in_order\<close> keeps the first occurrence of each value.\<close>

fun dedup_owned :: "string set \<Rightarrow> string list \<Rightarrow> string list" where
  "dedup_owned seen [] = []"
| "dedup_owned seen (v # vs) = (if v \<in> seen then dedup_owned seen vs else v # dedup_owned (insert v seen) vs)"

definition dedup_in_order :: "string list \<Rightarrow> string list" where
  "dedup_in_order vs = dedup_owned {} vs"

definition diff_variables :: "string list \<Rightarrow> string list \<Rightarrow> variable_diff" where
  "diff_variables required supplied = (let r = dedup_in_order required; s = dedup_in_order supplied in
     \<lparr>vd_missing = filter (\<lambda>v. v \<notin> set s) r, vd_unused = filter (\<lambda>v. v \<notin> set r) s\<rparr>)"

definition require_exact :: "variable_diff \<Rightarrow> string \<Rightarrow> prompts_error + unit" where
  "require_exact d template = (case vd_missing d of
      first # _ \<Rightarrow> Inl (MissingVariable first)
    | [] \<Rightarrow> if vd_unused d \<noteq> [] then Inl (UnusedVariables template (vd_unused d)) else Inr ())"

definition template_validate :: "unicode \<Rightarrow> prompt_template \<Rightarrow> prompts_error + unit" where
  "template_validate u pt = validate_template u (pt_template pt)"

definition format_strict :: "unicode \<Rightarrow> string smap \<Rightarrow> (prompt_template, prompts_error, string) eff" where
  "format_strict u vars pt =
     eff_bind (lift_result (template_validate u pt)) (\<lambda>_.
     eff_bind (lift_result (require_exact (diff_variables (variables pt) (map fst vars)) (pt_template pt))) (\<lambda>_.
     template_format vars)) pt"


section \<open>Names hold no braces\<close>

lemma utf8_match_high:
  "\<forall>(lo, hi) \<in> set rs. 0x80 \<le> lo \<Longrightarrow> x \<in> set (take (utf8_match rs cs) cs) \<Longrightarrow> 0x80 \<le> (of_char x :: int)"
  by (induction rs cs rule: utf8_match.induct) (auto split: if_splits)

lemma utf8_follow_high: "utf8_follow b = Some rs \<Longrightarrow> \<forall>(lo, hi) \<in> set rs. 0x80 \<le> lo"
  by (auto simp: utf8_follow_def split: if_splits)

lemma utf8_step_ascii: "(of_char c :: int) < 0x80 \<Longrightarrow> utf8_step c cs = (True, 1)"
  by (cases cs) (simp_all add: utf8_step_def utf8_follow_def)

lemma utf8_step_high:
  assumes "utf8_step c cs = (v, n)" and "0x80 \<le> (of_char c :: int)" and "x \<in> set (take n (c # cs))"
  shows "0x80 \<le> (of_char x :: int)"
proof (cases "utf8_follow (of_char c)")
  case None
  then show ?thesis using assms by (auto simp: utf8_step_def)
next
  case (Some rs)
  then have "n = Suc (utf8_match rs cs)" using assms(1) by (simp add: utf8_step_def Let_def)
  then show ?thesis
    using assms(2,3) utf8_match_high [OF utf8_follow_high [OF Some], of x cs] by auto
qed

lemma str_chars_byte:
  assumes "x \<in> set s" and "(of_char x :: int) < 0x80"
  shows "[x] \<in> set (str_chars s)"
  using assms
proof (induction s rule: str_chars.induct)
  case (2 c cs)
  obtain v n where st: "utf8_step c cs = (v, n)" by (cases "utf8_step c cs")
  show ?case
  proof (cases "x \<in> set (take n (c # cs))")
    case True
    then have "(of_char c :: int) < 0x80" using utf8_step_high [OF st _ True] 2(3) by force
    then have "n = 1" using utf8_step_ascii [of c cs] st by simp
    then show ?thesis using True st by simp
  next
    case False
    then have "x \<in> set (drop n (c # cs))"
      using 2(2) set_append [of "take n (c # cs)" "drop n (c # cs)"] by auto
    then show ?thesis using 2 st by auto
  qed
qed simp

lemma valid_name_no_brace:
  assumes "is_valid_var_name u name" and "c \<in> set name"
  shows "c \<noteq> CHR ''{''" and "c \<noteq> CHR ''}''"
proof -
  have "c \<notin> {CHR ''{'', CHR ''}''}"
  proof
    assume c: "c \<in> {CHR ''{'', CHR ''}''}"
    then have "[c] \<in> set (str_chars name)" using assms(2) by (intro str_chars_byte) auto
    then have "is_alphabetic u [c] \<or> is_alphanumeric u [c] \<or> [c] = ''_''"
      using assms(1) by (auto simp: is_valid_var_name_def list_all_iff split: list.splits)
    then show False
      using c by (auto simp: is_alphabetic_def is_alphanumeric_def ascii_letter_def ascii_digit_def)
  qed
  then show "c \<noteq> CHR ''{''" "c \<noteq> CHR ''}''" by auto
qed

lemma valid_name_nonempty: "is_valid_var_name u name \<Longrightarrow> name \<noteq> []"
  by (auto simp: is_valid_var_name_def)



section \<open>Writing templates\<close>

text \<open>A template for given segments: braces of text are doubled.\<close>

definition escape_char :: "char \<Rightarrow> string" where
  "escape_char c = (if c = CHR ''{'' then ''{{'' else if c = CHR ''}'' then ''}}'' else [c])"

definition print_segment :: "template_segment \<Rightarrow> string" where
  "print_segment s = (case s of Text t \<Rightarrow> concat (map escape_char t) | Variable n \<Rightarrow> ''{'' @ n @ ''}'')"

definition print_template :: "template_segment list \<Rightarrow> string" where
  "print_template ss = concat (map print_segment ss)"

fun is_text :: "template_segment \<Rightarrow> bool" where
  "is_text (Text _) = True"
| "is_text (Variable _) = False"

fun canonical :: "unicode \<Rightarrow> template_segment list \<Rightarrow> bool" where
  "canonical u [] = True"
| "canonical u (Text t # ss) = (t \<noteq> [] \<and> (ss = [] \<or> \<not> is_text (hd ss)) \<and> canonical u ss)"
| "canonical u (Variable n # ss) = (is_valid_var_name u n \<and> canonical u ss)"

lemma push_simps [simp]:
  "ts_segments (push_segments ss ts) = ss @ ts_segments ts" "ts_issues (push_segments ss ts) = ts_issues ts"
  "ts_segments (push_issue i ts) = ts_segments ts" "ts_issues (push_issue i ts) = i # ts_issues ts"
  by (simp_all add: push_segments_def push_issue_def)

lemma scan_text: "scan_from u (concat (map escape_char t) @ rest) acc = scan_from u rest (acc @ t)"
  by (induction t arbitrary: acc) (auto simp: escape_char_def)

lemma scan_variable:
  assumes "is_valid_var_name u n"
  shows "scan_from u (CHR ''{'' # n @ CHR ''}'' # rest) acc =
    push_segments (flush_text acc @ [Variable n]) (scan_from u rest [])"
proof -
  have open_brace: "hd (n @ CHR ''}'' # rest) \<noteq> CHR ''{''"
    using valid_name_nonempty [OF assms] valid_name_no_brace(1) [OF assms, of "hd n"] by simp
  have "takeWhile (\<lambda>d. d \<noteq> CHR ''}'') (n @ CHR ''}'' # rest) = n"
    and "dropWhile (\<lambda>d. d \<noteq> CHR ''}'') (n @ CHR ''}'' # rest) = CHR ''}'' # rest"
    using valid_name_no_brace(2) [OF assms] by (auto simp: takeWhile_append dropWhile_append)
  then show ?thesis using open_brace assms by (simp add: Let_def)
qed

lemma scan_print:
  assumes "canonical u ss" and "acc = [] \<or> ss = [] \<or> \<not> is_text (hd ss)"
  shows "scan_from u (print_template ss) acc = \<lparr>ts_segments = flush_text acc @ ss, ts_issues = []\<rparr>"
  using assms
proof (induction u ss arbitrary: acc rule: canonical.induct)
  case (2 u t ss)
  then have "scan_from u (print_template ss) t = \<lparr>ts_segments = flush_text t @ ss, ts_issues = []\<rparr>"
    by auto
  then show ?case using 2 by (simp add: print_template_def print_segment_def scan_text flush_text_def)
next
  case (3 u n ss)
  then have "scan_from u (print_template ss) [] = \<lparr>ts_segments = ss, ts_issues = []\<rparr>"
    by (simp add: flush_text_def)
  then show ?case
    using 3 scan_variable [of u n "print_template ss" acc]
    by (simp add: print_template_def print_segment_def push_segments_def del: scan_from.simps)
qed (simp add: print_template_def)

declare scan_from.simps(2) [simp del]

lemma escape_char_simps:
  "escape_char (CHR ''{'') = ''{{''" "escape_char (CHR ''}'') = ''}}''"
  "c \<noteq> CHR ''{'' \<Longrightarrow> c \<noteq> CHR ''}'' \<Longrightarrow> escape_char c = [c]"
  by (simp_all add: escape_char_def)

text \<open>A placeholder without an issue is closed and has a valid name.\<close>

lemma scan_placeholder:
  assumes op: "c = CHR ''{''" and False: "\<not> (cs \<noteq> [] \<and> hd cs = CHR ''{'')"
  and prems: "ts_issues (scan_from u (c # cs) acc) = []"
 shows  "CHR ''}'' \<in> set cs" and "is_valid_var_name u (takeWhile (\<lambda>d. d \<noteq> CHR ''}'') cs)"
proof -
  have p: "ts_issues (if CHR ''}'' \<in> set cs then
          (let name = takeWhile (\<lambda>d. d \<noteq> CHR ''}'') cs in
           if is_valid_var_name u name
           then push_segments (flush_text acc @ [Variable name])
                  (scan_from u (tl (dropWhile (\<lambda>d. d \<noteq> CHR ''}'') cs)) [])
           else push_issue (''invalid variable name inside `{'' @ name @ ''}`'') (scan_from u cs (acc @ ''{'')))
        else push_issue ''unclosed `{` placeholder'' (scan_from u cs (acc @ ''{''))) = []"
    using prems op False by (simp only: scan_from.simps if_True if_False simp_thms)
  then show a: "CHR ''}'' \<in> set cs"
    by (cases "CHR ''}'' \<in> set cs") simp_all
  show "is_valid_var_name u (takeWhile (\<lambda>d. d \<noteq> CHR ''}'') cs)"
    using p a by (cases "is_valid_var_name u (takeWhile (\<lambda>d. d \<noteq> CHR ''}'') cs)") (simp_all add: Let_def)
qed

lemma scan_closing:
  assumes "c \<noteq> CHR ''{''" and "c = CHR ''}''" and "ts_issues (scan_from u (c # cs) acc) = []"
  shows "cs \<noteq> [] \<and> hd cs = CHR ''}''"
  using assms by (cases "cs \<noteq> [] \<and> hd cs = CHR ''}''") (simp_all only: scan_from.simps if_True if_False simp_thms push_simps list.distinct)

lemma scan_placeholder_well_formed:
  assumes op: "c = CHR ''{''" and single: "\<not> (cs \<noteq> [] \<and> hd cs = CHR ''{'')"
    and no_issue: "ts_issues (scan_from u (c # cs) acc) = []"
    and IH: "\<And>ds. length ds < length cs \<Longrightarrow> ts_issues (scan_from u ds []) = [] \<Longrightarrow>
      print_template (ts_segments (scan_from u ds [])) = ds \<and> canonical u (ts_segments (scan_from u ds []))"
  shows "print_template (ts_segments (scan_from u (c # cs) acc)) = concat (map escape_char acc) @ c # cs
    \<and> canonical u (ts_segments (scan_from u (c # cs) acc))"
proof -
  have closed: "CHR ''}'' \<in> set cs" and name0: "is_valid_var_name u (takeWhile (\<lambda>d. d \<noteq> CHR ''}'') cs)"
    by (rule scan_placeholder [OF op single no_issue])+
  then obtain n ds where cs: "cs = n @ CHR ''}'' # ds" and "CHR ''}'' \<notin> set n"
    using split_list_first [OF closed] by blast
  then have "takeWhile (\<lambda>d. d \<noteq> CHR ''}'') cs = n"
    by (auto simp: takeWhile_append)
  then have name: "is_valid_var_name u n" using name0 by simp
  have scan: "scan_from u (c # cs) acc = push_segments (flush_text acc @ [Variable n]) (scan_from u ds [])"
    unfolding op cs by (rule scan_variable [OF name])
  then have rest: "print_template (ts_segments (scan_from u ds [])) = ds" "canonical u (ts_segments (scan_from u ds []))"
    using IH [of ds] no_issue cs by simp_all
  show ?thesis
    unfolding scan using rest name
    by (simp add: op cs print_template_def print_segment_def flush_text_def)
qed

lemma scan_well_formed:
  assumes "ts_issues (scan_from u t acc) = []"
  shows "print_template (ts_segments (scan_from u t acc)) = concat (map escape_char acc) @ t
    \<and> canonical u (ts_segments (scan_from u t acc))"
  using assms
proof (induction t arbitrary: acc rule: length_induct)
  case (1 t)
  show ?case
  proof (cases t)
    case Nil
    then show ?thesis by (simp add: flush_text_def print_template_def print_segment_def)
  next
    case (Cons c cs)
    have IH: "print_template (ts_segments (scan_from u ds a)) = concat (map escape_char a) @ ds
        \<and> canonical u (ts_segments (scan_from u ds a))"
      if "length ds \<le> length cs" "ts_issues (scan_from u ds a) = []" for ds a
      using 1(1) that Cons by simp
    show ?thesis
    proof (cases "c = CHR ''{''")
      case op: True
      show ?thesis
      proof (cases "cs \<noteq> [] \<and> hd cs = CHR ''{''")
        case True
        then obtain ds where "cs = CHR ''{'' # ds" by (cases cs) auto
        moreover from this have "scan_from u t acc = scan_from u ds (acc @ ''{'')"
          by (simp add: Cons op scan_from.simps(2))
        ultimately show ?thesis using IH [of ds "acc @ ''{''"] 1(2) by (simp add: Cons op escape_char_simps)
      next
        case False
        then show ?thesis
          using scan_placeholder_well_formed [OF op False, of u acc] IH [of _ "[]"] 1(2) by (simp add: Cons)
      qed
    next
      case not_open: False
      show ?thesis
      proof (cases "c = CHR ''}''")
        case True
        then have "cs \<noteq> [] \<and> hd cs = CHR ''}''"
          using scan_closing [OF not_open True] 1(2) Cons by simp
        then obtain ds where "cs = CHR ''}'' # ds" by (cases cs) auto
        moreover from this have "scan_from u t acc = scan_from u ds (acc @ ''}'')"
          by (simp add: Cons True scan_from.simps(2))
        ultimately show ?thesis using IH [of ds "acc @ ''}''"] 1(2) by (simp add: Cons True escape_char_simps)
      next
        case False
        then have "scan_from u t acc = scan_from u cs (acc @ [c])"
          using not_open by (simp add: Cons scan_from.simps(2))
        then show ?thesis using IH [of cs "acc @ [c]"] 1(2) not_open False by (simp add: Cons escape_char_simps)
      qed
    qed
  qed
qed


section \<open>Properties\<close>

text \<open>
  C24. The templates that pass strict validation are exactly the ones printed from segments: printing
  segments and parsing the result gives the segments back and reports no issue, and a template
  without issues is what its segments print to. Rendering it puts each value in verbatim, braces
  and all, or names the first variable that has no value.
\<close>

theorem template_roundtrip:
  "(canonical u ss \<longrightarrow> parse_template u (print_template ss) = ss \<and> validate_template u (print_template ss) = Inr ())
   \<and> (validate_template u t = Inr () \<longrightarrow>
        print_template (parse_template u t) = t \<and> canonical u (parse_template u t))
   \<and> format_segments vars ss = (case find (\<lambda>n. map_of vars n = None) (template_variables ss) of
        Some n \<Rightarrow> Inl (MissingVariable n)
      | None \<Rightarrow> Inr (concat (map (\<lambda>s. case s of Text x \<Rightarrow> x | Variable n \<Rightarrow> the (map_of vars n)) ss)))"
proof (intro conjI impI)
  assume "canonical u ss"
  then have "scan_template u (print_template ss) = \<lparr>ts_segments = ss, ts_issues = []\<rparr>"
    using scan_print [of u ss "[]"] by (simp add: scan_template_def flush_text_def)
  then show "parse_template u (print_template ss) = ss" "validate_template u (print_template ss) = Inr ()"
    by (simp_all add: parse_template_def validate_template_def require_well_formed_def)
next
  assume "validate_template u t = Inr ()"
  then have "ts_issues (scan_from u t []) = []"
    by (simp add: validate_template_def require_well_formed_def scan_template_def split: list.splits)
  from scan_well_formed [OF this]
  show "print_template (parse_template u t) = t" "canonical u (parse_template u t)"
    by (simp_all add: parse_template_def scan_template_def)
next
  show "format_segments vars ss = (case find (\<lambda>n. map_of vars n = None) (template_variables ss) of
        Some n \<Rightarrow> Inl (MissingVariable n)
      | None \<Rightarrow> Inr (concat (map (\<lambda>s. case s of Text x \<Rightarrow> x | Variable n \<Rightarrow> the (map_of vars n)) ss)))"
    by (induction ss rule: format_segments.induct)
      (auto simp: template_variables_def List.map_filter_def split: option.splits)
qed

definition ascii_only :: unicode where
  "ascii_only = \<lparr>uc_alphabetic = (\<lambda>_. False), uc_numeric = (\<lambda>_. False)\<rparr>"

theorem template_roundtrip_witness:
  "parse_template ascii_only (print_template [Text ''a{'', Variable ''x_1'', Text ''}'']) = [Text ''a{'', Variable ''x_1'', Text ''}'']
   \<and> print_template (parse_template ascii_only ''{{ {b}'') = ''{{ {b}''"
proof -
  have "canonical ascii_only [Text ''a{'', Variable ''x_1'', Text ''}'']"
    and "validate_template ascii_only ''{{ {b}'' = Inr ()"
    by code_simp+
  then show ?thesis
    using template_roundtrip [of ascii_only "[Text ''a{'', Variable ''x_1'', Text ''}'']" "''{{ {b}''" "[]"] by blast
qed

end
