(* ===== verification/Chat_Memory.thy ===== *)
theory Chat_Memory
  imports Session_Manager Prompt_Template
begin

text \<open>
  The conversation memories of \<open>lc-memory\<close> that live in the process: the message history
  (\<open>base.rs\<close>), the buffer (\<open>buffer.rs\<close>), the window (\<open>window.rs\<close>), the running summary
  (\<open>summary.rs\<close>) and the summary with a token budget (\<open>summary_buffer.rs\<close>).

  A method with \<open>&mut self\<close> is an effect on the memory object, together with the world of the
  language model where one is asked. The model, the serialisation of messages and the token counter
  of the summary buffer are parameters; prompts are rendered by \<open>Prompt_Template\<close>.
\<close>

section \<open>Message history\<close>

type_synonym chat_message_history = "message list"

definition add_user_message :: "string \<Rightarrow> chat_message_history \<Rightarrow> chat_message_history" where
  "add_user_message c h = h @ [human c]"

definition add_ai_message :: "string \<Rightarrow> chat_message_history \<Rightarrow> chat_message_history" where
  "add_ai_message c h = h @ [ai c]"

definition add_system_message :: "string \<Rightarrow> chat_message_history \<Rightarrow> chat_message_history" where
  "add_system_message c h = h @ [system c]"

definition role_name :: "message_type \<Rightarrow> string" where
  "role_name t = (case t of Human \<Rightarrow> ''Human'' | AI \<Rightarrow> ''AI'' | System \<Rightarrow> ''System'' | Tool _ \<Rightarrow> ''Tool'')"

definition message_line :: "message \<Rightarrow> string" where
  "message_line m = role_name (msg_type m) @ '': '' @ msg_content m"

definition history_to_string :: "chat_message_history \<Rightarrow> string" where
  "history_to_string h = join [CHR 0x0A] (map message_line h)"

definition serialize_message_to_prompt :: "(message \<Rightarrow> string + json) \<Rightarrow> message \<Rightarrow> memory_error + json" where
  "serialize_message_to_prompt to_value msg = (case to_value (msg\<lparr>msg_id := None\<rparr>) of
      Inl e \<Rightarrow> Inl (LoadError (''failed to serialize memory message: '' @ e))
    | Inr v \<Rightarrow> Inr v)"

text \<open>\<open>iter().map(f).collect::<Result<Vec<_>, _>>()\<close>.\<close>

fun collect_results :: "('a \<Rightarrow> 'e + 'b) \<Rightarrow> 'a list \<Rightarrow> 'e + 'b list" where
  "collect_results f [] = Inr []"
| "collect_results f (x # xs) = result_bind (f x) (\<lambda>y. result_bind (collect_results f xs) (\<lambda>ys. Inr (y # ys)))"

definition serialize_messages :: "(message \<Rightarrow> string + json) \<Rightarrow> message list \<Rightarrow> memory_error + json" where
  "serialize_messages to_value ms = result_bind (collect_results (serialize_message_to_prompt to_value) ms) (\<lambda>vs. Inr (JArray vs))"

definition required_key :: "string \<Rightarrow> string \<Rightarrow> string smap \<Rightarrow> memory_error + string" where
  "required_key kind key m = ok_or (SaveError (''Missing '' @ kind @ '' key '' @ quoted key)) (map_of m key)"


section \<open>Buffer\<close>

record buffer_memory =
  bm_chat :: chat_message_history
  bm_input_key :: string
  bm_output_key :: string
  bm_memory_key :: string
  bm_return_messages :: bool

definition buffer_new :: buffer_memory where
  "buffer_new = \<lparr>bm_chat = [], bm_input_key = ''input'', bm_output_key = ''output'',
     bm_memory_key = ''history'', bm_return_messages = False\<rparr>"

definition from_chat_memory :: "chat_message_history \<Rightarrow> buffer_memory" where
  "from_chat_memory h = buffer_new\<lparr>bm_chat := h\<rparr>"

definition buffer_with_input_key :: "string \<Rightarrow> buffer_memory \<Rightarrow> buffer_memory" where
  "buffer_with_input_key v m = m\<lparr>bm_input_key := v\<rparr>"

definition buffer_with_output_key :: "string \<Rightarrow> buffer_memory \<Rightarrow> buffer_memory" where
  "buffer_with_output_key v m = m\<lparr>bm_output_key := v\<rparr>"

definition buffer_with_memory_key :: "string \<Rightarrow> buffer_memory \<Rightarrow> buffer_memory" where
  "buffer_with_memory_key v m = m\<lparr>bm_memory_key := v\<rparr>"

definition buffer_with_return_messages :: "bool \<Rightarrow> buffer_memory \<Rightarrow> buffer_memory" where
  "buffer_with_return_messages v m = m\<lparr>bm_return_messages := v\<rparr>"

definition buffer_load :: "(message \<Rightarrow> string + json) \<Rightarrow> buffer_memory \<Rightarrow> string smap \<Rightarrow> memory_error + json smap" where
  "buffer_load to_value m _ =
     (if bm_return_messages m
      then result_bind (serialize_messages to_value (bm_chat m)) (\<lambda>v. Inr [(bm_memory_key m, v)])
      else Inr [(bm_memory_key m, JString (history_to_string (bm_chat m)))])"

definition buffer_save :: "string smap \<Rightarrow> string smap \<Rightarrow> (buffer_memory, memory_error, unit) eff" where
  "buffer_save inputs outputs m =
     (case required_key ''input'' (bm_input_key m) inputs of
        Inl e \<Rightarrow> Some (Inl e, m)
      | Inr input \<Rightarrow> (case required_key ''output'' (bm_output_key m) outputs of
          Inl e \<Rightarrow> Some (Inl e, m)
        | Inr output \<Rightarrow> Some (Inr (), m\<lparr>bm_chat := add_ai_message output (add_user_message input (bm_chat m))\<rparr>)))"

definition buffer_clear :: "(buffer_memory, memory_error, unit) eff" where
  "buffer_clear m = Some (Inr (), m\<lparr>bm_chat := []\<rparr>)"


section \<open>Window\<close>

record window_memory = buffer_memory +
  wm_k :: nat

definition window_new :: "nat \<Rightarrow> window_memory" where
  "window_new k = \<lparr>bm_chat = [], bm_input_key = ''input'', bm_output_key = ''output'',
     bm_memory_key = ''history'', bm_return_messages = False, wm_k = k\<rparr>"

definition window_default :: window_memory where
  "window_default = window_new 5"

definition window_with_input_key :: "string \<Rightarrow> window_memory \<Rightarrow> window_memory" where
  "window_with_input_key v m = m\<lparr>bm_input_key := v\<rparr>"

definition window_with_output_key :: "string \<Rightarrow> window_memory \<Rightarrow> window_memory" where
  "window_with_output_key v m = m\<lparr>bm_output_key := v\<rparr>"

definition window_with_memory_key :: "string \<Rightarrow> window_memory \<Rightarrow> window_memory" where
  "window_with_memory_key v m = m\<lparr>bm_memory_key := v\<rparr>"

definition window_with_return_messages :: "bool \<Rightarrow> window_memory \<Rightarrow> window_memory" where
  "window_with_return_messages v m = m\<lparr>bm_return_messages := v\<rparr>"

text \<open>\<open>self.k * 2\<close> is a \<open>usize\<close> of 64 bits, which wraps in a release build.\<close>

definition get_window_messages :: "window_memory \<Rightarrow> message list" where
  "get_window_messages m = (let messages = bm_chat m; total = length messages in
     if total = 0 then []
     else let max_messages = u64 (wm_k m * 2) in
     if total \<le> max_messages then messages
     else
       let is_human = (\<lambda>i. msg_type (messages ! i) = Human);
           ideal = total - max_messages;
           cut = (case find is_human [ideal..<total] of
               Some i \<Rightarrow> i
             | None \<Rightarrow> (case find is_human (rev [0..<ideal]) of Some i \<Rightarrow> i | None \<Rightarrow> ideal))
       in drop cut messages)"

definition window_load :: "(message \<Rightarrow> string + json) \<Rightarrow> window_memory \<Rightarrow> string smap \<Rightarrow> memory_error + json smap" where
  "window_load to_value m _ =
     (if bm_return_messages m
      then result_bind (serialize_messages to_value (get_window_messages m)) (\<lambda>v. Inr [(bm_memory_key m, v)])
      else Inr [(bm_memory_key m, JString (join [CHR 0x0A] (map message_line (get_window_messages m))))])"

definition window_save :: "string smap \<Rightarrow> string smap \<Rightarrow> (window_memory, memory_error, unit) eff" where
  "window_save inputs outputs m =
     (case required_key ''input'' (bm_input_key m) inputs of
        Inl e \<Rightarrow> Some (Inl e, m)
      | Inr input \<Rightarrow>
        let m = m\<lparr>bm_chat := add_user_message input (bm_chat m)\<rparr> in
        (case required_key ''output'' (bm_output_key m) outputs of
          Inl e \<Rightarrow> Some (Inl e, m)
        | Inr output \<Rightarrow> Some (Inr (), m\<lparr>bm_chat := add_ai_message output (bm_chat m)\<rparr>)))"

definition window_clear :: "(window_memory, memory_error, unit) eff" where
  "window_clear m = Some (Inr (), m\<lparr>bm_chat := []\<rparr>)"



section \<open>Summaries\<close>

text \<open>
  Both summary memories render a prompt with the summary so far and the new lines and ask the model.
  \<open>llm\<close> is \<open>invoke\<close> of the model: the content of its answer, or the displayed error.
\<close>

definition summary_prompt_text :: "unicode \<Rightarrow> string \<Rightarrow> string \<Rightarrow> string \<Rightarrow> string" where
  "summary_prompt_text u prompt summary new_lines =
     (case template_format [(''new_lines'', new_lines), (''summary'', summary)] (template_new u prompt) of
        Some (Inr s, _) \<Rightarrow> s
      | _ \<Rightarrow> prompt)"

type_synonym 'x chat_llm = "message list \<Rightarrow> ('x, string, string) eff"

definition ask_summary :: "unicode \<Rightarrow> 'x chat_llm \<Rightarrow> string \<Rightarrow> string \<Rightarrow> string \<Rightarrow> ('x, memory_error, string) eff" where
  "ask_summary u llm prompt summary new_lines x =
     (case llm [human (summary_prompt_text u prompt summary new_lines)] x of
        None \<Rightarrow> None
      | Some (Inl e, x') \<Rightarrow> Some (Inl (SaveError (''LLM summary generation failed: '' @ e)), x')
      | Some (Inr content, x') \<Rightarrow> Some (Inr content, x'))"


section \<open>Running summary\<close>

record summary_memory =
  sm_buffer :: string
  sm_chat :: chat_message_history
  sm_input_key :: string
  sm_output_key :: string
  sm_memory_key :: string
  sm_prompt :: string
  sm_return_messages :: bool
  sm_max_recent_turns :: nat
  sm_pending_lines :: string
  sm_last_error :: "string option"

definition SUMMARY_PROMPT :: string where
  "SUMMARY_PROMPT = ''Progressively summarize the lines of conversation provided, adding onto the previous summary returning a new summary.'' @ [CHR 0x0A]
     @ [] @ [CHR 0x0A]
     @ ''EXAMPLE'' @ [CHR 0x0A]
     @ ''Summary of conversation:'' @ [CHR 0x0A]
     @ ''Human: My name is Zhang San, I like programming.'' @ [CHR 0x0A]
     @ ''AI: Hello Zhang San, nice to meet you! You like programming, any particular language?'' @ [CHR 0x0A]
     @ ''Human: I like Rust.'' @ [CHR 0x0A]
     @ ''AI: Rust is a great programming language, focused on safety and performance.'' @ [CHR 0x0A]
     @ [] @ [CHR 0x0A]
     @ ''New lines of conversation:'' @ [CHR 0x0A]
     @ ''Human: I also like Python.'' @ [CHR 0x0A]
     @ ''AI: Python is also popular, with concise syntax, suitable for rapid development.'' @ [CHR 0x0A]
     @ [] @ [CHR 0x0A]
     @ ''New summary:'' @ [CHR 0x0A]
     @ ''Human Zhang San likes programming, especially Rust and Python. AI discussed the characteristics of these two languages with Zhang San.'' @ [CHR 0x0A]
     @ [] @ [CHR 0x0A]
     @ ''END OF EXAMPLE'' @ [CHR 0x0A]
     @ [] @ [CHR 0x0A]
     @ ''Current summary:'' @ [CHR 0x0A]
     @ ''{summary}'' @ [CHR 0x0A]
     @ [] @ [CHR 0x0A]
     @ ''New lines of conversation:'' @ [CHR 0x0A]
     @ ''{new_lines}'' @ [CHR 0x0A]
     @ [] @ [CHR 0x0A]
     @ ''New summary:''"

definition summary_from_messages :: "chat_message_history \<Rightarrow> summary_memory" where
  "summary_from_messages messages = \<lparr>sm_buffer = [], sm_chat = messages, sm_input_key = ''input'',
     sm_output_key = ''output'', sm_memory_key = ''history'', sm_prompt = SUMMARY_PROMPT,
     sm_return_messages = False, sm_max_recent_turns = 2, sm_pending_lines = [], sm_last_error = None\<rparr>"

definition summary_new :: summary_memory where
  "summary_new = summary_from_messages []"

definition summary_with_input_key :: "string \<Rightarrow> summary_memory \<Rightarrow> summary_memory" where
  "summary_with_input_key v m = m\<lparr>sm_input_key := v\<rparr>"

definition summary_with_output_key :: "string \<Rightarrow> summary_memory \<Rightarrow> summary_memory" where
  "summary_with_output_key v m = m\<lparr>sm_output_key := v\<rparr>"

definition summary_with_memory_key :: "string \<Rightarrow> summary_memory \<Rightarrow> summary_memory" where
  "summary_with_memory_key v m = m\<lparr>sm_memory_key := v\<rparr>"

definition summary_with_summary_prompt :: "string \<Rightarrow> summary_memory \<Rightarrow> summary_memory" where
  "summary_with_summary_prompt v m = m\<lparr>sm_prompt := v\<rparr>"

definition summary_with_return_messages :: "bool \<Rightarrow> summary_memory \<Rightarrow> summary_memory" where
  "summary_with_return_messages v m = m\<lparr>sm_return_messages := v\<rparr>"

definition summary_with_max_recent_turns :: "nat \<Rightarrow> summary_memory \<Rightarrow> summary_memory" where
  "summary_with_max_recent_turns v m = m\<lparr>sm_max_recent_turns := v\<rparr>"

definition format_new_lines :: "string \<Rightarrow> string \<Rightarrow> string" where
  "format_new_lines input output = ''Human: '' @ input @ [CHR 0x0A] @ ''AI: '' @ output"

definition summary_predict :: "unicode \<Rightarrow> 'x chat_llm \<Rightarrow> summary_memory \<Rightarrow> string \<Rightarrow> ('x, memory_error, string) eff" where
  "summary_predict u llm m new_lines =
     ask_summary u llm (sm_prompt m) (sm_buffer m)
       ((if sm_pending_lines m \<noteq> [] then sm_pending_lines m @ [CHR 0x0A] else []) @ new_lines)"

definition rebuild_recent :: "message list \<Rightarrow> message list" where
  "rebuild_recent ms = List.map_filter (\<lambda>m. case msg_type m of
      Human \<Rightarrow> Some (human (msg_content m))
    | AI \<Rightarrow> if msg_tool_calls m = None then Some (ai (msg_content m)) else None
    | System \<Rightarrow> Some (system (msg_content m))
    | Tool _ \<Rightarrow> None) ms"

definition trim_chat_memory :: "summary_memory \<Rightarrow> summary_memory" where
  "trim_chat_memory m = (let max_messages = sm_max_recent_turns m * 2; messages = sm_chat m in
     if length messages > max_messages then
       let start = length messages - max_messages in
       m\<lparr>sm_chat := map (\<lambda>x. system (msg_content x)) (filter (\<lambda>x. msg_type x = System) (take start messages))
           @ rebuild_recent (drop start messages)\<rparr>
     else m)"

definition summary_load :: "(message \<Rightarrow> string + json) \<Rightarrow> summary_memory \<Rightarrow> string smap \<Rightarrow> memory_error + json smap" where
  "summary_load to_value m _ =
     (if sm_return_messages m
      then result_bind (serialize_messages to_value [system (sm_buffer m)]) (\<lambda>v. Inr [(sm_memory_key m, v)])
      else Inr [(sm_memory_key m, JString (sm_buffer m))])"

definition summary_save ::
  "unicode \<Rightarrow> 'x chat_llm \<Rightarrow> string smap \<Rightarrow> string smap \<Rightarrow> (summary_memory \<times> 'x, memory_error, unit) eff" where
  "summary_save u llm inputs outputs mx = (case mx of (m0, x) \<Rightarrow>
     (case required_key ''input'' (sm_input_key m0) inputs of
        Inl e \<Rightarrow> Some (Inl e, (m0, x))
      | Inr input \<Rightarrow> (case required_key ''output'' (sm_output_key m0) outputs of
          Inl e \<Rightarrow> Some (Inl e, (m0, x))
        | Inr output \<Rightarrow>
          let m = m0\<lparr>sm_chat := add_ai_message output (add_user_message input (sm_chat m0))\<rparr>;
              new_lines = format_new_lines input output in
          (case summary_predict u llm m new_lines x of
             None \<Rightarrow> None
           | Some (Inl e, x') \<Rightarrow>
               Some (Inr (), (trim_chat_memory (m\<lparr>sm_pending_lines :=
                   (if sm_pending_lines m \<noteq> [] then sm_pending_lines m @ [CHR 0x0A] else []) @ new_lines,
                 sm_last_error := Some (show_memory_error e)\<rparr>), x'))
           | Some (Inr new_summary, x') \<Rightarrow>
               Some (Inr (), (trim_chat_memory (m\<lparr>sm_buffer := new_summary, sm_pending_lines := [],
                 sm_last_error := None\<rparr>), x'))))))"

definition summary_clear :: "(summary_memory, memory_error, unit) eff" where
  "summary_clear m = Some (Inr (), m\<lparr>sm_buffer := [], sm_chat := [], sm_pending_lines := [], sm_last_error := None\<rparr>)"


section \<open>Summary with a token budget\<close>

definition SUMMARY_BUFFER_PROMPT :: string where
  "SUMMARY_BUFFER_PROMPT = ''Progressively summarize the conversation, adding new content to the previous summary.'' @ [CHR 0x0A] @ [] @ [CHR 0x0A] @ ''Current summary:'' @ [CHR 0x0A] @ ''{summary}'' @ [CHR 0x0A] @ [] @ [CHR 0x0A] @ ''New lines of conversation:'' @ [CHR 0x0A] @ ''{new_lines}'' @ [CHR 0x0A] @ [] @ [CHR 0x0A] @ ''New summary:''"

definition MAX_CONSECUTIVE_SUMMARY_FAILURES :: nat where
  "MAX_CONSECUTIVE_SUMMARY_FAILURES = 3"

record summary_buffer =
  sb_buffer :: string
  sb_chat :: chat_message_history
  sb_max_token_limit :: nat
  sb_input_key :: string
  sb_output_key :: string
  sb_memory_key :: string
  sb_prompt :: string
  sb_return_messages :: bool
  sb_last_error :: "string option"
  sb_failures :: nat
  sb_max_failures :: nat

definition summary_buffer_new :: "nat \<Rightarrow> summary_buffer" where
  "summary_buffer_new limit = \<lparr>sb_buffer = [], sb_chat = [], sb_max_token_limit = limit, sb_input_key = ''input'',
     sb_output_key = ''output'', sb_memory_key = ''history'', sb_prompt = SUMMARY_BUFFER_PROMPT,
     sb_return_messages = False, sb_last_error = None, sb_failures = 0,
     sb_max_failures = MAX_CONSECUTIVE_SUMMARY_FAILURES\<rparr>"

definition with_max_consecutive_summary_failures :: "nat \<Rightarrow> summary_buffer \<Rightarrow> summary_buffer" where
  "with_max_consecutive_summary_failures n m = m\<lparr>sb_max_failures := max n 1\<rparr>"

definition summary_buffer_with_input_key :: "string \<Rightarrow> summary_buffer \<Rightarrow> summary_buffer" where
  "summary_buffer_with_input_key v m = m\<lparr>sb_input_key := v\<rparr>"

definition summary_buffer_with_output_key :: "string \<Rightarrow> summary_buffer \<Rightarrow> summary_buffer" where
  "summary_buffer_with_output_key v m = m\<lparr>sb_output_key := v\<rparr>"

definition summary_buffer_with_memory_key :: "string \<Rightarrow> summary_buffer \<Rightarrow> summary_buffer" where
  "summary_buffer_with_memory_key v m = m\<lparr>sb_memory_key := v\<rparr>"

definition summary_buffer_with_summary_prompt :: "string \<Rightarrow> summary_buffer \<Rightarrow> summary_buffer" where
  "summary_buffer_with_summary_prompt v m = m\<lparr>sb_prompt := v\<rparr>"

definition summary_buffer_with_return_messages :: "bool \<Rightarrow> summary_buffer \<Rightarrow> summary_buffer" where
  "summary_buffer_with_return_messages v m = m\<lparr>sb_return_messages := v\<rparr>"

definition set_summary :: "string \<Rightarrow> summary_buffer \<Rightarrow> summary_buffer" where
  "set_summary v m = m\<lparr>sb_buffer := v\<rparr>"

definition set_max_token_limit :: "nat \<Rightarrow> summary_buffer \<Rightarrow> summary_buffer" where
  "set_max_token_limit v m = m\<lparr>sb_max_token_limit := v\<rparr>"

definition kept_in_window :: "message \<Rightarrow> bool" where
  "kept_in_window m = (msg_type m = Human \<or> msg_type m = AI \<and> msg_tool_calls m = None \<or> msg_type m = System)"

definition retain_to_window :: "message list \<Rightarrow> summary_buffer \<Rightarrow> summary_buffer" where
  "retain_to_window kept m = m\<lparr>sb_chat := filter kept_in_window kept\<rparr>"

fun is_tool :: "message_type \<Rightarrow> bool" where
  "is_tool (Tool _) = True"
| "is_tool _ = False"

text \<open>The loop over \<open>messages.iter().rev()\<close>: what is kept, newest first.\<close>

fun keep_newest :: "(string \<Rightarrow> nat) \<Rightarrow> nat \<Rightarrow> nat \<Rightarrow> message list \<Rightarrow> message list" where
  "keep_newest count limit current [] = []"
| "keep_newest count limit current (m # ms) =
     (if current + count (msg_content m) \<le> limit
      then m # keep_newest count limit (current + count (msg_content m)) ms else [])"

definition total_tokens :: "(string \<Rightarrow> nat) \<Rightarrow> message list \<Rightarrow> nat" where
  "total_tokens count ms = sum_list (map (\<lambda>m. count (msg_content m)) ms)"

definition prune_messages :: "(string \<Rightarrow> nat) \<Rightarrow> nat \<Rightarrow> message list \<Rightarrow> message list" where
  "prune_messages count limit messages =
     (if total_tokens count messages \<le> limit then messages
      else dropWhile (\<lambda>m. is_tool (msg_type m)) (rev (keep_newest count limit 0 (rev messages))))"

definition summary_buffer_load ::
  "(message \<Rightarrow> string + json) \<Rightarrow> (string \<Rightarrow> nat) \<Rightarrow> summary_buffer \<Rightarrow> string smap \<Rightarrow> memory_error + json smap" where
  "summary_buffer_load to_value count m _ = (
     let pruned = prune_messages count (sb_max_token_limit m) (sb_chat m) in
     if sb_return_messages m
     then result_bind (serialize_messages to_value
            ((if sb_buffer m \<noteq> [] then [system (sb_buffer m)] else []) @ pruned)) (\<lambda>v. Inr [(sb_memory_key m, v)])
     else Inr [(sb_memory_key m, JString
            ((if sb_buffer m \<noteq> [] then ''Summary: '' @ sb_buffer m @ [CHR 0x0A, CHR 0x0A] else [])
             @ concat (map (\<lambda>x. message_line x @ [CHR 0x0A]) pruned)))])"

definition summary_buffer_save ::
  "unicode \<Rightarrow> 'x chat_llm \<Rightarrow> (string \<Rightarrow> nat) \<Rightarrow> string smap \<Rightarrow> string smap \<Rightarrow> (summary_buffer \<times> 'x, memory_error, unit) eff" where
  "summary_buffer_save u llm count inputs outputs mx = (case mx of (m0, x) \<Rightarrow>
     (case required_key ''input'' (sb_input_key m0) inputs of
        Inl e \<Rightarrow> Some (Inl e, (m0, x))
      | Inr input \<Rightarrow> (case required_key ''output'' (sb_output_key m0) outputs of
          Inl e \<Rightarrow> Some (Inl e, (m0, x))
        | Inr output \<Rightarrow>
          let m = m0\<lparr>sb_chat := add_ai_message output (add_user_message input (sb_chat m0))\<rparr>;
              messages = sb_chat m in
          if total_tokens count messages > sb_max_token_limit m then
            let pruned = prune_messages count (sb_max_token_limit m) messages in
            if length messages > length pruned then
              let new_lines = join [CHR 0x0A] (map message_line (take (length messages - length pruned) messages)) in
              (case ask_summary u llm (sb_prompt m) (sb_buffer m) new_lines x of
                 None \<Rightarrow> None
               | Some (Inr new_summary, x') \<Rightarrow>
                   Some (Inr (), (retain_to_window pruned
                     (m\<lparr>sb_buffer := new_summary, sb_last_error := None, sb_failures := 0\<rparr>), x'))
               | Some (Inl e, x') \<Rightarrow>
                   let m = m\<lparr>sb_last_error := Some (show_memory_error e), sb_failures := sb_failures m + 1\<rparr> in
                   if sb_failures m \<ge> sb_max_failures m
                   then Some (Inr (), ((retain_to_window pruned m)\<lparr>sb_failures := 0\<rparr>, x'))
                   else Some (Inr (), (m, x')))
            else Some (Inr (), (m, x))
          else Some (Inr (), (m, x)))))"

definition summary_buffer_clear :: "(summary_buffer, memory_error, unit) eff" where
  "summary_buffer_clear m = Some (Inr (), m\<lparr>sb_buffer := [], sb_chat := [], sb_last_error := None, sb_failures := 0\<rparr>)"

end
