(* ===== verification/Chat_Memory_Props.thy ===== *)
theory Chat_Memory_Props
  imports Chat_Memory
begin

text \<open>
  What the conversation memories keep. The locale \<open>turn_memory\<close> is what a caller of \<open>save_context\<close>
  relies on; the buffer and the window provide it, and the buffer also the stronger
  \<open>atomic_memory\<close>, which the window does not. Then the window's contents, and the bound on the
  history of a summary buffer under failing summaries.
\<close>

section \<open>Saving turns\<close>

fun turn_messages :: "(string \<times> string) list \<Rightarrow> message list" where
  "turn_messages [] = []"
| "turn_messages ((i, out) # ts) = human i # ai out # turn_messages ts"

lemma turn_messages_append: "turn_messages (xs @ ys) = turn_messages xs @ turn_messages ys"
  by (induction xs rule: turn_messages.induct) simp_all

lemma length_turn_messages: "length (turn_messages ts) = 2 * length ts"
  by (induction ts rule: turn_messages.induct) simp_all

locale turn_memory =
  fixes save :: "string smap \<Rightarrow> string smap \<Rightarrow> ('m, memory_error, unit) eff"
    and clear :: "('m, memory_error, unit) eff"
    and messages :: "'m \<Rightarrow> message list"
    and keys :: "'m \<Rightarrow> string \<times> string"
  assumes save_ok: "\<lbrakk>map_of inputs (fst (keys m)) = Some i; map_of outputs (snd (keys m)) = Some out\<rbrakk>
      \<Longrightarrow> \<exists>m'. save inputs outputs m = Some (Inr (), m') \<and> messages m' = messages m @ [human i, ai out] \<and> keys m' = keys m"
    and save_missing: "map_of inputs (fst (keys m)) = None \<or> map_of outputs (snd (keys m)) = None
      \<Longrightarrow> \<exists>e m'. save inputs outputs m = Some (Inl (SaveError e), m') \<and> keys m' = keys m"
    and clear_ok: "\<exists>m'. clear m = Some (Inr (), m') \<and> messages m' = [] \<and> keys m' = keys m"
begin

fun save_turns :: "(string \<times> string) list \<Rightarrow> ('m, memory_error, unit) eff" where
  "save_turns [] = ok ()"
| "save_turns ((i, out) # ts) = (\<lambda>m. eff_bind (save [(fst (keys m), i)] [(snd (keys m), out)]) (\<lambda>_. save_turns ts) m)"

lemma save_turns_messages:
  "\<exists>m'. save_turns ts m = Some (Inr (), m') \<and> messages m' = messages m @ turn_messages ts \<and> keys m' = keys m"
proof (induction ts arbitrary: m rule: turn_messages.induct)
  case (2 i out ts)
  obtain m1 where m1: "save [(fst (keys m), i)] [(snd (keys m), out)] m = Some (Inr (), m1)"
    "messages m1 = messages m @ [human i, ai out]" "keys m1 = keys m"
    using save_ok [of "[(fst (keys m), i)]" m i "[(snd (keys m), out)]" out] by auto
  then show ?case using 2 [of m1] by (auto simp: eff_bind_def m1)
qed simp

end

locale atomic_memory = turn_memory +
  assumes save_failed: "save inputs outputs m = Some (Inl e, m') \<Longrightarrow> messages m' = messages m"

interpretation buffer: atomic_memory buffer_save buffer_clear bm_chat "\<lambda>m. (bm_input_key m, bm_output_key m)"
  by unfold_locales
    (auto simp: buffer_save_def buffer_clear_def required_key_def add_user_message_def add_ai_message_def ok_or_def
      split: option.splits sum.splits)

interpretation window: turn_memory window_save window_clear bm_chat "\<lambda>m. (bm_input_key m, bm_output_key m)"
  by unfold_locales
    (auto simp: window_save_def window_clear_def required_key_def add_user_message_def add_ai_message_def ok_or_def Let_def
      split: option.splits sum.splits)

text \<open>The window is not atomic: without an output the user message stays behind.\<close>

lemma window_save_partial:
  assumes "map_of inputs (bm_input_key m) = Some i" and "map_of outputs (bm_output_key m) = None"
  shows "window_save inputs outputs m =
    Some (Inl (SaveError (''Missing output key '' @ quoted (bm_output_key m))), m\<lparr>bm_chat := bm_chat m @ [human i]\<rparr>)"
  using assms by (simp add: window_save_def required_key_def add_user_message_def Let_def)



section \<open>The window\<close>

abbreviation is_human :: "message \<Rightarrow> bool" where
  "is_human x \<equiv> msg_type x = Human"

lemma find_upt_Some:
  assumes "find P [a..<b] = Some i"
  shows "a \<le> i" and "i < b" and "P i" and "\<And>j. a \<le> j \<Longrightarrow> j < i \<Longrightarrow> \<not> P j"
proof -
  obtain d where d: "d < b - a" "P (a + d)" "i = a + d" "\<forall>j < d. \<not> P (a + j)"
    using assms by (auto simp: find_Some_iff)
  then show "a \<le> i" "i < b" "P i" by simp_all
  show "\<not> P j" if "a \<le> j" "j < i" for j
    using d(3,4) that by (auto dest: spec [of _ "j - a"])
qed

lemma find_rev_upt_Some:
  assumes "find P (rev [0..<b]) = Some i"
  shows "i < b" and "P i" and "\<And>j. i < j \<Longrightarrow> j < b \<Longrightarrow> \<not> P j"
proof -
  obtain d where d: "d < b" "i = rev [0..<b] ! d" "P i" "\<And>e. e < d \<Longrightarrow> \<not> P (rev [0..<b] ! e)"
    using assms by (auto simp: find_Some_iff)
  have nth: "rev [0..<b] ! e = b - 1 - e" if "e < b" for e
    using that by (simp add: rev_nth)
  show "i < b" "P i" using d nth by auto
  show "\<not> P j" if "i < j" "j < b" for j
  proof -
    have "rev [0..<b] ! (b - 1 - j) = j" using that by (simp add: rev_nth)
    moreover have "b - 1 - j < d" using d nth [of d] that by simp
    ultimately show ?thesis using d(4) by metis
  qed
qed

text \<open>The three ways to choose the start of the window when the history exceeds it.\<close>

lemma double_k: "k < 2 ^ 63 \<Longrightarrow> u64 (k * 2) = k * 2"
  by (rule u64_small) simp

lemma window_cases:
  assumes "wm_k m * 2 < length (bm_chat m)" and k: "wm_k m < 2 ^ 63"
  defines "ideal \<equiv> length (bm_chat m) - wm_k m * 2"
  obtains (inside) i where "get_window_messages m = drop i (bm_chat m)" "ideal \<le> i" "i < length (bm_chat m)"
      "is_human (bm_chat m ! i)" "\<And>j. ideal \<le> j \<Longrightarrow> j < i \<Longrightarrow> \<not> is_human (bm_chat m ! j)"
    | (before) i where "get_window_messages m = drop i (bm_chat m)" "i < ideal" "is_human (bm_chat m ! i)"
      "\<And>j. i < j \<Longrightarrow> j < length (bm_chat m) \<Longrightarrow> \<not> is_human (bm_chat m ! j)"
    | (none) "get_window_messages m = drop ideal (bm_chat m)" "\<And>x. x \<in> set (bm_chat m) \<Longrightarrow> \<not> is_human x"
proof -
  let ?ms = "bm_chat m" and ?P = "\<lambda>i. is_human (bm_chat m ! i)"
  have win: "get_window_messages m = drop (case find ?P [ideal..<length ?ms] of Some i \<Rightarrow> i
      | None \<Rightarrow> (case find ?P (rev [0..<ideal]) of Some i \<Rightarrow> i | None \<Rightarrow> ideal)) ?ms"
    unfolding ideal_def using assms(1) double_k [OF k] by (auto simp: get_window_messages_def Let_def)
  show thesis
  proof (cases "find ?P [ideal..<length ?ms]")
    case (Some i)
    then show ?thesis using win inside [of i] find_upt_Some [OF Some] by simp
  next
    case None
    then have tail: "\<not> ?P j" if "ideal \<le> j" "j < length ?ms" for j
      using that by (auto simp: find_None_iff)
    show ?thesis
    proof (cases "find ?P (rev [0..<ideal])")
      case (Some i)
      note i = find_rev_upt_Some [OF Some]
      have "\<not> ?P j" if "i < j" "j < length ?ms" for j
        using i(3) [of j] tail [of j] that by (cases "j < ideal") auto
      then show ?thesis using win None Some before [of i] i(1,2) by simp
    next
      case None2: None
      then have "\<not> ?P j" if "j < ideal" for j
        using that by (auto simp: find_None_iff)
      then have "\<not> is_human x" if "x \<in> set ?ms" for x
        using tail that by (metis in_set_conv_nth not_le)
      then show ?thesis using win None None2 none by simp
    qed
  qed
qed

lemma human_simps [simp]: "msg_type (human c) = Human" "msg_type (ai c) = AI" "msg_type (system c) = System"
  by (simp_all add: human_def ai_def system_def plain_message_def)

lemma turn_messages_human: "i < 2 * length ts \<Longrightarrow> is_human (turn_messages ts ! i) \<longleftrightarrow> even i"
proof (induction ts arbitrary: i rule: turn_messages.induct)
  case (2 x y ts)
  show ?case
  proof (cases "i < 2")
    case True
    then have "i = 0 \<or> i = 1" by auto
    then show ?thesis by auto
  next
    case False
    then obtain j where "i = Suc (Suc j)" by (metis add_2_eq_Suc le_Suc_ex not_less)
    then show ?thesis using 2 by simp
  qed
qed simp

lemma drop_turn_messages: "drop (2 * n) (turn_messages ts) = turn_messages (drop n ts)"
proof (induction n arbitrary: ts)
  case (Suc n)
  then show ?case by (cases ts) auto
qed simp

lemma window_of_turns:
  assumes "bm_chat m = turn_messages ts" and "ts \<noteq> []" and k: "wm_k m < 2 ^ 63"
  shows "get_window_messages m = turn_messages (drop (length ts - max (wm_k m) 1) ts)"
proof (cases "length ts \<le> wm_k m")
  case True
  then have "length (turn_messages ts) \<le> wm_k m * 2" by (simp add: length_turn_messages)
  then show ?thesis using True assms(1,2) double_k [OF k] by (auto simp: get_window_messages_def Let_def)
next
  case False
  let ?L = "length ts" and ?k = "wm_k m"
  have over: "wm_k m * 2 < length (bm_chat m)" using False assms(1) by (simp add: length_turn_messages)
  have human: "is_human (bm_chat m ! i) \<longleftrightarrow> even i" if "i < 2 * ?L" for i
    using that assms(1) by (simp add: turn_messages_human)
  have last: "2 * (?L - 1) < 2 * ?L" using assms(2) by (cases ts) auto
  have len: "length (bm_chat m) = 2 * ?L" by (simp add: assms(1) length_turn_messages)
  have ideal: "2 * ?L - ?k * 2 = 2 * (?L - ?k)" by (simp add: diff_mult_distrib2)
  from over k show ?thesis
  proof (cases rule: window_cases)
    case (inside i)
    have "0 < ?k" using inside(2,3) len by (cases ?k) auto
    then have "max ?k 1 = ?k" by simp
    moreover have "i = 2 * (?L - ?k)"
    proof (rule ccontr)
      assume "i \<noteq> 2 * (?L - ?k)"
      then have "2 * (?L - ?k) < i" using inside(2) len ideal by simp
      then show False
        using inside(3) inside(5) [of "2 * (?L - ?k)"] human [of "2 * (?L - ?k)"] len ideal by simp
    qed
    ultimately show ?thesis using inside(1) assms(1) drop_turn_messages by simp
  next
    case (before i)
    have "\<not> i < 2 * (?L - 1)"
      using before(4) [of "2 * (?L - 1)"] human [of "2 * (?L - 1)"] last len by auto
    moreover have "i < 2 * ?L" "even i" using before human len by auto
    ultimately have i: "i = 2 * (?L - 1)" by (auto elim!: evenE)
    then have "?k = 0" using before(2) len ideal by (cases ?k) auto
    then show ?thesis using before(1) assms(1) i drop_turn_messages by simp
  next
    case none
    have "bm_chat m ! 0 \<in> set (bm_chat m)" using len assms(2) by (intro nth_mem) simp
    then show ?thesis using none(2) [of "bm_chat m ! 0"] human [of 0] assms(2) by simp
  qed
qed

lemma window_of_huge_k: "wm_k m = 2 ^ 63 \<Longrightarrow> get_window_messages m = get_window_messages (m\<lparr>wm_k := 0\<rparr>)"
  by (simp add: get_window_messages_def u64_def Let_def)

text \<open>
  C25. The window shows a suffix of the history: all of it while it fits into \<open>k\<close> rounds, and
  otherwise one that opens on a user message, if there is any; it is longer than \<open>2 k\<close> messages only
  when it is a single turn. For a history of plain turns it is the last \<open>k\<close> turns, and the last one
  even when \<open>k\<close> is zero. All this for \<open>k < 2 ^ 63\<close>; for larger \<open>k\<close> the code's \<open>k * 2\<close> wraps, and
  with \<open>k = 2 ^ 63\<close> the window is that of \<open>k = 0\<close> (\<open>window_of_huge_k\<close>).
\<close>

theorem window_opens_on_a_turn:
  fixes m :: window_memory
  defines "w \<equiv> get_window_messages m"
  assumes k: "wm_k m < 2 ^ 63"
  shows "(\<exists>older. bm_chat m = older @ w)
    \<and> (length (bm_chat m) \<le> 2 * wm_k m \<longrightarrow> w = bm_chat m)
    \<and> (2 * wm_k m < length (bm_chat m) \<and> (\<exists>x \<in> set (bm_chat m). is_human x) \<longrightarrow>
        w \<noteq> [] \<and> is_human (hd w) \<and> (length w \<le> 2 * wm_k m \<or> \<not> list_ex is_human (tl w)))
    \<and> (bm_chat m = turn_messages ts \<and> ts \<noteq> [] \<longrightarrow>
        w = turn_messages (drop (length ts - max (wm_k m) 1) ts))"
proof (intro conjI impI)
  show "\<exists>older. bm_chat m = older @ w"
  proof (cases "wm_k m * 2 < length (bm_chat m)")
    case True
    then obtain i where "w = drop i (bm_chat m)"
      unfolding w_def by (cases rule: window_cases [OF _ k]) auto
    then show ?thesis by (metis append_take_drop_id)
  next
    case False
    then have "w = bm_chat m" using double_k [OF k] by (auto simp: w_def get_window_messages_def Let_def)
    then show ?thesis by simp
  qed
  show "w = bm_chat m" if "length (bm_chat m) \<le> 2 * wm_k m"
    using that double_k [OF k] by (auto simp: w_def get_window_messages_def Let_def)
  show "w = turn_messages (drop (length ts - max (wm_k m) 1) ts)" if "bm_chat m = turn_messages ts \<and> ts \<noteq> []"
    unfolding w_def using that window_of_turns k by blast
next
  assume a: "2 * wm_k m < length (bm_chat m) \<and> (\<exists>x \<in> set (bm_chat m). is_human x)"
  then have "wm_k m * 2 < length (bm_chat m)" by simp
  from this k have "w \<noteq> [] \<and> is_human (hd w) \<and> (length w \<le> 2 * wm_k m \<or> \<not> list_ex is_human (tl w))"
  proof (cases rule: window_cases)
    case (inside i)
    then show ?thesis by (auto simp: w_def hd_drop_conv_nth)
  next
    case (before i)
    then have "\<not> list_ex is_human (drop (Suc i) (bm_chat m))"
      by (auto simp: list_ex_iff in_set_conv_nth)
    then show ?thesis using before by (auto simp: w_def hd_drop_conv_nth tl_drop drop_Suc)
  next
    case none
    then show ?thesis using a by blast
  qed
  then show "w \<noteq> []" "is_human (hd w)" "length w \<le> 2 * wm_k m \<or> \<not> list_ex is_human (tl w)" by blast+
qed

theorem window_opens_on_a_turn_witness:
  "get_window_messages ((window_new 0)\<lparr>bm_chat := turn_messages [(''a'', ''b''), (''c'', ''d'')]\<rparr>) = turn_messages [(''c'', ''d'')]
   \<and> get_window_messages ((window_new 2)\<lparr>bm_chat := turn_messages [(''a'', ''b''), (''c'', ''d'')]\<rparr>) =
      turn_messages [(''a'', ''b''), (''c'', ''d'')]"
  using window_opens_on_a_turn [of "(window_new 0)\<lparr>bm_chat := turn_messages [(''a'', ''b''), (''c'', ''d'')]\<rparr>" "[(''a'', ''b''), (''c'', ''d'')]"]
    window_opens_on_a_turn [of "(window_new 2)\<lparr>bm_chat := turn_messages [(''a'', ''b''), (''c'', ''d'')]\<rparr>"]
  by (simp add: window_new_def)



section \<open>The summary buffer stays bounded\<close>

lemma total_tokens_simps [simp]:
  "total_tokens count [] = 0" "total_tokens count (m # ms) = count (msg_content m) + total_tokens count ms"
  "total_tokens count (ms @ ns) = total_tokens count ms + total_tokens count ns"
  "total_tokens count (rev ms) = total_tokens count ms"
  by (simp_all add: total_tokens_def sum_list_rev flip: rev_map)

lemma total_tokens_filter: "total_tokens count (filter P ms) \<le> total_tokens count ms"
  by (induction ms) auto

lemma total_tokens_dropWhile: "total_tokens count (dropWhile P ms) \<le> total_tokens count ms"
  by (induction ms) auto

lemma keep_newest_tokens: "c \<le> limit \<Longrightarrow> c + total_tokens count (keep_newest count limit c ms) \<le> limit"
  by (induction ms arbitrary: c) (force simp: add.assoc)+

lemma keep_newest_prefix: "\<exists>rest. ms = keep_newest count limit c ms @ rest"
  by (induction ms arbitrary: c) auto

lemma prune_within_limit: "total_tokens count (prune_messages count limit ms) \<le> limit"
proof (cases "total_tokens count ms \<le> limit")
  case False
  have "total_tokens count (dropWhile P (rev (keep_newest count limit 0 (rev ms)))) \<le> limit" for P
    using total_tokens_dropWhile [of count P "rev (keep_newest count limit 0 (rev ms))"]
      keep_newest_tokens [of 0 limit count "rev ms"] by simp
  then show ?thesis using False by (simp add: prune_messages_def)
qed (simp add: prune_messages_def)

lemma prune_suffix: "\<exists>older. ms = older @ prune_messages count limit ms"
proof (cases "total_tokens count ms \<le> limit")
  case False
  obtain rest where "rev ms = keep_newest count limit 0 (rev ms) @ rest" using keep_newest_prefix by blast
  then have "ms = rev rest @ rev (keep_newest count limit 0 (rev ms))" by (metis rev_append rev_rev_ident)
  then have "ms = rev rest @ takeWhile P (rev (keep_newest count limit 0 (rev ms)))
      @ dropWhile P (rev (keep_newest count limit 0 (rev ms)))" for P by simp
  then show ?thesis using False by (metis append.assoc prune_messages_def)
qed (simp add: prune_messages_def)

text \<open>Over budget, something is pruned; a summary is asked for exactly what is pruned.\<close>

lemma prune_shorter:
  assumes "limit < total_tokens count ms"
  shows "length (prune_messages count limit ms) < length ms"
proof -
  obtain older where "ms = older @ prune_messages count limit ms" using prune_suffix by blast
  moreover have "older \<noteq> []"
    using calculation assms prune_within_limit [of count limit ms] by force
  ultimately show ?thesis by (metis length_append length_greater_0_conv less_add_same_cancel2)
qed

definition summary_bounded :: "(string \<Rightarrow> nat) \<Rightarrow> summary_buffer \<Rightarrow> bool" where
  "summary_bounded count m \<longleftrightarrow> sb_failures m < sb_max_failures m \<and>
     (\<exists>old new. sb_chat m = old @ new \<and> total_tokens count old \<le> sb_max_token_limit m
       \<and> length new \<le> 2 * sb_failures m) \<and>
     (sb_failures m > 0 \<longrightarrow> sb_last_error m \<noteq> None)"

inductive summary_buffer_run :: "unicode \<Rightarrow> 'x chat_llm \<Rightarrow> (string \<Rightarrow> nat) \<Rightarrow> summary_buffer \<times> 'x \<Rightarrow> summary_buffer \<times> 'x \<Rightarrow> bool"
  for u llm count where
  sb_start: "summary_buffer_run u llm count mx mx"
| sb_save: "summary_buffer_run u llm count mx mx1 \<Longrightarrow> summary_buffer_save u llm count inputs outputs mx1 = Some (r, mx2)
    \<Longrightarrow> summary_buffer_run u llm count mx mx2"
| sb_clear: "summary_buffer_run u llm count mx (m, x) \<Longrightarrow> summary_buffer_clear m = Some (r, m')
    \<Longrightarrow> summary_buffer_run u llm count mx (m', x)"

lemma summary_boundedI:
  assumes "sb_failures m < sb_max_failures m" and "sb_chat m = old @ new"
    and "total_tokens count old \<le> sb_max_token_limit m" and "length new \<le> 2 * sb_failures m"
    and "sb_failures m > 0 \<Longrightarrow> sb_last_error m \<noteq> None"
  shows "summary_bounded count m"
  using assms unfolding summary_bounded_def by blast

lemma retain_bounded:
  assumes "total_tokens count pruned \<le> sb_max_token_limit m" and "0 < sb_max_failures m"
  shows "summary_bounded count ((retain_to_window pruned m)\<lparr>sb_failures := 0\<rparr>)"
  using assms total_tokens_filter [of count kept_in_window pruned]
  by (auto simp: summary_bounded_def retain_to_window_def)

lemma summary_save_bounded:
  assumes inv: "summary_bounded count m" and run: "summary_buffer_save u llm count inputs outputs (m, x) = Some (r, (m', x'))"
  shows "summary_bounded count m'"
proof (cases "map_of inputs (sb_input_key m) = None \<or> map_of outputs (sb_output_key m) = None")
  case True
  then show ?thesis
    using inv run by (auto simp: summary_buffer_save_def required_key_def ok_or_def split: option.splits)
next
  case False
  then obtain i out where io: "map_of inputs (sb_input_key m) = Some i" "map_of outputs (sb_output_key m) = Some out"
    by auto
  define m1 where "m1 = m\<lparr>sb_chat := sb_chat m @ [human i, ai out]\<rparr>"
  define pruned where "pruned = prune_messages count (sb_max_token_limit m1) (sb_chat m1)"
  have fails: "sb_failures m < sb_max_failures m" using inv by (simp add: summary_bounded_def)
  obtain old new where on: "sb_chat m = old @ new" "total_tokens count old \<le> sb_max_token_limit m"
      "length new \<le> 2 * sb_failures m"
    using inv by (auto simp: summary_bounded_def)
  show ?thesis
  proof (cases "sb_max_token_limit m1 < total_tokens count (sb_chat m1)")
    case over: False
    then have "m' = m1"
      using run io by (simp add: summary_buffer_save_def required_key_def add_user_message_def add_ai_message_def m1_def Let_def)
    then show ?thesis
      using over inv by (intro summary_boundedI [where old = "sb_chat m1" and new = "[]"])
        (simp_all add: summary_bounded_def m1_def)
  next
    case True
    have "length pruned < length (sb_chat m1)" unfolding pruned_def using True by (rule prune_shorter)
    then have save: "summary_buffer_save u llm count inputs outputs (m, x) =
        (case ask_summary u llm (sb_prompt m1) (sb_buffer m1)
            (join [CHR 0x0A] (map message_line (take (length (sb_chat m1) - length pruned) (sb_chat m1)))) x of
           None \<Rightarrow> None
         | Some (Inr s, x') \<Rightarrow> Some (Inr (), (retain_to_window pruned (m1\<lparr>sb_buffer := s, sb_last_error := None, sb_failures := 0\<rparr>), x'))
         | Some (Inl e, x') \<Rightarrow> let m2 = m1\<lparr>sb_last_error := Some (show_memory_error e), sb_failures := sb_failures m1 + 1\<rparr> in
             if sb_failures m2 \<ge> sb_max_failures m2
             then Some (Inr (), ((retain_to_window pruned m2)\<lparr>sb_failures := 0\<rparr>, x'))
             else Some (Inr (), (m2, x')))"
      using True io unfolding summary_buffer_save_def pruned_def m1_def
      by (simp add: required_key_def add_user_message_def add_ai_message_def Let_def split: option.split sum.split)
    have pl: "total_tokens count pruned \<le> sb_max_token_limit m1"
      unfolding pruned_def by (rule prune_within_limit)
    have retained: "summary_bounded count ((retain_to_window pruned m2)\<lparr>sb_failures := 0\<rparr>)"
      if "sb_max_token_limit m2 = sb_max_token_limit m1" "sb_max_failures m2 = sb_max_failures m1" for m2
      using retain_bounded [of count pruned m2] pl that fails by (simp add: m1_def)
    have kept: "summary_bounded count (m1\<lparr>sb_last_error := Some e, sb_failures := sb_failures m1 + 1\<rparr>)"
      if "sb_failures m1 + 1 < sb_max_failures m1" for e
      using on that by (intro summary_boundedI [where old = old and new = "new @ [human i, ai out]"]) (simp_all add: m1_def)
    have summarised: "summary_bounded count (retain_to_window pruned (m1\<lparr>sb_buffer := s, sb_last_error := None, sb_failures := 0\<rparr>))" for s
      using retained [of "m1\<lparr>sb_buffer := s, sb_last_error := None, sb_failures := 0\<rparr>"]
      by (simp add: retain_to_window_def summary_bounded_def)
    show ?thesis
      using run [unfolded save] retained kept summarised
      by (auto simp: Let_def not_le split: option.splits sum.splits if_splits)
  qed
qed

lemma summary_run_bounded:
  "summary_buffer_run u llm count mx mx' \<Longrightarrow> summary_bounded count (fst mx) \<Longrightarrow> summary_bounded count (fst mx')"
proof (induction rule: summary_buffer_run.induct)
  case (sb_save mx mx1 inputs outputs r mx2)
  then show ?case using summary_save_bounded by (metis prod.collapse)
next
  case (sb_clear mx m x r m')
  then show ?case by (auto simp: summary_buffer_clear_def summary_bounded_def)
qed


text \<open>A model that always fails: the round over the budget stays, with the error recorded.\<close>

definition failing_llm :: "unit chat_llm" where
  "failing_llm _ _ = Some (Inl ''down'', ())"


end
