(* ===== verification/Memory_History.thy ===== *)
theory Memory_History
  imports Chat_Memory_Props
begin

text \<open>
  \<open>RunnableWithMessageHistory\<close> (\<open>with_history.rs\<close>): a language model with a memory per session
  behind a bounded cache of slots.

  A \<open>SharedMemory\<close> is a handle \<open>'h\<close> whose methods act on the outer world \<open>'x\<close>, as for the session
  manager. The lock of a slot is held from the load to the write-back, so the calls on one slot do not
  interleave and a call is one step. \<open>buffer_heap\<close> provides the methods for buffer memories: the
  objects of the heap, and the world of the model, which cannot reach them. Over such a heap the
  sessions refine a list of conversations in order of creation.
\<close>

section \<open>A model with message history\<close>

datatype lcel_error = Provider string | Chain string | Agent string | Graph string | ToolFailed string
  | OutputParser string | StreamFailed string | Pipeline string | TypeMismatch string | OtherFailure string

definition DEFAULT_MAX_SESSIONS :: nat where
  "DEFAULT_MAX_SESSIONS = 100"

record ('h, 'x) history_world =
  hw_slots :: "'h smap"
  hw_order :: "string list"
  hw_outer :: 'x

datatype ('h, 'x) history_mode = Shared 'h | Sessions "string \<Rightarrow> 'x \<Rightarrow> 'h \<times> 'x" nat 'h

record ('h, 'x) with_message_history =
  rh_mode :: "('h, 'x) history_mode"
  rh_input_key :: string
  rh_output_key :: string

definition with_shared_history :: "'h \<Rightarrow> ('h, 'x) with_message_history" where
  "with_shared_history h = \<lparr>rh_mode = Shared h, rh_input_key = ''input'', rh_output_key = ''output''\<rparr>"

definition with_session_history :: "(string \<Rightarrow> 'x \<Rightarrow> 'h \<times> 'x) \<Rightarrow> 'h \<Rightarrow> ('h, 'x) with_message_history" where
  "with_session_history factory default_memory =
     \<lparr>rh_mode = Sessions factory DEFAULT_MAX_SESSIONS default_memory, rh_input_key = ''input'', rh_output_key = ''output''\<rparr>"

definition with_max_sessions :: "nat \<Rightarrow> ('h, 'x) with_message_history \<Rightarrow> ('h, 'x) with_message_history" where
  "with_max_sessions n r = (case rh_mode r of
      Sessions factory _ d \<Rightarrow> r\<lparr>rh_mode := Sessions factory (max n 1) d\<rparr>
    | Shared _ \<Rightarrow> r)"

definition with_input_key :: "string \<Rightarrow> ('h, 'x) with_message_history \<Rightarrow> ('h, 'x) with_message_history" where
  "with_input_key key r = r\<lparr>rh_input_key := key\<rparr>"

definition with_output_key :: "string \<Rightarrow> ('h, 'x) with_message_history \<Rightarrow> ('h, 'x) with_message_history" where
  "with_output_key key r = r\<lparr>rh_output_key := key\<rparr>"

definition history_memory :: "('h, 'x) with_message_history \<Rightarrow> 'h" where
  "history_memory r = (case rh_mode r of Shared h \<Rightarrow> h | Sessions _ _ d \<Rightarrow> d)"

text \<open>The configurable values of the call's \<open>RunnableConfig\<close>.\<close>

definition session_id_of :: "json smap option \<Rightarrow> string option" where
  "session_id_of config = Option.bind config (\<lambda>c. Option.bind (map_of c ''session_id'') as_str)"

definition select_memory ::
  "('h, 'x) with_message_history \<Rightarrow> json smap option \<Rightarrow> (('h, 'x) history_world, lcel_error, 'h) eff" where
  "select_memory r config w = (case rh_mode r of
      Shared h \<Rightarrow> Some (Inr h, w)
    | Sessions factory max_sessions _ \<Rightarrow> (case session_id_of config of
        None \<Rightarrow> Some (Inl (Chain ''RunnableWithMessageHistory (session mode) is missing configurable.session_id''), w)
      | Some session_id \<Rightarrow> (case map_of (hw_slots w) session_id of
          Some h \<Rightarrow> Some (Inr h, w)
        | None \<Rightarrow>
          let w = (if length (hw_slots w) \<ge> max_sessions
                   then (case hw_order w of
                       oldest # order \<Rightarrow> w\<lparr>hw_order := order, hw_slots := smap_remove oldest (hw_slots w)\<rparr>
                     | [] \<Rightarrow> w)
                   else w);
              (h, x) = factory session_id (hw_outer w)
          in Some (Inr h, w\<lparr>hw_slots := smap_insert session_id h (hw_slots w),
               hw_order := hw_order w @ [session_id], hw_outer := x\<rparr>))))"

definition on_history_outer :: "('x, 'e, 'a) eff \<Rightarrow> (('h, 'x) history_world, 'e, 'a) eff" where
  "on_history_outer f w = map_option (\<lambda>(r, x). (r, w\<lparr>hw_outer := x\<rparr>)) (f (hw_outer w))"

text \<open>\<open>invoke\<close>. A failed write-back is logged and the answer returned.\<close>

definition history_invoke ::
  "('h, 'x) base_memory \<Rightarrow> (json \<Rightarrow> message option) \<Rightarrow> (message list \<Rightarrow> json smap option \<Rightarrow> ('x, lcel_error, 'r) eff) \<Rightarrow> ('r \<Rightarrow> string)
     \<Rightarrow> ('h, 'x) with_message_history \<Rightarrow> string \<Rightarrow> json smap option \<Rightarrow> (('h, 'x) history_world, lcel_error, 'r) eff" where
  "history_invoke mem from_value ask content r input config =
     eff_bind (select_memory r config) (\<lambda>h.
     eff_bind (eff_map_err (\<lambda>e. Chain (''load memory: '' @ show_memory_error e))
         (on_history_outer (load_memory_variables mem h []))) (\<lambda>vars.
     eff_bind (on_history_outer (ask (memory_variables_to_messages from_value vars @ [human input]) config)) (\<lambda>result.
     eff_bind (eff_catch
         (eff_map_err (\<lambda>e. Chain (show_memory_error e))
           (on_history_outer (save_context mem h [(rh_input_key r, input)] [(rh_output_key r, content result)])))
         (\<lambda>_. ok ())) (\<lambda>_.
     ok result))))"


section \<open>Buffer memories on a heap\<close>

record 'y buffer_heap =
  bh_objects :: "buffer_memory list"
  bh_world :: 'y

definition heap_load :: "(message \<Rightarrow> string + json) \<Rightarrow> nat \<Rightarrow> string smap \<Rightarrow> ('y buffer_heap, memory_error, json smap) eff" where
  "heap_load to_value h inputs x =
     (if h < length (bh_objects x) then Some (buffer_load to_value (bh_objects x ! h) inputs, x) else None)"

definition heap_save :: "nat \<Rightarrow> string smap \<Rightarrow> string smap \<Rightarrow> ('y buffer_heap, memory_error, unit) eff" where
  "heap_save h inputs outputs x =
     (if h < length (bh_objects x)
      then map_option (\<lambda>(r, m). (r, x\<lparr>bh_objects := (bh_objects x)[h := m]\<rparr>)) (buffer_save inputs outputs (bh_objects x ! h))
      else None)"

definition heap_memory :: "(message \<Rightarrow> string + json) \<Rightarrow> (nat, 'y buffer_heap) base_memory" where
  "heap_memory to_value = \<lparr>load_memory_variables = heap_load to_value, save_context = heap_save\<rparr>"

definition heap_ask :: "(message list \<Rightarrow> json smap option \<Rightarrow> ('y, 'e, 'r) eff) \<Rightarrow> message list \<Rightarrow> json smap option \<Rightarrow> ('y buffer_heap, 'e, 'r) eff" where
  "heap_ask ask ms config x = map_option (\<lambda>(r, y). (r, x\<lparr>bh_world := y\<rparr>)) (ask ms config (bh_world x))"

text \<open>The factory of the documentation: a fresh buffer that returns messages.\<close>

definition buffer_factory :: "string \<Rightarrow> 'y buffer_heap \<Rightarrow> nat \<times> 'y buffer_heap" where
  "buffer_factory session_id x =
     (length (bh_objects x), x\<lparr>bh_objects := bh_objects x @ [buffer_with_return_messages True buffer_new]\<rparr>)"


section \<open>The conversations\<close>

type_synonym conversations = "(string \<times> (string \<times> string) list) list"

text \<open>Opening a conversation drops the oldest one when the cache is full.\<close>

definition open_conversation :: "nat \<Rightarrow> string \<Rightarrow> conversations \<Rightarrow> conversations" where
  "open_conversation n s cs =
     (if s \<in> fst ` set cs then cs else (if length cs \<ge> n then tl cs else cs) @ [(s, [])])"

definition add_turn :: "string \<Rightarrow> string \<times> string \<Rightarrow> conversations \<Rightarrow> conversations" where
  "add_turn s t cs = map (\<lambda>(k, ts). (k, if k = s then ts @ [t] else ts)) cs"

definition conversation_step ::
  "(message list \<Rightarrow> json smap option \<Rightarrow> ('y, lcel_error, 'r) eff) \<Rightarrow> ('r \<Rightarrow> string) \<Rightarrow> nat \<Rightarrow> string \<Rightarrow> json smap option
     \<Rightarrow> (conversations \<times> 'y, lcel_error, 'r) eff" where
  "conversation_step ask content n input config = (\<lambda>(cs, y).
     case session_id_of config of
       None \<Rightarrow> Some (Inl (Chain ''RunnableWithMessageHistory (session mode) is missing configurable.session_id''), (cs, y))
     | Some s \<Rightarrow>
         let cs = open_conversation n s cs in
         (case ask (turn_messages (the (map_of cs s)) @ [human input]) config y of
            None \<Rightarrow> None
          | Some (Inl e, y') \<Rightarrow> Some (Inl e, (cs, y'))
          | Some (Inr r, y') \<Rightarrow> Some (Inr r, (add_turn s (input, content r) cs, y'))))"

definition conversation_buffer :: "(string \<times> string) list \<Rightarrow> buffer_memory" where
  "conversation_buffer ts = (buffer_with_return_messages True buffer_new)\<lparr>bm_chat := turn_messages ts\<rparr>"

definition slot_holds :: "nat smap \<Rightarrow> buffer_memory list \<Rightarrow> string \<Rightarrow> (string \<times> string) list \<Rightarrow> bool" where
  "slot_holds slots objects s ts \<longleftrightarrow>
     (case map_of slots s of None \<Rightarrow> False | Some h \<Rightarrow> h < length objects \<and> objects ! h = conversation_buffer ts)"

definition holds_conversations :: "nat \<Rightarrow> (nat, 'y buffer_heap) history_world \<Rightarrow> conversations \<times> 'y \<Rightarrow> bool" where
  "holds_conversations n w = (\<lambda>(cs, y).
     hw_order w = map fst cs \<and> distinct (map fst cs) \<and> length cs \<le> n
     \<and> smap_wf (hw_slots w) \<and> fst ` set (hw_slots w) = fst ` set cs
     \<and> inj_on (map_of (hw_slots w)) (fst ` set cs)
     \<and> (\<forall>(s, ts) \<in> set cs. slot_holds (hw_slots w) (bh_objects (hw_outer w)) s ts)
     \<and> bh_world (hw_outer w) = y)"

text \<open>\<open>serde_json\<close> writes and reads back plain user and model messages.\<close>

definition message_serde :: "(message \<Rightarrow> string + json) \<Rightarrow> (json \<Rightarrow> message option) \<Rightarrow> bool" where
  "message_serde to_value from_value \<longleftrightarrow>
     (\<forall>c. \<exists>v. to_value (human c) = Inr v \<and> from_value v = Some (human c)) \<and>
     (\<forall>c. \<exists>v. to_value (ai c) = Inr v \<and> from_value v = Some (ai c))"

lemma without_id [simp]: "(human c)\<lparr>msg_id := None\<rparr> = human c" "(ai c)\<lparr>msg_id := None\<rparr> = ai c"
  by (simp_all add: human_def ai_def plain_message_def)

lemma collect_turns:
  assumes "message_serde to_value from_value"
  shows "\<exists>vs. collect_results (serialize_message_to_prompt to_value) (turn_messages ts) = Inr vs \<and>
    concat (map (item_messages from_value) vs) = turn_messages ts"
proof (induction ts rule: turn_messages.induct)
  case (2 i out ts)
  obtain v w where "to_value (human i) = Inr v" "from_value v = Some (human i)"
      "to_value (ai out) = Inr w" "from_value w = Some (ai out)"
    using assms unfolding message_serde_def by metis
  then show ?case using 2
    by (auto simp: serialize_message_to_prompt_def item_messages_def)
qed simp

lemma load_conversation:
  assumes "message_serde to_value from_value"
  shows "\<exists>vars. buffer_load to_value (conversation_buffer ts) inputs = Inr vars \<and>
    memory_variables_to_messages from_value vars = turn_messages ts"
  using collect_turns [OF assms, of ts]
  by (auto simp: buffer_load_def conversation_buffer_def serialize_messages_def buffer_with_return_messages_def
      memory_variables_to_messages_def)

lemma save_conversation:
  "buffer_save [(''input'', i)] [(''output'', out)] (conversation_buffer ts) =
     Some (Inr (), conversation_buffer (ts @ [(i, out)]))"
  by (simp add: buffer_save_def required_key_def conversation_buffer_def buffer_with_return_messages_def buffer_new_def
      add_user_message_def add_ai_message_def turn_messages_append)

lemma holds_slots_length:
  assumes "holds_conversations n w (cs, y)"
  shows "length (hw_slots w) = length cs"
proof -
  have d: "distinct (map fst (hw_slots w))" "distinct (map fst cs)" "set (map fst (hw_slots w)) = set (map fst cs)"
    using assms by (simp_all add: holds_conversations_def smap_wf_distinct)
  then have "length (map fst (hw_slots w)) = length (map fst cs)"
    by (simp only: flip: distinct_card [OF d(1)] distinct_card [OF d(2)])
  then show ?thesis by simp
qed

lemma holds_slot:
  assumes "holds_conversations n w (cs, y)" and "map_of cs s = Some ts"
  obtains h where "map_of (hw_slots w) s = Some h" "h < length (bh_objects (hw_outer w))"
    "bh_objects (hw_outer w) ! h = conversation_buffer ts"
  using assms map_of_SomeD [OF assms(2)] unfolding holds_conversations_def
  by (fastforce simp: slot_holds_def split: option.splits)

lemma select_existing:
  assumes "holds_conversations n w (cs, y)" and "rh_mode r = Sessions buffer_factory n d"
    and "session_id_of config = Some s" and "s \<in> fst ` set cs"
  shows "\<exists>h. select_memory r config w = Some (Inr h, w) \<and> map_of (hw_slots w) s = Some h"
proof -
  obtain ts where "map_of cs s = Some ts" using assms(4) by (metis map_of_eq_None_iff not_None_eq)
  then obtain h where "map_of (hw_slots w) s = Some h" using holds_slot assms(1) by metis
  then show ?thesis using assms by (simp add: select_memory_def)
qed

lemma keys_remove [simp]: "fst ` set (smap_remove k m) = fst ` set m - {k}"
  by (auto simp: smap_remove_def image_iff)

text \<open>Evicting the oldest slot, and filling a new one.\<close>

lemma slot_holds_remove: "k \<noteq> s \<Longrightarrow> slot_holds (smap_remove s slots) objects k ts = slot_holds slots objects k ts"
  by (simp add: slot_holds_def map_of_smap_remove)

lemma slot_holds_insert:
  "k \<noteq> s \<Longrightarrow> slot_holds slots objects k ts \<Longrightarrow> slot_holds (smap_insert s h slots) (objects @ more_objects) k ts"
  by (auto simp: slot_holds_def nth_append split: option.splits)

lemma holds_evict:
  assumes "holds_conversations n w ((s, ts) # cs, y)"
  shows "holds_conversations n (w\<lparr>hw_order := map fst cs, hw_slots := smap_remove s (hw_slots w)\<rparr>) (cs, y)"
proof -
  have notin: "s \<notin> fst ` set cs" using assms by (simp add: holds_conversations_def)
  have "inj_on (map_of (hw_slots w)) (fst ` set cs)"
    using assms by (auto simp: holds_conversations_def intro: inj_on_subset)
  then have "inj_on (map_of (smap_remove s (hw_slots w))) (fst ` set cs)"
    using notin by (auto simp: map_of_smap_remove inj_on_def)
  moreover have "slot_holds (smap_remove s (hw_slots w)) (bh_objects (hw_outer w)) k ts"
    if "(k, ts) \<in> set cs" for k ts
  proof -
    have "k \<noteq> s" using that notin by force
    then show ?thesis using assms that by (subst slot_holds_remove) (auto simp: holds_conversations_def)
  qed
  ultimately show ?thesis
    using assms notin by (auto simp: holds_conversations_def smap_wf_remove)
qed

lemma holds_new:
  assumes "holds_conversations n w (cs, y)" and "s \<notin> fst ` set cs" and "length cs < n"
    and "buffer_factory s (hw_outer w) = (h, x)"
  shows "holds_conversations n (w\<lparr>hw_slots := smap_insert s h (hw_slots w), hw_order := hw_order w @ [s], hw_outer := x\<rparr>)
    (cs @ [(s, [])], y)"
proof -
  have h: "h = length (bh_objects (hw_outer w))" "bh_objects x = bh_objects (hw_outer w) @ [conversation_buffer []]"
      "bh_world x = bh_world (hw_outer w)"
    using assms(4) by (auto simp: buffer_factory_def conversation_buffer_def buffer_with_return_messages_def buffer_new_def)
  have slots: "slot_holds (hw_slots w) (bh_objects (hw_outer w)) k ts" if "(k, ts) \<in> set cs" for k ts
    using assms(1) that by (auto simp: holds_conversations_def)
  then have fresh: "Some h \<notin> map_of (hw_slots w) ` (fst ` set cs)"
    using h(1) by (fastforce simp: slot_holds_def split: option.splits)
  have "inj_on ((map_of (hw_slots w))(s \<mapsto> h)) (insert s (fst ` set cs))"
  proof -
    have "inj_on (map_of (hw_slots w)) (fst ` set cs)" using assms(1) by (simp add: holds_conversations_def)
    then have "inj_on ((map_of (hw_slots w))(s \<mapsto> h)) (fst ` set cs)" using assms(2) by (auto simp: inj_on_def)
    moreover have "Some h \<notin> (map_of (hw_slots w))(s \<mapsto> h) ` (fst ` set cs)"
      using fresh assms(2) by (subst fun_upd_image) auto
    ultimately show ?thesis using assms(2) by simp
  qed
  moreover have "slot_holds (smap_insert s h (hw_slots w)) (bh_objects x) k ts"
    if "(k, ts) \<in> set cs" for k ts
    using slots [OF that] assms(2) that unfolding h(2) by (intro slot_holds_insert) force+
  moreover have "slot_holds (smap_insert s h (hw_slots w)) (bh_objects x) s []"
    using h by (simp add: slot_holds_def)
  ultimately show ?thesis
    using assms(1-3) h(3) by (auto simp: holds_conversations_def smap_wf_insert)
qed

lemma select_conversation:
  assumes "holds_conversations n w (cs, y)" and "rh_mode r = Sessions buffer_factory n d" and "0 < n"
    and "session_id_of config = Some s"
  shows "\<exists>h w'. select_memory r config w = Some (Inr h, w') \<and> map_of (hw_slots w') s = Some h
    \<and> holds_conversations n w' (open_conversation n s cs, y)"
proof (cases "s \<in> fst ` set cs")
  case True
  then obtain h where "select_memory r config w = Some (Inr h, w)" "map_of (hw_slots w) s = Some h"
    using select_existing [OF assms(1,2,4)] by auto
  then show ?thesis using True assms(1) by (simp add: open_conversation_def)
next
  case False
  define w1 where "w1 = (if n \<le> length (hw_slots w)
     then (case hw_order w of
         oldest # order \<Rightarrow> w\<lparr>hw_order := order, hw_slots := smap_remove oldest (hw_slots w)\<rparr>
       | [] \<Rightarrow> w)
     else w)"
  obtain h x where hx: "buffer_factory s (hw_outer w1) = (h, x)" by (cases "buffer_factory s (hw_outer w1)")
  let ?cs = "if n \<le> length cs then tl cs else cs"
  have len: "length (hw_slots w) = length cs" using assms(1) by (rule holds_slots_length)
  have "holds_conversations n w1 (?cs, y) \<and> length ?cs < n"
  proof (cases "n \<le> length cs")
    case True
    then obtain c cs' where cs: "cs = c # cs'" using assms(3) by (cases cs) auto
    then have "hw_order w = fst c # map fst cs'" using assms(1) by (simp add: holds_conversations_def)
    moreover have "length cs' < n" using assms(1) cs by (simp add: holds_conversations_def)
    ultimately show ?thesis
      using True cs len assms(1) holds_evict [of n w "fst c" "snd c" cs' y] by (simp add: w1_def)
  next
    case False
    then show ?thesis using len assms(1) by (simp add: w1_def)
  qed
  moreover have "s \<notin> fst ` set ?cs" using False by (cases cs) auto
  ultimately have "holds_conversations n
      (w1\<lparr>hw_slots := smap_insert s h (hw_slots w1), hw_order := hw_order w1 @ [s], hw_outer := x\<rparr>) (?cs @ [(s, [])], y)"
    by (intro holds_new [OF _ _ _ hx]) auto
  moreover have "map_of (hw_slots w) s = None"
    using assms(1) False by (simp add: holds_conversations_def map_of_eq_None_iff)
  ultimately show ?thesis
    using assms(2,4) hx False by (simp add: select_memory_def open_conversation_def w1_def [symmetric])
qed

lemma holds_add_turn:
  assumes "holds_conversations n w (cs, y)" and "map_of cs s = Some ts" and "map_of (hw_slots w) s = Some h"
  shows "holds_conversations n (w\<lparr>hw_outer := (hw_outer w)\<lparr>bh_world := y', bh_objects := (bh_objects (hw_outer w))[h := conversation_buffer (ts @ [t])]\<rparr>\<rparr>)
    (add_turn s t cs, y')"
proof -
  have keys: "map fst (add_turn s t cs) = map fst cs" "fst ` set (add_turn s t cs) = fst ` set cs"
    by (auto simp: add_turn_def case_prod_beta image_image)
  have "slot_holds (hw_slots w) ((bh_objects (hw_outer w))[h := conversation_buffer (ts @ [t])]) k us"
    if us: "(k, us) \<in> set (add_turn s t cs)" for k us
  proof -
    obtain us0 where us0: "(k, us0) \<in> set cs" "us = (if k = s then us0 @ [t] else us0)"
      using us by (auto simp: add_turn_def)
    obtain j where j: "map_of (hw_slots w) k = Some j" "j < length (bh_objects (hw_outer w))"
        "bh_objects (hw_outer w) ! j = conversation_buffer us0"
      using assms(1) us0(1) by (fastforce simp: holds_conversations_def slot_holds_def split: option.splits)
    show ?thesis
    proof (cases "k = s")
      case True
      moreover have "us0 = ts"
        using us0(1) assms(1,2) True by (simp add: holds_conversations_def)
      ultimately show ?thesis using j us0(2) assms(3) by (simp add: slot_holds_def)
    next
      case False
      have "s \<in> fst ` set cs" "k \<in> fst ` set cs" using us0(1) map_of_SomeD [OF assms(2)] by force+
      moreover have "inj_on (map_of (hw_slots w)) (fst ` set cs)" using assms(1) by (simp add: holds_conversations_def)
      ultimately have "j \<noteq> h" using assms(3) j(1) False by (metis inj_onD)
      then show ?thesis using j us0(2) False by (simp add: slot_holds_def)
    qed
  qed
  moreover have "length (add_turn s t cs) = length cs" by (simp add: add_turn_def)
  ultimately show ?thesis using assms(1) unfolding holds_conversations_def by (simp add: keys split_beta)
qed

lemma holds_world: "holds_conversations n w (cs, y) \<Longrightarrow> holds_conversations n (w\<lparr>hw_outer := (hw_outer w)\<lparr>bh_world := y'\<rparr>\<rparr>) (cs, y')"
  by (simp add: holds_conversations_def)

lemma invoke_refines:
  assumes serde: "message_serde to_value from_value" and holds: "holds_conversations n w (cs, y)"
    and r: "rh_mode r = Sessions buffer_factory n d" "rh_input_key r = ''input''" "rh_output_key r = ''output''" and n: "0 < n"
  shows "rel_option (rel_prod (=) (holds_conversations n))
    (history_invoke (heap_memory to_value) from_value (heap_ask ask) content r input config w)
    (conversation_step ask content n input config (cs, y))"
proof (cases "session_id_of config")
  case None
  then show ?thesis
    using holds r by (simp add: history_invoke_def conversation_step_def select_memory_def eff_bind_def)
next
  case (Some s)
  define cs1 where "cs1 = open_conversation n s cs"
  obtain h w1 where sel: "select_memory r config w = Some (Inr h, w1)" "map_of (hw_slots w1) s = Some h"
      "holds_conversations n w1 (cs1, y)"
    using select_conversation [OF holds r(1) n Some] unfolding cs1_def by auto
  obtain ts where ts: "map_of cs1 s = Some ts"
  proof -
    have "s \<in> fst ` set (hw_slots w1)" using map_of_SomeD [OF sel(2)] by force
    then have "s \<in> fst ` set cs1" using sel(3) by (simp add: holds_conversations_def)
    then show ?thesis using that by (metis map_of_eq_None_iff not_None_eq)
  qed
  have obj: "h < length (bh_objects (hw_outer w1))" "bh_objects (hw_outer w1) ! h = conversation_buffer ts"
    using holds_slot [OF sel(3) ts] sel(2) by auto
  have y: "bh_world (hw_outer w1) = y" using sel(3) by (simp add: holds_conversations_def)
  obtain vars where vars: "buffer_load to_value (conversation_buffer ts) [] = Inr vars"
      "memory_variables_to_messages from_value vars = turn_messages ts"
    using load_conversation [OF serde] by blast
  have conc: "history_invoke (heap_memory to_value) from_value (heap_ask ask) content r input config w =
     (case ask (turn_messages ts @ [human input]) config y of
        None \<Rightarrow> None
      | Some (Inl e, y') \<Rightarrow> Some (Inl e, w1\<lparr>hw_outer := (hw_outer w1)\<lparr>bh_world := y'\<rparr>\<rparr>)
      | Some (Inr a, y') \<Rightarrow> Some (Inr a, w1\<lparr>hw_outer := (hw_outer w1)\<lparr>bh_world := y',
           bh_objects := (bh_objects (hw_outer w1))[h := conversation_buffer (ts @ [(input, content a)])]\<rparr>\<rparr>))"
    using sel(1) obj vars y r
    by (simp add: history_invoke_def eff_bind_def eff_map_err_def eff_catch_def on_history_outer_def heap_memory_def
        heap_load_def heap_save_def heap_ask_def save_conversation split: option.split sum.split)
  show ?thesis
    using sel ts holds_add_turn [OF sel(3) ts sel(2)] holds_world [OF sel(3)]
    by (auto simp: conc conversation_step_def Some cs1_def [symmetric] split: option.split sum.split)
qed

text \<open>Any number of calls, with their results; \<open>None\<close> when a call of the model does not return.\<close>

fun run_calls :: "('c \<Rightarrow> ('w, 'e, 'a) eff) \<Rightarrow> 'c list \<Rightarrow> 'w \<Rightarrow> (('e + 'a) list \<times> 'w) option" where
  "run_calls step [] w = Some ([], w)"
| "run_calls step (c # calls) w =
     Option.bind (step c w) (\<lambda>(r, w'). map_option (\<lambda>(rs, w''). (r # rs, w'')) (run_calls step calls w'))"

lemma run_calls_refines:
  assumes step: "\<And>c w a. R w a \<Longrightarrow> rel_option (rel_prod (=) R) (step1 c w) (step2 c a)" and "R w a"
  shows "rel_option (rel_prod (=) R) (run_calls step1 calls w) (run_calls step2 calls a)"
  using assms(2)
proof (induction calls arbitrary: w a)
  case (Cons c calls)
  show ?case
  proof (cases "step1 c w")
    case None
    then show ?thesis using step [OF Cons.prems, of c] by simp
  next
    case (Some rw)
    then obtain r w' a' where "step1 c w = Some (r, w')" "step2 c a = Some (r, a')" "R w' a'"
      using step [OF Cons.prems, of c] by (cases rw) (auto elim: option.rel_cases)
    then show ?thesis using Cons.IH [of w' a'] by (auto simp: option.rel_map elim: option.rel_mono_strong)
  qed
qed simp

text \<open>
  C17. A model with per-session history, made by \<open>with_session_history\<close> with a cap of \<open>max n 1\<close> slots
  over fresh buffers, implements the list of conversations: over any sequence of calls the results are
  those of a model that is handed all turns of its session followed by the new input; a turn is added
  exactly when the model answers; a call without a session id fails and changes nothing; and never more
  than \<open>max n 1\<close> conversations are kept, a new one displacing the one opened first.
\<close>

theorem with_history_refines_conversations:
  fixes n d :: nat and y :: 'y
  assumes "message_serde to_value from_value"
  defines "r \<equiv> with_max_sessions n (with_session_history buffer_factory d) :: (nat, 'y buffer_heap) with_message_history"
  shows "rel_option (rel_prod (=) (holds_conversations (max n 1)))
    (run_calls (\<lambda>(input, config). history_invoke (heap_memory to_value) from_value (heap_ask ask) content r input config) calls
       \<lparr>hw_slots = [], hw_order = [], hw_outer = \<lparr>bh_objects = objects, bh_world = y\<rparr>\<rparr>)
    (run_calls (\<lambda>(input, config). conversation_step ask content (max n 1) input config) calls ([], y))"
proof (rule run_calls_refines)
  show "holds_conversations (max n 1) \<lparr>hw_slots = [], hw_order = [], hw_outer = \<lparr>bh_objects = objects, bh_world = y\<rparr>\<rparr> ([], y)"
    by (simp add: holds_conversations_def)
next
  fix c and w :: "(nat, 'y buffer_heap) history_world" and a
  assume "holds_conversations (max n 1) w a"
  moreover have "rh_mode r = Sessions buffer_factory (max n 1) d" "rh_input_key r = ''input''" "rh_output_key r = ''output''"
    by (simp_all add: r_def with_max_sessions_def with_session_history_def)
  ultimately show "rel_option (rel_prod (=) (holds_conversations (max n 1)))
      ((case c of (input, config) \<Rightarrow> history_invoke (heap_memory to_value) from_value (heap_ask ask) content r input config) w)
      ((case c of (input, config) \<Rightarrow> conversation_step ask content (max n 1) input config) a)"
    using invoke_refines [OF assms(1), where r = r and d = d and n = "max n 1"]
    by (cases c; cases a) (simp add: less_max_iff_disj)
qed

text \<open>Two sessions with one slot: the second displaces the first, whose next call starts afresh.\<close>

definition demo_to_value :: "message \<Rightarrow> string + json" where
  "demo_to_value m = Inr (JArray [JBool (msg_type m = Human), JString (msg_content m)])"

definition demo_from_value :: "json \<Rightarrow> message option" where
  "demo_from_value v = (case v of
      JArray [JBool b, JString c] \<Rightarrow> Some (if b then human c else ai c)
    | _ \<Rightarrow> None)"

definition demo_ask :: "message list \<Rightarrow> json smap option \<Rightarrow> (unit, lcel_error, string) eff" where
  "demo_ask ms _ = ok (concat (map msg_content ms))"

definition demo_calls :: "(string \<times> json smap option) list" where
  "demo_calls = [(''a'', Some [(''session_id'', JString ''s'')]), (''b'', Some [(''session_id'', JString ''s'')]),
     (''c'', Some [(''session_id'', JString ''t'')]), (''d'', Some [(''session_id'', JString ''s'')]), (''e'', None)]"

theorem with_history_refines_conversations_witness:
  "\<exists>w. run_calls (\<lambda>(input, config). history_invoke (heap_memory demo_to_value) demo_from_value (heap_ask demo_ask) id
        (with_max_sessions 1 (with_session_history buffer_factory 0)) input config) demo_calls
       \<lparr>hw_slots = [], hw_order = [], hw_outer = \<lparr>bh_objects = [buffer_new], bh_world = ()\<rparr>\<rparr> =
     Some ([Inr ''a'', Inr ''aab'', Inr ''c'', Inr ''d'',
       Inl (Chain ''RunnableWithMessageHistory (session mode) is missing configurable.session_id'')], w)
    \<and> holds_conversations 1 w ([(''s'', [(''d'', ''d'')])], ())"
proof -
  have serde: "message_serde demo_to_value demo_from_value"
    by (simp add: message_serde_def demo_to_value_def demo_from_value_def human_def ai_def plain_message_def)
  have spec: "run_calls (\<lambda>(input, config). conversation_step demo_ask id (max 1 1) input config) demo_calls ([], ()) =
     Some ([Inr ''a'', Inr ''aab'', Inr ''c'', Inr ''d'',
       Inl (Chain ''RunnableWithMessageHistory (session mode) is missing configurable.session_id'')],
       ([(''s'', [(''d'', ''d'')])], ()))"
    by code_simp
  show ?thesis
    using with_history_refines_conversations [OF serde, of 1 demo_ask id 0 demo_calls "[buffer_new]" "()"]
    unfolding spec by (auto elim: option.rel_cases)
qed

end
