(* ===== verification/Context_Window.thy ===== *)
theory Context_Window
  imports Chat_Memory
begin

text \<open>
  Token counting (\<open>lc-core/src/token_counter\<close>) and the context window of \<open>lc-memory\<close>
  (\<open>context_window/\<close>), which fits a conversation into a token budget by truncation or by a summary.

  Both counters of \<open>lc-core\<close> count a list of messages in the same way from the count of a text, in 32
  bits; the length of an encoding by the BPE encoder behind \<open>TiktokenCounter\<close> is a parameter. The
  window relies on that structure only, as the locale \<open>additive_counter\<close> of \<open>Context_Window_Props\<close>
  states. The reserve ratio, a floating-point number, is
  represented by the function \<open>max_tokens \<mapsto> (max_tokens as f64 * ratio) as usize\<close> it stands for.
\<close>

section \<open>Token counters\<close>

record token_counter =
  count_tokens :: "string \<Rightarrow> nat"
  count_messages :: "message list \<Rightarrow> nat"

text \<open>
  One turn of the loop of \<open>count_messages\<close> over a \<open>u32\<close> total, in which every \<open>+=\<close> wraps (as it does in
  a release build; a debug build panics there).
\<close>

definition message_tokens :: "(string \<Rightarrow> nat) \<Rightarrow> message \<Rightarrow> nat \<Rightarrow> nat" where
  "message_tokens count m acc =
     (let acc = u32 (acc + 4);
          acc = u32 (acc + count (msg_content m));
          acc = (case msg_name m of Some n \<Rightarrow> u32 (acc + count n) | None \<Rightarrow> acc)
      in fold (\<lambda>_ acc. u32 (acc + 1000)) (msg_images m) acc)"

definition messages_tokens :: "(string \<Rightarrow> nat) \<Rightarrow> message list \<Rightarrow> nat" where
  "messages_tokens count ms = u32 (fold (message_tokens count) ms 0 + 2)"

text \<open>\<open>text.len() as u32\<close> and the length of the encoding \<open>as u32\<close> keep the low 32 bits.\<close>

definition char_ratio_counter :: "nat \<Rightarrow> token_counter" where
  "char_ratio_counter ratio = (let r = max ratio 1; count = (\<lambda>t. u32 (length t) div r) in
     \<lparr>count_tokens = count, count_messages = messages_tokens count\<rparr>)"

definition tiktoken_counter :: "(string \<Rightarrow> nat) \<Rightarrow> token_counter" where
  "tiktoken_counter encode = (let count = (\<lambda>t. u32 (encode t)) in
     \<lparr>count_tokens = count, count_messages = messages_tokens count\<rparr>)"


section \<open>The window\<close>

text \<open>\<open>str::replace\<close>: all occurrences, from the left.\<close>

function str_replace :: "string \<Rightarrow> string \<Rightarrow> string \<Rightarrow> string" where
  "str_replace p new [] = []"
| "str_replace p new (c # cs) =
     (if p \<noteq> [] \<and> starts_with (c # cs) p then new @ str_replace p new (drop (length p) (c # cs))
      else c # str_replace p new cs)"
  by pat_completeness auto
termination
  by (relation "measure (\<lambda>(p, new, cs). length cs)") auto

datatype 'x strategy = Truncate | Summarize "'x chat_llm" string

record 'x context_window =
  cw_max_tokens :: nat
  cw_counter :: token_counter
  cw_strategy :: "'x strategy"
  cw_reserve_ratio :: "nat \<Rightarrow> nat"
  cw_reserve_override :: "nat option"

definition with_counter :: "token_counter \<Rightarrow> 'x context_window \<Rightarrow> 'x context_window" where
  "with_counter c w = w\<lparr>cw_counter := c\<rparr>"

definition with_summary_reserve_tokens :: "nat \<Rightarrow> 'x context_window \<Rightarrow> 'x context_window" where
  "with_summary_reserve_tokens n w = w\<lparr>cw_reserve_override := Some n\<rparr>"

definition summary_reserve :: "'x context_window \<Rightarrow> nat" where
  "summary_reserve w = min (case cw_reserve_override w of Some n \<Rightarrow> n | None \<Rightarrow> cw_reserve_ratio w (cw_max_tokens w))
     (cw_max_tokens w div 2)"

definition strip_leading_tool :: "message list \<Rightarrow> message list" where
  "strip_leading_tool ms = dropWhile (\<lambda>m. is_tool (msg_type m)) ms"

definition message_cost :: "'x context_window \<Rightarrow> message \<Rightarrow> nat" where
  "message_cost w m = count_messages (cw_counter w) [m] - 2"

definition is_system :: "message \<Rightarrow> bool" where
  "is_system m = (msg_type m = System)"

text \<open>The loop of \<open>truncate\<close> from the newest message on: what is kept, newest first.\<close>

fun truncate_loop :: "(message \<Rightarrow> nat) \<Rightarrow> nat \<Rightarrow> nat \<Rightarrow> bool \<Rightarrow> message list \<Rightarrow> message list" where
  "truncate_loop cost max_tokens running kept_empty [] = []"
| "truncate_loop cost max_tokens running kept_empty (m # ms) =
     (if running + cost m \<le> max_tokens then m # truncate_loop cost max_tokens (running + cost m) False ms
      else if kept_empty then m # truncate_loop cost max_tokens (running + cost m) False ms
      else [])"

definition truncate_messages :: "'x context_window \<Rightarrow> message list \<Rightarrow> message list" where
  "truncate_messages w messages = (let system_messages = filter is_system messages;
       other_messages = filter (\<lambda>m. \<not> is_system m) messages;
       kept = rev (truncate_loop (message_cost w) (cw_max_tokens w) 2 True (rev other_messages))
     in system_messages @ strip_leading_tool kept)"

fun split_from :: "nat \<Rightarrow> nat \<Rightarrow> nat \<Rightarrow> nat list \<Rightarrow> nat option" where
  "split_from max_tokens i running_total [] = (if running_total \<le> max_tokens then Some i else None)"
| "split_from max_tokens i running_total (cost # costs) =
     (if running_total \<le> max_tokens then Some i else split_from max_tokens (i + 1) (running_total - cost) costs)"

definition split_for :: "'x context_window \<Rightarrow> nat list \<Rightarrow> nat \<Rightarrow> nat \<Rightarrow> nat option" where
  "split_for w msg_cost system_cost reserve =
     split_from (cw_max_tokens w) 0 (2 + system_cost + reserve + sum_list msg_cost) msg_cost"

definition generate_summary :: "'x chat_llm \<Rightarrow> string \<Rightarrow> message list \<Rightarrow> ('x, memory_error, message) eff" where
  "generate_summary llm prompt to_summarize x =
     (case llm [human (str_replace ''{conversation}'' (join [CHR 0x0A] (map message_line to_summarize)) prompt)] x of
        None \<Rightarrow> None
      | Some (Inl e, x') \<Rightarrow> Some (Inl (SaveError (''LLM summarization failed: '' @ e)), x')
      | Some (Inr content, x') \<Rightarrow> Some (Inr (system (''[Conversation Summary] '' @ content)), x'))"

text \<open>The last loop of \<open>summarize\<close>: remove the oldest of the recent messages until the list fits.\<close>

fun trim_tail :: "'x context_window \<Rightarrow> message list \<Rightarrow> message list \<Rightarrow> message list" where
  "trim_tail w prefix [] = prefix"
| "trim_tail w prefix (m # tail) =
     (if count_messages (cw_counter w) (prefix @ m # tail) > cw_max_tokens w
      then trim_tail w prefix tail else prefix @ m # tail)"

definition assemble_summary :: "'x context_window \<Rightarrow> message list \<Rightarrow> message list \<Rightarrow> message \<Rightarrow> message list \<Rightarrow> message list" where
  "assemble_summary w system_messages other_messages summary_message to_keep = (
     let candidate = trim_tail w (system_messages @ [summary_message]) to_keep in
     if count_messages (cw_counter w) candidate > cw_max_tokens w
     then truncate_messages w (system_messages @ other_messages) else candidate)"

text \<open>\<open>summarize\<close> once the summary is there: measure it, choose the window again if it is larger than
  was reserved for it, assemble.\<close>

definition finish_summary ::
  "'x context_window \<Rightarrow> message list \<Rightarrow> message list \<Rightarrow> nat \<Rightarrow> message \<Rightarrow> message list" where
  "finish_summary w system_messages other_messages keep_from summary_message = (
     let msg_cost = map (message_cost w) other_messages;
         system_cost = sum_list (map (message_cost w) system_messages);
         measured = message_cost w summary_message;
         to_keep = strip_leading_tool (drop keep_from other_messages) in
     if measured > summary_reserve w
     then (case split_for w msg_cost system_cost measured of
         None \<Rightarrow> truncate_messages w (system_messages @ other_messages)
       | Some rebuilt \<Rightarrow> assemble_summary w system_messages other_messages summary_message
           (if rebuilt > keep_from then strip_leading_tool (drop rebuilt other_messages) else to_keep))
     else assemble_summary w system_messages other_messages summary_message to_keep)"

definition summarize :: "'x context_window \<Rightarrow> 'x chat_llm \<Rightarrow> string \<Rightarrow> message list \<Rightarrow> ('x, memory_error, message list) eff" where
  "summarize w llm prompt messages = (
     let system_messages = filter is_system messages;
         other_messages = filter (\<lambda>m. \<not> is_system m) messages;
         msg_cost = map (message_cost w) other_messages;
         system_cost = sum_list (map (message_cost w) system_messages)
     in if other_messages = [] then ok system_messages
     else case split_for w msg_cost system_cost (summary_reserve w) of
       None \<Rightarrow> ok (truncate_messages w (system_messages @ other_messages))
     | Some keep_from \<Rightarrow>
       if keep_from = 0 then ok (system_messages @ strip_leading_tool (drop keep_from other_messages))
       else eff_bind (generate_summary llm prompt (take keep_from other_messages)) (\<lambda>summary_message.
         ok (finish_summary w system_messages other_messages keep_from summary_message)))"

definition fit :: "'x context_window \<Rightarrow> message list \<Rightarrow> ('x, memory_error, message list) eff" where
  "fit w messages =
     (if count_messages (cw_counter w) messages \<le> cw_max_tokens w then ok messages
      else case cw_strategy w of
        Truncate \<Rightarrow> ok (truncate_messages w messages)
      | Summarize llm prompt \<Rightarrow> summarize w llm prompt messages)"

end
