(* ===== verification/Context_Window_Props.thy ===== *)
theory Context_Window_Props
  imports Context_Window
begin

text \<open>
  What \<open>ContextWindow::fit\<close> promises, from the one law of token counters it relies on (locale
  \<open>additive_counter\<close>, interpreted on both counters of \<open>lc-core\<close>).
\<close>

lemma strip_leading_tool_suffix: "\<exists>tools. ms = tools @ strip_leading_tool ms"
  unfolding strip_leading_tool_def by (metis takeWhile_dropWhile_id)

lemma strip_leading_tool_hd: "strip_leading_tool ms \<noteq> [] \<Longrightarrow> \<not> is_tool (msg_type (hd (strip_leading_tool ms)))"
  unfolding strip_leading_tool_def by (rule hd_dropWhile)

lemma strip_leading_tool_nonempty: "ms \<noteq> [] \<Longrightarrow> \<not> is_tool (msg_type (last ms)) \<Longrightarrow> strip_leading_tool ms \<noteq> []"
  unfolding strip_leading_tool_def by (metis dropWhile_eq_Nil_conv last_in_set)

lemma truncate_loop_prefix: "\<exists>rest. ms = truncate_loop cost n r e ms @ rest"
  by (induction ms arbitrary: r e) auto

lemma truncate_loop_cost:
  "r \<le> n \<Longrightarrow> r + sum_list (map cost (truncate_loop cost n r False ms)) \<le> n"
  "\<not> r \<le> n \<Longrightarrow> truncate_loop cost n r False ms = []"
  by (induction ms arbitrary: r) (auto simp flip: add.assoc)

lemma truncate_loop_first:
  "2 + sum_list (map cost (truncate_loop cost n 2 True ms)) \<le> n \<or> length (truncate_loop cost n 2 True ms) \<le> 1"
proof (cases ms)
  case (Cons m ms')
  then show ?thesis
    using truncate_loop_cost(1) [of "2 + cost m" n cost ms'] truncate_loop_cost(2) [of "2 + cost m" n cost ms']
    by (cases "2 + cost m \<le> n") (auto simp: add.assoc)
qed simp

lemma truncate_loop_nonempty: "ms \<noteq> [] \<Longrightarrow> hd (truncate_loop cost n r True ms) = hd ms \<and> truncate_loop cost n r True ms \<noteq> []"
  by (cases ms) auto

lemma sum_list_suffix: "xs = ys @ zs \<Longrightarrow> sum_list (map f zs) \<le> (sum_list (map f xs) :: nat)"
  by simp

text \<open>What is kept next to the system messages.\<close>

definition recent_part :: "message list \<Rightarrow> message list \<Rightarrow> bool" where
  "recent_part messages kept \<longleftrightarrow> (\<exists>older. filter (\<lambda>m. \<not> is_system m) messages = older @ kept)
     \<and> (kept = [] \<or> \<not> is_tool (msg_type (hd kept)))"

lemma recent_strip: "recent_part messages (strip_leading_tool (drop n (filter (\<lambda>m. \<not> is_system m) messages)))"
proof -
  obtain tools where "drop n (filter (\<lambda>m. \<not> is_system m) messages) =
      tools @ strip_leading_tool (drop n (filter (\<lambda>m. \<not> is_system m) messages))"
    using strip_leading_tool_suffix by blast
  then have "filter (\<lambda>m. \<not> is_system m) messages = take n (filter (\<lambda>m. \<not> is_system m) messages)
      @ tools @ strip_leading_tool (drop n (filter (\<lambda>m. \<not> is_system m) messages))"
    by (metis append_take_drop_id)
  then show ?thesis unfolding recent_part_def using strip_leading_tool_hd by (metis append.assoc)
qed

lemma truncate_result:
  obtains kept where "truncate_messages w messages = filter is_system messages @ kept" and "recent_part messages kept"
    and "2 + sum_list (map (message_cost w) kept) \<le> cw_max_tokens w \<or> length kept \<le> 1"
    and "filter (\<lambda>m. \<not> is_system m) messages \<noteq> []
      \<Longrightarrow> \<not> is_tool (msg_type (last (filter (\<lambda>m. \<not> is_system m) messages))) \<Longrightarrow> kept \<noteq> []"
proof -
  let ?others = "filter (\<lambda>m. \<not> is_system m) messages"
  define loop where "loop = truncate_loop (message_cost w) (cw_max_tokens w) 2 True (rev ?others)"
  obtain rest where "rev ?others = loop @ rest" unfolding loop_def using truncate_loop_prefix by blast
  then have suffix: "?others = rev rest @ rev loop" by (metis rev_append rev_rev_ident)
  then have drop: "rev loop = drop (length rest) ?others" by simp
  obtain tools where tools: "rev loop = tools @ strip_leading_tool (rev loop)" using strip_leading_tool_suffix by blast
  have cost: "2 + sum_list (map (message_cost w) (rev loop)) \<le> cw_max_tokens w \<or> length (rev loop) \<le> 1"
    using truncate_loop_first [of "message_cost w" "cw_max_tokens w" "rev ?others"] by (simp add: loop_def rev_map [symmetric])
  show thesis
  proof (rule that [of "strip_leading_tool (rev loop)"])
    show "truncate_messages w messages = filter is_system messages @ strip_leading_tool (rev loop)"
      by (simp add: truncate_messages_def loop_def)
    show "recent_part messages (strip_leading_tool (rev loop))"
      unfolding drop by (rule recent_strip)
    show "2 + sum_list (map (message_cost w) (strip_leading_tool (rev loop))) \<le> cw_max_tokens w
        \<or> length (strip_leading_tool (rev loop)) \<le> 1"
      using cost sum_list_suffix [OF tools, of "message_cost w"] arg_cong [OF tools, of length] by auto
    show "strip_leading_tool (rev loop) \<noteq> []" if "?others \<noteq> []" "\<not> is_tool (msg_type (last ?others))"
    proof (rule strip_leading_tool_nonempty)
      have "hd loop = hd (rev ?others) \<and> loop \<noteq> []"
        unfolding loop_def using that(1) by (intro truncate_loop_nonempty) simp
      then show "rev loop \<noteq> []" "\<not> is_tool (msg_type (last (rev loop)))"
        using that by (simp_all add: last_rev hd_rev)
    qed
  qed
qed


lemma split_from_Some:
  "split_from n i (b + sum_list costs) costs = Some j \<Longrightarrow> \<exists>k. j = i + k \<and> b + sum_list (drop k costs) \<le> n"
proof (induction costs arbitrary: i)
  case (Cons c costs)
  show ?case
  proof (cases "b + sum_list (c # costs) \<le> n")
    case True
    then show ?thesis using Cons.prems by (intro exI [of _ 0]) simp
  next
    case False
    then have "split_from n (i + 1) (b + sum_list costs) costs = Some j"
      using Cons.prems by simp
    from Cons.IH [OF this] obtain k where "j = i + 1 + k" "b + sum_list (drop k costs) \<le> n" by blast
    then show ?thesis by (intro exI [of _ "Suc k"]) simp
  qed
qed (auto split: if_splits)

lemma split_for_Some:
  assumes "split_for w (map f others) system_cost reserve = Some j"
  shows "2 + system_cost + reserve + sum_list (map f (drop j others)) \<le> cw_max_tokens w"
  using assms split_from_Some [of "cw_max_tokens w" 0 "2 + system_cost + reserve" "map f others" j]
  by (auto simp: split_for_def drop_map)

lemma sum_strip: "sum_list (map f (strip_leading_tool ms)) \<le> (sum_list (map f ms) :: nat)"
proof -
  obtain tools where "ms = tools @ strip_leading_tool ms" using strip_leading_tool_suffix by blast
  then show ?thesis by (rule sum_list_suffix)
qed

lemma generate_summary_system: "generate_summary llm p ms x = Some (Inr s, x') \<Longrightarrow> is_system s"
  by (auto simp: generate_summary_def is_system_def system_def plain_message_def split: option.splits sum.splits)


section \<open>The law of token counters\<close>

text \<open>What a message counts when nothing wraps, and when that is so for a list of messages.\<close>

definition exact_tokens :: "(string \<Rightarrow> nat) \<Rightarrow> message \<Rightarrow> nat" where
  "exact_tokens count m = 4 + count (msg_content m)
     + (case msg_name m of Some n \<Rightarrow> count n | None \<Rightarrow> 0) + 1000 * length (msg_images m)"

definition fits_u32 :: "(message \<Rightarrow> nat) \<Rightarrow> message list \<Rightarrow> bool" where
  "fits_u32 weight ms \<longleftrightarrow> 2 + sum_list (map weight ms) < 2 ^ 32"

lemma fold_images: "u32 (fold (\<lambda>_ n. u32 (n + 1000)) xs t) = u32 (t + 1000 * length xs)"
  by (induction xs arbitrary: t) (simp_all add: add.assoc)

lemma message_tokens_exact: "u32 (message_tokens count m t) = u32 (t + exact_tokens count m)"
  by (cases "msg_name m")
     (simp_all only: message_tokens_def Let_def exact_tokens_def fold_images option.case u32_add add_0_right add.assoc)

lemma messages_tokens_exact: "messages_tokens count ms = u32 (2 + sum_list (map (exact_tokens count) ms))"
proof -
  have "u32 (fold (message_tokens count) ms t) = u32 (t + sum_list (map (exact_tokens count) ms))" for t
  proof (induction ms arbitrary: t)
    case (Cons m ms)
    have "u32 (message_tokens count m t + n) = u32 (t + exact_tokens count m + n)" for n
      using message_tokens_exact [of count m t] u32_add(1) by metis
    with Cons show ?case by (simp add: add.assoc)
  qed simp
  then show ?thesis unfolding messages_tokens_def by (metis add.commute add_0 u32_add(1))
qed

lemma fits_u32_sub:
  "fits_u32 weight ms \<Longrightarrow> sum_list (map weight ns) \<le> sum_list (map weight ms) \<Longrightarrow> fits_u32 weight ns"
  by (simp add: fits_u32_def)

lemma fits_u32_member: "fits_u32 weight ms \<Longrightarrow> m \<in> set ms \<Longrightarrow> fits_u32 weight [m]"
  using member_le_sum_list [of "weight m" "map weight ms"] fits_u32_sub [of weight ms "[m]"] by simp

locale additive_counter =
  fixes counter :: token_counter and cost weight :: "message \<Rightarrow> nat"
  assumes additive: "fits_u32 weight ms \<Longrightarrow> count_messages counter ms = 2 + sum_list (map cost ms)"
begin

lemma count_cost:
  assumes "cw_counter w = counter" and "fits_u32 weight ms"
  shows "count_messages counter ms = 2 + sum_list (map (message_cost w) ms)"
proof -
  have "message_cost w m = cost m" if "m \<in> set ms" for m
    using additive [OF fits_u32_member [OF assms(2) that]] assms(1) by (simp add: message_cost_def)
  then show ?thesis using additive [OF assms(2)] by (simp cong: map_cong)
qed

lemma assemble_fits:
  assumes "cw_counter w = counter" and "fits_u32 weight (sys @ s # keep)"
    and "2 + sum_list (map (message_cost w) sys) + message_cost w s + sum_list (map (message_cost w) keep) \<le> cw_max_tokens w"
  shows "assemble_summary w sys others s keep = sys @ s # keep"
    and "count_messages counter (sys @ s # keep) \<le> cw_max_tokens w"
proof -
  show fits: "count_messages counter (sys @ s # keep) \<le> cw_max_tokens w"
    using assms(3) by (simp add: count_cost [OF assms(1,2)])
  then have "trim_tail w (sys @ [s]) keep = sys @ s # keep"
    using assms(1) by (cases keep) simp_all
  then show "assemble_summary w sys others s keep = sys @ s # keep"
    using fits assms(1) by (simp add: assemble_summary_def)
qed

lemma summarize_result:
  assumes c: "cw_counter w = counter" and run: "summarize w llm prompt ms x = Some (Inr r, x')"
    and small: "fits_u32 weight ms"
    and answers: "\<forall>p x c x'. llm p x = Some (Inr c, x') \<longrightarrow> fits_u32 weight (system (''[Conversation Summary] '' @ c) # ms)"
  shows "r = truncate_messages w ms \<or> (\<exists>summary kept. r = filter is_system ms @ summary @ kept \<and> recent_part ms kept
    \<and> length summary \<le> 1 \<and> list_all is_system summary \<and> count_messages counter r \<le> cw_max_tokens w)
    \<or> filter (\<lambda>m. \<not> is_system m) ms = [] \<and> r = filter is_system ms"
proof -
  let ?sys = "filter is_system ms" and ?others = "filter (\<lambda>m. \<not> is_system m) ms"
  let ?cost = "message_cost w" and ?n = "cw_max_tokens w"
  have tr: "truncate_messages w (?sys @ ?others) = truncate_messages w ms"
    by (simp add: truncate_messages_def)
  have parts: "sum_list (map weight ?sys) + sum_list (map weight ?others) = sum_list (map weight ms)"
    by (induction ms) simp_all
  have part: "sum_list (map weight (strip_leading_tool (drop j ?others))) \<le> sum_list (map weight ?others)" for j
    using sum_strip [of weight "drop j ?others"] sum_list_suffix [of ?others "take j ?others" "drop j ?others" weight]
    by simp
  show ?thesis
  proof (cases "?others = [] \<or> split_for w (map ?cost ?others) (sum_list (map ?cost ?sys)) (summary_reserve w) = None")
    case True
    then show ?thesis
      using run tr by (auto simp: summarize_def Let_def split: if_splits)
  next
    case False
    then obtain k where k: "split_for w (map ?cost ?others) (sum_list (map ?cost ?sys)) (summary_reserve w) = Some k"
      and others: "?others \<noteq> []" by auto
    note fit_k = split_for_Some [OF k]
    have keep: "recent_part ms (strip_leading_tool (drop j ?others))" for j by (rule recent_strip)
    show ?thesis
    proof (cases "k = 0")
      case True
      then have "r = ?sys @ [] @ strip_leading_tool ?others"
        using run others k by (simp add: summarize_def Let_def)
      moreover have "count_messages counter r \<le> ?n"
        using calculation fit_k True sum_strip [of ?cost ?others] parts part [of 0]
        by (subst count_cost [OF c fits_u32_sub [OF small]]) simp_all
      ultimately show ?thesis using keep [of 0] by (metis drop0 le0 list.size(3) list.pred_inject(1))
    next
      case False
      then obtain s x1 where gen: "generate_summary llm prompt (take k ?others) x = Some (Inr s, x1)"
        and r: "r = finish_summary w ?sys ?others k s"
        using run others k by (auto simp: summarize_def Let_def elim!: eff_bind_InrE)
      have s: "is_system s" by (rule generate_summary_system [OF gen])
      obtain p c' where "llm p x = Some (Inr c', x1)" "s = system (''[Conversation Summary] '' @ c')"
        using gen by (auto simp: generate_summary_def split: option.splits sum.splits)
      then have "fits_u32 weight (s # ms)" using answers by blast
      then have room: "fits_u32 weight (?sys @ s # strip_leading_tool (drop j ?others))" for j
        using parts part [of j] by (elim fits_u32_sub) simp
      have done_at: "?thesis" if "r = assemble_summary w ?sys ?others s (strip_leading_tool (drop j ?others))"
        and "2 + sum_list (map ?cost ?sys) + ?cost s + sum_list (map ?cost (drop j ?others)) \<le> ?n" for j
      proof -
        have "2 + sum_list (map ?cost ?sys) + ?cost s + sum_list (map ?cost (strip_leading_tool (drop j ?others))) \<le> ?n"
          using that(2) sum_strip [of ?cost "drop j ?others"] by simp
        note a = assemble_fits [OF c room this]
        have "r = ?sys @ [s] @ strip_leading_tool (drop j ?others)" using that(1) a(1) by simp
        moreover have "count_messages counter r \<le> ?n" using calculation a(2) by simp
        ultimately show ?thesis using keep [of j] s by (metis (no_types) length_Cons list.size(3) One_nat_def order_refl list.pred_inject)
      qed
      show ?thesis
      proof (cases "?cost s > summary_reserve w")
        case False
        then show ?thesis using r done_at [of k] fit_k by (simp add: finish_summary_def Let_def)
      next
        case big: True
        show ?thesis
        proof (cases "split_for w (map ?cost ?others) (sum_list (map ?cost ?sys)) (?cost s)")
          case None
          then show ?thesis using r big tr by (simp add: finish_summary_def Let_def)
        next
          case (Some j)
          note fit_j = split_for_Some [OF Some]
          have "sum_list (map ?cost (drop (max j k) ?others)) \<le> sum_list (map ?cost (drop j ?others))"
          proof (rule sum_list_suffix)
            have "drop (max j k) ?others = drop (max j k - j) (drop j ?others)" by (simp add: max_def)
            then show "drop j ?others = take (max j k - j) (drop j ?others) @ drop (max j k) ?others"
              by (simp only: append_take_drop_id)
          qed
          moreover have "r = assemble_summary w ?sys ?others s (strip_leading_tool (drop (max j k) ?others))"
            using r big Some by (simp add: finish_summary_def Let_def max_def)
          ultimately show ?thesis using done_at [of "max j k"] fit_j by simp
        qed
      qed
    qed
  qed
qed

text \<open>The result of \<open>fit\<close>, whichever way it was reached.\<close>

lemma fit_result:
  assumes c: "cw_counter w = counter" and run: "fit w ms x = Some (Inr r, x')"
    and over: "cw_max_tokens w < count_messages counter ms" and small: "fits_u32 weight ms"
    and answers: "\<forall>llm prompt p x c x'. cw_strategy w = Summarize llm prompt \<longrightarrow> llm p x = Some (Inr c, x') \<longrightarrow>
      fits_u32 weight (system (''[Conversation Summary] '' @ c) # ms)"
  shows "\<exists>summary kept. r = filter is_system ms @ summary @ kept \<and> recent_part ms kept
      \<and> length summary \<le> 1 \<and> list_all is_system summary
      \<and> (count_messages counter r \<le> cw_max_tokens w \<or> summary = []
          \<and> (2 + sum_list (map (message_cost w) kept) \<le> cw_max_tokens w \<or> length kept \<le> 1))"
proof -
  consider (trunc) "r = truncate_messages w ms"
    | (summ) summary kept where "r = filter is_system ms @ summary @ kept" "recent_part ms kept"
      "length summary \<le> 1" "list_all is_system summary" "count_messages counter r \<le> cw_max_tokens w"
    | (sys) "filter (\<lambda>m. \<not> is_system m) ms = []" "r = filter is_system ms"
  proof (cases "cw_strategy w")
    case Truncate
    then show ?thesis using run over c that(1) by (simp add: fit_def)
  next
    case (Summarize llm prompt)
    then have "summarize w llm prompt ms x = Some (Inr r, x')" using run over c by (simp add: fit_def)
    have "\<forall>p x c x'. llm p x = Some (Inr c, x') \<longrightarrow> fits_u32 weight (system (''[Conversation Summary] '' @ c) # ms)"
      using answers Summarize by blast
    from summarize_result [OF c \<open>summarize w llm prompt ms x = Some (Inr r, x')\<close> small this] show ?thesis
      using that by blast
  qed
  then show ?thesis
  proof cases
    case trunc
    obtain kept where kept: "r = filter is_system ms @ [] @ kept" "recent_part ms kept"
      "2 + sum_list (map (message_cost w) kept) \<le> cw_max_tokens w \<or> length kept \<le> 1"
      using trunc by (cases rule: truncate_result [of w ms]) simp
    then show ?thesis by (intro exI [of _ "[]"] exI [of _ kept]) simp
  next
    case (summ summary kept)
    then show ?thesis by (intro exI [of _ summary] exI [of _ kept]) simp
  next
    case sys
    then show ?thesis by (intro exI [of _ "[]"]) (simp add: recent_part_def)
  qed
qed

end

text \<open>The bytes of a text bound its length in units of \<open>ratio\<close> bytes.\<close>

lemma exact_tokens_mono:
  assumes "\<And>t. f t \<le> g t"
  shows "sum_list (map (exact_tokens f) ms) \<le> sum_list (map (exact_tokens g) ms)"
  by (rule sum_list_mono) (auto simp: exact_tokens_def intro: add_mono assms split: option.split)

lemma exact_tokens_u32:
  assumes "fits_u32 (exact_tokens weigh) ms" and "\<And>t. weigh t < 2 ^ 32 \<Longrightarrow> f t = g t" and "m \<in> set ms"
  shows "exact_tokens f m = exact_tokens g m"
proof -
  have "exact_tokens weigh m < 2 ^ 32"
    using fits_u32_member [OF assms(1,3)] by (simp add: fits_u32_def)
  then have "weigh (msg_content m) < 2 ^ 32" "\<And>n. msg_name m = Some n \<Longrightarrow> weigh n < 2 ^ 32"
    by (auto simp: exact_tokens_def)
  then show ?thesis using assms(2) by (auto simp: exact_tokens_def split: option.split)
qed

interpretation char_ratio: additive_counter "char_ratio_counter ratio"
  "exact_tokens (\<lambda>t. length t div max ratio 1)" "exact_tokens length" for ratio
proof unfold_locales
  fix ms assume small: "fits_u32 (exact_tokens length) ms"
  have "map (exact_tokens (\<lambda>t. u32 (length t) div max ratio 1)) ms = map (exact_tokens (\<lambda>t. length t div max ratio 1)) ms"
    by (intro map_cong refl exact_tokens_u32 [OF small]) (simp_all add: u32_small)
  moreover have "2 + sum_list (map (exact_tokens (\<lambda>t. length t div max ratio 1)) ms) < 2 ^ 32"
    using small exact_tokens_mono [of "\<lambda>t. length t div max ratio 1" length ms] by (simp add: fits_u32_def)
  ultimately show "count_messages (char_ratio_counter ratio) ms =
      2 + sum_list (map (exact_tokens (\<lambda>t. length t div max ratio 1)) ms)"
    unfolding char_ratio_counter_def Let_def token_counter.simps messages_tokens_exact
    by (simp only: u32_small)
qed

interpretation tiktoken: additive_counter "tiktoken_counter encode" "exact_tokens encode" "exact_tokens encode" for encode
proof unfold_locales
  fix ms assume small: "fits_u32 (exact_tokens encode) ms"
  have "map (exact_tokens (\<lambda>t. u32 (encode t))) ms = map (exact_tokens encode) ms"
    by (intro map_cong refl exact_tokens_u32 [OF small]) (simp_all add: u32_small)
  with small show "count_messages (tiktoken_counter encode) ms = 2 + sum_list (map (exact_tokens encode) ms)"
    unfolding tiktoken_counter_def Let_def token_counter.simps messages_tokens_exact fits_u32_def
    by (simp only: u32_small)
qed


section \<open>Properties\<close>

text \<open>
  C18. A conversation within the budget is returned as it is. Otherwise the result has all system
  messages, at most one summary and a suffix of the rest that does not open on a tool result; and it
  is within the budget, or it has no summary and its recent part alone is within the budget or a
  single message. Truncation always answers and keeps the newest message unless it is a tool
  result. Both token counters of \<open>lc-core\<close> give this guarantee for conversations that they count
  without wrapping: those which, together with any summary the model may give, have less than
  \<open>2 ^ 32\<close> bytes (or tokens, of the BPE encoder), the surcharges for messages and images included. On
  longer ones the 32-bit total wraps, and the budget is compared with the remainder.
\<close>

theorem context_window_contract:
  assumes counter: "cw_counter w = char_ratio_counter ratio \<and> weigh = length \<or> cw_counter w = tiktoken_counter weigh"
    and small: "fits_u32 (exact_tokens weigh) ms"
    and answers: "\<forall>llm prompt p x c x'. cw_strategy w = Summarize llm prompt \<longrightarrow> llm p x = Some (Inr c, x') \<longrightarrow>
      fits_u32 (exact_tokens weigh) (system (''[Conversation Summary] '' @ c) # ms)"
    and run: "fit w ms x = Some (Inr r, x')"
  shows "if count_messages (cw_counter w) ms \<le> cw_max_tokens w then r = ms
    else \<exists>summary kept. r = filter is_system ms @ summary @ kept \<and> recent_part ms kept
      \<and> length summary \<le> 1 \<and> list_all is_system summary
      \<and> (count_messages (cw_counter w) r \<le> cw_max_tokens w \<or> summary = []
          \<and> (2 + sum_list (map (message_cost w) kept) \<le> cw_max_tokens w \<or> length kept \<le> 1))
      \<and> (cw_strategy w = Truncate \<and> filter (\<lambda>m. \<not> is_system m) ms \<noteq> []
          \<and> \<not> is_tool (msg_type (last (filter (\<lambda>m. \<not> is_system m) ms))) \<longrightarrow> kept \<noteq> [])"
proof (cases "count_messages (cw_counter w) ms \<le> cw_max_tokens w")
  case True
  then show ?thesis using run by (simp add: fit_def)
next
  case False
  show ?thesis
  proof (cases "cw_strategy w")
    case Truncate
    then have r: "r = truncate_messages w ms" using run False by (simp add: fit_def)
    show ?thesis
    proof (cases rule: truncate_result [of w ms])
      case (1 kept)
      have "r = filter is_system ms @ [] @ kept" using 1(1) r by simp
      then show ?thesis unfolding if_not_P [OF False] using 1(2,3,4)
        by (intro exI [of _ "[]"] exI [of _ kept]) simp
    qed
  next
    case (Summarize llm prompt)
    have over: "cw_max_tokens w < count_messages (cw_counter w) ms" using False by simp
    have "\<exists>summary kept. r = filter is_system ms @ summary @ kept \<and> recent_part ms kept
      \<and> length summary \<le> 1 \<and> list_all is_system summary
      \<and> (count_messages (cw_counter w) r \<le> cw_max_tokens w \<or> summary = []
          \<and> (2 + sum_list (map (message_cost w) kept) \<le> cw_max_tokens w \<or> length kept \<le> 1))"
      using counter
    proof
      assume c: "cw_counter w = char_ratio_counter ratio \<and> weigh = length"
      with small answers show ?thesis
        using char_ratio.fit_result [of w ratio ms x r x'] run over by simp
    next
      assume c: "cw_counter w = tiktoken_counter weigh"
      with small answers show ?thesis
        using tiktoken.fit_result [of w weigh ms x r x'] run over by simp
    qed
    then show ?thesis unfolding if_not_P [OF False] using Summarize by simp
  qed
qed

text \<open>An oversized tool result at the end: the truncated history is empty.\<close>

definition small_window :: "unit context_window" where
  "small_window = \<lparr>cw_max_tokens = 20, cw_counter = char_ratio_counter 1, cw_strategy = Truncate,
     cw_reserve_ratio = (\<lambda>n. n div 4), cw_reserve_override = None\<rparr>"

theorem context_window_contract_witness:
  "map_option (map_sum id (map msg_content) \<circ> fst) (fit small_window [human ''a long question'', tool_message ''1'' ''a long result'', ai ''short''] ())
     = Some (Inr [''short''])
   \<and> fit small_window [human ''a long question'', tool_message ''1'' ''a very long result''] () = Some (Inr [], ())
   \<and> (\<exists>kept. recent_part [human ''a long question'', tool_message ''1'' ''a very long result''] kept \<and> length kept \<le> 1)"
proof -
  let ?ms = "[human ''a long question'', tool_message ''1'' ''a very long result'']"
  have run: "fit small_window ?ms () = Some (Inr [], ())" by code_simp
  have over: "\<not> count_messages (cw_counter small_window) ?ms \<le> cw_max_tokens small_window" by code_simp
  have small: "fits_u32 (exact_tokens length) ?ms"
    by (simp add: fits_u32_def exact_tokens_def human_def tool_message_def plain_message_def)
  have w: "cw_counter small_window = char_ratio_counter 1" "cw_strategy small_window = Truncate"
    by (simp_all add: small_window_def)
  then obtain kept where "recent_part ?ms kept" "[] = filter is_system ?ms @ kept \<or> length kept \<le> 1"
    using context_window_contract [OF _ small _ run, of 1] over by auto
  moreover have "map_option (map_sum id (map msg_content) \<circ> fst)
      (fit small_window [human ''a long question'', tool_message ''1'' ''a long result'', ai ''short''] ()) = Some (Inr [''short''])"
    by code_simp
  ultimately show ?thesis using run by auto
qed

text \<open>A message with some four million images: its 4294968006 tokens are counted as 710.\<close>

lemma wrapped_count_passes:
  assumes "length (msg_images m) = 4294968" and "msg_name m = None" and "msg_content m = []"
  shows "count_messages (char_ratio_counter ratio) [m] = 710"
  using assms by (simp add: char_ratio_counter_def Let_def messages_tokens_exact exact_tokens_def u32_def)

end
