(* ===== verification/Context_Manager.thy ===== *)
theory Context_Manager
  imports Context_Window
begin

text \<open>
  \<open>ContextManager\<close> (\<open>context_manager.rs\<close>), a memory composed of a read, a write, a compress and an
  optional retrieve strategy.
\<close>

section \<open>Strategies\<close>

record 'w read_strategy =
  rs_load :: "string smap \<Rightarrow> ('w, memory_error, message list) eff"
  rs_clear :: "('w, memory_error, unit) eff"

record 'w write_strategy =
  ws_save :: "string smap \<Rightarrow> string smap \<Rightarrow> ('w, memory_error, unit) eff"
  ws_clear :: "('w, memory_error, unit) eff"

text \<open>The buffer strategies over a shared store; both inherit the default \<open>clear\<close> of their trait.\<close>

definition default_clear :: "('w, memory_error, unit) eff" where
  "default_clear = ok ()"

definition buffer_read_strategy :: "('w \<Rightarrow> buffer_memory) \<Rightarrow> 'w read_strategy" where
  "buffer_read_strategy store = \<lparr>rs_load = (\<lambda>_ w. Some (Inr (bm_chat (store w)), w)), rs_clear = default_clear\<rparr>"

definition buffer_write_strategy :: "('w \<Rightarrow> buffer_memory) \<Rightarrow> (buffer_memory \<Rightarrow> 'w \<Rightarrow> 'w) \<Rightarrow> 'w write_strategy" where
  "buffer_write_strategy store put = \<lparr>ws_save = (\<lambda>inputs outputs w.
       map_option (\<lambda>(r, m). (r, put m w)) (buffer_save inputs outputs (store w))), ws_clear = default_clear\<rparr>"

definition passthrough_compress :: "message list \<Rightarrow> ('w, memory_error, message list) eff" where
  "passthrough_compress msgs = ok msgs"

fun drop_until_fits :: "token_counter \<Rightarrow> nat \<Rightarrow> message list \<Rightarrow> message list" where
  "drop_until_fits counter budget [] = []"
| "drop_until_fits counter budget (m # ms) =
     (if count_messages counter (m # ms) > budget then drop_until_fits counter budget ms else m # ms)"

definition token_budget_compress :: "token_counter \<Rightarrow> nat \<Rightarrow> message list \<Rightarrow> ('w, memory_error, message list) eff" where
  "token_budget_compress counter budget msgs = (
     let others = filter (\<lambda>m. \<not> is_system m) msgs;
         candidate = drop_until_fits counter budget others
     in ok (filter is_system msgs @ (if candidate = [] \<and> others \<noteq> [] then [last others] else candidate)))"

definition context_window_compress :: "'w context_window \<Rightarrow> message list \<Rightarrow> ('w, memory_error, message list) eff" where
  "context_window_compress window msgs = fit window msgs"

record 'w context_manager =
  cm_read :: "'w read_strategy"
  cm_write :: "'w write_strategy"
  cm_compress :: "message list \<Rightarrow> ('w, memory_error, message list) eff"
  cm_retrieve :: "(string smap \<Rightarrow> ('w, memory_error, message list) eff) option"
  cm_memory_key :: string
  cm_return_messages :: bool

definition build_variables :: "(message \<Rightarrow> string + json) \<Rightarrow> 'w context_manager \<Rightarrow> message list \<Rightarrow> memory_error + json smap" where
  "build_variables to_value m msgs =
     (if cm_return_messages m
      then result_bind (serialize_messages to_value msgs) (\<lambda>v. Inr [(cm_memory_key m, v)])
      else Inr [(cm_memory_key m, JString (join [CHR 0x0A] (map message_line msgs)))])"

definition manager_load ::
  "(message \<Rightarrow> string + json) \<Rightarrow> 'w context_manager \<Rightarrow> string smap \<Rightarrow> ('w, memory_error, json smap) eff" where
  "manager_load to_value m inputs =
     eff_bind (rs_load (cm_read m) inputs) (\<lambda>msgs.
     eff_bind (cm_compress m msgs) (\<lambda>msgs.
     eff_bind (case cm_retrieve m of
         Some retrieve \<Rightarrow> eff_bind (retrieve inputs) (\<lambda>extra. ok (msgs @ extra))
       | None \<Rightarrow> ok msgs) (\<lambda>msgs.
     lift_result (build_variables to_value m msgs))))"

definition manager_save :: "'w context_manager \<Rightarrow> string smap \<Rightarrow> string smap \<Rightarrow> ('w, memory_error, unit) eff" where
  "manager_save m inputs outputs = ws_save (cm_write m) inputs outputs"

definition manager_clear :: "'w context_manager \<Rightarrow> ('w, memory_error, unit) eff" where
  "manager_clear m = eff_bind (rs_clear (cm_read m)) (\<lambda>_. ws_clear (cm_write m))"

text \<open>
  The builder. A missing read or write strategy is a buffer over a fresh store; when both are missing
  they share it. So a manager uses at most one store of its own: its world is that store beside the
  world \<open>'v\<close> of the strategies the caller supplies.
\<close>

record 'v manager_builder =
  mb_read :: "'v read_strategy option"
  mb_write :: "'v write_strategy option"
  mb_compress :: "(message list \<Rightarrow> ('v, memory_error, message list) eff) option"
  mb_retrieve :: "(string smap \<Rightarrow> ('v, memory_error, message list) eff) option"
  mb_memory_key :: string
  mb_return_messages :: bool

definition manager_builder_new :: "'v manager_builder" where
  "manager_builder_new = \<lparr>mb_read = None, mb_write = None, mb_compress = None, mb_retrieve = None,
     mb_memory_key = ''history'', mb_return_messages = True\<rparr>"

definition on_supplied :: "('v, 'e, 'a) eff \<Rightarrow> ('s \<times> 'v, 'e, 'a) eff" where
  "on_supplied f = (\<lambda>(s, v). map_option (\<lambda>(r, v'). (r, (s, v'))) (f v))"

definition build_read :: "'v manager_builder \<Rightarrow> (buffer_memory \<times> 'v) read_strategy" where
  "build_read b = (case mb_read b of
      Some rs \<Rightarrow> \<lparr>rs_load = (\<lambda>inputs. on_supplied (rs_load rs inputs)), rs_clear = on_supplied (rs_clear rs)\<rparr>
    | None \<Rightarrow> buffer_read_strategy fst)"

definition build_write :: "'v manager_builder \<Rightarrow> (buffer_memory \<times> 'v) write_strategy" where
  "build_write b = (case mb_write b of
      Some ws \<Rightarrow> \<lparr>ws_save = (\<lambda>inputs outputs. on_supplied (ws_save ws inputs outputs)), ws_clear = on_supplied (ws_clear ws)\<rparr>
    | None \<Rightarrow> buffer_write_strategy fst (\<lambda>m (_, v). (m, v)))"

definition manager_build :: "'v manager_builder \<Rightarrow> (buffer_memory \<times> 'v) context_manager" where
  "manager_build b = \<lparr>cm_read = build_read b, cm_write = build_write b,
     cm_compress = (case mb_compress b of Some f \<Rightarrow> (\<lambda>h. on_supplied (f h)) | None \<Rightarrow> passthrough_compress),
     cm_retrieve = map_option (\<lambda>f inputs. on_supplied (f inputs)) (mb_retrieve b),
     cm_memory_key = mb_memory_key b, cm_return_messages = mb_return_messages b\<rparr>"

text \<open>
  With the default strategies a saved turn is loaded again, and clearing the manager leaves it in place.
\<close>

lemma default_manager_roundtrip:
  assumes "map_of inputs (bm_input_key m) = Some i" and "map_of outputs (bm_output_key m) = Some out"
  shows "eff_bind (manager_save (manager_build manager_builder_new) inputs outputs)
      (\<lambda>_. rs_load (cm_read (manager_build manager_builder_new)) []) (m, v) =
    Some (Inr (bm_chat m @ [human i, ai out]), (m\<lparr>bm_chat := bm_chat m @ [human i, ai out]\<rparr>, v))"
  using assms
  by (simp add: manager_save_def manager_build_def manager_builder_new_def build_read_def build_write_def
      buffer_write_strategy_def buffer_read_strategy_def buffer_save_def required_key_def add_user_message_def
      add_ai_message_def eff_bind_def)

lemma default_manager_clear: "manager_clear (manager_build manager_builder_new) w = Some (Inr (), w)"
  by (simp add: manager_clear_def manager_build_def manager_builder_new_def build_read_def build_write_def
      buffer_read_strategy_def buffer_write_strategy_def default_clear_def eff_bind_def)

lemma drop_until_fits_suffix: "\<exists>older. ms = older @ drop_until_fits counter budget ms"
  by (induction ms) (auto, metis append_Cons)

lemma drop_until_fits_bound:
  "drop_until_fits counter budget ms = [] \<or> count_messages counter (drop_until_fits counter budget ms) \<le> budget"
  by (induction ms) auto

text \<open>What the budget strategy keeps of the messages that are not instructions.\<close>

lemma token_budget_keeps:
  fixes msgs :: "message list"
  defines "others \<equiv> filter (\<lambda>m. \<not> is_system m) msgs"
  shows "\<exists>older kept. token_budget_compress counter budget msgs w = Some (Inr (filter is_system msgs @ kept), w)
    \<and> others = older @ kept \<and> (others \<noteq> [] \<longrightarrow> kept \<noteq> [])
    \<and> (count_messages counter kept \<le> budget \<or> length kept \<le> 1)"
proof -
  obtain older where older: "others = older @ drop_until_fits counter budget others"
    using drop_until_fits_suffix by blast
  show ?thesis
  proof (cases "drop_until_fits counter budget others = [] \<and> others \<noteq> []")
    case True
    then have "others = butlast others @ [last others]" by simp
    then show ?thesis
      using True unfolding token_budget_compress_def Let_def others_def [symmetric]
      by (intro exI [of _ "butlast others"] exI [of _ "[last others]"]) simp
  next
    case False
    then show ?thesis
      using older drop_until_fits_bound [of counter budget others]
      unfolding token_budget_compress_def Let_def others_def [symmetric]
      by (intro exI [of _ older] exI [of _ "drop_until_fits counter budget others"]) auto
  qed
qed

end
