(* ===== verification/Prompt_Registry.thy ===== *)
theory Prompt_Registry
  imports Prompt_Template "HOL-Library.Word"
begin

text \<open>
  The versioned prompt registry of \<open>lc-prompts\<close> (\<open>registry.rs\<close>). SHA-256 is a parameter \<open>sha256\<close>, the
  digest of a string as a list of bytes. A registry is the content of its \<open>RwLock\<close>; a panic
  (\<open>expect\<close>, indexing) is a call that does not return.
\<close>

unbundle bit_operations_syntax

section \<open>Versions\<close>

definition MIN_HASH_PREFIX :: nat where
  "MIN_HASH_PREFIX = 7"

datatype version_spec = Latest | Number nat | Hash string

record registered_prompt =
  rp_namespace :: string
  rp_version :: nat
  rp_hash :: string
  rp_template :: string
  rp_variables :: "string list"

record prompt_version_info =
  pvi_version :: nat
  pvi_hash :: string

record namespace =
  ns_versions :: "(nat \<times> registered_prompt) list"
  ns_hashes :: "nat list smap"

type_synonym prompt_registry = "namespace smap"

definition to_template :: "unicode \<Rightarrow> registered_prompt \<Rightarrow> prompt_template" where
  "to_template u r = template_new u (rp_template r)"


section \<open>Names and hashes\<close>

definition hex2 :: "8 word \<Rightarrow> string" where
  "hex2 b = [hex_digit (unat (drop_bit 4 b)), hex_digit (unat (b AND 15))]"

definition content_hash :: "(string \<Rightarrow> 8 word list) \<Rightarrow> string \<Rightarrow> string" where
  "content_hash sha256 template = concat (map hex2 (sha256 template))"

definition is_namespace_char :: "char \<Rightarrow> bool" where
  "is_namespace_char c \<longleftrightarrow> ascii_letter c \<or> ascii_digit c \<or> c \<in> set ''._-''"

text \<open>\<open>str::split\<close> with a character as its pattern.\<close>

fun str_split :: "char \<Rightarrow> string \<Rightarrow> string list" where
  "str_split c [] = [[]]"
| "str_split c (x # s) =
     (if x = c then [] # str_split c s
      else (case str_split c s of p # ps \<Rightarrow> (x # p) # ps | [] \<Rightarrow> [[x]]))"

text \<open>Every character of a valid segment is one byte, so \<open>chars().all\<close> is a test of the bytes.\<close>

definition validate_namespace :: "string \<Rightarrow> prompts_error + unit" where
  "validate_namespace n =
     (if n \<noteq> [] \<and> length n \<le> 128 \<and> list_all (\<lambda>segment. segment \<noteq> [] \<and> list_all is_namespace_char segment) (str_split CHR ''/'' n)
      then Inr () else Inl (InvalidNamespace n))"


section \<open>Operations\<close>

definition last_key_value :: "('k \<times> 'v) list \<Rightarrow> ('k \<times> 'v) option" where
  "last_key_value m = (if m = [] then None else Some (last m))"

definition empty_namespace :: namespace where
  "empty_namespace = \<lparr>ns_versions = [], ns_hashes = []\<rparr>"

text \<open>Versions are \<open>u32\<close>: \<open>v + 1\<close> wraps in a release build (and panics in a debug build).\<close>

definition register ::
  "unicode \<Rightarrow> (string \<Rightarrow> 8 word list) \<Rightarrow> string \<Rightarrow> string \<Rightarrow> (prompt_registry, prompts_error, registered_prompt) eff" where
  "register u sha256 n template store =
     (case validate_namespace n of
        Inl e \<Rightarrow> Some (Inl e, store)
      | Inr _ \<Rightarrow>
        let hash = content_hash sha256 template;
            vars = variables (template_new u template);
            entry = (case map_of store n of Some e \<Rightarrow> e | None \<Rightarrow> empty_namespace);
            publish = (\<lambda>version.
              let rec = \<lparr>rp_namespace = n, rp_version = version, rp_hash = hash, rp_template = template, rp_variables = vars\<rparr>;
                  with_hash = (case map_of (ns_hashes entry) hash of Some vs \<Rightarrow> vs | None \<Rightarrow> []) @ [version]
              in Some (Inr rec, smap_insert n
                   (entry\<lparr>ns_hashes := smap_insert hash with_hash (ns_hashes entry),
                          ns_versions := smap_insert version rec (ns_versions entry)\<rparr>) store))
        in (case last_key_value (ns_versions entry) of
              Some (v, latest) \<Rightarrow> if rp_hash latest = hash then Some (Inr latest, smap_insert n entry store) else publish (u32 (v + 1))
            | None \<Rightarrow> publish 1))"

text \<open>The versions of a hash are looked up by the loop over the index; \<open>last\<close> of an empty list panics.\<close>

definition newest_matches :: "(string \<Rightarrow> bool) \<Rightarrow> nat list smap \<Rightarrow> nat list option" where
  "newest_matches P hashes = (let m = filter (\<lambda>e. P (fst e)) hashes in
     if \<exists>e \<in> set m. snd e = [] then None else Some (map (\<lambda>e. last (snd e)) m))"

definition resolve_hash_version :: "namespace \<Rightarrow> string \<Rightarrow> (prompts_error + nat) option" where
  "resolve_hash_version entry p =
     (if length p < MIN_HASH_PREFIX then Some (Inl (HashNotFound p))
      else Option.bind (newest_matches (\<lambda>h. h = p) (ns_hashes entry)) (\<lambda>exact.
           Option.bind (newest_matches (\<lambda>h. h \<noteq> p \<and> starts_with h p) (ns_hashes entry)) (\<lambda>prefix_matches.
           if exact \<noteq> [] then Some (Inr (last exact))
           else (case prefix_matches of
               [] \<Rightarrow> Some (Inl (HashNotFound p))
             | [v] \<Rightarrow> Some (Inr v)
             | _ \<Rightarrow> Some (Inl (AmbiguousHash p (sort prefix_matches)))))))"

definition resolve :: "string \<Rightarrow> version_spec \<Rightarrow> prompt_registry \<Rightarrow> (prompts_error + registered_prompt) option" where
  "resolve n spec store =
     (case map_of store n of
        None \<Rightarrow> Some (Inl (NamespaceNotFound n))
      | Some entry \<Rightarrow>
        Option.bind
          (case spec of
             Latest \<Rightarrow> map_option (\<lambda>(v, _). Inr v) (last_key_value (ns_versions entry))
           | Number v \<Rightarrow> Some (if contains_key (ns_versions entry) v then Inr v else Inl (VersionNotFound n v))
           | Hash p \<Rightarrow> resolve_hash_version entry p)
          (\<lambda>r. case r of
             Inl e \<Rightarrow> Some (Inl e)
           | Inr version \<Rightarrow> map_option Inr (map_of (ns_versions entry) version)))"

definition registry_get :: "string \<Rightarrow> prompt_registry \<Rightarrow> (prompts_error + registered_prompt) option" where
  "registry_get n = resolve n Latest"

definition rollback ::
  "unicode \<Rightarrow> (string \<Rightarrow> 8 word list) \<Rightarrow> string \<Rightarrow> nat \<Rightarrow> (prompt_registry, prompts_error, registered_prompt) eff" where
  "rollback u sha256 n target_version store =
     (case resolve n (Number target_version) store of
        None \<Rightarrow> None
      | Some (Inl e) \<Rightarrow> Some (Inl e, store)
      | Some (Inr target) \<Rightarrow> register u sha256 n (rp_template target) store)"

definition registry_history :: "string \<Rightarrow> prompt_registry \<Rightarrow> prompts_error + prompt_version_info list" where
  "registry_history n store =
     (case map_of store n of
        None \<Rightarrow> Inl (NamespaceNotFound n)
      | Some entry \<Rightarrow> Inr (map (\<lambda>(_, r). \<lparr>pvi_version = rp_version r, pvi_hash = rp_hash r\<rparr>) (ns_versions entry)))"

definition registry_namespaces :: "prompt_registry \<Rightarrow> string list" where
  "registry_namespaces store = map fst store"


section \<open>References\<close>

text \<open>\<open>str::rsplit_once\<close>, and \<open>str::parse::<u32>\<close>: an optional plus sign and decimal digits.\<close>

definition rsplit_once :: "char \<Rightarrow> string \<Rightarrow> (string \<times> string) option" where
  "rsplit_once c s = map_option (\<lambda>(q, p). (rev p, rev q)) (split_once c (rev s))"

definition digits_value :: "string \<Rightarrow> nat" where
  "digits_value s = foldl (\<lambda>v c. 10 * v + (of_char c - 48)) 0 s"

definition parse_u32 :: "string \<Rightarrow> nat option" where
  "parse_u32 s = (let d = (case s of c # t \<Rightarrow> if c = CHR ''+'' then t else s | [] \<Rightarrow> []) in
     if d \<noteq> [] \<and> list_all ascii_digit d \<and> digits_value d < 2 ^ 32 then Some (digits_value d) else None)"

definition is_hex_digit :: "char \<Rightarrow> bool" where
  "is_hex_digit c \<longleftrightarrow> ascii_digit c \<or> c \<in> set ''abcdefABCDEF''"

definition parse_spec :: "string \<Rightarrow> string \<Rightarrow> prompts_error + version_spec" where
  "parse_spec reference raw =
     (case parse_u32 raw of
        Some number \<Rightarrow> Inr (Number number)
      | None \<Rightarrow> (case strip_prefix raw ''hash:'' of
          Some hex \<Rightarrow> Inr (Hash hex)
        | None \<Rightarrow> if raw \<noteq> [] \<and> list_all is_hex_digit raw then Inr (Hash raw) else Inl (InvalidReference reference)))"

definition parse_reference :: "string \<Rightarrow> prompts_error + (string \<times> version_spec)" where
  "parse_reference reference =
     (case (case rsplit_once CHR ''@'' reference of
         Some (n, spec) \<Rightarrow> if n \<noteq> [] \<and> spec \<noteq> [] then Some (n, Some spec) else None
       | None \<Rightarrow> if reference \<noteq> [] then Some (reference, None) else None) of
       None \<Rightarrow> Inl (InvalidReference reference)
     | Some (n, raw_spec) \<Rightarrow>
         result_bind (validate_namespace n) (\<lambda>_.
         result_bind (case raw_spec of
             None \<Rightarrow> Inr Latest
           | Some raw \<Rightarrow> if raw = ''latest'' then Inr Latest else parse_spec reference raw) (\<lambda>spec.
         Inr (n, spec))))"

definition resolve_ref :: "string \<Rightarrow> prompt_registry \<Rightarrow> (prompts_error + registered_prompt) option" where
  "resolve_ref reference store =
     (case parse_reference reference of
        Inl e \<Rightarrow> Some (Inl e)
      | Inr (n, spec) \<Rightarrow> resolve n spec store)"

definition registry_fetch :: "unicode \<Rightarrow> string \<Rightarrow> prompt_registry \<Rightarrow> (prompts_error + prompt_template) option" where
  "registry_fetch u reference store = map_option (map_sum id (to_template u)) (resolve_ref reference store)"


section \<open>A registry holds a log of templates per namespace\<close>

type_synonym prompt_log = "string \<rightharpoonup> string list"

definition record_of :: "unicode \<Rightarrow> (string \<Rightarrow> 8 word list) \<Rightarrow> string \<Rightarrow> nat \<Rightarrow> string \<Rightarrow> registered_prompt" where
  "record_of u sha256 n v t = \<lparr>rp_namespace = n, rp_version = v, rp_hash = content_hash sha256 t, rp_template = t,
     rp_variables = variables (template_new u t)\<rparr>"

definition versions_of :: "unicode \<Rightarrow> (string \<Rightarrow> 8 word list) \<Rightarrow> string \<Rightarrow> string list \<Rightarrow> (nat \<times> registered_prompt) list" where
  "versions_of u sha256 n ts = map (\<lambda>i. (Suc i, record_of u sha256 n (Suc i) (ts ! i))) [0..<length ts]"

text \<open>The versions whose content has a given hash.\<close>

definition indices :: "(string \<Rightarrow> 8 word list) \<Rightarrow> string \<Rightarrow> string list \<Rightarrow> nat list" where
  "indices sha256 h ts = map Suc (filter (\<lambda>i. content_hash sha256 (ts ! i) = h) [0..<length ts])"

definition entry_holds :: "unicode \<Rightarrow> (string \<Rightarrow> 8 word list) \<Rightarrow> string \<Rightarrow> namespace \<Rightarrow> string list \<Rightarrow> bool" where
  "entry_holds u sha256 n e ts \<longleftrightarrow> ts \<noteq> [] \<and> ns_versions e = versions_of u sha256 n ts \<and> smap_wf (ns_hashes e) \<and>
     (\<forall>h. map_of (ns_hashes e) h = (if indices sha256 h ts = [] then None else Some (indices sha256 h ts)))"

definition registry_holds :: "unicode \<Rightarrow> (string \<Rightarrow> 8 word list) \<Rightarrow> prompt_registry \<Rightarrow> prompt_log \<Rightarrow> bool" where
  "registry_holds u sha256 store lg \<longleftrightarrow>
     (\<forall>n. rel_option (entry_holds u sha256 n) (map_of store n) (lg n))"

definition publish :: "(string \<Rightarrow> 8 word list) \<Rightarrow> string \<Rightarrow> string \<Rightarrow> prompt_log \<Rightarrow> prompt_log" where
  "publish sha256 n t lg = (case lg n of
      None \<Rightarrow> lg(n \<mapsto> [t])
    | Some ts \<Rightarrow> if content_hash sha256 (last ts) = content_hash sha256 t then lg else lg(n \<mapsto> ts @ [t]))"

lemma versions_of_snoc:
  "versions_of u sha256 n (ts @ [t]) = versions_of u sha256 n ts @ [(Suc (length ts), record_of u sha256 n (Suc (length ts)) t)]"
  by (simp add: versions_of_def nth_append)

lemma indices_snoc:
  "indices sha256 h (ts @ [t]) = indices sha256 h ts @ (if content_hash sha256 t = h then [Suc (length ts)] else [])"
  by (auto simp: indices_def nth_append intro!: filter_cong)

lemma versions_of_simps [simp]: "versions_of u sha256 n [] = []" "versions_of u sha256 n ts = [] \<longleftrightarrow> ts = []"
  "indices sha256 h [] = []"
  by (simp_all add: versions_of_def indices_def)

lemma map_of_versions:
  "map_of (versions_of u sha256 n ts) v =
     (if 1 \<le> v \<and> v \<le> length ts then Some (record_of u sha256 n v (ts ! (v - 1))) else None)"
proof (induction ts rule: rev_induct)
  case (snoc t ts)
  then show ?case
    by (auto simp: versions_of_snoc map_add_def nth_append split: option.splits)
qed simp

lemma last_versions: "ts \<noteq> [] \<Longrightarrow> last (versions_of u sha256 n ts) = (length ts, record_of u sha256 n (length ts) (last ts))"
  by (induction ts rule: rev_induct) (simp_all add: versions_of_snoc)

lemma smap_insert_greatest: "\<forall>a \<in> fst ` set m. a < k \<Longrightarrow> smap_insert k v m = m @ [(k, v)]"
  by (induction k v m rule: smap_insert.induct) auto

lemma insert_version:
  "smap_insert (Suc (length ts)) r (versions_of u sha256 n ts) = versions_of u sha256 n ts @ [(Suc (length ts), r)]"
  by (rule smap_insert_greatest) (auto simp: versions_of_def)

lemma last_indices:
  assumes "ts \<noteq> []" and "content_hash sha256 (last ts) = h"
  shows "indices sha256 h ts \<noteq> [] \<and> last (indices sha256 h ts) = length ts"
  using assms by (induction ts rule: rev_induct) (simp_all add: indices_snoc)

text \<open>Registering publishes.\<close>

lemma entry_holds_new: "entry_holds u sha256 n
    (\<lparr>ns_versions = [(1, record_of u sha256 n 1 t)], ns_hashes = [(content_hash sha256 t, [1])]\<rparr>) [t]"
  using indices_snoc [of sha256 _ "[]" t] by (auto simp: entry_holds_def versions_of_def)

lemma entry_holds_snoc:
  fixes t :: string
  assumes "entry_holds u sha256 n e ts"
  defines "h \<equiv> content_hash sha256 t"
  shows "entry_holds u sha256 n (e\<lparr>
      ns_hashes := smap_insert h ((case map_of (ns_hashes e) h of Some vs \<Rightarrow> vs | None \<Rightarrow> []) @ [Suc (length ts)]) (ns_hashes e),
      ns_versions := smap_insert (Suc (length ts)) (record_of u sha256 n (Suc (length ts)) t) (ns_versions e)\<rparr>) (ts @ [t])"
  using assms by (auto simp: entry_holds_def versions_of_snoc insert_version indices_snoc smap_wf_insert)

text \<open>No namespace has more than \<open>k\<close> versions.\<close>

definition log_within :: "nat \<Rightarrow> prompt_log \<Rightarrow> bool" where
  "log_within k lg \<longleftrightarrow> (\<forall>n ts. lg n = Some ts \<longrightarrow> length ts \<le> k)"

lemma publish_within: "log_within k lg \<Longrightarrow> log_within (Suc k) (publish sha256 n t lg)"
  by (auto simp: log_within_def publish_def le_SucI split: option.splits)

lemma register_publishes:
  fixes t :: string
  assumes "registry_holds u sha256 store lg" and "validate_namespace n = Inr ()"
    and room: "log_within k lg" "Suc k < 2 ^ 32"
  defines "lg' \<equiv> publish sha256 n t lg"
  shows "\<exists>store' ts. register u sha256 n t store = Some (Inr (record_of u sha256 n (length ts) (last ts)), store')
    \<and> registry_holds u sha256 store' lg' \<and> lg' n = Some ts \<and> content_hash sha256 (last ts) = content_hash sha256 t"
proof (cases "lg n")
  case None
  then have "map_of store n = None" using assms(1) unfolding registry_holds_def by (metis option.rel_distinct(2) option.exhaust)
  then have "register u sha256 n t store = Some (Inr (record_of u sha256 n 1 t), smap_insert n
      (\<lparr>ns_versions = [(1, record_of u sha256 n 1 t)], ns_hashes = [(content_hash sha256 t, [1])]\<rparr>) store)"
    using assms(2) by (simp add: register_def last_key_value_def empty_namespace_def record_of_def Let_def)
  moreover have "registry_holds u sha256 (smap_insert n
      (\<lparr>ns_versions = [(1, record_of u sha256 n 1 t)], ns_hashes = [(content_hash sha256 t, [1])]\<rparr>) store) lg'"
    using assms(1) None entry_holds_new [of u sha256 n t] by (simp add: registry_holds_def lg'_def publish_def)
  moreover have "lg' n = Some [t]" using None by (simp add: lg'_def publish_def)
  ultimately show ?thesis by (intro exI [of _ "[t]"] exI) auto
next
  case (Some ts)
  then obtain e where e: "map_of store n = Some e" "entry_holds u sha256 n e ts"
    using assms(1) unfolding registry_holds_def by (metis option_rel_Some2)
  then have ts: "ts \<noteq> []" and last: "last_key_value (ns_versions e) = Some (length ts, record_of u sha256 n (length ts) (last ts))"
    by (simp_all add: entry_holds_def last_key_value_def last_versions)
  show ?thesis
  proof (cases "content_hash sha256 (last ts) = content_hash sha256 t")
    case True
    moreover have "registry_holds u sha256 (smap_insert n e store) lg"
      using assms(1) e Some by (simp add: registry_holds_def)
    ultimately show ?thesis
      using assms(2) e(1) last Some by (simp add: register_def record_of_def lg'_def publish_def Let_def)
  next
    case False
    let ?e = "e\<lparr>ns_hashes := smap_insert (content_hash sha256 t)
        ((case map_of (ns_hashes e) (content_hash sha256 t) of Some vs \<Rightarrow> vs | None \<Rightarrow> []) @ [Suc (length ts)]) (ns_hashes e),
      ns_versions := smap_insert (Suc (length ts)) (record_of u sha256 n (Suc (length ts)) t) (ns_versions e)\<rparr>"
    have "u32 (Suc (length ts)) = Suc (length ts)"
      using room Some by (intro u32_small) (auto simp: log_within_def intro: le_less_trans)
    then have "register u sha256 n t store = Some (Inr (record_of u sha256 n (Suc (length ts)) t), smap_insert n ?e store)"
      using assms(2) e(1) last False by (simp add: register_def record_of_def Let_def)
    moreover have "registry_holds u sha256 (smap_insert n ?e store) lg'"
      using assms(1) Some False entry_holds_snoc [OF e(2)] by (simp add: registry_holds_def lg'_def publish_def)
    moreover have "lg' n = Some (ts @ [t])" using Some False by (simp add: lg'_def publish_def)
    ultimately show ?thesis by (intro exI [of _ "ts @ [t]"] exI) auto
  qed
qed


section \<open>What is resolved\<close>

lemma holds_entry:
  assumes "registry_holds u sha256 store lg" and "lg n = Some ts"
  obtains e where "map_of store n = Some e" "entry_holds u sha256 n e ts"
  using assms unfolding registry_holds_def by (metis option_rel_Some2)

lemma resolve_latest:
  assumes "registry_holds u sha256 store lg" and "lg n = Some ts"
  shows "resolve n Latest store = Some (Inr (record_of u sha256 n (length ts) (last ts)))"
proof -
  obtain e where e: "map_of store n = Some e" "entry_holds u sha256 n e ts" using holds_entry [OF assms] .
  then have "ts \<noteq> []" "ns_versions e = versions_of u sha256 n ts" by (simp_all add: entry_holds_def)
  moreover have "last ts = ts ! (length ts - 1)" using calculation(1) by (rule last_conv_nth)
  ultimately show ?thesis using e(1)
    by (simp add: resolve_def last_key_value_def last_versions map_of_versions Suc_le_eq)
qed

lemma contains_version: "contains_key (versions_of u sha256 n ts) v \<longleftrightarrow> 1 \<le> v \<and> v \<le> length ts"
  using map_of_eq_None_iff [of "versions_of u sha256 n ts" v]
  by (auto simp: contains_key_def map_of_versions split: if_splits)

lemma resolve_number:
  assumes "registry_holds u sha256 store lg" and "lg n = Some ts"
  shows "resolve n (Number v) store = Some (if 1 \<le> v \<and> v \<le> length ts then Inr (record_of u sha256 n v (ts ! (v - 1)))
    else Inl (VersionNotFound n v))"
proof -
  obtain e where e: "map_of store n = Some e" "entry_holds u sha256 n e ts" using holds_entry [OF assms] .
  then have "ns_versions e = versions_of u sha256 n ts" by (simp add: entry_holds_def)
  then show ?thesis using e(1) by (simp add: resolve_def map_of_versions contains_version)
qed

lemma resolve_unknown:
  assumes "registry_holds u sha256 store lg" and "lg n = None"
  shows "resolve n spec store = Some (Inl (NamespaceNotFound n))"
proof -
  have "map_of store n = None" using assms unfolding registry_holds_def by (metis option.rel_distinct(2) option.exhaust)
  then show ?thesis by (simp add: resolve_def)
qed

lemma newest_matches_indices:
  assumes "entry_holds u sha256 n e ts"
  shows "newest_matches P (ns_hashes e) = Some (map (\<lambda>h. last (indices sha256 h ts)) (filter P (map fst (ns_hashes e))))"
proof -
  have entry: "vs = indices sha256 h ts \<and> vs \<noteq> []" if "(h, vs) \<in> set (ns_hashes e)" for h vs
  proof -
    have "map_of (ns_hashes e) h = Some vs"
      using assms that unfolding entry_holds_def by (intro map_of_is_SomeI) (simp_all add: smap_wf_distinct)
    then show ?thesis using assms by (auto simp: entry_holds_def split: if_splits)
  qed
  have "map (\<lambda>x. last (snd x)) (filter (\<lambda>x. P (fst x)) (ns_hashes e)) =
      map (\<lambda>h. last (indices sha256 h ts)) (filter P (map fst (ns_hashes e)))"
    using entry by (auto simp: filter_map comp_def)
  moreover have "\<not> (\<exists>x \<in> set (filter (\<lambda>x. P (fst x)) (ns_hashes e)). snd x = [])"
    using entry by fastforce
  ultimately show ?thesis by (simp add: newest_matches_def Let_def)
qed

lemma indices_empty: "indices sha256 h ts = [] \<longleftrightarrow> h \<notin> content_hash sha256 ` set ts"
  by (induction ts rule: rev_induct) (auto simp: indices_snoc)

lemma hash_keys:
  assumes "entry_holds u sha256 n e ts"
  shows "h \<in> set (map fst (ns_hashes e)) \<longleftrightarrow> h \<in> content_hash sha256 ` set ts"
    and "distinct (map fst (ns_hashes e))"
proof -
  have "h \<in> set (map fst (ns_hashes e)) \<longleftrightarrow> map_of (ns_hashes e) h \<noteq> None"
    by (simp add: map_of_eq_None_iff)
  also have "\<dots> \<longleftrightarrow> indices sha256 h ts \<noteq> []" using assms by (simp add: entry_holds_def)
  also have "\<dots> \<longleftrightarrow> h \<in> content_hash sha256 ` set ts"
    by (simp add: indices_empty)
  finally show "h \<in> set (map fst (ns_hashes e)) \<longleftrightarrow> h \<in> content_hash sha256 ` set ts" .
  show "distinct (map fst (ns_hashes e))" using assms by (simp add: entry_holds_def smap_wf_distinct)
qed

lemma le_last_sorted: "sorted xs \<Longrightarrow> x \<in> set xs \<Longrightarrow> x \<le> last (xs :: nat list)"
  by (induction xs) auto

lemma last_index:
  assumes "h \<in> content_hash sha256 ` set ts"
  defines "v \<equiv> last (indices sha256 h ts)"
  shows "1 \<le> v" "v \<le> length ts" "content_hash sha256 (ts ! (v - 1)) = h"
    "\<And>w. v < w \<Longrightarrow> w \<le> length ts \<Longrightarrow> content_hash sha256 (ts ! (w - 1)) \<noteq> h"
proof -
  let ?is = "filter (\<lambda>i. content_hash sha256 (ts ! i) = h) [0..<length ts]"
  have ne: "?is \<noteq> []" using assms(1) indices_empty [of sha256 h ts] by (auto simp: indices_def)
  then have v: "v = Suc (last ?is)" by (simp add: v_def indices_def last_map)
  have "last ?is \<in> set ?is" using ne by (rule last_in_set)
  then show "1 \<le> v" "v \<le> length ts" "content_hash sha256 (ts ! (v - 1)) = h" using v by auto
  have sorted: "sorted ?is" by (simp add: sorted_wrt_filter)
  show "content_hash sha256 (ts ! (w - 1)) \<noteq> h" if "v < w" "w \<le> length ts" for w
  proof
    assume "content_hash sha256 (ts ! (w - 1)) = h"
    then have "w - 1 \<in> set ?is" using that by auto
    then have "w - 1 \<le> last ?is" using sorted by (rule le_last_sorted [rotated])
    then show False using v that by simp
  qed
qed


text \<open>A selector by hash finds the newest version of the one content it matches.\<close>

lemma resolve_hash_entry:
  assumes "entry_holds u sha256 n e ts" and "resolve_hash_version e p = Some (Inr v)"
  shows "\<exists>h \<in> content_hash sha256 ` set ts. starts_with h p \<and> v = last (indices sha256 h ts) \<and>
    (h \<noteq> p \<longrightarrow> (\<forall>k \<in> content_hash sha256 ` set ts. starts_with k p \<longrightarrow> k = h))"
proof -
  let ?hs = "map fst (ns_hashes e)"
  let ?exact = "filter (\<lambda>h. h = p) ?hs" and ?other = "filter (\<lambda>h. h \<noteq> p \<and> starts_with h p) ?hs"
  have mem: "h \<in> set ?hs \<longleftrightarrow> h \<in> content_hash sha256 ` set ts" for h using hash_keys(1) [OF assms(1)] .
  show ?thesis
  proof (cases "?exact = []")
    case False
    then have v: "v = last (indices sha256 (last ?exact) ts)"
      using assms by (simp add: resolve_hash_version_def newest_matches_indices [OF assms(1)] last_map split: if_splits)
    define x where "x = last ?exact"
    have "x \<in> set ?exact" unfolding x_def using False by (rule last_in_set)
    then have "x = p" "x \<in> set ?hs" by auto
    then show ?thesis using mem v [folded x_def] by (intro bexI [of _ p]) (simp_all add: starts_with_def)
  next
    case True
    then obtain h where h: "?other = [h]" "v = last (indices sha256 h ts)"
      using assms(2) by (auto simp: resolve_hash_version_def newest_matches_indices [OF assms(1)]
          split: if_splits list.splits)
    have "k = h" if "k \<in> set ?hs" "starts_with k p" for k
    proof -
      have "k \<in> set ?other" using that True by (auto simp: filter_empty_conv)
      then show ?thesis unfolding h(1) by simp
    qed
    moreover have "h \<in> set ?other" unfolding h(1) by simp
    ultimately show ?thesis using h(2) mem by auto
  qed
qed

lemma resolve_hash:
  assumes "registry_holds u sha256 store lg" and "lg n = Some ts" and "resolve n (Hash p) store = Some (Inr q)"
  shows "\<exists>h \<in> content_hash sha256 ` set ts. let v = last (indices sha256 h ts) in
    starts_with h p \<and> q = record_of u sha256 n v (ts ! (v - 1)) \<and> rp_hash q = h \<and>
    (h \<noteq> p \<longrightarrow> (\<forall>k \<in> content_hash sha256 ` set ts. starts_with k p \<longrightarrow> k = h))"
proof -
  obtain e where e: "map_of store n = Some e" "entry_holds u sha256 n e ts" using holds_entry [OF assms(1,2)] .
  then obtain v where v: "resolve_hash_version e p = Some (Inr v)" "map_of (ns_versions e) v = Some q"
    using assms(3) by (auto simp: resolve_def split: bind_splits sum.splits)
  obtain h where h: "h \<in> content_hash sha256 ` set ts" "starts_with h p" "v = last (indices sha256 h ts)"
      "h \<noteq> p \<longrightarrow> (\<forall>k \<in> content_hash sha256 ` set ts. starts_with k p \<longrightarrow> k = h)"
    using resolve_hash_entry [OF e(2) v(1)] by blast
  have "ns_versions e = versions_of u sha256 n ts" using e(2) by (simp add: entry_holds_def)
  then have "q = record_of u sha256 n v (ts ! (v - 1))" using v(2) by (simp add: map_of_versions split: if_splits)
  moreover have "content_hash sha256 (ts ! (v - 1)) = h" using last_index(3) [OF h(1)] h(3) by simp
  ultimately show ?thesis using h by (intro bexI [of _ h]) (simp_all add: record_of_def Let_def)
qed

lemma resolve_full_hash:
  assumes "registry_holds u sha256 store lg" and "lg n = Some ts" and "h \<in> content_hash sha256 ` set ts"
    and "MIN_HASH_PREFIX \<le> length h"
  defines "v \<equiv> last (indices sha256 h ts)"
  shows "resolve n (Hash h) store = Some (Inr (record_of u sha256 n v (ts ! (v - 1))))"
proof -
  obtain e where e: "map_of store n = Some e" "entry_holds u sha256 n e ts" using holds_entry [OF assms(1,2)] .
  let ?exact = "filter (\<lambda>k. k = h) (map fst (ns_hashes e))"
  have "h \<in> set ?exact" using assms(3) hash_keys(1) [OF e(2)] by auto
  then have ne: "?exact \<noteq> []" by (metis length_greater_0_conv length_pos_if_in_set)
  then have "last ?exact \<in> set ?exact" by (rule last_in_set)
  then have "last ?exact = h" by simp
  then have "resolve_hash_version e h = Some (Inr v)"
    using ne assms(4) by (simp add: resolve_hash_version_def newest_matches_indices [OF e(2)] last_map v_def)
  moreover have "ns_versions e = versions_of u sha256 n ts" using e(2) by (simp add: entry_holds_def)
  ultimately show ?thesis
    using e(1) last_index(1,2) [OF assms(3)] by (simp add: resolve_def map_of_versions v_def)
qed


section \<open>Histories of a registry\<close>

inductive registry_step :: "unicode \<Rightarrow> (string \<Rightarrow> 8 word list) \<Rightarrow> prompt_registry \<Rightarrow> prompt_registry \<Rightarrow> bool" for u sha256 where
  step_register: "register u sha256 n t store = Some (r, store') \<Longrightarrow> registry_step u sha256 store store'"
| step_rollback: "rollback u sha256 n v store = Some (r, store') \<Longrightarrow> registry_step u sha256 store store'"

text \<open>\<open>k\<close> registrations and rollbacks.\<close>

abbreviation registry_run :: "unicode \<Rightarrow> (string \<Rightarrow> 8 word list) \<Rightarrow> nat \<Rightarrow> prompt_registry \<Rightarrow> prompt_registry \<Rightarrow> bool" where
  "registry_run u sha256 k \<equiv> registry_step u sha256 ^^ k"

definition log_ok :: "(string \<Rightarrow> 8 word list) \<Rightarrow> prompt_log \<Rightarrow> bool" where
  "log_ok sha256 lg \<longleftrightarrow> (\<forall>n ts. lg n = Some ts \<longrightarrow> validate_namespace n = Inr () \<and>
     (\<forall>i. Suc i < length ts \<longrightarrow> content_hash sha256 (ts ! i) \<noteq> content_hash sha256 (ts ! Suc i)))"

definition log_extends :: "prompt_log \<Rightarrow> prompt_log \<Rightarrow> bool" where
  "log_extends lg lg' \<longleftrightarrow> (\<forall>n ts. lg n = Some ts \<longrightarrow> (\<exists>more. lg' n = Some (ts @ more)))"

lemma log_extends_refl: "log_extends lg lg"
  by (simp add: log_extends_def)

lemma log_extends_trans: "log_extends a b \<Longrightarrow> log_extends b c \<Longrightarrow> log_extends a c"
  unfolding log_extends_def by (metis append.assoc)

lemma publish_extends: "log_extends lg (publish sha256 n t lg)"
  by (auto simp: log_extends_def publish_def split: option.splits)

lemma publish_ok:
  assumes "log_ok sha256 lg" and "validate_namespace n = Inr ()"
  shows "log_ok sha256 (publish sha256 n t lg)"
proof -
  have "content_hash sha256 ((ts @ [t]) ! i) \<noteq> content_hash sha256 ((ts @ [t]) ! Suc i)"
    if "lg n = Some ts" "content_hash sha256 (last ts) \<noteq> content_hash sha256 t" "Suc i < length (ts @ [t])" for ts i
  proof (cases "Suc i < length ts")
    case True
    then show ?thesis using assms(1) that(1) by (simp add: log_ok_def nth_append)
  next
    case False
    then have "i = length ts - 1" "ts \<noteq> []" using that(3) by auto
    then show ?thesis using that(2) by (simp add: nth_append last_conv_nth)
  qed
  then show ?thesis using assms by (auto simp: log_ok_def publish_def split: option.splits)
qed

lemma step_publishes:
  assumes "registry_step u sha256 store store'" and "registry_holds u sha256 store lg" and "log_ok sha256 lg"
    and room: "log_within k lg" "Suc k < 2 ^ 32"
  shows "\<exists>lg'. registry_holds u sha256 store' lg' \<and> log_ok sha256 lg' \<and> log_extends lg lg' \<and> log_within (Suc k) lg'"
proof -
  have same: "log_within (Suc k) lg" using room(1) by (auto simp: log_within_def le_SucI)
  have reg: ?thesis if "register u sha256 n t store = Some (r, store')" for n t r
  proof (cases "validate_namespace n")
    case (Inl e)
    then show ?thesis using that assms(2,3) same by (auto simp: register_def log_extends_refl)
  next
    case (Inr x)
    then have "validate_namespace n = Inr ()" by simp
    then show ?thesis
      using register_publishes [OF assms(2) _ room, of n t] publish_ok [OF assms(3)] publish_extends publish_within [OF room(1)] that
      by fastforce
  qed
  from assms(1) show ?thesis
  proof cases
    case (step_rollback n v r)
    then show ?thesis
      using reg assms(2,3) log_extends_refl same by (auto simp: rollback_def split: option.splits sum.splits)
  qed (rule reg)
qed

lemma run_publishes:
  assumes "registry_run u sha256 k store store'" and "registry_holds u sha256 store lg" and "log_ok sha256 lg"
    and "log_within j lg" and "j + k < 2 ^ 32"
  shows "\<exists>lg'. registry_holds u sha256 store' lg' \<and> log_ok sha256 lg' \<and> log_extends lg lg' \<and> log_within (j + k) lg'"
  using assms(1,5)
proof (induction k arbitrary: store')
  case 0
  then show ?case using assms(2-4) log_extends_refl by auto
next
  case (Suc k)
  obtain a where a: "registry_run u sha256 k store a" "registry_step u sha256 a store'"
    using Suc.prems(1) by (rule relpowp_Suc_E)
  have room: "Suc (j + k) < 2 ^ 32" using Suc.prems(2) by (simp only: add_Suc_right)
  then obtain lg1 where lg1: "registry_holds u sha256 a lg1" "log_ok sha256 lg1" "log_extends lg lg1" "log_within (j + k) lg1"
    using Suc.IH [OF a(1)] Suc_lessD by blast
  from step_publishes [OF a(2) lg1(1,2,4) room] log_extends_trans [OF lg1(3)] show ?case
    unfolding add_Suc_right by blast
qed

lemma registry_holds_empty: "registry_holds u sha256 [] (\<lambda>_. None)" "log_ok sha256 (\<lambda>_. None)" "log_within 0 (\<lambda>_. None)"
  by (simp_all add: registry_holds_def log_ok_def log_within_def)

lemma length_content_hash: "length (content_hash sha256 t) = 2 * length (sha256 t)"
  by (simp add: content_hash_def length_concat comp_def hex2_def sum_list_triv)

lemma register_roundtrip:
  assumes holds: "registry_holds u sha256 store lg" and n: "validate_namespace n = Inr ()" and len: "length (sha256 t) = 32"
    and room: "log_within k lg" "Suc k < 2 ^ 32"
  shows "\<exists>q store'. register u sha256 n t store = Some (Inr q, store') \<and> rp_hash q = content_hash sha256 t
    \<and> registry_get n store' = Some (Inr q) \<and> resolve n (Number (rp_version q)) store' = Some (Inr q)
    \<and> resolve n (Hash (rp_hash q)) store' = Some (Inr q)"
proof -
  obtain store' ts where r: "register u sha256 n t store = Some (Inr (record_of u sha256 n (length ts) (last ts)), store')"
      "registry_holds u sha256 store' (publish sha256 n t lg)" "publish sha256 n t lg n = Some ts"
      "content_hash sha256 (last ts) = content_hash sha256 t"
    using register_publishes [OF holds n room] by blast
  then obtain e where "entry_holds u sha256 n e ts" using holds_entry by blast
  then have ts: "ts \<noteq> []" by (simp add: entry_holds_def)
  have "content_hash sha256 t \<in> content_hash sha256 ` set ts" using r(4) ts by (metis image_eqI last_in_set)
  moreover have "last (indices sha256 (content_hash sha256 t) ts) = length ts" using last_indices [OF ts r(4)] by simp
  ultimately have "resolve n (Hash (content_hash sha256 t)) store' = Some (Inr (record_of u sha256 n (length ts) (ts ! (length ts - 1))))"
    using resolve_full_hash [OF r(2,3), of "content_hash sha256 t"] len by (simp add: MIN_HASH_PREFIX_def length_content_hash)
  moreover have "ts ! (length ts - 1) = last ts" using ts by (simp add: last_conv_nth)
  moreover have "1 \<le> length ts" using ts by (simp add: Suc_le_eq)
  ultimately show ?thesis
    using r resolve_latest [OF r(2,3)] resolve_number [OF r(2,3), of "length ts"]
    by (simp add: registry_get_def record_of_def)
qed

lemma resolve_number_log:
  assumes "registry_holds u sha256 store lg" and "resolve n (Number v) store = Some (Inr q)"
  obtains ts where "lg n = Some ts" "1 \<le> v" "v \<le> length ts" "q = record_of u sha256 n v (ts ! (v - 1))"
proof (cases "lg n")
  case None
  then show ?thesis using resolve_unknown [OF assms(1) None] assms(2) by simp
next
  case (Some ts)
  then show ?thesis using that resolve_number [OF assms(1) Some, of v] assms(2) by (auto split: if_splits)
qed

lemma version_kept:
  assumes lg: "registry_holds u sha256 store lg" "log_ok sha256 lg"
    and res: "resolve n (Number v) store = Some (Inr q)" and run: "registry_run u sha256 j store later"
    and room: "log_within k lg" "k + j < 2 ^ 32"
  shows "resolve n (Number v) later = Some (Inr q)"
proof -
  obtain ts where ts: "lg n = Some ts" "1 \<le> v" "v \<le> length ts" "q = record_of u sha256 n v (ts ! (v - 1))"
    using resolve_number_log [OF lg(1) res] .
  obtain lg' where lg': "registry_holds u sha256 later lg'" "log_extends lg lg'"
    using run_publishes [OF run lg room] by blast
  then obtain more where "lg' n = Some (ts @ more)" using ts(1) unfolding log_extends_def by blast
  then show ?thesis using resolve_number [OF lg'(1)] ts(2-4) by (simp add: nth_append)
qed

lemma rollback_republishes:
  assumes lg: "registry_holds u sha256 store lg" "log_ok sha256 lg" and len: "\<And>t. length (sha256 t) = 32"
    and res: "resolve n (Number v) store = Some (Inr q)" and room: "log_within k lg" "Suc k < 2 ^ 32"
  shows "\<exists>p store'. rollback u sha256 n v store = Some (Inr p, store') \<and> rp_hash p = rp_hash q
    \<and> registry_get n store' = Some (Inr p)"
proof -
  obtain ts where ts: "lg n = Some ts" "q = record_of u sha256 n v (ts ! (v - 1))"
    using resolve_number_log [OF lg(1) res] .
  then have "validate_namespace n = Inr ()" using lg(2) by (simp add: log_ok_def)
  then show ?thesis
    using register_roundtrip [OF lg(1) _ len room, of n "rp_template q"] res ts(2)
    by (auto simp: rollback_def record_of_def)
qed

lemma history_numbered:
  assumes lg: "registry_holds u sha256 store lg" "log_ok sha256 lg" and hist: "registry_history n store = Inr infos"
  shows "map pvi_version infos = [1..<Suc (length infos)] \<and>
    (\<forall>i. Suc i < length infos \<longrightarrow> pvi_hash (infos ! i) \<noteq> pvi_hash (infos ! Suc i))"
proof -
  obtain e where e: "map_of store n = Some e" using hist by (auto simp: registry_history_def split: option.splits)
  then obtain ts where ts: "lg n = Some ts" "entry_holds u sha256 n e ts"
    using lg(1) unfolding registry_holds_def by (metis option_rel_Some1)
  then have infos: "infos = map (\<lambda>i. \<lparr>pvi_version = Suc i, pvi_hash = content_hash sha256 (ts ! i)\<rparr>) [0..<length ts]"
    using hist e by (auto simp: registry_history_def entry_holds_def versions_of_def record_of_def)
  have "map pvi_version infos = map Suc [0..<length infos]" by (simp add: infos comp_def)
  then have "map pvi_version infos = [1..<Suc (length infos)]" by (simp only: map_Suc_upt One_nat_def)
  moreover have "content_hash sha256 (ts ! i) \<noteq> content_hash sha256 (ts ! Suc i)" if "Suc i < length ts" for i
    using lg(2) ts(1) that by (simp add: log_ok_def)
  ultimately show ?thesis by (auto simp: infos)
qed

lemma prefix_unambiguous:
  assumes lg: "registry_holds u sha256 store lg"
    and q: "resolve n (Hash p) store = Some (Inr q)" and r: "resolve n (Number w) store = Some (Inr r)"
  shows "starts_with (rp_hash q) p \<and> (rp_hash r = rp_hash q \<longrightarrow> w \<le> rp_version q)
    \<and> (rp_hash q \<noteq> p \<and> starts_with (rp_hash r) p \<longrightarrow> rp_hash r = rp_hash q)"
proof -
  obtain ts where ts: "lg n = Some ts" "1 \<le> w" "w \<le> length ts" "r = record_of u sha256 n w (ts ! (w - 1))"
    using resolve_number_log [OF lg(1) r] .
  obtain h where h: "h \<in> content_hash sha256 ` set ts" "starts_with h p" "rp_hash q = h"
      "q = record_of u sha256 n (last (indices sha256 h ts)) (ts ! (last (indices sha256 h ts) - 1))"
      "h \<noteq> p \<longrightarrow> (\<forall>k \<in> content_hash sha256 ` set ts. starts_with k p \<longrightarrow> k = h)"
    using resolve_hash [OF lg(1) ts(1) q] by (auto simp: Let_def)
  have "rp_hash r = content_hash sha256 (ts ! (w - 1))" "ts ! (w - 1) \<in> set ts"
    using ts by (simp_all add: record_of_def)
  then show ?thesis
    using h last_index(4) [OF h(1), of w] ts(3) by (auto simp: record_of_def not_less [symmetric])
qed

lemma register_wraps:
  assumes "validate_namespace n = Inr ()" and "map_of store n = Some e"
    and "last_key_value (ns_versions e) = Some (2 ^ 32 - 1, latest)" and "rp_hash latest \<noteq> content_hash sha256 t"
  shows "\<exists>q store'. register u sha256 n t store = Some (Inr q, store') \<and> rp_version q = 0"
  using assms by (simp add: register_def Let_def u32_def)

text \<open>
  C22. In every registry that at most \<open>2 ^ 32 - 2\<close> registrations and rollbacks produce (version numbers
  are 32-bit and wrap after that, see \<open>register_wraps\<close>): (1) what is registered is what every
  selector then finds: the latest version, its number and its hash; (2) a version never changes
  afterwards, whatever is registered or rolled back within that number of calls; (3) a rollback publishes the old content as the
  latest version; (4) the versions of a namespace are numbered from 1 and no version repeats the
  content of the one before; (5) a hash prefix resolves only to content it matches, uniquely unless
  it is the whole hash, and to its newest version.
\<close>

theorem registered_versions_are_permanent:
  assumes "\<And>t. length (sha256 t) = 32" and "registry_run u sha256 k [] store" and "Suc k < 2 ^ 32"
  shows "(validate_namespace n = Inr () \<longrightarrow>
      (\<exists>q store'. register u sha256 n t store = Some (Inr q, store') \<and> rp_hash q = content_hash sha256 t
        \<and> registry_get n store' = Some (Inr q) \<and> resolve n (Number (rp_version q)) store' = Some (Inr q)
        \<and> resolve n (Hash (rp_hash q)) store' = Some (Inr q)))
    \<and> (resolve n (Number v) store = Some (Inr q) \<and> registry_run u sha256 j store later \<and> k + j < 2 ^ 32 \<longrightarrow>
        resolve n (Number v) later = Some (Inr q))
    \<and> (resolve n (Number v) store = Some (Inr q) \<longrightarrow>
        (\<exists>p store'. rollback u sha256 n v store = Some (Inr p, store') \<and> rp_hash p = rp_hash q
          \<and> registry_get n store' = Some (Inr p)))
    \<and> (registry_history n store = Inr infos \<longrightarrow> map pvi_version infos = [1..<Suc (length infos)]
        \<and> (\<forall>i. Suc i < length infos \<longrightarrow> pvi_hash (infos ! i) \<noteq> pvi_hash (infos ! Suc i)))
    \<and> (resolve n (Hash p) store = Some (Inr q) \<and> resolve n (Number w) store = Some (Inr r) \<longrightarrow>
        starts_with (rp_hash q) p
        \<and> (rp_hash r = rp_hash q \<longrightarrow> w \<le> rp_version q)
        \<and> (rp_hash q \<noteq> p \<and> starts_with (rp_hash r) p \<longrightarrow> rp_hash r = rp_hash q))"
proof -
  obtain lg where lg: "registry_holds u sha256 store lg" "log_ok sha256 lg" and within: "log_within k lg"
    using run_publishes [OF assms(2) registry_holds_empty] Suc_lessD [OF assms(3)] by auto
  show ?thesis
    using register_roundtrip [OF lg(1) _ assms(1) within assms(3)] version_kept [OF lg _ _ within]
      rollback_republishes [OF lg assms(1) _ within assms(3)] history_numbered [OF lg] prefix_unambiguous [OF lg(1)]
    by blast
qed

text \<open>Two versions, and the first one again: a stand-in for the digest pads the text to 32 bytes.\<close>

definition padded :: "string \<Rightarrow> 8 word list" where
  "padded t = take 32 (map (\<lambda>c. of_nat (of_char c)) t @ replicate 32 0)"

definition demo_registry :: prompt_registry where
  "demo_registry = (case eff_bind (register ascii_only padded ''g'' ''Hi'') (\<lambda>_. register ascii_only padded ''g'' ''Yo'') [] of
      Some (_, store) \<Rightarrow> store
    | None \<Rightarrow> [])"

theorem registered_versions_are_permanent_witness:
  "\<exists>q p later. resolve ''g'' (Number 1) demo_registry = Some (Inr q) \<and> rp_template q = ''Hi''
    \<and> rollback ascii_only padded ''g'' 1 demo_registry = Some (Inr p, later) \<and> rp_hash p = rp_hash q
    \<and> resolve ''g'' (Number 1) later = Some (Inr q) \<and> registry_get ''g'' later = Some (Inr p)"
proof -
  have len: "length (padded t) = 32" for t by (simp add: padded_def)
  obtain r1 s1 where s1: "register ascii_only padded ''g'' ''Hi'' [] = Some (r1, s1)"
    "register ascii_only padded ''g'' ''Yo'' s1 \<noteq> None"
    "snd (the (register ascii_only padded ''g'' ''Yo'' s1)) = demo_registry"
  proof -
    have "register ascii_only padded ''g'' ''Hi'' [] \<noteq> None"
      "(case register ascii_only padded ''g'' ''Hi'' [] of Some (r1, s1) \<Rightarrow>
          register ascii_only padded ''g'' ''Yo'' s1 \<noteq> None
          \<and> snd (the (register ascii_only padded ''g'' ''Yo'' s1)) = demo_registry | None \<Rightarrow> False)"
      by code_simp+
    then show thesis using that by (auto split: option.splits)
  qed
  then have "registry_step ascii_only padded [] s1" "registry_step ascii_only padded s1 demo_registry"
    by (auto intro: step_register)
  then have run: "registry_run ascii_only padded 2 [] demo_registry"
    by (auto simp: numeral_2_eq_2 intro!: relcomppI)
  have room: "Suc 2 < 2 ^ 32" by simp
  have "resolve ''g'' (Number 1) demo_registry \<noteq> None"
    "(case resolve ''g'' (Number 1) demo_registry of Some (Inr q) \<Rightarrow> rp_template q = ''Hi'' | _ \<Rightarrow> False)"
    by code_simp+
  then obtain q where q: "resolve ''g'' (Number 1) demo_registry = Some (Inr q)" "rp_template q = ''Hi''"
    by (auto split: option.splits sum.splits)
  then obtain p later where p: "rollback ascii_only padded ''g'' 1 demo_registry = Some (Inr p, later)" "rp_hash p = rp_hash q"
      "registry_get ''g'' later = Some (Inr p)"
    using registered_versions_are_permanent [OF len run room, of "''g''" _ 1 q] by blast
  then have "registry_run ascii_only padded 1 demo_registry later" by (auto intro: step_rollback)
  then have "resolve ''g'' (Number 1) later = Some (Inr q)"
    using registered_versions_are_permanent [OF len run room, of "''g''" _ 1 q 1 later] q(1) by simp
  then show ?thesis using q p by blast
qed

end
