(* ===== verification/Prompt_Compose.thy ===== *)
theory Prompt_Compose
  imports Prompt_Template Schema_Message
begin

text \<open>
  What \<open>lc-prompts\<close> builds from templates: the cache of templates (\<open>prompt_template.rs\<close>), chat
  templates (\<open>chat_prompt_template.rs\<close>), few-shot prompts (\<open>few_shot.rs\<close>) and the comparison of two
  versions of a template (\<open>template_diff.rs\<close>). Formatting counts the renders of the template it uses,
  so it passes the template along.
\<close>

section \<open>Template cache\<close>

text \<open>
  Templates live behind \<open>Arc\<close>s: the cache maps a source to a handle, \<open>objects\<close> are the templates.
\<close>

record template_cache =
  tc_inner :: "nat smap"
  tc_objects :: "prompt_template list"

definition cache_new :: template_cache where
  "cache_new = \<lparr>tc_inner = [], tc_objects = []\<rparr>"

definition get_or_insert :: "unicode \<Rightarrow> string \<Rightarrow> template_cache \<Rightarrow> nat \<times> template_cache" where
  "get_or_insert u template c = (case map_of (tc_inner c) template of
      Some h \<Rightarrow> (h, c)
    | None \<Rightarrow> (length (tc_objects c), c\<lparr>tc_inner := smap_insert template (length (tc_objects c)) (tc_inner c),
        tc_objects := tc_objects c @ [template_new u template]\<rparr>))"

definition cache_len :: "template_cache \<Rightarrow> nat" where
  "cache_len c = length (tc_inner c)"

definition cache_clear :: "template_cache \<Rightarrow> template_cache" where
  "cache_clear c = c\<lparr>tc_inner := []\<rparr>"


section \<open>Chat templates\<close>

definition chat_role_name :: "message_type \<Rightarrow> string" where
  "chat_role_name t = (case t of System \<Rightarrow> ''System'' | Human \<Rightarrow> ''Human'' | AI \<Rightarrow> ''AI'' | Tool _ \<Rightarrow> ''Tool'')"

record chat_prompt_template =
  ct_messages :: "message list"
  ct_segments :: "template_segment list list"

definition chat_template_new :: "unicode \<Rightarrow> message list \<Rightarrow> chat_prompt_template" where
  "chat_template_new u ms = \<lparr>ct_messages = ms, ct_segments = map (\<lambda>m. parse_template u (msg_content m)) ms\<rparr>"

fun format_messages :: "string smap \<Rightarrow> nat \<Rightarrow> (message \<times> template_segment list) list \<Rightarrow> prompts_error + message list" where
  "format_messages vars i [] = Inr []"
| "format_messages vars i ((m, segments) # rest) = (case format_segments vars segments of
      Inl source \<Rightarrow> Inl (MessageFormat i (chat_role_name (msg_type m)) source)
    | Inr content \<Rightarrow> result_bind (format_messages vars (Suc i) rest) (\<lambda>ms. Inr (m\<lparr>msg_content := content\<rparr> # ms)))"

definition chat_format :: "string smap \<Rightarrow> chat_prompt_template \<Rightarrow> prompts_error + message list" where
  "chat_format vars t = format_messages vars 0 (zip (ct_messages t) (ct_segments t))"

definition chat_variables :: "chat_prompt_template \<Rightarrow> string list" where
  "chat_variables t = dedup_in_order (concat (map template_variables (ct_segments t)))"

fun validate_all :: "unicode \<Rightarrow> string list \<Rightarrow> prompts_error + unit" where
  "validate_all u [] = Inr ()"
| "validate_all u (c # cs) = result_bind (validate_template u c) (\<lambda>_. validate_all u cs)"

definition chat_validate :: "unicode \<Rightarrow> chat_prompt_template \<Rightarrow> prompts_error + unit" where
  "chat_validate u t = validate_all u (map msg_content (ct_messages t))"

definition chat_to_string :: "chat_prompt_template \<Rightarrow> string" where
  "chat_to_string t =
     concat (map (\<lambda>m. chat_role_name (msg_type m) @ '': '' @ msg_content m @ [CHR 0x0A]) (ct_messages t))"

definition chat_format_strict :: "unicode \<Rightarrow> string smap \<Rightarrow> chat_prompt_template \<Rightarrow> prompts_error + message list" where
  "chat_format_strict u vars t =
     result_bind (chat_validate u t) (\<lambda>_.
     result_bind (require_exact (diff_variables (chat_variables t) (map fst vars)) (chat_to_string t)) (\<lambda>_.
     chat_format vars t))"


section \<open>Few-shot prompts\<close>

definition char_count :: "string \<Rightarrow> nat" where
  "char_count s = length (str_chars s)"

text \<open>\<open>ExampleSelector\<close>; selecting by length formats examples with the given template.\<close>

record example_selector =
  es_examples :: "string smap list"
  es_by_length :: "string smap \<Rightarrow> string \<Rightarrow> string \<Rightarrow> prompt_template \<Rightarrow> string smap list \<times> prompt_template"

fun select_fitting :: "nat \<Rightarrow> nat \<Rightarrow> bool \<Rightarrow> string smap list \<Rightarrow> prompt_template \<Rightarrow> string smap list \<times> prompt_template" where
  "select_fitting available used some [] pt = ([], pt)"
| "select_fitting available used some (e # es) pt = (case template_format e pt of
      Some (Inr formatted, pt') \<Rightarrow>
        let ex_len = char_count formatted + 10 in
        if used + ex_len \<le> available \<or> \<not> some
        then (case select_fitting available (used + ex_len) True es pt' of (sel, pt'') \<Rightarrow> (e # sel, pt''))
        else ([], pt')
    | Some (Inl _, pt') \<Rightarrow> select_fitting available used some es pt'
    | None \<Rightarrow> select_fitting available used some es pt)"

definition length_based_selector :: "nat \<Rightarrow> string smap list \<Rightarrow> example_selector" where
  "length_based_selector max_length examples = \<lparr>es_examples = examples,
     es_by_length = (\<lambda>input prefix suffix.
       let input_len = char_count prefix + char_count suffix + char_count (concat (map snd input))
       in select_fitting (max_length - input_len) 0 False examples)\<rparr>"

record few_shot_prompt =
  fs_examples :: "string smap list"
  fs_example_prompt :: prompt_template
  fs_prefix :: string
  fs_suffix :: string
  fs_separator :: string
  fs_input_variables :: "string list"
  fs_selector :: "example_selector option"

definition few_shot_new ::
  "string smap list \<Rightarrow> prompt_template \<Rightarrow> string \<Rightarrow> string \<Rightarrow> string list \<Rightarrow> few_shot_prompt" where
  "few_shot_new examples example_prompt prefix suffix input_variables =
     \<lparr>fs_examples = examples, fs_example_prompt = example_prompt, fs_prefix = prefix, fs_suffix = suffix,
      fs_separator = [CHR 0x0A, CHR 0x0A], fs_input_variables = input_variables, fs_selector = None\<rparr>"

definition with_example_separator :: "string \<Rightarrow> few_shot_prompt \<Rightarrow> few_shot_prompt" where
  "with_example_separator s f = f\<lparr>fs_separator := s\<rparr>"

definition with_example_selector :: "example_selector \<Rightarrow> few_shot_prompt \<Rightarrow> few_shot_prompt" where
  "with_example_selector s f = f\<lparr>fs_selector := Some s\<rparr>"

definition with_prefix :: "string \<Rightarrow> few_shot_prompt \<Rightarrow> few_shot_prompt" where
  "with_prefix s f = f\<lparr>fs_prefix := s\<rparr>"

definition with_suffix :: "string \<Rightarrow> few_shot_prompt \<Rightarrow> few_shot_prompt" where
  "with_suffix s f = f\<lparr>fs_suffix := s\<rparr>"

definition add_example :: "string smap \<Rightarrow> few_shot_prompt \<Rightarrow> few_shot_prompt" where
  "add_example e f = f\<lparr>fs_examples := fs_examples f @ [e]\<rparr>"

fun format_examples :: "string smap list \<Rightarrow> (prompt_template, prompts_error, string list) eff" where
  "format_examples [] = ok []"
| "format_examples (e # es) = eff_bind (template_format e) (\<lambda>t. eff_bind (format_examples es) (\<lambda>ts. ok (t # ts)))"

definition format_part :: "unicode \<Rightarrow> string smap \<Rightarrow> string \<Rightarrow> prompts_error + string" where
  "format_part u vars t = (if t = [] then Inr [] else format_segments vars (parse_template u t))"

definition few_shot_format :: "unicode \<Rightarrow> string smap \<Rightarrow> (few_shot_prompt, prompts_error, string) eff" where
  "few_shot_format u vars f = (case find (\<lambda>v. \<not> contains_key vars v) (fs_input_variables f) of
      Some v \<Rightarrow> Some (Inl (MissingVariable v), f)
    | None \<Rightarrow>
      let (selected, pt) = (case fs_selector f of
              Some s \<Rightarrow> es_by_length s vars (fs_prefix f) (fs_suffix f) (fs_example_prompt f)
            | None \<Rightarrow> (fs_examples f, fs_example_prompt f))
      in (case format_examples selected pt of
            None \<Rightarrow> None
          | Some (Inl e, pt') \<Rightarrow> Some (Inl e, f\<lparr>fs_example_prompt := pt'\<rparr>)
          | Some (Inr texts, pt') \<Rightarrow>
              let examples_str = join (fs_separator f) texts in
              Some (result_bind (format_part u vars (fs_prefix f)) (\<lambda>prefix.
                    result_bind (format_part u vars (fs_suffix f)) (\<lambda>suffix.
                    Inr (join [CHR 0x0A, CHR 0x0A] (filter (\<lambda>p. p \<noteq> []) [prefix, examples_str, suffix])))),
                f\<lparr>fs_example_prompt := pt'\<rparr>)))"

fun examples_complete :: "string list \<Rightarrow> nat \<Rightarrow> string smap list \<Rightarrow> prompts_error + unit" where
  "examples_complete required i [] = Inr ()"
| "examples_complete required i (e # es) = (case find (\<lambda>v. \<not> contains_key e v) required of
      Some v \<Rightarrow> Inl (ExampleMissingVariable i v)
    | None \<Rightarrow> examples_complete required (Suc i) es)"

definition few_shot_validate :: "unicode \<Rightarrow> few_shot_prompt \<Rightarrow> prompts_error + unit" where
  "few_shot_validate u f =
     result_bind (validate_template u (fs_prefix f)) (\<lambda>_.
     result_bind (validate_template u (fs_suffix f)) (\<lambda>_.
     result_bind (template_validate u (fs_example_prompt f)) (\<lambda>_.
     let used = dedup_in_order (template_variables (parse_template u (fs_prefix f))
                  @ template_variables (parse_template u (fs_suffix f)));
         declared = dedup_in_order (fs_input_variables f);
         undeclared = filter (\<lambda>v. v \<notin> set declared) used;
         unused = filter (\<lambda>v. v \<notin> set used) declared
     in if undeclared \<noteq> [] \<or> unused \<noteq> [] then Inl (FewShotVariableMismatch undeclared unused)
        else examples_complete (dedup_in_order (variables (fs_example_prompt f))) 0 (fs_examples f))))"


section \<open>Versions of a template\<close>

record template_diff =
  td_added :: "string list"
  td_removed :: "string list"
  td_reordered :: bool

definition diff_is_empty :: "template_diff \<Rightarrow> bool" where
  "diff_is_empty d \<longleftrightarrow> td_added d = [] \<and> td_removed d = [] \<and> \<not> td_reordered d"

definition is_breaking :: "template_diff \<Rightarrow> bool" where
  "is_breaking d \<longleftrightarrow> td_added d \<noteq> []"

definition variable_order :: "unicode \<Rightarrow> string \<Rightarrow> string list" where
  "variable_order u template = dedup_in_order (template_variables (parse_template u template))"

definition diff_templates :: "unicode \<Rightarrow> string \<Rightarrow> string \<Rightarrow> template_diff" where
  "diff_templates u old new = (
     let old_vars = variable_order u old; new_vars = variable_order u new
     in \<lparr>td_added = filter (\<lambda>v. v \<notin> set old_vars) new_vars,
         td_removed = filter (\<lambda>v. v \<notin> set new_vars) old_vars,
         td_reordered = (filter (\<lambda>v. v \<in> set new_vars) old_vars \<noteq> filter (\<lambda>v. v \<in> set old_vars) new_vars)\<rparr>)"


section \<open>Rendering succeeds exactly when every variable has a value\<close>

lemma template_variables_simps [simp]:
  "template_variables [] = []" "template_variables (Text t # ss) = template_variables ss"
  "template_variables (Variable n # ss) = n # template_variables ss"
  by (simp_all add: template_variables_def map_filter_simps)

lemma set_dedup_owned: "set (dedup_owned seen vs) = set vs - seen"
  by (induction seen vs rule: dedup_owned.induct) auto

lemma set_dedup [simp]: "set (dedup_in_order vs) = set vs"
  by (simp add: dedup_in_order_def set_dedup_owned)

lemma format_segments_ok:
  "(\<exists>s. format_segments vars ss = Inr s) \<longleftrightarrow> set (template_variables ss) \<subseteq> fst ` set vars"
proof (induction vars ss rule: format_segments.induct)
  case (3 vars n ss)
  show ?case
  proof (cases "map_of vars n")
    case None
    moreover have "n \<notin> fst ` set vars" using None by (simp add: map_of_eq_None_iff)
    ultimately show ?thesis by (simp del: map_of_eq_None_iff)
  next
    case (Some v)
    then have "n \<in> fst ` set vars" by (metis map_of_eq_None_iff option.distinct(1))
    then show ?thesis using 3 Some by (auto simp: result_bind_def split: sum.splits)
  qed
qed (auto simp: result_bind_def split: sum.splits)

lemma template_format_ok:
  "(\<exists>s pt'. template_format vars pt = Some (Inr s, pt')) \<longleftrightarrow> set (variables pt) \<subseteq> fst ` set vars"
  using format_segments_ok [of vars "pt_segments pt"]
  by (auto simp: template_format_def variables_def split: sum.splits)

lemma require_exact_ok:
  "require_exact (diff_variables required supplied) t = Inr () \<longleftrightarrow> set required = set supplied"
  by (auto simp: require_exact_def diff_variables_def Let_def filter_empty_conv split: list.splits if_splits)

lemma template_format_total: "\<exists>r pt'. template_format vars pt = Some (r, pt') \<and> pt_segments pt' = pt_segments pt"
  by (auto simp: template_format_def split: sum.splits)

lemma format_strict_ok:
  "format_strict u vars pt = Some (Inr s, pt') \<longleftrightarrow> template_validate u pt = Inr () \<and> set (variables pt) = fst ` set vars
     \<and> template_format vars pt = Some (Inr s, pt')"
  using require_exact_ok [of "variables pt" "map fst vars" "pt_template pt"]
  by (auto simp: format_strict_def eff_bind_def lift_result_def split: sum.splits option.splits)

lemma format_messages_ok:
  "(\<exists>ms. format_messages vars i ps = Inr ms) \<longleftrightarrow> (\<forall>(m, ss) \<in> set ps. set (template_variables ss) \<subseteq> fst ` set vars)"
proof (induction vars i ps rule: format_messages.induct)
  case (2 vars i m segments rest)
  then show ?case
    using format_segments_ok [of vars segments]
    by (cases "format_segments vars segments"; cases "format_messages vars (Suc i) rest") (simp_all add: result_bind_def)
qed simp

lemma chat_format_ok:
  "(\<exists>ms. chat_format vars (chat_template_new u ms0) = Inr ms) \<longleftrightarrow>
     set (chat_variables (chat_template_new u ms0)) \<subseteq> fst ` set vars"
  by (auto simp: chat_format_def format_messages_ok chat_template_new_def chat_variables_def zip_map2 zip_same_conv_map)

lemma chat_format_strict_ok:
  "chat_format_strict u vars t = Inr ms \<longleftrightarrow> chat_validate u t = Inr () \<and> set (chat_variables t) = fst ` set vars
     \<and> chat_format vars t = Inr ms"
  using require_exact_ok [of "chat_variables t" "map fst vars" "chat_to_string t"]
  by (auto simp: chat_format_strict_def result_bind_def split: sum.splits)

lemma breaking_iff:
  "is_breaking (diff_templates u old new) \<longleftrightarrow>
     (\<exists>vars s. format_segments vars (parse_template u old) = Inr s \<and> (\<nexists>s'. format_segments vars (parse_template u new) = Inr s'))"
  (is "?lhs \<longleftrightarrow> ?rhs")
proof
  let ?old = "template_variables (parse_template u old)" and ?new = "template_variables (parse_template u new)"
  have lhs: "?lhs \<longleftrightarrow> \<not> set ?new \<subseteq> set ?old"
    by (auto simp: is_breaking_def diff_templates_def variable_order_def Let_def filter_empty_conv)
  show ?rhs if ?lhs
  proof -
    let ?vars = "map (\<lambda>v. (v, [])) ?old"
    have "fst ` set ?vars = set ?old" by (simp add: image_image)
    then show ?thesis
      using format_segments_ok [of ?vars "parse_template u old"] format_segments_ok [of ?vars "parse_template u new"]
        that lhs by auto
  qed
  show ?lhs if ?rhs
    using that lhs format_segments_ok by blast
qed

text \<open>Few-shot prompts: a selection by length picks examples, the first that renders in any case.\<close>

lemma select_fitting_subset:
  assumes "select_fitting available used some es pt = (sel, pt')"
  shows "set sel \<subseteq> set es \<and> pt_segments pt' = pt_segments pt"
  using assms
proof (induction available used some es pt arbitrary: sel pt' rule: select_fitting.induct)
  case (2 available used some e es pt)
  obtain r pt1 where r: "template_format e pt = Some (r, pt1)" "pt_segments pt1 = pt_segments pt"
    using template_format_total by blast
  show ?case
  proof (cases r)
    case (Inl x)
    then show ?thesis using "2.IH"(2) [OF r(1) refl Inl] "2.prems" r by auto
  next
    case (Inr formatted)
    let ?n = "char_count formatted + 10"
    show ?thesis
    proof (cases "used + ?n \<le> available \<or> \<not> some")
      case True
      then obtain sel1 pt2 where "select_fitting available (used + ?n) True es pt1 = (sel1, pt2)" by fastforce
      then show ?thesis using "2.IH"(3) [OF r(1) refl Inr refl True] "2.prems" r Inr True by (auto simp: Let_def)
    next
      case False
      then show ?thesis using "2.prems" r Inr by (auto simp: Let_def)
    qed
  qed
qed simp

lemma format_examples_ok:
  assumes "\<forall>e \<in> set es. set (variables pt) \<subseteq> fst ` set e"
  shows "\<exists>ts pt'. format_examples es pt = Some (Inr ts, pt')"
  using assms
proof (induction es arbitrary: pt)
  case (Cons e es)
  then obtain t pt1 where t: "template_format e pt = Some (Inr t, pt1)"
    using template_format_ok [of e pt] by auto
  then have "variables pt1 = variables pt"
    using template_format_total [of e pt] by (simp add: variables_def)
  then show ?case using Cons.IH [of pt1] Cons.prems t by (auto simp: eff_bind_def)
qed simp

lemma examples_complete_ok:
  "examples_complete required i es = Inr () \<longleftrightarrow> (\<forall>e \<in> set es. set required \<subseteq> fst ` set e)"
proof (induction required i es rule: examples_complete.induct)
  case (2 required i e es)
  show ?case
  proof (cases "find (\<lambda>v. \<not> contains_key e v) required")
    case None
    then have "set required \<subseteq> fst ` set e" by (auto simp: find_None_iff contains_key_def)
    then show ?thesis using None 2 by simp
  next
    case (Some v)
    then have "v \<in> set required" "\<not> contains_key e v" by (auto simp: find_Some_iff)
    then show ?thesis using Some by (auto simp: contains_key_def)
  qed
qed simp

definition selects_own :: "few_shot_prompt \<Rightarrow> bool" where
  "selects_own f \<longleftrightarrow> (case fs_selector f of
      None \<Rightarrow> True
    | Some s \<Rightarrow> \<exists>n. s = length_based_selector n (fs_examples f))"

lemma validated_few_shot_renders:
  assumes "few_shot_validate u f = Inr ()" and "set (fs_input_variables f) \<subseteq> fst ` set vars" and "selects_own f"
  shows "\<exists>out f'. few_shot_format u vars f = Some (Inr out, f')"
proof -
  have used: "set (template_variables (parse_template u (fs_prefix f))) \<subseteq> fst ` set vars"
      "set (template_variables (parse_template u (fs_suffix f))) \<subseteq> fst ` set vars"
    and complete: "\<forall>e \<in> set (fs_examples f). set (variables (fs_example_prompt f)) \<subseteq> fst ` set e"
    using assms(1,2) by (auto simp: few_shot_validate_def result_bind_def Let_def filter_empty_conv examples_complete_ok
        split: sum.splits if_splits)
  have "find (\<lambda>v. \<not> contains_key vars v) (fs_input_variables f) = None"
    using assms(2) by (auto simp: find_None_iff contains_key_def)
  moreover obtain selected pt where sel: "(case fs_selector f of
        Some s \<Rightarrow> es_by_length s vars (fs_prefix f) (fs_suffix f) (fs_example_prompt f)
      | None \<Rightarrow> (fs_examples f, fs_example_prompt f)) = (selected, pt)" by fastforce
  have "set selected \<subseteq> set (fs_examples f)" "variables pt = variables (fs_example_prompt f)"
    using sel assms(3) select_fitting_subset
    by (fastforce simp: selects_own_def length_based_selector_def Let_def variables_def split: option.splits)+
  then obtain texts pt' where "format_examples selected pt = Some (Inr texts, pt')"
    using format_examples_ok [of selected pt] complete by (auto simp: subset_iff)
  moreover have "\<exists>s. format_part u vars (fs_prefix f) = Inr s" "\<exists>s. format_part u vars (fs_suffix f) = Inr s"
    using used format_segments_ok by (auto simp: format_part_def)
  ultimately show ?thesis using sel by (auto simp: few_shot_format_def Let_def)
qed


definition demo_few_shot :: few_shot_prompt where
  "demo_few_shot = few_shot_new [[(''i'', ''a''), (''o'', ''b'')]] (template_new ascii_only ''{i}={o}'') ''Say'' ''{x}'' [''x'']"


text \<open>
  Two details: a strict chat template reports a missing variable without the position of its message,
  and the first example is selected whatever its length.
\<close>

lemma chat_strict_missing:
  assumes "chat_validate u t = Inr ()" and "vd_missing (diff_variables (chat_variables t) (map fst vars)) = v # vs"
  shows "chat_format_strict u vars t = Inl (MissingVariable v)"
  using assms by (simp add: chat_format_strict_def require_exact_def result_bind_def)

lemma first_example_selected:
  assumes "template_format e pt = Some (Inr t, pt1)"
  shows "fst (select_fitting available 0 False (e # es) pt) \<noteq> []"
  using assms by (simp add: Let_def split: prod.split)

end
