(* ===== verification/Async_Proc.thy ===== *)
theory Async_Proc
  imports "HOL-Library.Multiset"
begin

text \<open>
  Asynchronous functions that share a world. A process is a tree of atomic actions: what an
  \<open>async fn\<close> does between two points at which another task may run. An action offers the list of its
  outcomes (more than one for \<open>tokio::select!\<close>), and \<open>Fork\<close> starts a second process (\<open>tokio::spawn\<close>).
  An \<open>async fn\<close> that returns an \<open>'a\<close> is written in continuation-passing style. A pool of processes
  runs in any order (\<open>pool_step\<close>); \<open>take_turn\<close> names one choice of the scheduler, so that an interleaving
  can be run. \<open>obeys\<close> is the proof rule: a process that takes each of its steps as allowed, whatever
  the others do in between, and gives back what it holds before it ends.
\<close>

datatype 'w proc =
    Done
  | Atom "'w \<Rightarrow> ('w proc \<times> 'w) list"
  | Fork "'w proc" "'w proc"

type_synonym ('w, 'a) async = "('a \<Rightarrow> 'w proc) \<Rightarrow> 'w proc"

definition ready :: "'a \<Rightarrow> ('w, 'a) async" where
  "ready a k = k a"

definition async_bind :: "('w, 'a) async \<Rightarrow> ('a \<Rightarrow> ('w, 'b) async) \<Rightarrow> ('w, 'b) async" where
  "async_bind m f k = m (\<lambda>a. f a k)"

definition select :: "('w \<Rightarrow> ('a \<times> 'w) list) \<Rightarrow> ('w, 'a) async" where
  "select f k = Atom (\<lambda>w. map (\<lambda>(a, w'). (k a, w')) (f w))"

definition atomically :: "('w \<Rightarrow> 'a \<times> 'w) \<Rightarrow> ('w, 'a) async" where
  "atomically f = select (\<lambda>w. [f w])"

definition spawn :: "('w, unit) async \<Rightarrow> ('w, unit) async" where
  "spawn m k = Fork (m (\<lambda>_. Done)) (k ())"

primrec async_for :: "('x \<Rightarrow> ('w, unit) async) \<Rightarrow> 'x list \<Rightarrow> ('w, unit) async" where
  "async_for f [] = ready ()"
| "async_for f (x # xs) = async_bind (f x) (\<lambda>_. async_for f xs)"

text \<open>The scheduler: process \<open>i\<close> takes its outcome \<open>c\<close>; a fork puts the new process at the end.\<close>

type_synonym 'w pool = "'w proc list \<times> 'w"

definition take_turn :: "nat \<Rightarrow> nat \<Rightarrow> 'w pool \<Rightarrow> 'w pool option" where
  "take_turn i c pl = (case pl of (ps, w) \<Rightarrow>
     if i < length ps then
       (case ps ! i of
          Done \<Rightarrow> None
        | Atom f \<Rightarrow>
            (let outcomes = f w in
             if c < length outcomes then Some (ps[i := fst (outcomes ! c)], snd (outcomes ! c)) else None)
        | Fork p q \<Rightarrow> Some (ps[i := q] @ [p], w))
     else None)"

inductive pool_step :: "'w pool \<Rightarrow> 'w pool \<Rightarrow> bool" where
  act: "i < length ps \<Longrightarrow> ps ! i = Atom f \<Longrightarrow> (p, w') \<in> set (f w) \<Longrightarrow> pool_step (ps, w) (ps[i := p], w')"
| fork: "i < length ps \<Longrightarrow> ps ! i = Fork p q \<Longrightarrow> pool_step (ps, w) (ps[i := q] @ [p], w)"

lemma turn_pool_step: "take_turn i c pl = Some pl' \<Longrightarrow> pool_step pl pl'"
  by (auto simp: take_turn_def Let_def split: prod.splits if_splits proc.splits intro!: act fork)

lemma pool_step_turn: "pool_step pl pl' \<Longrightarrow> \<exists>i c. take_turn i c pl = Some pl'"
proof (induction rule: pool_step.induct)
  case (act i ps f p w' w)
  then obtain c where "c < length (f w)" "f w ! c = (p, w')"
    by (auto simp: in_set_conv_nth)
  with act have "take_turn i c (ps, w) = Some (ps[i := p], w')" by (simp add: take_turn_def)
  then show ?case by blast
next
  case (fork i ps p q w)
  then have "take_turn i 0 (ps, w) = Some (ps[i := q] @ [p], w)" by (simp add: take_turn_def)
  then show ?case by blast
qed

theorem pool_step_iff_turn: "pool_step pl pl' \<longleftrightarrow> (\<exists>i c. take_turn i c pl = Some pl')"
  using turn_pool_step pool_step_turn by blast


section \<open>Processes that keep to their allowance\<close>

text \<open>
  \<open>obeys R G h p\<close>: \<open>p\<close> holds the tokens \<open>h\<close>. Whatever tokens \<open>F\<close> the other processes hold, in a world
  where the invariant \<open>R\<close> admits \<open>h + F\<close>, each action of \<open>p\<close> is a step that \<open>G\<close> allows and leads to
  tokens \<open>h'\<close> of its own such that \<open>R\<close> admits \<open>h' + F\<close>. A fork splits the tokens, and a process that
  is over holds none.
\<close>

inductive obeys :: "('r multiset \<Rightarrow> 'w \<Rightarrow> bool) \<Rightarrow> ('w \<Rightarrow> 'w \<Rightarrow> bool) \<Rightarrow> 'r multiset \<Rightarrow> 'w proc \<Rightarrow> bool"
  for R G where
  Done: "obeys R G {#} Done"
| Atom: "(\<And>F w p w'. R (h + F) w \<Longrightarrow> (p, w') \<in> set (f w) \<Longrightarrow>
      G w w' \<and> (\<exists>h'. R (h' + F) w' \<and> obeys R G h' p)) \<Longrightarrow> obeys R G h (Atom f)"
| Fork: "obeys R G a p \<Longrightarrow> obeys R G b q \<Longrightarrow> obeys R G (a + b) (Fork p q)"

inductive_cases obeys_AtomE: "obeys R G h (Atom f)"
inductive_cases obeys_ForkE: "obeys R G h (Fork p q)"
inductive_cases obeys_DoneE: "obeys R G h Done"

text \<open>
  \<open>yields R G h P m\<close>: the function \<open>m\<close>, entered with the tokens \<open>h\<close>, obeys until it returns some \<open>a\<close> with
  tokens \<open>h'\<close> such that \<open>P h' a\<close>. The rules work backwards from \<open>P\<close>.
\<close>

definition yields ::
  "('r multiset \<Rightarrow> 'w \<Rightarrow> bool) \<Rightarrow> ('w \<Rightarrow> 'w \<Rightarrow> bool) \<Rightarrow> 'r multiset \<Rightarrow> ('r multiset \<Rightarrow> 'a \<Rightarrow> bool) \<Rightarrow>
   ('w, 'a) async \<Rightarrow> bool" where
  "yields R G h P m \<longleftrightarrow> (\<forall>k. (\<forall>h' a. P h' a \<longrightarrow> obeys R G h' (k a)) \<longrightarrow> obeys R G h (m k))"

lemma yieldsD: "yields R G h P m \<Longrightarrow> (\<And>h' a. P h' a \<Longrightarrow> obeys R G h' (k a)) \<Longrightarrow> obeys R G h (m k)"
  by (simp add: yields_def)

lemma yields_ready: "P h a \<Longrightarrow> yields R G h P (ready a)"
  by (simp add: yields_def ready_def)

lemma yields_bind: "yields R G h (\<lambda>h' a. yields R G h' P (f a)) m \<Longrightarrow> yields R G h P (async_bind m f)"
  by (simp add: yields_def async_bind_def)

lemma yields_mono: "yields R G h Q m \<Longrightarrow> (\<And>h' a. Q h' a \<Longrightarrow> P h' a) \<Longrightarrow> yields R G h P m"
  by (auto simp: yields_def)

lemma yields_select:
  assumes "\<And>F w a w'. R (h + F) w \<Longrightarrow> (a, w') \<in> set (f w) \<Longrightarrow> G w w' \<and> (\<exists>h'. R (h' + F) w' \<and> P h' a)"
  shows "yields R G h P (select f)"
  unfolding yields_def select_def
proof (intro allI impI obeys.Atom)
  fix k F w p w'
  assume k: "\<forall>h' a. P h' a \<longrightarrow> obeys R G h' (k a)" and R: "R (h + F) w"
    and "(p, w') \<in> set (map (\<lambda>(a, w'). (k a, w')) (f w))"
  then obtain a where a: "(a, w') \<in> set (f w)" "p = k a" by auto
  from assms [OF R a(1)] obtain h' where "G w w'" "R (h' + F) w'" "P h' a" by blast
  with k a(2) show "G w w' \<and> (\<exists>h'. R (h' + F) w' \<and> obeys R G h' p)" by blast
qed

lemma yields_atomically:
  assumes "\<And>F w. R (h + F) w \<Longrightarrow> G w (snd (f w)) \<and> (\<exists>h'. R (h' + F) (snd (f w)) \<and> P h' (fst (f w)))"
  shows "yields R G h P (atomically f)"
  unfolding atomically_def
proof (rule yields_select)
  fix F w a w'
  assume "R (h + F) w" and "(a, w') \<in> set [f w]"
  with assms [of F w] show "G w w' \<and> (\<exists>h'. R (h' + F) w' \<and> P h' a)" by (cases "f w") auto
qed

text \<open>The tokens after an action, as a function of what it returned.\<close>

lemma yields_atomically_holding:
  assumes "\<And>a. P (hold a) a"
    and "\<And>F w. R (h + F) w \<Longrightarrow> G w (snd (f w)) \<and> R (hold (fst (f w)) + F) (snd (f w))"
  shows "yields R G h P (atomically f)"
  using assms by (intro yields_atomically) blast

lemma yields_spawn:
  assumes "yields R G a (\<lambda>h' _. h' = {#}) m" and "P b ()" and "h = a + b"
  shows "yields R G h P (spawn m)"
  using assms unfolding yields_def [of R G _ P] spawn_def
  by (auto intro!: obeys.Fork obeys.Done elim: yieldsD)

lemma yields_if: "(b \<Longrightarrow> yields R G h P m) \<Longrightarrow> (\<not> b \<Longrightarrow> yields R G h P n) \<Longrightarrow> yields R G h P (if b then m else n)"
  by simp

lemma yields_for:
  assumes "\<And>x. x \<in> set xs \<Longrightarrow> yields R G h (\<lambda>h' _. h' = h) (f x)" and "P h ()"
  shows "yields R G h P (async_for f xs)"
  using assms
proof (induction xs)
  case (Cons x xs)
  show ?case unfolding async_for.simps
    by (rule yields_bind, rule yields_mono, rule Cons.prems) (use Cons in auto)
qed (simp add: yields_ready)

lemma yields_case_option:
  "(x = None \<Longrightarrow> yields R G h P m) \<Longrightarrow> (\<And>y. x = Some y \<Longrightarrow> yields R G h P (n y)) \<Longrightarrow>
   yields R G h P (case x of None \<Rightarrow> m | Some y \<Rightarrow> n y)"
  by (simp split: option.split)

lemma yields_case_sum:
  "(\<And>a. x = Inl a \<Longrightarrow> yields R G h P (m a)) \<Longrightarrow> (\<And>b. x = Inr b \<Longrightarrow> yields R G h P (n b)) \<Longrightarrow>
   yields R G h P (case x of Inl a \<Rightarrow> m a | Inr b \<Rightarrow> n b)"
  by (simp split: sum.split)

lemma yields_case_bool:
  "(x \<Longrightarrow> yields R G h P m) \<Longrightarrow> (\<not> x \<Longrightarrow> yields R G h P n) \<Longrightarrow>
   yields R G h P (case x of True \<Rightarrow> m | False \<Rightarrow> n)"
  by (simp split: bool.split)

lemma yields_case_prod:
  "(\<And>a b. x = (a, b) \<Longrightarrow> yields R G h P (m a b)) \<Longrightarrow> yields R G h P (case x of (a, b) \<Rightarrow> m a b)"
  by (simp split: prod.split)

lemmas yields_rules = yields_bind yields_ready yields_if yields_case_option yields_case_sum
  yields_case_bool yields_case_prod

text \<open>A pool whose processes obey, together holding the tokens that the invariant admits.\<close>

definition pool_obeys ::
  "('r multiset \<Rightarrow> 'w \<Rightarrow> bool) \<Rightarrow> ('w \<Rightarrow> 'w \<Rightarrow> bool) \<Rightarrow> 'w pool \<Rightarrow> bool" where
  "pool_obeys R G pl \<longleftrightarrow> (\<exists>hs. list_all2 (obeys R G) hs (fst pl) \<and> R (sum_list hs) (snd pl))"

lemma pool_obeysI: "list_all2 (obeys R G) hs ps \<Longrightarrow> R (sum_list hs) w \<Longrightarrow> pool_obeys R G (ps, w)"
  by (auto simp: pool_obeys_def)

lemma pool_obeys_admits: "pool_obeys R G (ps, w) \<Longrightarrow> \<exists>h. R h w"
  by (auto simp: pool_obeys_def)

lemma pool_obeys_Nil: "R {#} w \<Longrightarrow> pool_obeys R G ([], w)"
  by (simp add: pool_obeys_def)

lemma pool_obeys_add:
  assumes "pool_obeys R G (ps, w)" and "obeys R G {#} p"
  shows "pool_obeys R G (ps @ [p], w)"
proof -
  from assms(1) obtain hs where "list_all2 (obeys R G) hs ps" "R (sum_list hs) w"
    by (auto simp: pool_obeys_def)
  with assms(2) show ?thesis
    by (intro pool_obeysI [of _ _ "hs @ [{#}]"]) (simp_all add: list_all2_appendI)
qed

text \<open>Once every process is over, no token is held.\<close>

lemma pool_obeys_over:
  assumes "pool_obeys R G (ps, w)" and "set ps \<subseteq> {Done}"
  shows "R {#} w"
proof -
  from assms(1) obtain hs where hs: "list_all2 (obeys R G) hs ps" "R (sum_list hs) w"
    by (auto simp: pool_obeys_def)
  from hs(1) assms(2) have "sum_list hs = {#}"
    by (induction rule: list_all2_induct) (auto elim: obeys_DoneE)
  with hs(2) show ?thesis by simp
qed

lemma sum_list_update_add:
  "i < length hs \<Longrightarrow> \<exists>F. sum_list hs = hs ! i + F \<and> (\<forall>a. sum_list (hs[i := a]) = a + (F :: 'r multiset))"
proof (induction hs arbitrary: i)
  case (Cons x hs)
  show ?case
  proof (cases i)
    case (Suc j)
    with Cons obtain F where "sum_list hs = hs ! j + F" "\<And>a. sum_list (hs[j := a]) = a + F"
      by (metis Suc_less_eq length_Cons)
    with Suc show ?thesis by (intro exI [of _ "x + F"]) (simp add: ac_simps)
  qed auto
qed simp

theorem pool_step_obeys:
  assumes "pool_step pl pl'" and "pool_obeys R G pl"
  shows "pool_obeys R G pl' \<and> (snd pl' = snd pl \<or> G (snd pl) (snd pl'))"
  using assms
proof (induction rule: pool_step.induct)
  case (act i ps f p w' w)
  then obtain hs where hs: "list_all2 (obeys R G) hs ps" "R (sum_list hs) w"
    by (auto simp: pool_obeys_def)
  with act have i: "i < length hs" and ok: "obeys R G (hs ! i) (Atom f)"
    by (auto simp: list_all2_conv_all_nth)
  obtain F where F: "sum_list hs = hs ! i + F" "\<And>a. sum_list (hs[i := a]) = a + F"
    using sum_list_update_add [OF i] by blast
  from ok obtain h' where h': "G w w'" "R (h' + F) w'" "obeys R G h' p"
    using hs(2) act(3) F(1) by (elim obeys_AtomE) metis
  from hs(1) h'(3) have "list_all2 (obeys R G) (hs[i := h']) (ps[i := p])"
    by (rule list_all2_update_cong)
  with h' F(2) show ?case by (auto intro: pool_obeysI)
next
  case (fork i ps p q w)
  then obtain hs where hs: "list_all2 (obeys R G) hs ps" "R (sum_list hs) w"
    by (auto simp: pool_obeys_def)
  with fork have i: "i < length hs" and ok: "obeys R G (hs ! i) (Fork p q)"
    by (auto simp: list_all2_conv_all_nth)
  obtain F where F: "sum_list hs = hs ! i + F" "\<And>a. sum_list (hs[i := a]) = a + F"
    using sum_list_update_add [OF i] by blast
  from ok obtain a b where ab: "hs ! i = a + b" "obeys R G a p" "obeys R G b q"
    by (elim obeys_ForkE) blast
  from hs(1) ab have "list_all2 (obeys R G) (hs[i := b] @ [a]) (ps[i := q] @ [p])"
    by (auto intro!: list_all2_appendI list_all2_update_cong)
  moreover have "sum_list (hs[i := b] @ [a]) = sum_list hs"
    using F ab(1) by (simp add: ac_simps)
  ultimately show ?case using hs(2) by (auto intro: pool_obeysI)
qed

end
