(* ===== verification/A2a_Protocol.thy ===== *)
theory A2a_Protocol
  imports Json_Value
begin

text \<open>
  The protocol types of \<open>lc-a2a\<close> (\<open>protocol/task.rs\<close>, \<open>message.rs\<close>, \<open>model.rs\<close>, \<open>part.rs\<close>): the task
  and its life cycle, requests, responses, push notifications and the filter of task lists. The
  lemmas relate the two views of the life cycle: a status is terminal exactly when no transition
  leaves it.
\<close>

section \<open>Messages and tasks\<close>

record a2a_message =
  role :: string
  content :: string

definition message_new :: "string \<Rightarrow> string \<Rightarrow> a2a_message" where
  "message_new r c = \<lparr>role = r, content = c\<rparr>"

definition message_user :: "string \<Rightarrow> a2a_message" where
  "message_user c = message_new ''user'' c"

definition message_agent :: "string \<Rightarrow> a2a_message" where
  "message_agent c = message_new ''agent'' c"

datatype task_status =
    Submitted
  | Working
  | InputRequired
  | Completed
  | Failed
  | Cancelled
  | Rejected
  | AuthRequired
  | Expired

fun can_transition_to :: "task_status \<Rightarrow> task_status \<Rightarrow> bool" where
  "can_transition_to Submitted target \<longleftrightarrow> target \<in> {Working, Rejected, Cancelled, Expired}"
| "can_transition_to Working target \<longleftrightarrow> target \<in> {Completed, Failed, InputRequired, Cancelled, Expired}"
| "can_transition_to InputRequired target \<longleftrightarrow> target \<in> {Working, Cancelled, Expired}"
| "can_transition_to AuthRequired target \<longleftrightarrow> target \<in> {Submitted, Working, Expired}"
| "can_transition_to _ target \<longleftrightarrow> False"

definition is_terminal :: "task_status \<Rightarrow> bool" where
  "is_terminal st \<longleftrightarrow> st \<in> {Completed, Failed, Cancelled, Rejected, Expired}"

text \<open>\<open>Display\<close>, which agrees with the names serde writes; serde also reads \<open>canceled\<close>.\<close>

fun status_name :: "task_status \<Rightarrow> string" where
  "status_name Submitted = ''submitted''"
| "status_name Working = ''working''"
| "status_name InputRequired = ''input-required''"
| "status_name Completed = ''completed''"
| "status_name Failed = ''failed''"
| "status_name Cancelled = ''cancelled''"
| "status_name Rejected = ''rejected''"
| "status_name AuthRequired = ''auth-required''"
| "status_name Expired = ''expired''"

definition all_statuses :: "task_status list" where
  "all_statuses = [Submitted, Working, InputRequired, Completed, Failed, Cancelled, Rejected,
     AuthRequired, Expired]"

definition status_of_name :: "string \<Rightarrow> task_status option" where
  "status_of_name s = (if s = ''canceled'' then Some Cancelled else find (\<lambda>st. status_name st = s) all_statuses)"

record a2a_task =
  task_id :: string
  message :: a2a_message
  status :: task_status
  owner :: "string option"
  messages :: "a2a_message list"

definition task_new :: "string \<Rightarrow> a2a_message \<Rightarrow> a2a_task" where
  "task_new i m = \<lparr>task_id = i, message = m, status = Submitted, owner = None, messages = [m]\<rparr>"

definition with_status :: "task_status \<Rightarrow> a2a_task \<Rightarrow> a2a_task" where
  "with_status st t = t\<lparr>status := st\<rparr>"

definition with_owner :: "string \<Rightarrow> a2a_task \<Rightarrow> a2a_task" where
  "with_owner ow t = t\<lparr>owner := Some ow\<rparr>"

definition push_message :: "a2a_message \<Rightarrow> a2a_task \<Rightarrow> a2a_task" where
  "push_message m t = t\<lparr>messages := messages t @ [m]\<rparr>"

definition message_history :: "a2a_task \<Rightarrow> a2a_message list" where
  "message_history t = (if messages t = [] then [message t] else messages t)"

text \<open>What serde writes for a message and for a task, in key order.\<close>

definition message_json :: "a2a_message \<Rightarrow> json" where
  "message_json m = JObject [(''content'', JString (content m)), (''role'', JString (role m))]"

definition task_json :: "a2a_task \<Rightarrow> json" where
  "task_json t = JObject
     ([(''id'', JString (task_id t)), (''message'', message_json (message t))] @
      (if messages t = [] then [] else [(''messages'', JArray (map message_json (messages t)))]) @
      (case owner t of None \<Rightarrow> [] | Some ow \<Rightarrow> [(''owner'', JString ow)]) @
      [(''status'', JString (status_name (status t)))])"


section \<open>Results and workflows\<close>

record task_result =
  result_output :: string

record workflow_step =
  step_id :: string
  step_message :: a2a_message
  step_skill :: "string option"

record a2a_workflow =
  workflow_id :: "string option"
  workflow_name :: "string option"
  workflow_steps :: "workflow_step list"

definition result_json :: "task_result \<Rightarrow> json" where
  "result_json r = JObject [(''output'', JString (result_output r))]"


section \<open>Requests and responses\<close>

record a2a_request =
  jsonrpc :: string
  req_id :: nat
  req_method :: string
  params :: "json option"
  metadata :: "json option"

definition str_field :: "json option \<Rightarrow> string \<Rightarrow> string option" where
  "str_field v k = Option.bind (Option.bind v (\<lambda>j. json_get j k)) as_str"

definition trace_id_of :: "a2a_request \<Rightarrow> string option" where
  "trace_id_of req = str_field (metadata req) ''trace_id''"

definition owner_of :: "a2a_request \<Rightarrow> string option" where
  "owner_of req = str_field (metadata req) ''owner''"

definition message_id_of :: "a2a_request \<Rightarrow> string option" where
  "message_id_of req = (case str_field (metadata req) ''message_id'' of
     Some mid \<Rightarrow> Some mid
   | None \<Rightarrow> str_field (params req) ''messageId'')"

definition protocol_version :: "a2a_request \<Rightarrow> string option" where
  "protocol_version req = str_field (metadata req) ''protocolVersion''"

definition task_id_of :: "a2a_request \<Rightarrow> string option" where
  "task_id_of req = str_field (params req) ''taskId''"

record a2a_error =
  code :: int
  text_of :: string

record a2a_response =
  resp_jsonrpc :: string
  resp_id :: nat
  result :: "json option"
  error :: "a2a_error option"

definition response_ok :: "nat \<Rightarrow> json \<Rightarrow> a2a_response" where
  "response_ok i v = \<lparr>resp_jsonrpc = ''2.0'', resp_id = i, result = Some v, error = None\<rparr>"

definition error_new :: "int \<Rightarrow> string \<Rightarrow> a2a_error" where
  "error_new c m = \<lparr>code = c, text_of = m\<rparr>"

definition from_error_data :: "nat \<Rightarrow> a2a_error \<Rightarrow> a2a_response" where
  "from_error_data i e = \<lparr>resp_jsonrpc = ''2.0'', resp_id = i, result = None, error = Some e\<rparr>"

definition response_error :: "nat \<Rightarrow> int \<Rightarrow> string \<Rightarrow> a2a_response" where
  "response_error i c m = from_error_data i (error_new c m)"

definition method_not_found :: a2a_error where
  "method_not_found = error_new (-32601) ''Method not found''"

definition invalid_params :: "string \<Rightarrow> a2a_error" where
  "invalid_params m = error_new (-32602) m"

definition internal_error :: "string \<Rightarrow> a2a_error" where
  "internal_error m = error_new (-32603) m"


section \<open>Push notifications and filters\<close>

record file_part =
  file_name :: string
  file_mime_type :: string
  file_uri :: "string option"
  file_bytes :: "string option"
  file_size :: "nat option"
  file_metadata :: "json option"

datatype part =
    PartText string "json option"
  | PartFile file_part "json option"
  | PartData json "json option"

record artifact =
  artifact_id :: string
  parts :: "part list"
  artifact_metadata :: "json option"

definition artifact_text :: "string \<Rightarrow> string \<Rightarrow> artifact" where
  "artifact_text i s = \<lparr>artifact_id = i, parts = [PartText s None], artifact_metadata = None\<rparr>"

datatype notification =
    StatusUpdate string task_status "string option" "string option"
  | ArtifactUpdate string artifact "string option"

definition notify_status :: "string \<Rightarrow> task_status \<Rightarrow> notification" where
  "notify_status i st = StatusUpdate i st None None"

definition notify_status_with_error :: "string \<Rightarrow> task_status \<Rightarrow> string \<Rightarrow> notification" where
  "notify_status_with_error i st e = StatusUpdate i st (Some e) None"

definition notify_artifact :: "string \<Rightarrow> artifact \<Rightarrow> notification" where
  "notify_artifact i a = ArtifactUpdate i a None"

fun notification_id :: "notification \<Rightarrow> string" where
  "notification_id (StatusUpdate i _ _ _) = i"
| "notification_id (ArtifactUpdate i _ _) = i"

record task_filter =
  filter_owner :: "string option"
  filter_statuses :: "task_status list option"

definition filter_new :: task_filter where
  "filter_new = \<lparr>filter_owner = None, filter_statuses = None\<rparr>"

definition filter_matches :: "task_filter \<Rightarrow> a2a_task \<Rightarrow> bool" where
  "filter_matches f t \<longleftrightarrow>
     (case filter_owner f of Some ow \<Rightarrow> owner t = Some ow | None \<Rightarrow> True) \<and>
     (case filter_statuses f of Some sts \<Rightarrow> status t \<in> set sts | None \<Rightarrow> True)"


section \<open>Laws\<close>

lemma all_statuses_complete: "st \<in> set all_statuses"
  by (cases st) (simp_all add: all_statuses_def)

lemma status_of_name_status_name [simp]: "status_of_name (status_name st) = Some st"
  by (cases st) (simp_all add: status_of_name_def all_statuses_def)

text \<open>No transition leaves a terminal status, and every other status has one.\<close>

lemma is_terminal_iff: "is_terminal st \<longleftrightarrow> (\<forall>target. \<not> can_transition_to st target)"
  by (cases st) (auto simp: is_terminal_def)

lemma can_transition_not_terminal: "can_transition_to st target \<Longrightarrow> \<not> is_terminal st"
  using is_terminal_iff by blast

lemma can_transition_irrefl: "\<not> can_transition_to st st"
  by (cases st) auto

lemma task_json_owner: "json_get (task_json t) ''owner'' = map_option JString (owner t)"
  by (simp add: task_json_def json_get_JObject split: option.splits)

lemma task_json_id: "json_get (task_json t) ''id'' = Some (JString (task_id t))"
  by (simp add: task_json_def)

end
