(* ===== verification/A2a_Store.thy ===== *)
theory A2a_Store
  imports A2a_Protocol
begin

text \<open>
  Task persistence (\<open>lc-a2a/src/store.rs\<close>): the stored snapshot of a task, the trait \<open>TaskStore\<close> as a
  record of its methods (a provided method is an optional field: \<open>None\<close> when the backend keeps the
  trait's default) and the in-memory store. A method of a backend is one atomic action on the
  backend's state. The locale \<open>task_backend\<close> says what the server relies on; it is interpreted on the
  in-memory store, whose capacity is never exceeded.
\<close>

record stored_task =
  task :: a2a_task
  task_outcome :: "task_result option"
  task_error :: "string option"
  trace_id :: "string option"
  skill_id :: "string option"
  created_at :: nat
  updated_at :: nat

definition stored_new :: "nat \<Rightarrow> a2a_task \<Rightarrow> stored_task" where
  "stored_new now t = \<lparr>task = t, task_outcome = None, task_error = None, trace_id = None, skill_id = None,
     created_at = now, updated_at = now\<rparr>"

definition with_trace_id :: "string \<Rightarrow> stored_task \<Rightarrow> stored_task" where
  "with_trace_id tid st = st\<lparr>trace_id := Some tid\<rparr>"

definition with_skill_id :: "string option \<Rightarrow> stored_task \<Rightarrow> stored_task" where
  "with_skill_id sid st = st\<lparr>skill_id := sid\<rparr>"

definition touch :: "nat \<Rightarrow> stored_task \<Rightarrow> stored_task" where
  "touch now st = st\<lparr>updated_at := now\<rparr>"

definition age :: "nat \<Rightarrow> stored_task \<Rightarrow> nat" where
  "age now st = now - updated_at st"

datatype store_error = Unavailable string | CapacityExceeded string

type_synonym ('s, 'a) method_of = "'s \<Rightarrow> (store_error + 'a) \<times> 's"

record 's task_store =
  ts_upsert :: "stored_task \<Rightarrow> ('s, unit) method_of"
  ts_get :: "string \<Rightarrow> ('s, stored_task option) method_of"
  ts_list :: "task_filter \<Rightarrow> ('s, stored_task list) method_of"
  ts_delete :: "string \<Rightarrow> ('s, bool) method_of"
  ts_upsert_claimed :: "(string \<Rightarrow> stored_task \<Rightarrow> ('s, bool) method_of) option"
  ts_compare_and_update :: "(string \<Rightarrow> stored_task \<Rightarrow> ('s, bool) method_of) option"

text \<open>Whether the caller that wrote \<open>update\<close> may replace \<open>current\<close>.\<close>

definition claimable :: "stored_task \<Rightarrow> stored_task \<Rightarrow> bool" where
  "claimable current update = (case owner (task current) of
     Some actual \<Rightarrow> owner (task update) = Some actual
   | None \<Rightarrow> True)"


section \<open>The in-memory store\<close>

definition DEFAULT_MAX_TASKS :: nat where
  "DEFAULT_MAX_TASKS = 10000"

definition oldest_key :: "stored_task smap \<Rightarrow> string option" where
  "oldest_key m = map_option fst
     (find (\<lambda>(_, t). \<forall>(_, u) \<in> set m. updated_at t \<le> updated_at u) m)"

definition insert_locked :: "nat \<Rightarrow> stored_task \<Rightarrow> stored_task smap \<Rightarrow> stored_task smap" where
  "insert_locked max_tasks st m =
     (let inserting_new = \<not> contains_key m (task_id (task st));
          m' = (if inserting_new \<and> max_tasks > 0 \<and> length m \<ge> max_tasks
                then (case oldest_key m of Some key \<Rightarrow> smap_remove key m | None \<Rightarrow> m)
                else m)
      in smap_insert (task_id (task st)) st m')"

definition mem_upsert :: "nat \<Rightarrow> stored_task \<Rightarrow> (stored_task smap, unit) method_of" where
  "mem_upsert max_tasks st m = (Inr (), insert_locked max_tasks st m)"

definition mem_upsert_claimed :: "nat \<Rightarrow> string \<Rightarrow> stored_task \<Rightarrow> (stored_task smap, bool) method_of" where
  "mem_upsert_claimed max_tasks i update m =
     (let may = (case map_of m i of Some current \<Rightarrow> claimable current update | None \<Rightarrow> True)
      in if \<not> may then (Inr False, m) else (Inr True, insert_locked max_tasks update m))"

definition mem_get :: "string \<Rightarrow> (stored_task smap, stored_task option) method_of" where
  "mem_get i m = (Inr (map_of m i), m)"

definition mem_list_tasks :: "task_filter \<Rightarrow> (stored_task smap, stored_task list) method_of" where
  "mem_list_tasks f m = (Inr (sort_key created_at (filter (\<lambda>t. filter_matches f (task t)) (map snd m))), m)"

definition mem_delete_task :: "string \<Rightarrow> (stored_task smap, bool) method_of" where
  "mem_delete_task i m = (Inr (contains_key m i), smap_remove i m)"

definition mem_compare_and_update :: "string \<Rightarrow> stored_task \<Rightarrow> (stored_task smap, bool) method_of" where
  "mem_compare_and_update i update m = (case map_of m i of
     Some current \<Rightarrow>
       if can_transition_to (status (task current)) (status (task update))
       then (Inr True, smap_insert i update m) else (Inr False, m)
   | None \<Rightarrow> (Inr False, m))"

definition memory_task_store :: "nat \<Rightarrow> stored_task smap task_store" where
  "memory_task_store max_tasks = \<lparr>ts_upsert = mem_upsert max_tasks, ts_get = mem_get, ts_list = mem_list_tasks,
     ts_delete = mem_delete_task, ts_upsert_claimed = Some (mem_upsert_claimed max_tasks),
     ts_compare_and_update = Some mem_compare_and_update\<rparr>"


section \<open>What a server relies on\<close>

text \<open>
  \<open>view\<close> reads the tasks of a backend's state. An insertion may evict tasks but changes none; the
  two guarded writes apply exactly when their guard holds, and a failing call changes nothing.
\<close>

locale task_backend =
  fixes ts :: "'s task_store" and view :: "'s \<Rightarrow> string \<Rightarrow> stored_task option" and wf :: "'s \<Rightarrow> bool"
    and claimed and cas
  assumes overrides: "ts_upsert_claimed ts = Some claimed" "ts_compare_and_update ts = Some cas"
    and keyed: "wf s \<Longrightarrow> view s i = Some t \<Longrightarrow> task_id (task t) = i"
    and get_law: "wf s \<Longrightarrow> ts_get ts i s = (r, s') \<Longrightarrow> s' = s \<and> (r = Inr found \<longrightarrow> found = view s i)"
    and list_law: "wf s \<Longrightarrow> ts_list ts f s = (r', s') \<Longrightarrow>
      s' = s \<and> (r' = Inr l \<longrightarrow> t' \<in> set l \<longrightarrow> view s (task_id (task t')) = Some t' \<and> filter_matches f (task t'))"
    and delete_law: "wf s \<Longrightarrow> ts_delete ts i s = (r'', s') \<Longrightarrow>
      wf s' \<and> (r'' = Inl e \<longrightarrow> s' = s) \<and> (r'' = Inr b \<longrightarrow> view s' = (view s)(i := None))"
    and upsert_law: "wf s \<Longrightarrow> ts_upsert ts st s = (u, s') \<Longrightarrow>
      wf s' \<and> (u = Inl e \<longrightarrow> s' = s) \<and>
      (u = Inr () \<longrightarrow> view s' (task_id (task st)) = Some st \<and>
        (j \<noteq> task_id (task st) \<longrightarrow> view s' j = view s j \<or> view s' j = None))"
    and claimed_law: "wf s \<Longrightarrow> task_id (task st) = i \<Longrightarrow> claimed i st s = (c, s') \<Longrightarrow>
      wf s' \<and> (c \<noteq> Inr True \<longrightarrow> s' = s) \<and>
      (c = Inr True \<longrightarrow> (view s i = Some current \<longrightarrow> claimable current st) \<and> view s' i = Some st \<and>
        (j \<noteq> i \<longrightarrow> view s' j = view s j \<or> view s' j = None))"
    and cas_law: "wf s \<Longrightarrow> task_id (task st) = i \<Longrightarrow> cas i st s = (c, s') \<Longrightarrow>
      wf s' \<and> (c \<noteq> Inr True \<longrightarrow> s' = s) \<and>
      (c = Inr True \<longrightarrow> (\<exists>current. view s i = Some current \<and>
         can_transition_to (status (task current)) (status (task st))) \<and> view s' = (view s)(i \<mapsto> st))"

definition store_wf :: "nat \<Rightarrow> stored_task smap \<Rightarrow> bool" where
  "store_wf max_tasks m \<longleftrightarrow> smap_wf m \<and> (\<forall>(i, t) \<in> set m. task_id (task t) = i) \<and>
     (max_tasks > 0 \<longrightarrow> length m \<le> max_tasks)"

lemma length_smap_insert:
  "smap_wf m \<Longrightarrow> length (smap_insert k v m) = (if contains_key m k then length m else Suc (length m))"
proof (induction k v m rule: smap_insert.induct)
  case (2 k v a b m)
  then have "k < a \<Longrightarrow> k \<notin> fst ` set m" by auto
  then show ?case using 2 by (auto simp: contains_key_def)
qed (simp add: contains_key_def)

lemma length_smap_remove: "contains_key m k \<Longrightarrow> length (smap_remove k m) < length m"
proof -
  assume "contains_key m k"
  then obtain v where "(k, v) \<in> set m" by (auto simp: contains_key_def)
  then show ?thesis
    unfolding smap_remove_def by (intro length_filter_less [of "(k, v)"]) auto
qed

lemma set_smap_insert: "set (smap_insert k v m) \<subseteq> insert (k, v) (set m)"
  by (induction k v m rule: smap_insert.induct) auto

lemma set_smap_remove: "set (smap_remove k m) \<subseteq> set m"
  by (auto simp: smap_remove_def)

lemma find_minimum:
  assumes "m \<noteq> []"
  shows "\<exists>x. find (\<lambda>(_, t). \<forall>(_, u) \<in> set m. (f t :: nat) \<le> f u) m = Some x \<and> x \<in> set m"
proof -
  have "\<exists>x \<in> set m. \<forall>y \<in> set m. f (snd x) \<le> f (snd y)"
    using ex_min_if_finite [of "(f \<circ> snd) ` set m"] assms by (force simp: not_less)
  then have "find (\<lambda>(_, t). \<forall>(_, u) \<in> set m. f t \<le> f u) m \<noteq> None"
    by (simp add: find_None_iff case_prod_beta) (metis prod.collapse)
  then obtain x where "find (\<lambda>(_, t). \<forall>(_, u) \<in> set m. f t \<le> f u) m = Some x" by blast
  then show ?thesis by (auto dest: find_Some_in)
qed

lemma oldest_key_Some: "m \<noteq> [] \<Longrightarrow> \<exists>k. oldest_key m = Some k \<and> contains_key m k"
  using find_minimum [of m updated_at] by (force simp: oldest_key_def contains_key_def)

lemma map_of_insert_locked:
  "map_of (insert_locked mx st m) (task_id (task st)) = Some st \<and>
   (j \<noteq> task_id (task st) \<longrightarrow> map_of (insert_locked mx st m) j = map_of m j \<or>
      map_of (insert_locked mx st m) j = None)"
  by (simp add: insert_locked_def Let_def map_of_smap_remove split: option.split)

lemma store_wf_remove: "store_wf mx m \<Longrightarrow> store_wf mx (smap_remove k m)"
proof -
  assume wf: "store_wf mx m"
  have "length (smap_remove k m) \<le> length m" by (simp add: smap_remove_def)
  then show ?thesis using wf set_smap_remove [of k m] by (auto simp: store_wf_def smap_wf_remove)
qed

lemma store_wf_insert:
  assumes "store_wf mx m" and "task_id (task st) = i" and "contains_key m i \<or> mx = 0 \<or> length m < mx"
  shows "store_wf mx (smap_insert i st m)"
  using assms set_smap_insert [of i st m]
  by (auto simp: store_wf_def smap_wf_insert length_smap_insert)

lemma store_wf_insert_locked:
  assumes wf: "store_wf mx m"
  shows "store_wf mx (insert_locked mx st m)"
proof (cases "\<not> contains_key m (task_id (task st)) \<and> mx > 0 \<and> length m \<ge> mx")
  case True
  then obtain k where k: "oldest_key m = Some k" "contains_key m k"
    using oldest_key_Some [of m] by (cases m) auto
  have "length (smap_remove k m) < mx"
    using length_smap_remove [OF k(2)] wf True by (auto simp: store_wf_def)
  then have "store_wf mx (smap_insert (task_id (task st)) st (smap_remove k m))"
    by (intro store_wf_insert store_wf_remove wf) auto
  with True k(1) show ?thesis by (simp add: insert_locked_def)
next
  case False
  then have "insert_locked mx st m = smap_insert (task_id (task st)) st m"
    by (simp only: insert_locked_def Let_def if_False)
  moreover have "store_wf mx (smap_insert (task_id (task st)) st m)"
    by (intro store_wf_insert wf) (use False in auto)
  ultimately show ?thesis by simp
qed

lemma store_wf_keyed: "store_wf mx m \<Longrightarrow> map_of m i = Some t \<Longrightarrow> task_id (task t) = i"
  by (auto simp: store_wf_def dest!: map_of_SomeD)

lemma mem_list_stored:
  assumes "store_wf mx m" and "t \<in> set (map snd m)"
  shows "map_of m (task_id (task t)) = Some t"
proof -
  from assms obtain i where "(i, t) \<in> set m" by auto
  with assms(1) show ?thesis
    by (auto simp: store_wf_def intro!: map_of_is_SomeI smap_wf_distinct)
qed

interpretation mem_tasks: task_backend "memory_task_store mx" map_of "store_wf mx"
  "mem_upsert_claimed mx" mem_compare_and_update
proof (unfold_locales, goal_cases)
  case (3 s i t)
  then show ?case by (rule store_wf_keyed)
next
  case (4 s i r s' t)
  then show ?case by (auto simp: memory_task_store_def mem_get_def)
next
  case (5 s f r' s' l t')
  then show ?case using mem_list_stored [of mx s t']
    by (auto simp: memory_task_store_def mem_list_tasks_def)
next
  case (6 s i r'' s' e b)
  then show ?case
    by (auto simp: memory_task_store_def mem_delete_task_def store_wf_remove map_of_smap_remove)
next
  case (7 s st u s' e j)
  then show ?case using map_of_insert_locked [of mx st s j]
    by (auto simp: memory_task_store_def mem_upsert_def store_wf_insert_locked)
next
  case (8 s st i c s' current j)
  then show ?case using map_of_insert_locked [of mx st s j]
    by (auto simp: mem_upsert_claimed_def Let_def store_wf_insert_locked split: if_splits)
next
  case (9 s st i c s')
  then have "map_of s i = Some t \<Longrightarrow> store_wf mx (smap_insert i st s)" for t
    by (intro store_wf_insert) (auto simp: contains_key_iff)
  with 9 show ?case
    by (auto simp: mem_compare_and_update_def split: option.splits if_splits)
qed (simp_all add: memory_task_store_def)

end
