(* ===== verification/A2a_Server.thy ===== *)
theory A2a_Server
  imports Async_Proc A2a_Store
begin

text \<open>
  The A2A server (\<open>lc-a2a/src/server\<close>, \<open>rate_limiter.rs\<close>). The immutable fields of \<open>A2AServer\<close> are the
  record \<open>a2a_server\<close>; what its handlers and workers share behind locks, semaphores and atomics is
  the record \<open>server_state\<close>, on which every handler is a process of atomic actions. A chain is a
  trait object: its input keys and what an invocation does to the outside. The conversions of serde
  and UUIDs are parameters.
\<close>

section \<open>The server and its state\<close>

datatype chain_error =
    MissingInput string
  | InputError string
  | OutputError string
  | ExecutionError string
  | StreamError string
  | OtherError string
  | Nested string string

fun chain_error_text :: "chain_error \<Rightarrow> string" where
  "chain_error_text (MissingInput s) = ''Missing input: '' @ s"
| "chain_error_text (InputError s) = ''Input error: '' @ s"
| "chain_error_text (OutputError s) = ''Output error: '' @ s"
| "chain_error_text (ExecutionError s) = ''Execution error: '' @ s"
| "chain_error_text (StreamError s) = ''Stream error: '' @ s"
| "chain_error_text (OtherError s) = ''Chain error: '' @ s"
| "chain_error_text (Nested c s) = c @ '': '' @ s"

record 'o base_chain =
  input_keys :: "string list"
  chain_invoke :: "json smap \<Rightarrow> 'o \<Rightarrow> (chain_error + json smap) \<times> 'o"

datatype auth_error = Required | InvalidToken

fun auth_error_text :: "auth_error \<Rightarrow> string" where
  "auth_error_text Required = ''Authentication required''"
| "auth_error_text InvalidToken = ''Invalid authentication token''"

type_synonym authenticator = "string option \<Rightarrow> auth_error + string option"

record ('s, 'o) a2a_server =
  chain :: "'o base_chain"
  tasks :: "'s task_store"
  skill_router :: "(string \<Rightarrow> 'o base_chain option) option"
  event_bus :: bool
  expected_token :: "string option"
  auth_principals :: "string smap"
  rate_limiter :: "nat option"
  task_ttl :: "nat option"
  sandbox :: "nat option option"
  allowed_protocol_versions :: "string list"
  authenticator :: "authenticator option"
  trust_metadata_owner :: bool
  uuid :: "nat \<Rightarrow> string"
  message_of_json :: "json \<Rightarrow> a2a_message option"
  workflow_of_json :: "json \<Rightarrow> a2a_workflow option"
  json_text :: "json \<Rightarrow> string"
  request_size :: "a2a_request \<Rightarrow> nat"

record message_id_table =
  id_map :: "string smap"
  id_order :: "string list"

record window_state =
  window_start :: nat
  window_count :: nat

record ('s, 'o) server_state =
  store :: 's
  message_ids :: message_id_table
  inflight_resumes :: "string list"
  cancellations :: "nat smap"
  signals :: "bool list"
  in_flight :: nat
  limiter_permits :: nat
  limiter_window :: window_state
  clock :: nat
  uuid_count :: nat
  published :: "notification list"
  outer :: 'o
  answered :: "(a2a_request \<times> string option \<times> a2a_response) list"

type_synonym ('s, 'o, 'a) task_fn = "(('s, 'o) server_state, 'a) async"

definition store_call :: "('s \<Rightarrow> 'a \<times> 's) \<Rightarrow> ('s, 'o, 'a) task_fn" where
  "store_call f = atomically (\<lambda>w. case f (store w) of (a, s) \<Rightarrow> (a, w\<lparr>store := s\<rparr>))"

definition instant_now :: "('s, 'o, nat) task_fn" where
  "instant_now = atomically (\<lambda>w. (clock w, w))"

definition new_uuid :: "('s, 'o) a2a_server \<Rightarrow> ('s, 'o, string) task_fn" where
  "new_uuid srv = atomically (\<lambda>w. (uuid srv (uuid_count w), w\<lparr>uuid_count := Suc (uuid_count w)\<rparr>))"

text \<open>The provided methods of the trait \<open>TaskStore\<close>, when a backend does not override them.\<close>

definition upsert_claimed ::
  "('s, 'o) a2a_server \<Rightarrow> string \<Rightarrow> stored_task \<Rightarrow> ('s, 'o, store_error + bool) task_fn" where
  "upsert_claimed srv tid update = (case ts_upsert_claimed (tasks srv) of
     Some f \<Rightarrow> store_call (f tid update)
   | None \<Rightarrow> async_bind (store_call (ts_get (tasks srv) tid)) (\<lambda>r. case r of
       Inl e \<Rightarrow> ready (Inl e)
     | Inr found \<Rightarrow>
         if (case found of Some current \<Rightarrow> claimable current update | None \<Rightarrow> True)
         then async_bind (store_call (ts_upsert (tasks srv) update)) (\<lambda>u. case u of
                Inl e \<Rightarrow> ready (Inl e) | Inr _ \<Rightarrow> ready (Inr True))
         else ready (Inr False)))"

definition compare_and_update ::
  "('s, 'o) a2a_server \<Rightarrow> string \<Rightarrow> stored_task \<Rightarrow> ('s, 'o, store_error + bool) task_fn" where
  "compare_and_update srv tid update = (case ts_compare_and_update (tasks srv) of
     Some f \<Rightarrow> store_call (f tid update)
   | None \<Rightarrow> async_bind (store_call (ts_get (tasks srv) tid)) (\<lambda>r. case r of
       Inl e \<Rightarrow> ready (Inl e)
     | Inr found \<Rightarrow>
         if (case found of
               Some current \<Rightarrow> can_transition_to (status (task current)) (status (task update))
             | None \<Rightarrow> False)
         then async_bind (store_call (ts_upsert (tasks srv) update)) (\<lambda>u. case u of
                Inl e \<Rightarrow> ready (Inl e) | Inr _ \<Rightarrow> ready (Inr True))
         else ready (Inr False)))"


section \<open>Idempotency keys\<close>

definition MAX_MESSAGE_IDS :: nat where
  "MAX_MESSAGE_IDS = 10000"

definition ids_full :: "string smap \<Rightarrow> bool" where
  "ids_full m \<longleftrightarrow> length m \<ge> MAX_MESSAGE_IDS"

lemma ids_full_int [code]: "ids_full m \<longleftrightarrow> (10000 :: int) \<le> int (length m)"
  by (simp add: ids_full_def MAX_MESSAGE_IDS_def)

fun evict_oldest_id :: "string smap \<Rightarrow> string list \<Rightarrow> string smap \<times> string list" where
  "evict_oldest_id m [] = (m, [])"
| "evict_oldest_id m (oldest # order) =
     (if contains_key m oldest then (smap_remove oldest m, order) else evict_oldest_id m order)"

definition id_insert :: "string \<Rightarrow> string \<Rightarrow> message_id_table \<Rightarrow> message_id_table" where
  "id_insert mid tid tab =
     (let tab1 = (if contains_key (id_map tab) mid then tab
        else case (if ids_full (id_map tab) then evict_oldest_id (id_map tab) (id_order tab)
                   else (id_map tab, id_order tab)) of
          (m, order) \<Rightarrow> tab\<lparr>id_map := m, id_order := order @ [mid]\<rparr>)
      in tab1\<lparr>id_map := smap_insert mid tid (id_map tab1)\<rparr>)"

definition id_remove :: "string \<Rightarrow> message_id_table \<Rightarrow> message_id_table" where
  "id_remove mid tab = tab\<lparr>id_map := smap_remove mid (id_map tab)\<rparr>"

definition on_ids :: "(message_id_table \<Rightarrow> 'a \<times> message_id_table) \<Rightarrow> ('s, 'o, 'a) task_fn" where
  "on_ids f = atomically (\<lambda>w. case f (message_ids w) of (a, t) \<Rightarrow> (a, w\<lparr>message_ids := t\<rparr>))"

definition claim_message_id :: "string \<Rightarrow> ('s, 'o, unit + string option) task_fn" where
  "claim_message_id mid = on_ids (\<lambda>tab. case map_of (id_map tab) mid of
     Some tid \<Rightarrow> if tid \<noteq> [] then (Inr (Some tid), tab) else (Inl (), tab)
   | None \<Rightarrow> (Inr None, id_insert mid [] tab))"

definition reserve_message_id ::
  "('s, 'o) a2a_server \<Rightarrow> string \<Rightarrow> ('s, 'o, unit + string option) task_fn" where
  "reserve_message_id srv mid =
     async_bind (on_ids (\<lambda>tab. (map_of (id_map tab) mid, tab))) (\<lambda>mapped. case mapped of
       Some tid \<Rightarrow>
         if tid \<noteq> [] then
           async_bind (store_call (ts_get (tasks srv) tid)) (\<lambda>r. case r of
             Inr (Some _) \<Rightarrow> ready (Inr (Some tid))
           | _ \<Rightarrow> claim_message_id mid)
         else ready (Inl ())
     | None \<Rightarrow> claim_message_id mid)"

definition finish_message_id :: "string \<Rightarrow> string \<Rightarrow> ('s, 'o, unit) task_fn" where
  "finish_message_id mid tid = on_ids (\<lambda>tab. ((), id_insert mid tid tab))"

definition abort_message_id :: "string \<Rightarrow> ('s, 'o, unit) task_fn" where
  "abort_message_id mid = on_ids (\<lambda>tab. ((), id_remove mid tab))"

definition release_resume_id :: "string option \<Rightarrow> ('s, 'o, unit) task_fn" where
  "release_resume_id message_id = (case message_id of Some mid \<Rightarrow> abort_message_id mid | None \<Rightarrow> ready ())"


section \<open>Semaphore, resume guard, cancellation, events\<close>

text \<open>\<open>try_acquire_owned\<close> on the in-flight semaphore, and the drop of the permit.\<close>

definition acquire_in_flight :: "('s, 'o, bool) task_fn" where
  "acquire_in_flight = atomically (\<lambda>w.
     if in_flight w > 0 then (True, w\<lparr>in_flight := in_flight w - 1\<rparr>) else (False, w))"

definition drop_in_flight :: "('s, 'o, unit) task_fn" where
  "drop_in_flight = atomically (\<lambda>w. ((), w\<lparr>in_flight := Suc (in_flight w)\<rparr>))"

definition begin_resume :: "string \<Rightarrow> ('s, 'o, bool) task_fn" where
  "begin_resume tid = atomically (\<lambda>w.
     if tid \<in> set (inflight_resumes w) then (False, w)
     else (True, w\<lparr>inflight_resumes := tid # inflight_resumes w\<rparr>))"

definition drop_resume :: "string \<Rightarrow> ('s, 'o, unit) task_fn" where
  "drop_resume tid = atomically (\<lambda>w.
     ((), w\<lparr>inflight_resumes := filter (\<lambda>x. x \<noteq> tid) (inflight_resumes w)\<rparr>))"

text \<open>
  A \<open>CancelSignal\<close> is shared by the worker and the map of cancellations: an index into the flags.
\<close>

definition register_cancellation :: "string \<Rightarrow> ('s, 'o, nat) task_fn" where
  "register_cancellation tid = atomically (\<lambda>w.
     (length (signals w), w\<lparr>signals := signals w @ [False],
        cancellations := smap_insert tid (length (signals w)) (cancellations w)\<rparr>))"

definition remove_cancellation :: "string \<Rightarrow> ('s, 'o, unit) task_fn" where
  "remove_cancellation tid = atomically (\<lambda>w. ((), w\<lparr>cancellations := smap_remove tid (cancellations w)\<rparr>))"

definition fire_cancellation :: "string \<Rightarrow> ('s, 'o, unit) task_fn" where
  "fire_cancellation tid = atomically (\<lambda>w. ((), case map_of (cancellations w) tid of
     Some sig \<Rightarrow> w\<lparr>signals := (signals w)[sig := True]\<rparr>
   | None \<Rightarrow> w))"

definition is_cancelled :: "('s, 'o) server_state \<Rightarrow> nat \<Rightarrow> bool" where
  "is_cancelled w sig \<longleftrightarrow> sig < length (signals w) \<and> signals w ! sig"

definition publish_event :: "('s, 'o) a2a_server \<Rightarrow> notification \<Rightarrow> ('s, 'o, unit) task_fn" where
  "publish_event srv n = (if event_bus srv
     then atomically (\<lambda>w. ((), w\<lparr>published := published w @ [n]\<rparr>)) else ready ())"

definition publish_status ::
  "('s, 'o) a2a_server \<Rightarrow> string \<Rightarrow> task_status \<Rightarrow> string option \<Rightarrow> ('s, 'o, unit) task_fn" where
  "publish_status srv tid st problem = publish_event srv (case problem of
     Some e \<Rightarrow> notify_status_with_error tid st e
   | None \<Rightarrow> notify_status tid st)"

definition publish_artifact :: "('s, 'o) a2a_server \<Rightarrow> string \<Rightarrow> artifact \<Rightarrow> ('s, 'o, unit) task_fn" where
  "publish_artifact srv tid a = publish_event srv (notify_artifact tid a)"

end
