(* ===== verification/A2a_Handlers.thy ===== *)
theory A2a_Handlers
  imports A2a_Server
begin

text \<open>
  What the A2A server does with a request (\<open>server/mod.rs\<close>, \<open>auth.rs\<close>, \<open>message.rs\<close>, \<open>handlers.rs\<close>,
  \<open>routes.rs\<close>) and what its background workers do (\<open>execution.rs\<close>). Every \<open>await\<close> is a point at which
  other requests and workers may act; a guard that Rust drops at the end of a scope is given back
  explicitly on every path. The last section lets requests arrive, time pass and the processes
  take turns.
\<close>

section \<open>Authentication\<close>

record static_bearer =
  sb_expected :: "string option"
  sb_identities :: "string smap"

text \<open>\<open>constant_time_eq\<close>: lengths first, then the differing bits of all bytes.\<close>

definition constant_time_eq :: "string \<Rightarrow> string \<Rightarrow> bool" where
  "constant_time_eq a b \<longleftrightarrow> length a = length b \<and>
     fold (\<lambda>(x, y) diff. or diff (xor (of_char x) (of_char y))) (zip a b) (0::nat) = 0"

definition sb_authenticate :: "static_bearer \<Rightarrow> authenticator" where
  "sb_authenticate sb bearer = (case Option.bind bearer (map_of (sb_identities sb)) of
     Some who \<Rightarrow> Inr (Some who)
   | None \<Rightarrow> (case sb_expected sb of
       Some expected \<Rightarrow> (case bearer of
           None \<Rightarrow> Inl Required
         | Some token \<Rightarrow> if constant_time_eq token expected then Inr None else Inl InvalidToken)
     | None \<Rightarrow> if sb_identities sb = [] then Inr None else Inl Required))"

definition static_bearer_of :: "('s, 'o) a2a_server \<Rightarrow> static_bearer" where
  "static_bearer_of srv = \<lparr>sb_expected = expected_token srv, sb_identities = auth_principals srv\<rparr>"

definition has_auth :: "('s, 'o) a2a_server \<Rightarrow> bool" where
  "has_auth srv \<longleftrightarrow> authenticator srv \<noteq> None \<or> expected_token srv \<noteq> None \<or> auth_principals srv \<noteq> []"

definition check_auth :: "('s, 'o) a2a_server \<Rightarrow> nat \<Rightarrow> string option \<Rightarrow> a2a_response + string option" where
  "check_auth srv rid bearer =
     (let au = (case authenticator srv of Some a \<Rightarrow> a | None \<Rightarrow> sb_authenticate (static_bearer_of srv))
      in case au bearer of
           Inr who \<Rightarrow> Inr who
         | Inl e \<Rightarrow> Inl (response_error rid 401 (auth_error_text e)))"

definition resolve_owner :: "('s, 'o) a2a_server \<Rightarrow> a2a_request \<Rightarrow> string option \<Rightarrow> string option" where
  "resolve_owner srv req who = (case who of
     Some p \<Rightarrow> Some p
   | None \<Rightarrow> if has_auth srv then None
             else if trust_metadata_owner srv then owner_of req else None)"

definition caller_owns :: "string option \<Rightarrow> a2a_task \<Rightarrow> bool" where
  "caller_owns caller t = (case owner t of Some ow \<Rightarrow> caller = Some ow | None \<Rightarrow> True)"

definition notification_visible ::
  "('s, 'o) a2a_server \<Rightarrow> string option \<Rightarrow> string \<Rightarrow> ('s, 'o, bool) task_fn" where
  "notification_visible srv who tid = (case who of
     Some p \<Rightarrow> async_bind (store_call (ts_get (tasks srv) tid)) (\<lambda>r. ready (case r of
         Inr (Some st) \<Rightarrow> owner (task st) = Some p
       | _ \<Rightarrow> False))
   | None \<Rightarrow>
       if has_auth srv then async_bind (store_call (ts_get (tasks srv) tid)) (\<lambda>r. ready (case r of
         Inr (Some st) \<Rightarrow> owner (task st) = None
       | _ \<Rightarrow> False))
       else ready True)"


section \<open>Chain inputs, chain outputs, response bodies\<close>

definition extract_content_text :: "('s, 'o) a2a_server \<Rightarrow> json option \<Rightarrow> string" where
  "extract_content_text srv cont = (case cont of
     None \<Rightarrow> []
   | Some (JString s) \<Rightarrow> s
   | Some (JObject m) \<Rightarrow>
       (case Option.bind (case map_of m ''text'' of Some t \<Rightarrow> Some t | None \<Rightarrow> map_of m ''content'') as_str of
          Some s \<Rightarrow> s
        | None \<Rightarrow> json_text srv (JObject m))
   | Some v \<Rightarrow> json_text srv v)"

definition extract_message :: "('s, 'o) a2a_server \<Rightarrow> json \<Rightarrow> a2a_message" where
  "extract_message srv ps = (case json_get ps ''message'' of
     Some mv \<Rightarrow> (case message_of_json srv mv of
         Some m \<Rightarrow> m
       | None \<Rightarrow> message_new
           (case Option.bind (json_get mv ''role'') as_str of Some r \<Rightarrow> r | None \<Rightarrow> ''user'')
           (extract_content_text srv (json_get mv ''content'')))
   | None \<Rightarrow> message_user (json_text srv ps))"

definition build_chain_input :: "string \<Rightarrow> 'o base_chain \<Rightarrow> json smap" where
  "build_chain_input cont ch = (case input_keys ch of
     first # _ \<Rightarrow> [(first, JString cont)]
   | [] \<Rightarrow> [(''input'', JString cont)])"

definition build_chain_input_from_history :: "a2a_message list \<Rightarrow> 'o base_chain \<Rightarrow> json smap" where
  "build_chain_input_from_history hist ch = build_chain_input
     (if length hist = 1 then content (hd hist)
      else join [CHR 0x0A] (map (\<lambda>m. role m @ '': '' @ content m) hist)) ch"

definition extract_output :: "json smap \<Rightarrow> string" where
  "extract_output res = (case map snd res of
     v # _ \<Rightarrow> (case as_str v of Some s \<Rightarrow> s | None \<Rightarrow> [])
   | [] \<Rightarrow> [])"

fun is_input_required :: "chain_error \<Rightarrow> bool" where
  "is_input_required (MissingInput _) = True"
| "is_input_required (InputError _) = True"
| "is_input_required _ = False"

definition task_body :: "a2a_task \<Rightarrow> json" where
  "task_body t = JObject [(''task'', task_json t)]"

definition task_details_response :: "nat \<Rightarrow> stored_task \<Rightarrow> a2a_response" where
  "task_details_response rid st = response_ok rid (JObject
     ((case task_error st of Some e \<Rightarrow> [(''error'', JString e)] | None \<Rightarrow> []) @
      (case task_outcome st of Some r \<Rightarrow> [(''result'', result_json r)] | None \<Rightarrow> []) @
      [(''task'', task_json (task st))]))"

definition task_not_found :: "nat \<Rightarrow> string \<Rightarrow> a2a_response" where
  "task_not_found rid tid = response_error rid (-32001) (''Task not found: '' @ tid)"

definition forbidden :: "nat \<Rightarrow> string \<Rightarrow> a2a_response" where
  "forbidden rid why = response_error rid (-32003) why"

definition resolve_chain :: "('s, 'o) a2a_server \<Rightarrow> string option \<Rightarrow> 'o base_chain" where
  "resolve_chain srv sid = (case Option.bind sid (\<lambda>s. Option.bind (skill_router srv) (\<lambda>r. r s)) of
     Some ch \<Rightarrow> ch
   | None \<Rightarrow> chain srv)"


section \<open>Workers\<close>

definition sweep_expired_tasks :: "('s, 'o) a2a_server \<Rightarrow> nat \<Rightarrow> ('s, 'o, unit) task_fn" where
  "sweep_expired_tasks srv ttl =
     async_bind (store_call (ts_list (tasks srv) filter_new)) (\<lambda>r. case r of
       Inl _ \<Rightarrow> ready ()
     | Inr l \<Rightarrow> async_for (\<lambda>st. async_bind instant_now (\<lambda>now.
         if age now st < ttl then ready ()
         else if is_terminal (status (task st)) then
           async_bind (store_call (ts_delete (tasks srv) (task_id (task st)))) (\<lambda>_. ready ())
         else if can_transition_to (status (task st)) Expired then
           async_bind instant_now (\<lambda>now'.
             async_bind (store_call (ts_upsert (tasks srv)
               (touch now' (st\<lparr>task := with_status Expired (task st)\<rparr>)))) (\<lambda>_. ready ()))
         else ready ())) l)"

definition cleanup_expired_tasks :: "('s, 'o) a2a_server \<Rightarrow> ('s, 'o, unit) task_fn" where
  "cleanup_expired_tasks srv = (case task_ttl srv of
     None \<Rightarrow> ready ()
   | Some ttl \<Rightarrow> sweep_expired_tasks srv ttl)"

definition cas_apply :: "('s, 'o) a2a_server \<Rightarrow> string \<Rightarrow> stored_task \<Rightarrow> ('s, 'o, bool) task_fn" where
  "cas_apply srv tid st = async_bind (compare_and_update srv tid st) (\<lambda>r. ready (r = Inr True))"

definition STORE_READ_ATTEMPTS :: nat where
  "STORE_READ_ATTEMPTS = 3"

primrec read_attempts :: "('s, 'o) a2a_server \<Rightarrow> string \<Rightarrow> nat \<Rightarrow> ('s, 'o, stored_task option) task_fn" where
  "read_attempts srv tid 0 = ready None"
| "read_attempts srv tid (Suc n) =
     async_bind (store_call (ts_get (tasks srv) tid)) (\<lambda>r. case r of
       Inr found \<Rightarrow> ready found
     | Inl _ \<Rightarrow> read_attempts srv tid n)"

definition read_with_retry :: "('s, 'o) a2a_server \<Rightarrow> string \<Rightarrow> ('s, 'o, stored_task option) task_fn" where
  "read_with_retry srv tid = read_attempts srv tid STORE_READ_ATTEMPTS"

text \<open>
  The block that \<open>run_task\<close> repeats for each transition: check the snapshot against the life cycle,
  change it, write it back by compare-and-update, and publish when that won.
\<close>

definition transition ::
  "('s, 'o) a2a_server \<Rightarrow> string \<Rightarrow> stored_task option \<Rightarrow> task_status \<Rightarrow> (stored_task \<Rightarrow> stored_task) \<Rightarrow>
   ('s, 'o, unit) task_fn \<Rightarrow> ('s, 'o, unit) task_fn" where
  "transition srv tid found target change announce = (case found of
     None \<Rightarrow> ready ()
   | Some st \<Rightarrow>
       if can_transition_to (status (task st)) target then
         async_bind instant_now (\<lambda>now.
         async_bind (cas_apply srv tid (touch now (change (st\<lparr>task := with_status target (task st)\<rparr>)))) (\<lambda>won.
         if won then announce else ready ()))
       else ready ())"

definition run_task ::
  "('s, 'o) a2a_server \<Rightarrow> 'o base_chain \<Rightarrow> string \<Rightarrow> a2a_message list \<Rightarrow> nat \<Rightarrow> ('s, 'o, unit) task_fn" where
  "run_task srv ch tid hist cancel =
     async_bind (read_with_retry srv tid) (\<lambda>found0.
     async_bind (transition srv tid found0 Working (\<lambda>st. st) (publish_status srv tid Working None)) (\<lambda>_.
     async_bind (select (\<lambda>w.
         (case chain_invoke ch (build_chain_input_from_history hist ch) (outer w) of
            (r, o') \<Rightarrow> [(Some r, w\<lparr>outer := o'\<rparr>)]) @
         (if is_cancelled w cancel then [(None, w)] else []))) (\<lambda>outcome. case outcome of
       None \<Rightarrow> ready ()
     | Some (Inr res) \<Rightarrow>
         (let out = extract_output res in
          async_bind (read_with_retry srv tid) (\<lambda>found.
          transition srv tid found Completed
            (\<lambda>st. st\<lparr>task_outcome := Some \<lparr>result_output = out\<rparr>, task_error := None\<rparr>)
            (async_bind (publish_status srv tid Completed None) (\<lambda>_.
             publish_artifact srv tid (artifact_text tid out)))))
     | Some (Inl e) \<Rightarrow>
         async_bind (read_with_retry srv tid) (\<lambda>found.
         if is_input_required e then
           transition srv tid found InputRequired (\<lambda>st. st\<lparr>task_error := Some (chain_error_text e)\<rparr>)
             (publish_status srv tid InputRequired (Some (chain_error_text e)))
         else
           transition srv tid found Failed (\<lambda>st. st\<lparr>task_error := Some (chain_error_text e)\<rparr>)
             (publish_status srv tid Failed (Some (chain_error_text e)))))))"

text \<open>The steps of a workflow in order: the outputs so far, and the step that failed.\<close>

fun run_steps ::
  "(workflow_step \<times> 'o base_chain) list \<Rightarrow> string list \<Rightarrow>
   ('s, 'o, string list \<times> (string \<times> string) option) task_fn" where
  "run_steps [] results = ready (results, None)"
| "run_steps ((step, ch) # rest) results =
     async_bind (atomically (\<lambda>w.
       case chain_invoke ch (build_chain_input (content (step_message step)) ch) (outer w) of
         (r, o') \<Rightarrow> (r, w\<lparr>outer := o'\<rparr>))) (\<lambda>r. case r of
       Inr res \<Rightarrow> run_steps rest (results @ [extract_output res])
     | Inl e \<Rightarrow> ready (results, Some (step_id step, chain_error_text e)))"

definition run_workflow ::
  "('s, 'o) a2a_server \<Rightarrow> workflow_step list \<Rightarrow> 'o base_chain list \<Rightarrow> string \<Rightarrow> ('s, 'o, unit) task_fn" where
  "run_workflow srv steps chs tid =
     async_bind (run_steps (zip steps chs) []) (\<lambda>(results, failure).
     let aggregated = join [CHR 0x0A] results in
     async_bind (store_call (ts_get (tasks srv) tid)) (\<lambda>r. case r of
       Inl _ \<Rightarrow> ready ()
     | Inr found \<Rightarrow> (case failure of
         Some (sid, why) \<Rightarrow>
           (let problem = ''step `'' @ sid @ ''` failed: '' @ why in
            transition srv tid found Failed
              (\<lambda>st. (if aggregated \<noteq> [] then st\<lparr>task_outcome := Some \<lparr>result_output = aggregated\<rparr>\<rparr> else st)
                 \<lparr>task_error := Some problem\<rparr>)
              (publish_status srv tid Failed (Some problem)))
       | None \<Rightarrow>
           transition srv tid found Completed
             (\<lambda>st. st\<lparr>task_outcome := Some \<lparr>result_output = aggregated\<rparr>, task_error := None\<rparr>)
             (async_bind (publish_status srv tid Completed None) (\<lambda>_.
              publish_artifact srv tid (artifact_text tid aggregated))))))"

end
