(* ===== verification/A2a_Routes.thy ===== *)
theory A2a_Routes
  imports A2a_Handlers
begin

text \<open>
  The routes of the A2A server (\<open>server/routes.rs\<close>), the funnel in front of them (\<open>server/mod.rs\<close>,
  \<open>rate_limiter.rs\<close>), and the server as a system: requests arrive, time passes, the sweeper ticks
  and the processes take turns in any order.
\<close>

section \<open>Sending\<close>

text \<open>Register the cancellation handle and spawn the worker, which gives the permit back.\<close>

definition spawn_run_task ::
  "('s, 'o) a2a_server \<Rightarrow> 'o base_chain \<Rightarrow> string \<Rightarrow> a2a_message list \<Rightarrow> ('s, 'o, unit) task_fn" where
  "spawn_run_task srv ch tid hist =
     async_bind (register_cancellation tid) (\<lambda>cancel.
     spawn (async_bind (run_task srv ch tid hist cancel) (\<lambda>_.
            async_bind (remove_cancellation tid) (\<lambda>_.
            drop_in_flight))))"

definition handle_tasks_send_continue ::
  "('s, 'o) a2a_server \<Rightarrow> a2a_request \<Rightarrow> string \<Rightarrow> a2a_message \<Rightarrow> string option \<Rightarrow> string option \<Rightarrow>
   ('s, 'o, a2a_response) task_fn" where
  "handle_tasks_send_continue srv req tid msg message_id caller =
     async_bind acquire_in_flight (\<lambda>permit.
     if \<not> permit then
       async_bind (release_resume_id message_id) (\<lambda>_.
       ready (response_error (req_id req) 429 ''too many in-flight tasks; try again''))
     else
     async_bind (begin_resume tid) (\<lambda>claimed.
     if \<not> claimed then
       async_bind (release_resume_id message_id) (\<lambda>_.
       async_bind drop_in_flight (\<lambda>_.
       ready (response_error (req_id req) (-32000) ''task is already being resumed; retry'')))
     else
     let leave = (\<lambda>resp.
       async_bind (release_resume_id message_id) (\<lambda>_.
       async_bind (drop_resume tid) (\<lambda>_.
       async_bind drop_in_flight (\<lambda>_. ready resp)))) in
     async_bind (store_call (ts_get (tasks srv) tid)) (\<lambda>r. case r of
       Inl _ \<Rightarrow> leave (task_not_found (req_id req) tid)
     | Inr None \<Rightarrow> leave (task_not_found (req_id req) tid)
     | Inr (Some st) \<Rightarrow>
         if \<not> caller_owns caller (task st) then leave (forbidden (req_id req) ''caller does not own this task'')
         else if status (task st) \<noteq> InputRequired \<and> status (task st) \<noteq> AuthRequired then
           leave (response_error (req_id req) (-32004)
             (''Cannot continue task in state '' @ status_name (status (task st))))
         else
           let t1 = push_message msg (task st);
               t = (if can_transition_to (status t1) Working then with_status Working t1 else t1) in
           async_bind instant_now (\<lambda>now.
           async_bind (store_call (ts_upsert (tasks srv) (touch now (st\<lparr>task := t\<rparr>)))) (\<lambda>u. case u of
             Inl _ \<Rightarrow> leave (from_error_data (req_id req) (internal_error ''task store write failed''))
           | Inr _ \<Rightarrow>
               async_bind (case message_id of Some mid \<Rightarrow> finish_message_id mid tid | None \<Rightarrow> ready ()) (\<lambda>_.
               async_bind (spawn_run_task srv (resolve_chain srv (skill_id st)) tid (message_history t)) (\<lambda>_.
               async_bind (drop_resume tid) (\<lambda>_.
               ready (response_ok (req_id req) (task_body t))))))))))"

text \<open>
  The idempotency check at the head of \<open>handle_tasks_send\<close>: an answer, or whether this call holds
  the reservation.
\<close>

definition send_reservation ::
  "('s, 'o) a2a_server \<Rightarrow> a2a_request \<Rightarrow> string option \<Rightarrow> string option \<Rightarrow> ('s, 'o, a2a_response + bool) task_fn" where
  "send_reservation srv req message_id caller = (case message_id of
     None \<Rightarrow> ready (Inr False)
   | Some mid \<Rightarrow> async_bind (reserve_message_id srv mid) (\<lambda>r. case r of
       Inr (Some existing) \<Rightarrow> async_bind (store_call (ts_get (tasks srv) existing)) (\<lambda>g.
         case (case g of Inr found \<Rightarrow> found | Inl _ \<Rightarrow> None) of
           Some st \<Rightarrow> ready (Inl (
             if caller_owns caller (task st) then response_ok (req_id req) (task_body (task st))
             else forbidden (req_id req) ''caller does not own the existing task''))
         | None \<Rightarrow> async_bind (abort_message_id mid) (\<lambda>_. ready (Inr False)))
     | Inr None \<Rightarrow> ready (Inr True)
     | Inl _ \<Rightarrow> ready (Inl (response_error (req_id req) (-32000)
         ''message_id is already being processed; retry''))))"

definition abort_reserved :: "bool \<Rightarrow> string option \<Rightarrow> ('s, 'o, unit) task_fn" where
  "abort_reserved reserved message_id = (if reserved then release_resume_id message_id else ready ())"

definition send_fresh ::
  "('s, 'o) a2a_server \<Rightarrow> a2a_request \<Rightarrow> json \<Rightarrow> a2a_message \<Rightarrow> string option \<Rightarrow> bool \<Rightarrow> string option \<Rightarrow>
   ('s, 'o, a2a_response) task_fn" where
  "send_fresh srv req ps msg message_id reserved caller =
     async_bind acquire_in_flight (\<lambda>permit.
     if \<not> permit then
       async_bind (abort_reserved reserved message_id) (\<lambda>_.
       ready (response_error (req_id req) 429 ''too many in-flight tasks; try again''))
     else
     async_bind (new_uuid srv) (\<lambda>tid.
     let t = (case caller of Some ow \<Rightarrow> with_owner ow (task_new tid msg) | None \<Rightarrow> task_new tid msg);
         skill = Option.bind (json_get ps ''skillId'') as_str in
     async_bind instant_now (\<lambda>now.
     let st1 = (case skill of Some sid \<Rightarrow> with_skill_id (Some sid) (stored_new now t) | None \<Rightarrow> stored_new now t);
         st2 = (case trace_id_of req of Some trc \<Rightarrow> with_trace_id trc st1 | None \<Rightarrow> st1) in
     async_bind (store_call (ts_upsert (tasks srv) st2)) (\<lambda>u. case u of
       Inl _ \<Rightarrow>
         async_bind (abort_reserved reserved message_id) (\<lambda>_.
         async_bind drop_in_flight (\<lambda>_.
         ready (from_error_data (req_id req) (internal_error ''task store write failed''))))
     | Inr _ \<Rightarrow>
         async_bind (if reserved then (case message_id of Some mid \<Rightarrow> finish_message_id mid tid | None \<Rightarrow> ready ())
                     else ready ()) (\<lambda>_.
         async_bind (spawn_run_task srv (resolve_chain srv skill) tid (message_history t)) (\<lambda>_.
         ready (response_ok (req_id req) (task_body t))))))))"

definition handle_tasks_send ::
  "('s, 'o) a2a_server \<Rightarrow> a2a_request \<Rightarrow> string option \<Rightarrow> ('s, 'o, a2a_response) task_fn" where
  "handle_tasks_send srv req caller = (case params req of
     None \<Rightarrow> ready (from_error_data (req_id req) (invalid_params ''Missing params for tasks/send''))
   | Some ps \<Rightarrow>
       let msg = extract_message srv ps; message_id = message_id_of req in
       async_bind (send_reservation srv req message_id caller) (\<lambda>res. case res of
         Inl resp \<Rightarrow> ready resp
       | Inr reserved \<Rightarrow> (case task_id_of req of
           Some tid \<Rightarrow> handle_tasks_send_continue srv req tid msg message_id caller
         | None \<Rightarrow> send_fresh srv req ps msg message_id reserved caller)))"

definition handle_tasks_send_subscribe ::
  "('s, 'o) a2a_server \<Rightarrow> a2a_request \<Rightarrow> string option \<Rightarrow> ('s, 'o, a2a_response) task_fn" where
  "handle_tasks_send_subscribe srv req caller = handle_tasks_send srv req caller"


section \<open>Reading, cancelling, listing\<close>

definition task_id_param :: "a2a_request \<Rightarrow> string" where
  "task_id_param req = (case task_id_of req of Some tid \<Rightarrow> tid | None \<Rightarrow> [])"

definition handle_tasks_get ::
  "('s, 'o) a2a_server \<Rightarrow> a2a_request \<Rightarrow> string option \<Rightarrow> ('s, 'o, a2a_response) task_fn" where
  "handle_tasks_get srv req caller =
     (let tid = task_id_param req in
      if tid = [] then ready (from_error_data (req_id req) (invalid_params ''Missing taskId parameter''))
      else
      async_bind (cleanup_expired_tasks srv) (\<lambda>_.
      async_bind (store_call (ts_get (tasks srv) tid)) (\<lambda>r. ready (case r of
        Inr (Some st) \<Rightarrow>
          if \<not> caller_owns caller (task st) then forbidden (req_id req) ''caller does not own this task''
          else task_details_response (req_id req) st
      | Inr None \<Rightarrow> task_not_found (req_id req) tid
      | Inl _ \<Rightarrow> from_error_data (req_id req) (internal_error ''task store read failed'')))))"

definition handle_tasks_cancel ::
  "('s, 'o) a2a_server \<Rightarrow> a2a_request \<Rightarrow> string option \<Rightarrow> ('s, 'o, a2a_response) task_fn" where
  "handle_tasks_cancel srv req caller =
     (let tid = task_id_param req in
      if tid = [] then ready (from_error_data (req_id req) (invalid_params ''Missing taskId parameter''))
      else
      async_bind (store_call (ts_get (tasks srv) tid)) (\<lambda>r. case r of
        Inl _ \<Rightarrow> ready (task_not_found (req_id req) tid)
      | Inr None \<Rightarrow> ready (task_not_found (req_id req) tid)
      | Inr (Some st) \<Rightarrow>
          if \<not> caller_owns caller (task st) then ready (forbidden (req_id req) ''caller does not own this task'')
          else if is_terminal (status (task st)) then ready (response_ok (req_id req) (task_body (task st)))
          else
          async_bind instant_now (\<lambda>now.
          let cancelled = touch now (st\<lparr>task := with_status Cancelled (task st)\<rparr>) in
          async_bind (compare_and_update srv tid cancelled) (\<lambda>c. case c of
            Inr True \<Rightarrow>
              async_bind (publish_status srv tid Cancelled None) (\<lambda>_.
              async_bind (fire_cancellation tid) (\<lambda>_.
              ready (response_ok (req_id req) (task_body (task cancelled)))))
          | Inr False \<Rightarrow>
              async_bind (store_call (ts_get (tasks srv) tid)) (\<lambda>r2. ready (case r2 of
                Inr (Some st2) \<Rightarrow>
                  if is_terminal (status (task st2)) then response_ok (req_id req) (task_body (task st2))
                  else response_error (req_id req) (-32002)
                    (''Cannot cancel task in state '' @ status_name (status (task st2)))
              | _ \<Rightarrow> task_not_found (req_id req) tid))
          | Inl _ \<Rightarrow> ready (from_error_data (req_id req) (internal_error ''task store write failed''))))))"

definition parse_pagination_limit :: "json option \<Rightarrow> nat" where
  "parse_pagination_limit v = (case v of
     Some (JInt n) \<Rightarrow> if 0 \<le> n \<and> n < 2 ^ 64 then min 1000 (max 1 (nat n)) else 50
   | _ \<Rightarrow> 50)"

definition list_filter :: "a2a_request \<Rightarrow> string option \<Rightarrow> a2a_response + task_filter" where
  "list_filter req caller =
     (let narrow = (\<lambda>f. if filter_owner f = None then f\<lparr>filter_owner := caller\<rparr> else f);
          f0 = filter_new\<lparr>filter_owner := str_field (params req) ''owner''\<rparr>
      in case str_field (params req) ''status'' of
           None \<Rightarrow> Inr (narrow f0)
         | Some name \<Rightarrow> (case status_of_name name of
             Some st \<Rightarrow> Inr (narrow (f0\<lparr>filter_statuses := Some [st]\<rparr>))
           | None \<Rightarrow> Inl (from_error_data (req_id req) (invalid_params (''Invalid status `'' @ name @ ''`'')))))"

fun list_position :: "('a \<Rightarrow> bool) \<Rightarrow> 'a list \<Rightarrow> nat option" where
  "list_position P [] = None"
| "list_position P (x # xs) = (if P x then Some 0 else map_option Suc (list_position P xs))"

definition list_page :: "a2a_request \<Rightarrow> a2a_task list \<Rightarrow> a2a_response" where
  "list_page req visible =
     (let limit = parse_pagination_limit (Option.bind (params req) (\<lambda>p. json_get p ''limit''));
          start = (case str_field (params req) ''cursor'' of
                     Some c \<Rightarrow> (case list_position (\<lambda>t. task_id t = c) visible of Some i \<Rightarrow> i + 1 | None \<Rightarrow> 0)
                   | None \<Rightarrow> 0);
          stop = min (start + limit) (length visible);
          page = take (stop - start) (drop start visible);
          has_more = (stop < length visible)
      in response_ok (req_id req) (JObject
           ([(''hasMore'', JBool has_more)] @
            (if has_more \<and> page \<noteq> [] then [(''nextCursor'', JString (task_id (last page)))] else []) @
            [(''tasks'', JArray (map task_json page))])))"

definition handle_tasks_list ::
  "('s, 'o) a2a_server \<Rightarrow> a2a_request \<Rightarrow> string option \<Rightarrow> ('s, 'o, a2a_response) task_fn" where
  "handle_tasks_list srv req caller =
     async_bind (cleanup_expired_tasks srv) (\<lambda>_. case list_filter req caller of
       Inl resp \<Rightarrow> ready resp
     | Inr f \<Rightarrow> async_bind (store_call (ts_list (tasks srv) f)) (\<lambda>r. ready (case r of
         Inr l \<Rightarrow> list_page req (sort_key task_id (filter (caller_owns caller) (map task l)))
       | Inl _ \<Rightarrow> from_error_data (req_id req) (internal_error ''task store read failed''))))"


section \<open>Workflows\<close>

definition MAX_WORKFLOW_STEPS :: nat where
  "MAX_WORKFLOW_STEPS = 50"

definition start_workflow ::
  "('s, 'o) a2a_server \<Rightarrow> a2a_request \<Rightarrow> a2a_workflow \<Rightarrow> string \<Rightarrow> string option \<Rightarrow> ('s, 'o, a2a_response) task_fn" where
  "start_workflow srv req flow tid caller =
     (let t0 = with_status Working (task_new tid (message_user
            (''workflow: '' @ (case workflow_name flow of Some n \<Rightarrow> n | None \<Rightarrow> ''unnamed''))));
          t = (case caller of Some ow \<Rightarrow> with_owner ow t0 | None \<Rightarrow> t0) in
      async_bind instant_now (\<lambda>now.
      let st = (case trace_id_of req of Some trc \<Rightarrow> with_trace_id trc (stored_new now t) | None \<Rightarrow> stored_new now t) in
      async_bind acquire_in_flight (\<lambda>permit.
      if \<not> permit then ready (response_error (req_id req) 429 ''too many in-flight workflows; try again'')
      else
      async_bind (upsert_claimed srv tid st) (\<lambda>c. case c of
        Inr True \<Rightarrow>
          async_bind (publish_status srv tid Working None) (\<lambda>_.
          async_bind (spawn (async_bind
            (run_workflow srv (workflow_steps flow) (map (\<lambda>s. resolve_chain srv (step_skill s)) (workflow_steps flow)) tid)
            (\<lambda>_. drop_in_flight))) (\<lambda>_.
          ready (response_ok (req_id req) (task_body t))))
      | Inr False \<Rightarrow> async_bind drop_in_flight (\<lambda>_.
          ready (forbidden (req_id req) ''caller does not own the existing task''))
      | Inl _ \<Rightarrow> async_bind drop_in_flight (\<lambda>_.
          ready (from_error_data (req_id req) (internal_error ''task store write failed'')))))))"

definition handle_workflow_run ::
  "('s, 'o) a2a_server \<Rightarrow> a2a_request \<Rightarrow> string option \<Rightarrow> ('s, 'o, a2a_response) task_fn" where
  "handle_workflow_run srv req caller =
     (let invalid = (\<lambda>why. ready (from_error_data (req_id req) (invalid_params why))) in
      case params req of
        None \<Rightarrow> invalid ''Missing params for tasks/runWorkflow''
      | Some ps \<Rightarrow> (case json_get ps ''workflow'' of
          None \<Rightarrow> invalid ''Missing workflow for tasks/runWorkflow''
        | Some wv \<Rightarrow> (case workflow_of_json srv wv of
            None \<Rightarrow> invalid ''Malformed workflow''
          | Some flow \<Rightarrow>
              if workflow_steps flow = [] then invalid ''Workflow has no steps''
              else if length (workflow_steps flow) > MAX_WORKFLOW_STEPS then
                invalid (''Workflow exceeds the maximum of '' @ show_nat MAX_WORKFLOW_STEPS @ '' steps'')
              else async_bind (case workflow_id flow of Some i \<Rightarrow> ready i | None \<Rightarrow> new_uuid srv) (\<lambda>tid.
                start_workflow srv req flow tid caller))))"


section \<open>The funnel\<close>

definition dispatch ::
  "('s, 'o) a2a_server \<Rightarrow> a2a_request \<Rightarrow> string option \<Rightarrow> ('s, 'o, a2a_response) task_fn" where
  "dispatch srv req caller =
     (if req_method req = ''tasks/send'' then handle_tasks_send srv req caller
      else if req_method req = ''tasks/sendSubscribe'' then handle_tasks_send_subscribe srv req caller
      else if req_method req = ''tasks/get'' then handle_tasks_get srv req caller
      else if req_method req = ''tasks/cancel'' then handle_tasks_cancel srv req caller
      else if req_method req = ''tasks/list'' then handle_tasks_list srv req caller
      else if req_method req = ''tasks/runWorkflow'' then handle_workflow_run srv req caller
      else ready (from_error_data (req_id req) method_not_found))"

datatype rate_limit_error = TooManyRequests | ConcurrencyLimitExceeded

fun rate_limit_text :: "rate_limit_error \<Rightarrow> string" where
  "rate_limit_text TooManyRequests = ''request rate limit exceeded''"
| "rate_limit_text ConcurrencyLimitExceeded = ''too many concurrent requests''"

text \<open>The window of one minute, in nanoseconds.\<close>

definition RATE_WINDOW :: nat where
  "RATE_WINDOW = 60000000000"

definition try_acquire :: "nat \<Rightarrow> ('s, 'o, rate_limit_error option) task_fn" where
  "try_acquire max_requests = atomically (\<lambda>w.
     let win = (if clock w - window_start (limiter_window w) \<ge> RATE_WINDOW
                then \<lparr>window_start = clock w, window_count = 0\<rparr> else limiter_window w);
         w1 = w\<lparr>limiter_window := win\<rparr>
     in if max_requests > 0 \<and> window_count win \<ge> max_requests then (Some TooManyRequests, w1)
        else if limiter_permits w = 0 then (Some ConcurrencyLimitExceeded, w1)
        else (None, w1\<lparr>limiter_permits := limiter_permits w - 1,
               limiter_window := (if max_requests > 0 then win\<lparr>window_count := window_count win + 1\<rparr> else win)\<rparr>))"

definition drop_rate_permit :: "('s, 'o, unit) task_fn" where
  "drop_rate_permit = atomically (\<lambda>w. ((), w\<lparr>limiter_permits := Suc (limiter_permits w)\<rparr>))"

definition accepts_payload :: "nat option \<Rightarrow> nat \<Rightarrow> bool" where
  "accepts_payload max_payload_bytes bytes = (case max_payload_bytes of Some limit \<Rightarrow> bytes \<le> limit | None \<Rightarrow> True)"

text \<open>The checks after the protocol version: payload size and rate limit; the permit spans the dispatch.\<close>

definition admit_request ::
  "('s, 'o) a2a_server \<Rightarrow> a2a_request \<Rightarrow> string option \<Rightarrow> ('s, 'o, a2a_response) task_fn" where
  "admit_request srv req caller =
     (if (case sandbox srv of Some limit \<Rightarrow> \<not> accepts_payload limit (request_size srv req) | None \<Rightarrow> False) then
        ready (response_error (req_id req) 413
          (''request payload of '' @ show_nat (request_size srv req) @ '' bytes exceeds sandbox limit''))
      else case rate_limiter srv of
        None \<Rightarrow> dispatch srv req caller
      | Some max_requests \<Rightarrow> async_bind (try_acquire max_requests) (\<lambda>refusal. case refusal of
          Some e \<Rightarrow> ready (response_error (req_id req) 429 (rate_limit_text e))
        | None \<Rightarrow> async_bind (dispatch srv req caller) (\<lambda>resp.
            async_bind drop_rate_permit (\<lambda>_. ready resp))))"

definition handle_a2a_request_with_owner ::
  "('s, 'o) a2a_server \<Rightarrow> a2a_request \<Rightarrow> string option \<Rightarrow> ('s, 'o, a2a_response) task_fn" where
  "handle_a2a_request_with_owner srv req caller =
     (if jsonrpc req \<noteq> ''2.0'' then
        ready (response_error (req_id req) (-32600) (''unsupported JSON-RPC version: '' @ jsonrpc req))
      else case protocol_version req of
        Some version \<Rightarrow>
          if version \<notin> set (allowed_protocol_versions srv) then
            ready (response_error (req_id req) (-32600) (''unsupported A2A protocolVersion: '' @ version))
          else admit_request srv req caller
      | None \<Rightarrow> admit_request srv req caller)"

definition handle_a2a_request_authenticated ::
  "('s, 'o) a2a_server \<Rightarrow> a2a_request \<Rightarrow> string option \<Rightarrow> ('s, 'o, a2a_response) task_fn" where
  "handle_a2a_request_authenticated srv req bearer = (case check_auth srv (req_id req) bearer of
     Inl resp \<Rightarrow> ready resp
   | Inr who \<Rightarrow> handle_a2a_request_with_owner srv req (resolve_owner srv req who))"

definition handle_a2a_request :: "('s, 'o) a2a_server \<Rightarrow> a2a_request \<Rightarrow> ('s, 'o, a2a_response) task_fn" where
  "handle_a2a_request srv req = handle_a2a_request_authenticated srv req None"


section \<open>The running server\<close>

text \<open>A request with its bearer token, served by one process; the answer goes into a log.\<close>

definition caller_of :: "('s, 'o) a2a_server \<Rightarrow> a2a_request \<Rightarrow> string option \<Rightarrow> string option" where
  "caller_of srv req bearer = (case check_auth srv (req_id req) bearer of
     Inl _ \<Rightarrow> None
   | Inr who \<Rightarrow> resolve_owner srv req who)"

definition log_answer :: "a2a_request \<Rightarrow> string option \<Rightarrow> a2a_response \<Rightarrow> ('s, 'o, unit) task_fn" where
  "log_answer req bearer resp = atomically (\<lambda>w. ((), w\<lparr>answered := answered w @ [(req, bearer, resp)]\<rparr>))"

definition serve :: "('s, 'o) a2a_server \<Rightarrow> a2a_request \<Rightarrow> string option \<Rightarrow> ('s, 'o) server_state proc" where
  "serve srv req bearer =
     async_bind (handle_a2a_request_authenticated srv req bearer) (log_answer req bearer) (\<lambda>_. Done)"

datatype event =
    Arrive a2a_request "string option"
  | Turn nat nat
  | Pass nat
  | Sweep

fun perform :: "('s, 'o) a2a_server \<Rightarrow> event \<Rightarrow> ('s, 'o) server_state pool \<Rightarrow> ('s, 'o) server_state pool option" where
  "perform srv (Arrive req bearer) (ps, w) = Some (ps @ [serve srv req bearer], w)"
| "perform srv (Turn i c) pl = take_turn i c pl"
| "perform srv (Pass d) (ps, w) = Some (ps, w\<lparr>clock := clock w + d\<rparr>)"
| "perform srv Sweep (ps, w) = map_option (\<lambda>ttl. (ps @ [sweep_expired_tasks srv ttl (\<lambda>_. Done)], w)) (task_ttl srv)"

text \<open>What a server may come to, when the events satisfy \<open>admitted\<close>.\<close>

inductive runs ::
  "('s, 'o) a2a_server \<Rightarrow> (event \<Rightarrow> bool) \<Rightarrow> ('s, 'o) server_state pool \<Rightarrow> ('s, 'o) server_state pool \<Rightarrow> bool"
  for srv admitted init where
  start: "runs srv admitted init init"
| step: "runs srv admitted init pl \<Longrightarrow> admitted ev \<Longrightarrow> perform srv ev pl = Some pl' \<Longrightarrow> runs srv admitted init pl'"

text \<open>A server that has not served yet.\<close>

definition server_start :: "'s \<Rightarrow> nat \<Rightarrow> nat \<Rightarrow> 'o \<Rightarrow> ('s, 'o) server_state" where
  "server_start s max_in_flight max_concurrent out = \<lparr>store = s,
     message_ids = \<lparr>id_map = [], id_order = []\<rparr>, inflight_resumes = [], cancellations = [], signals = [],
     in_flight = max_in_flight, limiter_permits = max_concurrent,
     limiter_window = \<lparr>window_start = 0, window_count = 0\<rparr>, clock = 0, uuid_count = 0, published = [],
     outer = out, answered = []\<rparr>"

text \<open>One interleaving, given as the list of its events.\<close>

fun perform_all ::
  "('s, 'o) a2a_server \<Rightarrow> event list \<Rightarrow> ('s, 'o) server_state pool \<Rightarrow> ('s, 'o) server_state pool option" where
  "perform_all srv [] pl = Some pl"
| "perform_all srv (ev # evs) pl = Option.bind (perform srv ev pl) (perform_all srv evs)"

lemma perform_all_append:
  "perform_all srv (evs @ evs') pl = Option.bind (perform_all srv evs pl) (perform_all srv evs')"
proof (induction evs arbitrary: pl)
  case (Cons ev evs)
  show ?case by (cases "perform srv ev pl") (simp_all add: Cons.IH)
qed simp

lemma perform_all_runs:
  "runs srv admitted init pl \<Longrightarrow> perform_all srv evs pl = Some pl' \<Longrightarrow> (\<And>ev. ev \<in> set evs \<Longrightarrow> admitted ev) \<Longrightarrow>
   runs srv admitted init pl'"
proof (induction evs arbitrary: pl)
  case (Cons ev evs)
  from Cons.prems(2) obtain pl1 where pl1: "perform srv ev pl = Some pl1" "perform_all srv evs pl1 = Some pl'"
    by (cases "perform srv ev pl") simp_all
  have "runs srv admitted init pl1" using Cons.prems(3) by (intro runs.step [OF Cons.prems(1) _ pl1(1)]) auto
  then show ?case using Cons.IH pl1(2) Cons.prems(3) by auto
qed simp

text \<open>
  The rule for every interleaving: when the requests that may arrive and the sweeper obey, and the
  invariant does not depend on the clock, the pool obeys at every moment.
\<close>

lemma runs_obey:
  assumes "runs srv admitted ([], w0) pl" and "R {#} w0"
    and "\<And>req bearer. admitted (Arrive req bearer) \<Longrightarrow> obeys R G {#} (serve srv req bearer)"
    and "\<And>ttl. admitted Sweep \<Longrightarrow> task_ttl srv = Some ttl \<Longrightarrow> obeys R G {#} (sweep_expired_tasks srv ttl (\<lambda>_. Done))"
    and "\<And>h w d. R h w \<Longrightarrow> R h (w\<lparr>clock := clock w + d\<rparr>)"
  shows "pool_obeys R G pl"
  using assms(1)
proof (induction rule: runs.induct)
  case start
  show ?case using assms(2) by (rule pool_obeys_Nil)
next
  case (step pl ev pl')
  obtain ps w where pl: "pl = (ps, w)" by (cases pl)
  show ?case
  proof (cases ev)
    case (Arrive req bearer)
    then show ?thesis using step pl assms(3) by (auto intro: pool_obeys_add)
  next
    case (Turn i c)
    then have "pool_step pl pl'" using step.hyps(3) by (simp add: turn_pool_step)
    then show ?thesis using pool_step_obeys step.IH by blast
  next
    case (Pass d)
    then show ?thesis using step pl assms(5) by (auto simp: pool_obeys_def)
  next
    case Sweep
    then show ?thesis using step pl assms(4) by (auto intro: pool_obeys_add)
  qed
qed


text \<open>Every event of such a run leaves the store alone or is a step that the guarantee allows.\<close>

lemma perform_allowed:
  assumes "perform srv ev pl = Some pl'" and "pool_obeys R G pl"
  shows "store (snd pl') = store (snd pl) \<or> G (snd pl) (snd pl')"
proof (cases ev)
  case (Turn i c)
  then have "pool_step pl pl'" using assms(1) by (simp add: turn_pool_step)
  then show ?thesis using pool_step_obeys assms(2) by metis
qed (use assms(1) in \<open>cases pl; auto\<close>)+

end
