(* ===== verification/A2a_Rules.thy ===== *)
theory A2a_Rules
  imports A2a_Routes
begin

text \<open>
  Proof rules for the server's actions, for an invariant \<open>R\<close> over the tokens held and a guarantee \<open>G\<close>.
  The locale \<open>quiet\<close> asks that both ignore the event bus and the outside; \<open>worker\<close> adds that they
  accept what a worker does to the store, and proves the background workers once. The locale
  \<open>steady\<close> covers the invariants that look at the stored tasks, the ids drawn and the answers only:
  the actions on idempotency keys, permits, guards and signals keep them.
\<close>

section \<open>Events and the outside\<close>

definition same_but_events :: "('s, 'o) server_state \<Rightarrow> ('s, 'o) server_state \<Rightarrow> bool" where
  "same_but_events w w' \<longleftrightarrow> (\<exists>p x. w' = w\<lparr>published := p, outer := x\<rparr>)"

lemma same_but_events_updates [simp]:
  "same_but_events w w" "same_but_events w (w\<lparr>published := p\<rparr>)" "same_but_events w (w\<lparr>outer := x\<rparr>)"
proof -
  show "same_but_events w w" unfolding same_but_events_def
    by (rule exI [of _ "published w"], rule exI [of _ "outer w"]) simp
  show "same_but_events w (w\<lparr>published := p\<rparr>)" unfolding same_but_events_def
    by (rule exI [of _ p], rule exI [of _ "outer w"]) simp
  show "same_but_events w (w\<lparr>outer := x\<rparr>)" unfolding same_but_events_def
    by (rule exI [of _ "published w"], rule exI [of _ x]) simp
qed

locale quiet =
  fixes R :: "'r multiset \<Rightarrow> ('s, 'o) server_state \<Rightarrow> bool"
    and G :: "('s, 'o) server_state \<Rightarrow> ('s, 'o) server_state \<Rightarrow> bool"
  assumes R_events: "R h w \<Longrightarrow> same_but_events w w' \<Longrightarrow> R h w'"
    and G_events: "same_but_events w w' \<Longrightarrow> G w w'"
begin

lemma select_events:
  assumes "\<And>w a w'. (a, w') \<in> set (f w) \<Longrightarrow> same_but_events w w'" and "\<And>a. P h a"
  shows "yields R G h P (select f)"
  using assms by (intro yields_select) (blast intro: R_events G_events)

lemma atomically_events:
  assumes "\<And>w. same_but_events w (snd (f w))" and "\<And>a. P h a"
  shows "yields R G h P (atomically f)"
  using assms by (intro yields_atomically) (blast intro: R_events G_events)

lemma instant_now_quiet: "(\<And>a. P h a) \<Longrightarrow> yields R G h P instant_now"
  unfolding instant_now_def by (intro atomically_events) auto

lemma publish_quiet: "P h () \<Longrightarrow> yields R G h P (publish_event srv n)"
  unfolding publish_event_def by (auto intro!: atomically_events yields_ready)

lemma publish_status_quiet:
  "P h () \<Longrightarrow> yields R G h P (publish_status srv tid st problem)"
  "P h () \<Longrightarrow> yields R G h P (publish_artifact srv tid a)"
  unfolding publish_status_def publish_artifact_def by (auto intro!: publish_quiet)

lemma invoke_quiet:
  "(\<And>a. P h a) \<Longrightarrow> yields R G h P (select (\<lambda>w. (case f (outer w) of (r, o') \<Rightarrow> [(Some r, w\<lparr>outer := o'\<rparr>)]) @
     (if is_cancelled w sig then [(None, w)] else [])))"
  by (rule select_events) (auto split: prod.splits if_splits)

lemma run_steps_quiet: "(\<And>a. P h a) \<Longrightarrow> yields R G h P (run_steps steps results)"
proof (induction steps results rule: run_steps.induct)
  case (1 results)
  then show ?case by (simp add: yields_ready)
next
  case (2 step ch rest results)
  show ?case unfolding run_steps.simps
    by (rule yields_bind, rule atomically_events)
      (auto split: prod.splits sum.splits intro!: yields_ready "2.IH" "2.prems")
qed

lemmas quiet_rules = instant_now_quiet publish_status_quiet invoke_quiet run_steps_quiet

end


section \<open>Workers\<close>

text \<open>\<open>snapshot i st\<close>: what is known of a task read from the store under the id \<open>i\<close>.\<close>

locale worker = quiet R G
  for R :: "'r multiset \<Rightarrow> ('s, 'o) server_state \<Rightarrow> bool" and G +
  fixes srv :: "('s, 'o) a2a_server" and snapshot :: "string \<Rightarrow> stored_task \<Rightarrow> bool"
  assumes snapshot_cong: "snapshot i st \<Longrightarrow> task_id (task st') = task_id (task st) \<Longrightarrow> snapshot i st'"
    and get_rule: "(\<And>r. (\<And>st. r = Inr (Some st) \<Longrightarrow> snapshot i st) \<Longrightarrow> P h r) \<Longrightarrow>
      yields R G h P (store_call (ts_get (tasks srv) i))"
    and cas_rule: "snapshot i st \<Longrightarrow> (\<And>c. Q h c) \<Longrightarrow> yields R G h Q (compare_and_update srv i st)"
begin

lemma read_rule:
  assumes "\<And>found. (\<And>st. found = Some st \<Longrightarrow> snapshot i st) \<Longrightarrow> P h found"
  shows "yields R G h P (read_with_retry srv i)"
proof -
  have "yields R G h P (read_attempts srv i n)" for n
  proof (induction n)
    case (Suc n)
    show ?case unfolding read_attempts.simps
      by (rule yields_bind, rule get_rule)
        (auto split: sum.splits intro!: yields_ready assms Suc)
  qed (auto intro!: yields_ready assms)
  then show ?thesis by (simp add: read_with_retry_def)
qed

lemma transition_rule:
  assumes "\<And>st. found = Some st \<Longrightarrow> snapshot i st"
    and "\<And>st. task_id (task (change st)) = task_id (task st)"
    and "yields R G h P announce" and "P h ()"
  shows "yields R G h P (transition srv i found target change announce)"
proof (cases found)
  case None
  then show ?thesis using assms(4) by (simp add: transition_def yields_ready)
next
  case (Some st)
  have "snapshot i (touch now (change (st\<lparr>task := with_status target (task st)\<rparr>)))" for now
    using assms(1) [OF Some] by (rule snapshot_cong) (simp add: touch_def assms(2) with_status_def)
  then show ?thesis unfolding transition_def cas_apply_def Some option.case
    by (auto intro!: yields_rules quiet_rules cas_rule assms(3,4))
qed

lemma run_task_rule: "P h () \<Longrightarrow> yields R G h P (run_task srv ch i hist cancel)"
  unfolding run_task_def Let_def
  by (rule yields_bind, rule read_rule, rule yields_bind, rule transition_rule,
      assumption, simp, rule quiet_rules,
      (rule yields_bind, rule invoke_quiet,
        auto split: option.split sum.split
          intro!: yields_rules read_rule transition_rule quiet_rules)+)

lemma run_workflow_rule: "P h () \<Longrightarrow> yields R G h P (run_workflow srv steps chs i)"
  unfolding run_workflow_def Let_def
  by (auto split: option.split sum.split prod.split
      intro!: yields_rules quiet_rules get_rule transition_rule)

end


section \<open>Invariants of tasks and answers\<close>

definition same_tasks :: "('s, 'o) server_state \<Rightarrow> ('s, 'o) server_state \<Rightarrow> bool" where
  "same_tasks w w' \<longleftrightarrow> store w' = store w \<and> uuid_count w' = uuid_count w \<and> answered w' = answered w"

locale steady =
  fixes R :: "'r multiset \<Rightarrow> ('s, 'o) server_state \<Rightarrow> bool"
    and G :: "('s, 'o) server_state \<Rightarrow> ('s, 'o) server_state \<Rightarrow> bool"
  assumes R_same: "R h w \<Longrightarrow> same_tasks w w' \<Longrightarrow> R h w'"
    and G_same: "same_tasks w w' \<Longrightarrow> G w w'"
begin

lemma same_events: "same_but_events w w' \<Longrightarrow> same_tasks w w'"
  by (auto simp: same_but_events_def same_tasks_def)

end

sublocale steady \<subseteq> quiet
  by unfold_locales (blast intro: R_same G_same same_events)+

context steady
begin

lemma atomically_same:
  assumes "\<And>w. same_tasks w (snd (f w))" and "\<And>a. P h a"
  shows "yields R G h P (atomically f)"
  using assms by (intro yields_atomically) (blast intro: R_same G_same)

lemma on_ids_steady: "(\<And>a. P h a) \<Longrightarrow> yields R G h P (on_ids f)"
  unfolding on_ids_def by (intro atomically_same) (auto simp: same_tasks_def split: prod.split)

lemma acquire_in_flight_steady: "(\<And>a. P h a) \<Longrightarrow> yields R G h P acquire_in_flight"
  unfolding acquire_in_flight_def by (intro atomically_same) (auto simp: same_tasks_def)

lemma drop_in_flight_steady: "P h () \<Longrightarrow> yields R G h P drop_in_flight"
  unfolding drop_in_flight_def by (intro atomically_same) (auto simp: same_tasks_def)

lemma begin_resume_steady: "(\<And>a. P h a) \<Longrightarrow> yields R G h P (begin_resume tid)"
  unfolding begin_resume_def by (intro atomically_same) (auto simp: same_tasks_def)

lemma drop_resume_steady: "P h () \<Longrightarrow> yields R G h P (drop_resume tid)"
  unfolding drop_resume_def by (intro atomically_same) (auto simp: same_tasks_def)

lemma register_cancellation_steady: "(\<And>a. P h a) \<Longrightarrow> yields R G h P (register_cancellation tid)"
  unfolding register_cancellation_def by (intro atomically_same) (auto simp: same_tasks_def)

lemma remove_cancellation_steady: "P h () \<Longrightarrow> yields R G h P (remove_cancellation tid)"
  unfolding remove_cancellation_def by (intro atomically_same) (auto simp: same_tasks_def)

lemma fire_cancellation_steady: "P h () \<Longrightarrow> yields R G h P (fire_cancellation tid)"
  unfolding fire_cancellation_def by (intro atomically_same) (auto simp: same_tasks_def split: option.split)

lemma try_acquire_steady: "(\<And>a. P h a) \<Longrightarrow> yields R G h P (try_acquire n)"
  unfolding try_acquire_def by (intro atomically_same) (auto simp: same_tasks_def Let_def)

lemma drop_rate_permit_steady: "P h () \<Longrightarrow> yields R G h P drop_rate_permit"
  unfolding drop_rate_permit_def by (intro atomically_same) (auto simp: same_tasks_def)

lemma ids_steady:
  "(\<And>a. P h a) \<Longrightarrow> yields R G h P (claim_message_id mid)"
  "Q h () \<Longrightarrow> yields R G h Q (finish_message_id mid tid)"
  "Q h () \<Longrightarrow> yields R G h Q (abort_message_id mid)"
  unfolding claim_message_id_def finish_message_id_def abort_message_id_def
  by (auto intro!: on_ids_steady)

lemma release_steady:
  "P h () \<Longrightarrow> yields R G h P (release_resume_id message_id)"
  "P h () \<Longrightarrow> yields R G h P (abort_reserved reserved message_id)"
  unfolding abort_reserved_def release_resume_id_def
  by (auto split: option.split intro!: ids_steady yields_ready)

lemmas steady_rules = quiet_rules ids_steady release_steady on_ids_steady acquire_in_flight_steady
  drop_in_flight_steady begin_resume_steady drop_resume_steady register_cancellation_steady
  remove_cancellation_steady fire_cancellation_steady try_acquire_steady drop_rate_permit_steady

end

end
