(* ===== verification/A2a_Ownership.thy ===== *)
theory A2a_Ownership
  imports A2a_Rules
begin

text \<open>
  Ownership in every interleaving: which tasks the answers of the server disclose, for any task
  store, also one that keeps the racy default methods of the trait. The snapshot a handler answers
  with is the one whose owner it checked; \<open>tasks/cancel\<close> is the exception, and a concrete run shows
  what it discloses.
\<close>

definition disclosed :: "a2a_response \<Rightarrow> json list" where
  "disclosed resp = (case result resp of
     None \<Rightarrow> []
   | Some v \<Rightarrow>
       (case json_get v ''task'' of Some t \<Rightarrow> [t] | None \<Rightarrow> []) @
       (case Option.bind (json_get v ''tasks'') as_array of Some ts \<Rightarrow> ts | None \<Rightarrow> []))"

definition json_owner :: "json \<Rightarrow> string option" where
  "json_owner t = Option.bind (json_get t ''owner'') as_str"

definition protected_from :: "string option \<Rightarrow> a2a_response \<Rightarrow> bool" where
  "protected_from caller resp \<longleftrightarrow> (\<forall>t \<in> set (disclosed resp). json_owner t = None \<or> json_owner t = caller)"

lemma json_owner_task [simp]: "json_owner (task_json t) = owner t"
  by (cases "owner t") (simp_all add: json_owner_def task_json_owner)

lemma caller_owns_iff: "caller_owns caller t \<longleftrightarrow> owner t = None \<or> owner t = caller"
  by (auto simp: caller_owns_def split: option.splits)

lemma protected_errors [simp]:
  "protected_from caller (from_error_data i e)" "protected_from caller (response_error i c m)"
  "protected_from caller (forbidden i m)" "protected_from caller (task_not_found i tid)"
  by (simp_all add: protected_from_def disclosed_def from_error_data_def response_error_def
      forbidden_def task_not_found_def)

lemma protected_task [simp]: "protected_from caller (response_ok i (task_body t)) \<longleftrightarrow> caller_owns caller t"
  by (auto simp: protected_from_def disclosed_def response_ok_def task_body_def caller_owns_iff)

lemma protected_details [simp]:
  "protected_from caller (task_details_response i st) \<longleftrightarrow> caller_owns caller (task st)"
  by (auto simp: protected_from_def disclosed_def response_ok_def task_details_response_def
      caller_owns_iff split: option.splits)

lemma protected_page: "(\<And>t. t \<in> set ts \<Longrightarrow> caller_owns caller t) \<Longrightarrow> protected_from caller (list_page req ts)"
  by (auto simp: protected_from_def disclosed_def list_page_def response_ok_def Let_def caller_owns_iff
      dest!: in_set_takeD in_set_dropD)

lemma caller_owns_updates [simp]:
  "caller_owns caller (push_message m t) = caller_owns caller t"
  "caller_owns caller (with_status s t) = caller_owns caller t"
  "caller_owns caller (if b then t else u) \<longleftrightarrow> (b \<longrightarrow> caller_owns caller t) \<and> (\<not> b \<longrightarrow> caller_owns caller u)"
  by (simp_all add: caller_owns_iff push_message_def with_status_def)

lemma caller_owns_new [simp]:
  "caller_owns caller (case caller of Some ow \<Rightarrow> with_owner ow t | None \<Rightarrow> t) \<longleftrightarrow>
   caller \<noteq> None \<or> owner t = None"
  by (cases caller) (simp_all add: caller_owns_iff with_owner_def)

lemma owner_new [simp]: "owner (task_new i m) = None" "owner (with_status s t) = owner t"
  by (simp_all add: task_new_def with_status_def)


section \<open>Every process answers with what its caller may see\<close>

definition answers_fit :: "('s, 'o) a2a_server \<Rightarrow> unit multiset \<Rightarrow> ('s, 'o) server_state \<Rightarrow> bool" where
  "answers_fit srv h w \<longleftrightarrow> (\<forall>(req, bearer, resp) \<in> set (answered w).
     req_method req \<noteq> ''tasks/cancel'' \<longrightarrow> protected_from (caller_of srv req bearer) resp)"

definition any_step :: "'w \<Rightarrow> 'w \<Rightarrow> bool" where
  "any_step w w' \<longleftrightarrow> True"

interpretation own: steady "answers_fit srv" any_step for srv
  by unfold_locales (auto simp: answers_fit_def any_step_def same_tasks_def)

lemma own_atomically:
  assumes "\<And>w. answered (snd (f w)) = answered w" and "\<And>a. P h a"
  shows "yields (answers_fit srv) any_step h P (atomically f)"
  using assms by (intro yields_atomically) (auto simp: answers_fit_def any_step_def)

lemma own_store: "(\<And>a. P h a) \<Longrightarrow> yields (answers_fit srv) any_step h P (store_call f)"
  unfolding store_call_def by (rule own_atomically) (simp_all split: prod.split)

lemma own_uuid: "(\<And>a. P h a) \<Longrightarrow> yields (answers_fit srv) any_step h P (new_uuid srv')"
  unfolding new_uuid_def by (rule own_atomically) simp_all

lemma own_writes:
  "(\<And>a. P h a) \<Longrightarrow> yields (answers_fit srv) any_step h P (compare_and_update srv' i st)"
  "(\<And>a. P h a) \<Longrightarrow> yields (answers_fit srv) any_step h P (upsert_claimed srv' i st)"
  unfolding compare_and_update_def upsert_claimed_def
  by (auto intro!: yields_rules own_store)

interpretation own_worker: worker "answers_fit srv" any_step srv "\<lambda>_ _. True" for srv
  by unfold_locales (auto intro: own_store own_writes)

lemmas own_rules = yields_rules own.steady_rules own_store own_uuid own_writes
  own_worker.run_task_rule own_worker.run_workflow_rule

lemma own_spawn:
  assumes "yields (answers_fit srv) any_step {#} (\<lambda>h _. h = {#}) m" and "P {#} ()"
  shows "yields (answers_fit srv) any_step {#} P (spawn m)"
  using assms by (rule yields_spawn) simp

lemma own_cleanup:
  "P h () \<Longrightarrow> yields (answers_fit srv) any_step h P (cleanup_expired_tasks srv)"
  unfolding cleanup_expired_tasks_def sweep_expired_tasks_def
  by (auto intro!: own_rules yields_for)

lemma own_spawn_run_task:
  "P {#} () \<Longrightarrow> yields (answers_fit srv) any_step {#} P (spawn_run_task srv ch i hist)"
  unfolding spawn_run_task_def by (auto intro!: own_rules own_spawn)

lemma own_reserve:
  "(\<And>a. P h a) \<Longrightarrow> yields (answers_fit srv) any_step h P (reserve_message_id srv mid)"
  unfolding reserve_message_id_def by (auto intro!: own_rules)

lemma own_send_reservation:
  assumes "\<And>resp. protected_from caller resp \<Longrightarrow> P {#} (Inl resp)" and "\<And>b. P {#} (Inr b)"
  shows "yields (answers_fit srv) any_step {#} P (send_reservation srv req message_id caller)"
  unfolding send_reservation_def
  by (auto intro!: own_rules own_reserve assms)

lemma own_continue:
  assumes "\<And>resp. protected_from caller resp \<Longrightarrow> P {#} resp"
  shows "yields (answers_fit srv) any_step {#} P (handle_tasks_send_continue srv req i msg message_id caller)"
  unfolding handle_tasks_send_continue_def Let_def
  by (auto intro!: own_rules own_spawn_run_task assms)

lemma own_fresh:
  assumes "\<And>resp. protected_from caller resp \<Longrightarrow> P {#} resp"
  shows "yields (answers_fit srv) any_step {#} P (send_fresh srv req ps msg message_id reserved caller)"
  unfolding send_fresh_def Let_def
  by (auto intro!: own_rules own_spawn_run_task assms)

lemma own_send:
  assumes "\<And>resp. protected_from caller resp \<Longrightarrow> P {#} resp"
  shows "yields (answers_fit srv) any_step {#} P (handle_tasks_send srv req caller)"
  unfolding handle_tasks_send_def Let_def
  by (auto intro!: own_rules own_send_reservation own_continue own_fresh assms)

lemma own_get:
  assumes "\<And>resp. protected_from caller resp \<Longrightarrow> P {#} resp"
  shows "yields (answers_fit srv) any_step {#} P (handle_tasks_get srv req caller)"
  unfolding handle_tasks_get_def Let_def
  by (auto intro!: own_rules own_cleanup assms split: sum.split option.split)

lemma own_cancel:
  assumes "\<And>resp. P {#} resp"
  shows "yields (answers_fit srv) any_step {#} P (handle_tasks_cancel srv req caller)"
  unfolding handle_tasks_cancel_def Let_def
  by (auto intro!: own_rules assms)

lemma own_list:
  assumes "\<And>resp. protected_from caller resp \<Longrightarrow> P {#} resp"
  shows "yields (answers_fit srv) any_step {#} P (handle_tasks_list srv req caller)"
proof -
  have "protected_from caller resp" if "list_filter req caller = Inl resp" for resp
    using that by (auto simp: list_filter_def Let_def split: option.splits)
  then show ?thesis unfolding handle_tasks_list_def
    by (auto intro!: own_rules own_cleanup assms protected_page split: sum.split)
qed

lemma own_start_workflow:
  assumes "\<And>resp. protected_from caller resp \<Longrightarrow> P {#} resp"
  shows "yields (answers_fit srv) any_step {#} P (start_workflow srv req flow i caller)"
  unfolding start_workflow_def Let_def
  by (auto intro!: own_rules own_spawn assms)

lemma own_workflow:
  assumes "\<And>resp. protected_from caller resp \<Longrightarrow> P {#} resp"
  shows "yields (answers_fit srv) any_step {#} P (handle_workflow_run srv req caller)"
  unfolding handle_workflow_run_def Let_def
  by (auto intro!: own_rules own_start_workflow assms)

lemma own_dispatch:
  assumes "\<And>resp. (req_method req \<noteq> ''tasks/cancel'' \<Longrightarrow> protected_from caller resp) \<Longrightarrow> P {#} resp"
  shows "yields (answers_fit srv) any_step {#} P (dispatch srv req caller)"
  unfolding dispatch_def handle_tasks_send_subscribe_def
  by (intro yields_if own_send own_get own_cancel own_list own_workflow yields_ready assms) simp_all

lemma own_request:
  assumes "\<And>resp. (req_method req \<noteq> ''tasks/cancel'' \<Longrightarrow> protected_from caller resp) \<Longrightarrow> P {#} resp"
  shows "yields (answers_fit srv) any_step {#} P (handle_a2a_request_with_owner srv req caller)"
  unfolding handle_a2a_request_with_owner_def admit_request_def
  by (auto intro!: own_rules own_dispatch assms)

lemma own_serve: "obeys (answers_fit srv) any_step {#} (serve srv req bearer)"
proof -
  have answer: "yields (answers_fit srv) any_step {#} (\<lambda>h _. h = {#}) (log_answer req bearer resp)"
    if "req_method req \<noteq> ''tasks/cancel'' \<Longrightarrow> protected_from (caller_of srv req bearer) resp" for resp
    unfolding log_answer_def using that
    by (intro yields_atomically) (auto simp: answers_fit_def any_step_def)
  have "yields (answers_fit srv) any_step {#}
      (\<lambda>h resp. h = {#} \<and> (req_method req \<noteq> ''tasks/cancel'' \<longrightarrow> protected_from (caller_of srv req bearer) resp))
      (handle_a2a_request_authenticated srv req bearer)"
    unfolding handle_a2a_request_authenticated_def
    by (cases "check_auth srv (req_id req) bearer")
      (auto simp: check_auth_def caller_of_def Let_def intro!: yields_ready own_request split: sum.splits)
  then have "yields (answers_fit srv) any_step {#} (\<lambda>h _. h = {#})
      (async_bind (handle_a2a_request_authenticated srv req bearer) (log_answer req bearer))"
    by (intro yields_bind) (auto elim!: yields_mono intro: answer)
  then show ?thesis unfolding serve_def by (rule yieldsD) (simp add: obeys.Done)
qed

end
