(* ===== verification/A2a_Resources.thy ===== *)
theory A2a_Resources
  imports A2a_Rules
begin

text \<open>
  What the server holds on behalf of its processes: permits of the in-flight semaphore and of the
  rate limiter, resume guards, claims of idempotency keys and cancellation handles. Each is a token
  of the process that has to give it back; in every interleaving the shared state and the tokens
  balance, so that nothing is left over once the processes are done.
\<close>

datatype token = Permit | RatePermit | Resuming string | Claim string | Handle string

definition balanced :: "nat \<Rightarrow> nat \<Rightarrow> token multiset \<Rightarrow> ('s, 'o) server_state \<Rightarrow> bool" where
  "balanced n m h w \<longleftrightarrow>
     count h Permit + in_flight w = n \<and>
     count h RatePermit + limiter_permits w = m \<and>
     (\<forall>i \<in> set (inflight_resumes w). Resuming i \<in># h) \<and>
     (\<forall>mid. map_of (id_map (message_ids w)) mid = Some [] \<longrightarrow> Claim mid \<in># h) \<and>
     (\<forall>i \<in> fst ` set (cancellations w). Handle i \<in># h)"

definition same_resources :: "('s, 'o) server_state \<Rightarrow> ('s, 'o) server_state \<Rightarrow> bool" where
  "same_resources w w' \<longleftrightarrow> in_flight w' = in_flight w \<and> limiter_permits w' = limiter_permits w \<and>
     inflight_resumes w' = inflight_resumes w \<and> message_ids w' = message_ids w \<and>
     cancellations w' = cancellations w"

definition any_change :: "'w \<Rightarrow> 'w \<Rightarrow> bool" where
  "any_change w w' \<longleftrightarrow> True"

abbreviation (input) res_yields where
  "res_yields n m \<equiv> yields (balanced n m) any_change"

lemma balanced_same: "balanced n m h w \<Longrightarrow> same_resources w w' \<Longrightarrow> balanced n m h w'"
  by (simp add: balanced_def same_resources_def)

lemma res_atomically_same:
  assumes "\<And>w. same_resources w (snd (f w))" and "\<And>a. P h a"
  shows "res_yields n m h P (atomically f)"
  using assms by (intro yields_atomically) (auto simp: any_change_def intro: balanced_same)

interpretation res: quiet "balanced n m" any_change for n m
  by unfold_locales (auto simp: any_change_def same_but_events_def balanced_def)


section \<open>The actions that move tokens\<close>

lemma res_acquire:
  "P (add_mset Permit h) True \<Longrightarrow> P h False \<Longrightarrow> res_yields n m h P acquire_in_flight"
  unfolding acquire_in_flight_def
  by (rule yields_atomically_holding [where hold = "\<lambda>a. if a then add_mset Permit h else h"])
    (auto simp: balanced_def any_change_def)

lemma res_drop_in_flight: "P h () \<Longrightarrow> res_yields n m (add_mset Permit h) P drop_in_flight"
  unfolding drop_in_flight_def
  by (rule yields_atomically_holding [where hold = "\<lambda>_. h"]) (auto simp: balanced_def any_change_def)

lemma res_try_acquire:
  "P (add_mset RatePermit h) None \<Longrightarrow> (\<And>e. P h (Some e)) \<Longrightarrow> res_yields n m h P (try_acquire mx)"
  unfolding try_acquire_def
  by (rule yields_atomically_holding [where hold = "\<lambda>a. if a = None then add_mset RatePermit h else h"])
    (auto simp: balanced_def any_change_def Let_def)

lemma res_drop_rate_permit: "P h () \<Longrightarrow> res_yields n m (add_mset RatePermit h) P drop_rate_permit"
  unfolding drop_rate_permit_def
  by (rule yields_atomically_holding [where hold = "\<lambda>_. h"]) (auto simp: balanced_def any_change_def)

lemma res_begin_resume:
  "P (add_mset (Resuming i) h) True \<Longrightarrow> P h False \<Longrightarrow> res_yields n m h P (begin_resume i)"
  unfolding begin_resume_def
  by (rule yields_atomically_holding [where hold = "\<lambda>a. if a then add_mset (Resuming i) h else h"])
    (auto simp: balanced_def any_change_def)

lemma res_drop_resume: "P h () \<Longrightarrow> res_yields n m (add_mset (Resuming i) h) P (drop_resume i)"
  unfolding drop_resume_def
  by (rule yields_atomically_holding [where hold = "\<lambda>_. h"]) (auto simp: balanced_def any_change_def)

lemma res_register: "(\<And>a. P (add_mset (Handle i) h) a) \<Longrightarrow> res_yields n m h P (register_cancellation i)"
  unfolding register_cancellation_def
  by (rule yields_atomically_holding [where hold = "\<lambda>_. add_mset (Handle i) h"])
    (auto simp: balanced_def any_change_def)

lemma res_remove: "P h () \<Longrightarrow> res_yields n m (add_mset (Handle i) h) P (remove_cancellation i)"
  unfolding remove_cancellation_def
  by (rule yields_atomically_holding [where hold = "\<lambda>_. h"])
    (auto simp: balanced_def any_change_def smap_remove_def)

lemma res_fire: "P h () \<Longrightarrow> res_yields n m h P (fire_cancellation i)"
  unfolding fire_cancellation_def
  by (rule res_atomically_same) (auto simp: same_resources_def split: option.split)


section \<open>Claims of idempotency keys\<close>

text \<open>The claim that a reservation leaves with its holder.\<close>

definition claim_token :: "string option \<Rightarrow> bool \<Rightarrow> token multiset" where
  "claim_token message_id reserved = (case message_id of
     Some mid \<Rightarrow> if reserved then {#Claim mid#} else {#}
   | None \<Rightarrow> {#})"

lemma evict_oldest_id_map:
  "evict_oldest_id tab order = (tab', order') \<Longrightarrow> map_of tab' k = Some v \<Longrightarrow> map_of tab k = Some v"
  by (induction tab order rule: evict_oldest_id.induct) (auto simp: map_of_smap_remove split: if_splits)

lemma id_insert_map:
  "map_of (id_map (id_insert mid tid tab)) k = Some v \<Longrightarrow>
   if k = mid then v = tid else map_of (id_map tab) k = Some v"
  by (auto simp: id_insert_def Let_def split: if_splits prod.splits dest: evict_oldest_id_map)

lemma res_claim:
  assumes "P (add_mset (Claim mid) h) (Inr None)" and "\<And>r. r \<noteq> Inr None \<Longrightarrow> P h r"
  shows "res_yields n m h P (claim_message_id mid)"
  unfolding claim_message_id_def on_ids_def
  by (rule yields_atomically_holding [where hold = "\<lambda>r. if r = Inr None then add_mset (Claim mid) h else h"])
    (use assms in \<open>auto simp: balanced_def any_change_def dest!: id_insert_map split: if_splits option.split\<close>)

lemma res_finish:
  assumes "P h ()" and "tid \<noteq> []" and "h0 = claim_token (Some mid) b + h"
  shows "res_yields n m h0 P (finish_message_id mid tid)"
  unfolding finish_message_id_def on_ids_def
  by (rule yields_atomically_holding [where hold = "\<lambda>_. h"])
    (use assms in \<open>auto simp: balanced_def any_change_def claim_token_def dest!: id_insert_map split: if_splits\<close>)

lemma res_abort:
  assumes "P h ()" and "h0 = claim_token (Some mid) b + h"
  shows "res_yields n m h0 P (abort_message_id mid)"
  unfolding abort_message_id_def on_ids_def
  by (rule yields_atomically_holding [where hold = "\<lambda>_. h"])
    (use assms in \<open>auto simp: balanced_def any_change_def claim_token_def id_remove_def map_of_smap_remove
       split: if_splits\<close>)

lemma res_release:
  assumes "P h ()" and "h0 = claim_token message_id b + h"
  shows "res_yields n m h0 P (release_resume_id message_id)"
proof (cases message_id)
  case None
  then show ?thesis using assms by (simp add: release_resume_id_def yields_ready claim_token_def)
next
  case (Some mid)
  then show ?thesis using res_abort [of P h h0 mid b] assms by (simp add: release_resume_id_def)
qed

lemma res_finish_claim:
  assumes "P h ()" and "tid \<noteq> []" and "h0 = claim_token message_id b + h"
  shows "res_yields n m h0 P (case message_id of Some mid \<Rightarrow> finish_message_id mid tid | None \<Rightarrow> ready ())"
proof (cases message_id)
  case None
  then show ?thesis using assms by (simp add: claim_token_def yields_ready)
next
  case (Some mid)
  then show ?thesis using res_finish [of P h tid h0 mid b] assms by simp
qed


section \<open>Workers and handlers\<close>

lemma res_store: "(\<And>a. P h a) \<Longrightarrow> res_yields n m h P (store_call f)"
  unfolding store_call_def by (rule res_atomically_same) (auto simp: same_resources_def split: prod.split)

lemma res_uuid:
  assumes "\<And>k. uuid srv k \<noteq> []" and "\<And>i. i \<noteq> [] \<Longrightarrow> P h i"
  shows "res_yields n m h P (new_uuid srv)"
  unfolding new_uuid_def
  by (rule yields_atomically) (auto simp: any_change_def assms intro!: exI [of _ h] elim: balanced_same simp: same_resources_def)

lemma res_writes:
  "(\<And>a. P h a) \<Longrightarrow> res_yields n m h P (compare_and_update srv i st)"
  "(\<And>a. P h a) \<Longrightarrow> res_yields n m h P (upsert_claimed srv i st)"
  unfolding compare_and_update_def upsert_claimed_def by (auto intro!: yields_rules res_store)

interpretation res_worker: worker "balanced n m" any_change srv "\<lambda>_ _. True" for n m srv
  by unfold_locales (auto intro: res_store res_writes)

lemmas res_rules = yields_rules res.quiet_rules res_store res_writes res_acquire res_drop_in_flight
  res_worker.run_task_rule res_worker.run_workflow_rule

lemma res_sweep: "P h () \<Longrightarrow> res_yields n m h P (sweep_expired_tasks srv ttl)"
  unfolding sweep_expired_tasks_def by (auto intro!: res_rules yields_for)

lemma res_cleanup: "P h () \<Longrightarrow> res_yields n m h P (cleanup_expired_tasks srv)"
  unfolding cleanup_expired_tasks_def by (auto intro!: res_rules res_sweep)

lemma res_spawn:
  assumes "res_yields n m {#Permit#} (\<lambda>h' _. h' = {#}) w" and "P h ()"
  shows "res_yields n m (add_mset Permit h) P (spawn w)"
  using assms by (rule yields_spawn) simp

lemma res_spawn_run_task:
  assumes "P h ()"
  shows "res_yields n m (add_mset Permit h) P (spawn_run_task srv ch i hist)"
proof -
  have "res_yields n m {#Handle i, Permit#} (\<lambda>h' _. h' = {#})
      (async_bind (run_task srv ch i hist cancel) (\<lambda>_. async_bind (remove_cancellation i) (\<lambda>_. drop_in_flight)))"
    for cancel
    by (auto intro!: res_rules res_remove)
  then have "res_yields n m (add_mset (Handle i) (add_mset Permit h)) P
      (spawn (async_bind (run_task srv ch i hist cancel) (\<lambda>_. async_bind (remove_cancellation i) (\<lambda>_. drop_in_flight))))"
    for cancel
    by (rule yields_spawn) (use assms in simp_all)
  then show ?thesis unfolding spawn_run_task_def by (intro yields_bind res_register)
qed

lemma res_reserve:
  assumes "P (add_mset (Claim mid) h) (Inr None)" and "\<And>r. r \<noteq> Inr None \<Longrightarrow> P h r"
  shows "res_yields n m h P (reserve_message_id srv mid)"
  unfolding reserve_message_id_def on_ids_def
  by (auto intro!: res_rules res_claim assms res_atomically_same simp: same_resources_def)

lemma res_send_reservation:
  assumes "\<And>b. P (claim_token message_id b + h) (Inr b)" and "\<And>resp. P h (Inl resp)"
  shows "res_yields n m h P (send_reservation srv req message_id caller)"
proof (cases message_id)
  case None
  then show ?thesis using assms(1) [of False] by (simp add: send_reservation_def yields_ready claim_token_def)
next
  case (Some mid)
  have held: "P (add_mset (Claim mid) h) (Inr True)" and free: "P h (Inr False)"
    using assms(1) [of True] assms(1) [of False] Some by (simp_all add: claim_token_def)
  have "res_yields n m h (\<lambda>h' _. res_yields n m h' P (ready (Inr False))) (abort_message_id mid)"
    by (rule res_abort [where b = False and h = h]) (simp_all add: claim_token_def yields_ready free)
  then show ?thesis unfolding send_reservation_def Some option.case
    by (auto intro!: res_rules res_reserve assms(2) held)
qed

lemma res_continue:
  assumes "\<And>resp. P h resp" and "i \<noteq> []"
  shows "res_yields n m (claim_token message_id b + h) P (handle_tasks_send_continue srv req i msg message_id caller)"
proof -
  let ?c = "claim_token message_id b"
  have leave: "res_yields n m (add_mset (Resuming i) (add_mset Permit (?c + h))) P
      (async_bind (release_resume_id message_id) (\<lambda>_. async_bind (drop_resume i) (\<lambda>_.
       async_bind drop_in_flight (\<lambda>_. ready resp))))" for resp
    by (rule yields_bind, rule res_release [where b = b and h = "add_mset (Resuming i) (add_mset Permit h)"])
      (auto intro!: yields_bind res_drop_resume res_drop_in_flight yields_ready assms(1))
  have refuse: "res_yields n m (add_mset Permit (?c + h)) P
      (async_bind (release_resume_id message_id) (\<lambda>_. async_bind drop_in_flight (\<lambda>_. ready resp)))" for resp
    by (rule yields_bind, rule res_release [where b = b and h = "add_mset Permit h"])
      (auto intro!: yields_bind res_drop_in_flight yields_ready assms(1))
  have busy: "res_yields n m (?c + h) P (async_bind (release_resume_id message_id) (\<lambda>_. ready resp))" for resp
    by (rule yields_bind, rule res_release [where b = b and h = h]) (auto intro!: yields_ready assms(1))
  have go: "res_yields n m (add_mset (Resuming i) (add_mset Permit (?c + h))) P
      (async_bind (case message_id of Some mid \<Rightarrow> finish_message_id mid i | None \<Rightarrow> ready ()) (\<lambda>_.
       async_bind (spawn_run_task srv ch i hist) (\<lambda>_. async_bind (drop_resume i) (\<lambda>_. ready resp))))" for ch hist resp
    by (rule yields_bind, rule res_finish_claim [where b = b and h = "add_mset Permit (add_mset (Resuming i) h)"])
      (auto intro!: yields_bind res_spawn_run_task res_drop_resume yields_ready assms)
  show ?thesis unfolding handle_tasks_send_continue_def Let_def
    by (auto intro!: yields_rules res_acquire res_begin_resume res_store res.quiet_rules leave refuse busy go)
qed


lemma res_fresh:
  assumes "\<And>resp. P h resp" and "\<And>k. uuid srv k \<noteq> []"
  shows "res_yields n m (claim_token message_id b + h) P (send_fresh srv req ps msg message_id b caller)"
proof -
  let ?c = "claim_token message_id b"
  have refuse: "res_yields n m h0 (\<lambda>h' _. res_yields n m h' P (ready resp)) (abort_reserved b message_id)"
    if "h0 = ?c + h" for h0 resp
    using that by (auto simp: abort_reserved_def claim_token_def intro!: res_release [where b = b] yields_ready assms(1)
        split: option.splits)
  have failed: "res_yields n m (add_mset Permit (?c + h)) (\<lambda>h' _. res_yields n m h' P
      (async_bind drop_in_flight (\<lambda>_. ready resp))) (abort_reserved b message_id)" for resp
    by (auto simp: abort_reserved_def claim_token_def split: option.splits
        intro!: res_release [where b = b and h = "add_mset Permit h"] yields_rules res_drop_in_flight assms(1))
  have finish: "res_yields n m (add_mset Permit (?c + h)) (\<lambda>h' _. res_yields n m h' P
      (async_bind (spawn_run_task srv ch i hist) (\<lambda>_. ready resp)))
      (if b then (case message_id of Some mid \<Rightarrow> finish_message_id mid i | None \<Rightarrow> ready ()) else ready ())"
    if "i \<noteq> []" for i ch hist resp
  proof -
    have "res_yields n m (add_mset Permit h) P (async_bind (spawn_run_task srv ch i hist) (\<lambda>_. ready resp))"
      by (auto intro!: yields_rules res_spawn_run_task assms(1))
    note rest = this
    show ?thesis
    proof (cases b)
      case True
      then show ?thesis using rest that
        by (simp only: if_True) (rule res_finish_claim [where b = b and h = "add_mset Permit h"], simp_all)
    next
      case False
      then show ?thesis using rest by (cases message_id) (simp_all add: claim_token_def yields_ready)
    qed
  qed
  show ?thesis unfolding send_fresh_def Let_def
    by (auto intro!: yields_bind yields_if yields_case_sum res_acquire res_uuid assms(2) res_store
        res.quiet_rules refuse failed finish)
qed

lemma res_send:
  assumes "\<And>resp. P h resp" and "\<And>k. uuid srv k \<noteq> []" and "task_id_of req \<noteq> Some []"
  shows "res_yields n m h P (handle_tasks_send srv req caller)"
  unfolding handle_tasks_send_def Let_def using assms(3)
  by (auto intro!: yields_rules res_send_reservation res_continue res_fresh assms(1,2))

lemma res_get: "(\<And>resp. P h resp) \<Longrightarrow> res_yields n m h P (handle_tasks_get srv req caller)"
  unfolding handle_tasks_get_def Let_def by (auto intro!: res_rules res_cleanup)

lemma res_cancel: "(\<And>resp. P h resp) \<Longrightarrow> res_yields n m h P (handle_tasks_cancel srv req caller)"
  unfolding handle_tasks_cancel_def Let_def by (auto intro!: res_rules res_fire)

lemma res_list: "(\<And>resp. P h resp) \<Longrightarrow> res_yields n m h P (handle_tasks_list srv req caller)"
  unfolding handle_tasks_list_def by (auto intro!: res_rules res_cleanup)

lemma res_start_workflow:
  assumes "\<And>resp. P h resp"
  shows "res_yields n m h P (start_workflow srv req flow i caller)"
  unfolding start_workflow_def Let_def
  by (auto intro!: res_rules res_spawn assms)

lemma res_workflow:
  assumes "\<And>resp. P h resp" and "\<And>k. uuid srv k \<noteq> []"
  shows "res_yields n m h P (handle_workflow_run srv req caller)"
  unfolding handle_workflow_run_def Let_def
  by (auto intro!: yields_rules res_start_workflow res_uuid assms)

lemma res_dispatch:
  assumes "\<And>resp. P h resp" and "\<And>k. uuid srv k \<noteq> []" and "task_id_of req \<noteq> Some []"
  shows "res_yields n m h P (dispatch srv req caller)"
  unfolding dispatch_def handle_tasks_send_subscribe_def
  by (intro yields_if res_send res_get res_cancel res_list res_workflow yields_ready assms)

lemma res_request:
  assumes "\<And>resp. P h resp" and "\<And>k. uuid srv k \<noteq> []" and "task_id_of req \<noteq> Some []"
  shows "res_yields n m h P (handle_a2a_request_with_owner srv req caller)"
  unfolding handle_a2a_request_with_owner_def admit_request_def
  by (auto intro!: yields_rules res_dispatch res_try_acquire res_drop_rate_permit assms(1,2)
      simp: assms(3))

lemma res_serve:
  assumes "\<And>k. uuid srv k \<noteq> []" and "task_id_of req \<noteq> Some []"
  shows "obeys (balanced n m) any_change {#} (serve srv req bearer)"
proof -
  have "res_yields n m {#} (\<lambda>h _. h = {#})
      (async_bind (handle_a2a_request_authenticated srv req bearer) (log_answer req bearer))"
    unfolding handle_a2a_request_authenticated_def log_answer_def
    by (auto intro!: yields_rules res_request res_atomically_same assms(1) simp: same_resources_def assms(2))
  then show ?thesis unfolding serve_def by (rule yieldsD) (simp add: obeys.Done)
qed

lemma balanced_start: "balanced n m {#} (server_start s n m out)"
  by (simp add: balanced_def server_start_def)

end
