(* ===== verification/A2a_Lifecycle.thy ===== *)
theory A2a_Lifecycle
  imports A2a_Rules
begin

text \<open>
  The life cycle of tasks in every interleaving of fresh sends, reads, cancellations, lists,
  workflows and their workers: a stored task changes along \<open>can_transition_to\<close> only, so that a
  terminal task is never written again. A process holds a token for an id that it has drawn and not
  stored yet. The two writes that the code does not guard, of a resumed and of an expired task, are
  left out here; \<open>A2a_Runs\<close> shows what they do.
\<close>

definition fresh_ids ::
  "(nat \<Rightarrow> string) \<Rightarrow> ('s \<Rightarrow> string \<Rightarrow> stored_task option) \<Rightarrow> ('s \<Rightarrow> bool) \<Rightarrow> string multiset \<Rightarrow>
   ('s, 'o) server_state \<Rightarrow> bool" where
  "fresh_ids ids view good h w \<longleftrightarrow> inj ids \<and> good (store w) \<and>
     (\<forall>i t. view (store w) i = Some t \<longrightarrow> i \<in> ids ` {..<uuid_count w} \<and> i \<notin># h) \<and>
     (\<forall>i \<in># h. i \<in> ids ` {..<uuid_count w}) \<and> (\<forall>i. count h i \<le> 1)"

definition life_step ::
  "('s \<Rightarrow> string \<Rightarrow> stored_task option) \<Rightarrow> ('s, 'o) server_state \<Rightarrow> ('s, 'o) server_state \<Rightarrow> bool" where
  "life_step view w w' \<longleftrightarrow> (\<forall>i t t'. view (store w) i = Some t \<longrightarrow> view (store w') i = Some t' \<longrightarrow>
     t' = t \<or> can_transition_to (status (task t)) (status (task t')))"

lemma fresh_ids_draw:
  assumes "fresh_ids ids view good h w"
  shows "fresh_ids ids view good (add_mset (ids (uuid_count w)) h) (w\<lparr>uuid_count := Suc (uuid_count w)\<rparr>)"
proof -
  let ?u = "ids (uuid_count w)"
  have new: "?u \<notin> ids ` {..<uuid_count w}" using assms by (auto simp: fresh_ids_def inj_def)
  then have "?u \<notin># h" using assms by (auto simp: fresh_ids_def)
  then have "count (add_mset ?u h) j \<le> 1" for j using assms by (auto simp: fresh_ids_def not_in_iff)
  moreover have "j \<in> ids ` {..<Suc (uuid_count w)} \<and> j \<notin># add_mset ?u h" if "view (store w) j = Some t" for j t
  proof -
    have "j \<in> ids ` {..<uuid_count w}" "j \<notin># h" using that assms by (auto simp: fresh_ids_def)
    moreover from this(1) have "j \<noteq> ?u" using new by metis
    ultimately show ?thesis by (simp add: lessThan_Suc)
  qed
  ultimately show ?thesis using assms by (auto simp: fresh_ids_def lessThan_Suc)
qed

text \<open>A store after an insertion under an id that was not in use, or after none.\<close>

lemma fresh_ids_insert:
  assumes R: "fresh_ids ids view good (add_mset i h) w" and "good s"
    and upd: "s = store w \<or> (\<forall>j. j \<noteq> i \<longrightarrow> view s j = view (store w) j \<or> view s j = None)"
  shows "life_step view w (w\<lparr>store := s\<rparr>) \<and> fresh_ids ids view good h (w\<lparr>store := s\<rparr>)"
proof
  from R have new: "view (store w) i = None" by (cases "view (store w) i") (auto simp: fresh_ids_def)
  have one: "i \<notin># h" and cnt: "count h j \<le> 1" for j
    using R by (auto simp: fresh_ids_def not_in_iff dest: spec [of _ i] spec [of _ j] split: if_splits)
  have "view s j = None \<or> j = i \<or> view s j = view (store w) j" for j using upd by auto
  then show "life_step view w (w\<lparr>store := s\<rparr>)"
    using new by (auto simp: life_step_def) (metis option.distinct(1) option.inject)
  have "j \<in> ids ` {..<uuid_count w} \<and> j \<notin># h" if "view s j = Some t" for j t
  proof (cases "j = i")
    case True
    then show ?thesis using R one by (auto simp: fresh_ids_def)
  next
    case False
    then have "view (store w) j = Some t" using that upd by auto
    then show ?thesis using R by (auto simp: fresh_ids_def)
  qed
  then show "fresh_ids ids view good h (w\<lparr>store := s\<rparr>)" using R \<open>good s\<close> cnt by (auto simp: fresh_ids_def)
qed

locale lifecycle = task_backend +
  fixes srv :: "('a, 'o) a2a_server"
  assumes backend: "tasks srv = ts"

sublocale lifecycle \<subseteq> steady "fresh_ids (uuid srv) view wf" "life_step view"
  by unfold_locales (auto simp: fresh_ids_def life_step_def same_tasks_def)

context lifecycle
begin

lemma store_same:
  assumes "\<And>s. wf s \<Longrightarrow> snd (f s) = s" and "\<And>s a s'. wf s \<Longrightarrow> f s = (a, s') \<Longrightarrow> P h a"
  shows "yields (fresh_ids (uuid srv) view wf) (life_step view) h P (store_call f)"
  unfolding store_call_def
proof (rule yields_atomically)
  fix F w
  assume R: "fresh_ids (uuid srv) view wf (h + F) w"
  then have wf: "wf (store w)" by (simp add: fresh_ids_def)
  obtain a where a: "f (store w) = (a, store w)"
    using assms(1) [OF wf] by (cases "f (store w)") auto
  then have "P h a" by (rule assms(2) [OF wf])
  with a R show "life_step view w (snd (case f (store w) of (a, s) \<Rightarrow> (a, w\<lparr>store := s\<rparr>))) \<and>
      (\<exists>h'. fresh_ids (uuid srv) view wf (h' + F) (snd (case f (store w) of (a, s) \<Rightarrow> (a, w\<lparr>store := s\<rparr>))) \<and>
        P h' (fst (case f (store w) of (a, s) \<Rightarrow> (a, w\<lparr>store := s\<rparr>))))"
    by (auto simp: life_step_def)
qed

lemma get_life:
  assumes "\<And>r. (\<And>st. r = Inr (Some st) \<Longrightarrow> task_id (task st) = i) \<Longrightarrow> P h r"
  shows "yields (fresh_ids (uuid srv) view wf) (life_step view) h P (store_call (ts_get (tasks srv) i))"
proof (rule store_same)
  fix s r s'
  assume s: "wf s" "ts_get (tasks srv) i s = (r, s')"
  have "task_id (task st) = i" if "r = Inr (Some st)" for st
    using get_law [OF s(1), of i r s' "Some st"] s that keyed [OF s(1)] by (simp add: backend)
  then show "P h r" by (rule assms)
next
  fix s assume "wf s"
  then show "snd (ts_get (tasks srv) i s) = s"
    using get_law [of s i] by (cases "ts_get ts i s") (auto simp: backend)
qed

lemma list_life:
  "(\<And>r. P h r) \<Longrightarrow> yields (fresh_ids (uuid srv) view wf) (life_step view) h P (store_call (ts_list (tasks srv) f))"
proof (rule store_same)
  fix s assume "wf s"
  then show "snd (ts_list (tasks srv) f s) = s"
    using list_law [of s f] by (cases "ts_list ts f s") (auto simp: backend)
qed

lemma uuid_life:
  assumes "\<And>i. P (add_mset i h) i"
  shows "yields (fresh_ids (uuid srv) view wf) (life_step view) h P (new_uuid srv)"
  unfolding new_uuid_def
  by (rule yields_atomically_holding [where hold = "\<lambda>i. add_mset i h"])
    (use assms fresh_ids_draw in \<open>force simp: life_step_def\<close>)+

lemma upsert_life:
  assumes "\<And>u. P h u" and "task_id (task st) = i"
  shows "yields (fresh_ids (uuid srv) view wf) (life_step view) (add_mset i h) P
    (store_call (ts_upsert (tasks srv) st))"
  unfolding store_call_def
proof (rule yields_atomically_holding [where hold = "\<lambda>_. h"])
  fix F w
  assume R: "fresh_ids (uuid srv) view wf (add_mset i h + F) w"
  then have wf: "wf (store w)" by (simp add: fresh_ids_def)
  obtain u s where us: "ts_upsert ts st (store w) = (u, s)" by fastforce
  have "wf s" "s = store w \<or> (\<forall>j. j \<noteq> i \<longrightarrow> view s j = view (store w) j \<or> view s j = None)"
    using upsert_law [OF wf us] assms(2) by (cases u; auto)+
  then show "life_step view w (snd (case ts_upsert (tasks srv) st (store w) of (a, s) \<Rightarrow> (a, w\<lparr>store := s\<rparr>))) \<and>
      fresh_ids (uuid srv) view wf (h + F)
        (snd (case ts_upsert (tasks srv) st (store w) of (a, s) \<Rightarrow> (a, w\<lparr>store := s\<rparr>)))"
    using fresh_ids_insert [of "uuid srv" view wf i "h + F" w s] R by (simp add: backend us)
qed (rule assms)

lemma claimed_life:
  assumes "\<And>u. P h u" and "task_id (task st) = i"
  shows "yields (fresh_ids (uuid srv) view wf) (life_step view) (add_mset i h) P (upsert_claimed srv i st)"
  unfolding upsert_claimed_def backend overrides option.case store_call_def
proof (rule yields_atomically_holding [where hold = "\<lambda>_. h"])
  fix F w
  assume R: "fresh_ids (uuid srv) view wf (add_mset i h + F) w"
  then have wf: "wf (store w)" by (simp add: fresh_ids_def)
  obtain c s where cs: "claimed i st (store w) = (c, s)" by fastforce
  have "wf s" "s = store w \<or> (\<forall>j. j \<noteq> i \<longrightarrow> view s j = view (store w) j \<or> view s j = None)"
    using claimed_law [OF wf assms(2) cs] by (cases "c = Inr True"; simp)+
  then show "life_step view w (snd (case claimed i st (store w) of (a, s) \<Rightarrow> (a, w\<lparr>store := s\<rparr>))) \<and>
      fresh_ids (uuid srv) view wf (h + F) (snd (case claimed i st (store w) of (a, s) \<Rightarrow> (a, w\<lparr>store := s\<rparr>)))"
    using fresh_ids_insert [of "uuid srv" view wf i "h + F" w s] R by (simp add: cs)
qed (rule assms)

lemma cas_life:
  assumes "task_id (task st) = i" and "\<And>c. P h c"
  shows "yields (fresh_ids (uuid srv) view wf) (life_step view) h P (compare_and_update srv i st)"
  unfolding compare_and_update_def backend overrides option.case store_call_def
proof (rule yields_atomically_holding [where hold = "\<lambda>_. h"])
  fix F w
  assume R: "fresh_ids (uuid srv) view wf (h + F) w"
  then have wf: "wf (store w)" by (simp add: fresh_ids_def)
  obtain c s where cs: "cas i st (store w) = (c, s)" by fastforce
  note law = cas_law [OF wf assms(1) cs]
  have "life_step view w (w\<lparr>store := s\<rparr>) \<and> fresh_ids (uuid srv) view wf (h + F) (w\<lparr>store := s\<rparr>)"
  proof (cases "c = Inr True")
    case True
    with law obtain t where "view (store w) i = Some t" "view s = (view (store w))(i \<mapsto> st)" "wf s"
      "can_transition_to (status (task t)) (status (task st))" by blast
    with R show ?thesis by (auto simp: life_step_def fresh_ids_def)
  next
    case False
    with law R show ?thesis by (simp add: life_step_def)
  qed
  then show "life_step view w (snd (case cas i st (store w) of (a, s) \<Rightarrow> (a, w\<lparr>store := s\<rparr>))) \<and>
      fresh_ids (uuid srv) view wf (h + F) (snd (case cas i st (store w) of (a, s) \<Rightarrow> (a, w\<lparr>store := s\<rparr>)))"
    by (simp add: cs)
qed (rule assms)

end

sublocale lifecycle \<subseteq> worker "fresh_ids (uuid srv) view wf" "life_step view" srv "\<lambda>i st. task_id (task st) = i"
  by unfold_locales (auto intro: get_life cas_life)

text \<open>
  A request that creates tasks under drawn ids only: no continuation, no workflow id of its own.
\<close>

definition plain_request :: "('s, 'o) a2a_server \<Rightarrow> a2a_request \<Rightarrow> bool" where
  "plain_request srv req \<longleftrightarrow> (req_method req \<in> {''tasks/send'', ''tasks/sendSubscribe''} \<longrightarrow> task_id_of req = None) \<and>
     (case Option.bind (Option.bind (params req) (\<lambda>ps. json_get ps ''workflow'')) (workflow_of_json srv) of
        Some flow \<Rightarrow> workflow_id flow = None
      | None \<Rightarrow> True)"

context lifecycle
begin

lemmas life_rules = yields_rules steady_rules get_life list_life cas_life run_task_rule run_workflow_rule

lemma spawn_life:
  assumes "yields (fresh_ids (uuid srv) view wf) (life_step view) {#} (\<lambda>h _. h = {#}) m" and "P h ()"
  shows "yields (fresh_ids (uuid srv) view wf) (life_step view) h P (spawn m)"
  using assms by (rule yields_spawn) simp

lemma cleanup_life:
  "task_ttl srv = None \<Longrightarrow> P h () \<Longrightarrow>
   yields (fresh_ids (uuid srv) view wf) (life_step view) h P (cleanup_expired_tasks srv)"
  by (simp add: cleanup_expired_tasks_def yields_ready)

lemma spawn_run_task_life:
  "P h () \<Longrightarrow> yields (fresh_ids (uuid srv) view wf) (life_step view) h P (spawn_run_task srv ch i hist)"
  unfolding spawn_run_task_def by (auto intro!: life_rules spawn_life)

lemma send_reservation_life:
  "(\<And>r. P h r) \<Longrightarrow>
   yields (fresh_ids (uuid srv) view wf) (life_step view) h P (send_reservation srv req message_id caller)"
  unfolding send_reservation_def reserve_message_id_def by (auto intro!: life_rules)

lemma send_fresh_life:
  assumes "\<And>resp. P h resp"
  shows "yields (fresh_ids (uuid srv) view wf) (life_step view) h P
    (send_fresh srv req ps msg message_id reserved caller)"
  unfolding send_fresh_def Let_def
  by (auto intro!: life_rules uuid_life upsert_life spawn_run_task_life assms
      simp: with_owner_def task_new_def stored_new_def with_skill_id_def with_trace_id_def split: option.split)

lemma acquire_life:
  assumes "P (add_mset i h) True" and "P h False"
  shows "yields (fresh_ids (uuid srv) view wf) (life_step view) (add_mset i h) P acquire_in_flight"
  unfolding acquire_in_flight_def
proof (rule yields_atomically_holding [where hold = "\<lambda>a. if a then add_mset i h else h"])
  fix F w
  assume R: "fresh_ids (uuid srv) view wf (add_mset i h + F) w"
  then have "fresh_ids (uuid srv) view wf (add_mset i h + F) (w\<lparr>in_flight := n\<rparr>)" for n
    by (rule R_same) (simp add: same_tasks_def)
  moreover have "fresh_ids (uuid srv) view wf (h + F) w"
    using fresh_ids_insert [of "uuid srv" view wf i "h + F" w "store w"] R by (simp add: fresh_ids_def)
  ultimately show "life_step view w (snd (if 0 < in_flight w then (True, w\<lparr>in_flight := in_flight w - 1\<rparr>) else (False, w))) \<and>
      fresh_ids (uuid srv) view wf
        ((if fst (if 0 < in_flight w then (True, w\<lparr>in_flight := in_flight w - 1\<rparr>) else (False, w)) then add_mset i h else h) + F)
        (snd (if 0 < in_flight w then (True, w\<lparr>in_flight := in_flight w - 1\<rparr>) else (False, w)))"
    by (simp add: life_step_def)
qed (use assms in simp)

lemma start_workflow_life:
  assumes "\<And>resp. P h resp"
  shows "yields (fresh_ids (uuid srv) view wf) (life_step view) (add_mset i h) P (start_workflow srv req flow i caller)"
  unfolding start_workflow_def Let_def
  by (auto intro!: yields_rules quiet_rules acquire_life drop_in_flight_steady run_workflow_rule claimed_life
        spawn_life assms
      simp: with_owner_def with_status_def task_new_def stored_new_def with_trace_id_def split: option.split)

lemma dispatch_life:
  assumes "\<And>resp. P h resp" and "task_ttl srv = None" and "plain_request srv req"
  shows "yields (fresh_ids (uuid srv) view wf) (life_step view) h P (dispatch srv req caller)"
proof -
  have "yields (fresh_ids (uuid srv) view wf) (life_step view) h P (handle_tasks_send srv req caller)"
    if "task_id_of req = None"
    unfolding handle_tasks_send_def Let_def that
    by (auto intro!: life_rules send_reservation_life send_fresh_life assms(1))
  moreover have "yields (fresh_ids (uuid srv) view wf) (life_step view) h P (handle_workflow_run srv req caller)"
    using assms(3) unfolding handle_workflow_run_def Let_def plain_request_def
    by (auto intro!: life_rules uuid_life start_workflow_life assms(1))
  moreover have "yields (fresh_ids (uuid srv) view wf) (life_step view) h P (handle_tasks_get srv req caller)"
    unfolding handle_tasks_get_def Let_def by (auto intro!: life_rules cleanup_life assms(1,2))
  moreover have "yields (fresh_ids (uuid srv) view wf) (life_step view) h P (handle_tasks_list srv req caller)"
    unfolding handle_tasks_list_def by (auto intro!: life_rules cleanup_life assms(1,2))
  moreover have "yields (fresh_ids (uuid srv) view wf) (life_step view) h P (handle_tasks_cancel srv req caller)"
    unfolding handle_tasks_cancel_def Let_def
    by (auto intro!: life_rules assms(1) simp: touch_def with_status_def)
  ultimately show ?thesis using assms unfolding dispatch_def handle_tasks_send_subscribe_def
    by (auto intro!: yields_ready simp: plain_request_def)
qed

lemma serve_life:
  assumes "task_ttl srv = None" and "plain_request srv req"
  shows "obeys (fresh_ids (uuid srv) view wf) (life_step view) {#} (serve srv req bearer)"
proof -
  have "yields (fresh_ids (uuid srv) view wf) (life_step view) {#} (\<lambda>h _. h = {#})
      (async_bind (handle_a2a_request_authenticated srv req bearer) (log_answer req bearer))"
    unfolding handle_a2a_request_authenticated_def handle_a2a_request_with_owner_def admit_request_def log_answer_def
    by (auto intro!: life_rules dispatch_life assms yields_atomically_holding [where hold = "\<lambda>_. {#}"]
        simp: fresh_ids_def life_step_def)
  then show ?thesis unfolding serve_def by (rule yieldsD) (simp add: obeys.Done)
qed

end

interpretation mem_life: lifecycle "memory_task_store mx" map_of "store_wf mx" "mem_upsert_claimed mx"
  mem_compare_and_update "srv\<lparr>tasks := memory_task_store mx\<rparr>" for mx srv
  by unfold_locales simp

end
