(* ===== verification/A2a_Runs.thy ===== *)
theory A2a_Runs
  imports A2a_Routes
begin

text \<open>
  Concrete runs of a small server over the in-memory store: two tenants with tokens of their own and
  a shared token. Its chain asks for more input the first time it is invoked. The runs are
  interleavings that the locks of the code admit.
\<close>

definition asking_chain :: "nat base_chain" where
  "asking_chain = \<lparr>input_keys = [''input''], chain_invoke = (\<lambda>_ n.
     (if n = 0 then Inl (MissingInput ''name'') else Inr [(''output'', JString ''hi'')], Suc n))\<rparr>"

definition small_server :: "nat option \<Rightarrow> (stored_task smap, nat) a2a_server" where
  "small_server ttl = \<lparr>chain = asking_chain, tasks = memory_task_store 1, skill_router = None, event_bus = True,
     expected_token = Some ''shared'', auth_principals = [(''ta'', ''alice''), (''tb'', ''bob'')],
     rate_limiter = None, task_ttl = ttl, sandbox = None, allowed_protocol_versions = [''0.3.0''],
     authenticator = None, trust_metadata_owner = False, uuid = (\<lambda>n. replicate (Suc n) CHR ''u''),
     message_of_json = (\<lambda>_. None),
     workflow_of_json = (\<lambda>_. Some \<lparr>workflow_id = Some ''flow'', workflow_name = None,
       workflow_steps = [\<lparr>step_id = ''s'', step_message = message_user ''go'', step_skill = None\<rparr>]\<rparr>),
     json_text = (\<lambda>_. ''{}''), request_size = (\<lambda>_. 0)\<rparr>"

definition request_of :: "string \<Rightarrow> (string \<times> json) list \<Rightarrow> a2a_request" where
  "request_of m ps = \<lparr>jsonrpc = ''2.0'', req_id = 1, req_method = m, params = Some (JObject ps), metadata = None\<rparr>"

definition small_send :: a2a_request where
  "small_send = request_of ''tasks/send'' [(''message'', JObject [(''content'', JString ''hello'')])]"

definition resume_request :: a2a_request where
  "resume_request = request_of ''tasks/send''
     [(''message'', JObject [(''content'', JString ''Ann'')]), (''taskId'', JString ''u'')]"

definition cancel_request :: "string \<Rightarrow> a2a_request" where
  "cancel_request i = request_of ''tasks/cancel'' [(''taskId'', JString i)]"

definition workflow_request :: a2a_request where
  "workflow_request = request_of ''tasks/runWorkflow'' [(''workflow'', JNull)]"

definition turns :: "nat \<Rightarrow> nat \<Rightarrow> event list" where
  "turns i n = replicate n (Turn i 0)"

definition small_start :: "nat \<Rightarrow> (stored_task smap, nat) server_state pool" where
  "small_start n = ([], server_start [] 8 5 n)"

text \<open>What a run shows: the status of each task, the ids drawn, the status and owner of each answer.\<close>

definition statuses :: "(stored_task smap, nat) server_state pool \<Rightarrow> (string \<times> task_status) list" where
  "statuses pl = map (\<lambda>(i, st). (i, status (task st))) (store (snd pl))"

definition answered_task :: "string \<Rightarrow> a2a_response \<Rightarrow> string option" where
  "answered_task k resp = str_field (Option.bind (result resp) (\<lambda>r. json_get r ''task'')) k"

definition answers :: "string \<Rightarrow> (stored_task smap, nat) server_state pool \<Rightarrow> (string option \<times> string option) list" where
  "answers k pl = map (\<lambda>(_, bearer, resp). (bearer, answered_task k resp)) (answered (snd pl))"

text \<open>
  A resumed task that was cancelled. The task stops for input; its owner's continuation has read it
  when the owner's cancellation is carried out and acknowledged; the continuation then writes the
  task back as working.
\<close>

definition resume_race :: "event list" where
  "resume_race = [Arrive small_send (Some ''ta'')] @ turns 0 7 @ turns 1 11 @
     [Arrive resume_request (Some ''ta'')] @ turns 2 4 @ [Arrive (cancel_request ''u'') (Some ''ta'')] @ turns 3 6"

text \<open>
  A finished task that expires. The sweeper has listed the task as working; the task completes; the
  sweeper writes its snapshot back as expired.
\<close>

definition sweep_race :: "event list" where
  "sweep_race = [Arrive small_send (Some ''ta'')] @ turns 0 7 @ turns 1 4 @ [Pass 100, Sweep] @ turns 2 2 @
     turns 1 4"

text \<open>
  A retried send whose task was evicted: the idempotency key still names the evicted task, the
  reservation is answered with it instead of being reclaimed, and the send goes on without one.
\<close>

definition keyed_request :: a2a_request where
  "keyed_request = small_send\<lparr>metadata := Some (JObject [(''message_id'', JString ''m'')])\<rparr>"

definition evicted_key :: "event list" where
  "evicted_key = [Arrive keyed_request (Some ''ta'')] @ turns 0 10 @
     [Arrive small_send (Some ''ta'')] @ turns 2 7"

text \<open>
  A cancellation that loses its race: the task it read was open to everyone, and belongs to another
  tenant when the cancellation reads it again to answer.
\<close>

definition cancel_race :: "event list" where
  "cancel_race = [Arrive workflow_request (Some ''shared'')] @ turns 0 6 @
     [Arrive (cancel_request ''flow'') (Some ''ta'')] @ turns 2 2 @
     [Arrive workflow_request (Some ''tb'')] @ turns 3 6 @ turns 4 7 @ turns 2 3"

lemma resume_race_runs:
  "map_option statuses (perform_all (small_server None) resume_race (small_start 0)) = Some [(''u'', Cancelled)]"
  "map_option (answers ''status'') (perform_all (small_server None) resume_race (small_start 0)) =
     Some [(Some ''ta'', Some ''submitted''), (Some ''ta'', Some ''cancelled'')]"
  "map_option statuses (perform_all (small_server None) (resume_race @ turns 2 2) (small_start 0)) =
     Some [(''u'', Working)]"
  by code_simp+

lemma sweep_race_runs:
  "map_option statuses (perform_all (small_server (Some 10)) sweep_race (small_start 1)) = Some [(''u'', Completed)]"
  "map_option statuses (perform_all (small_server (Some 10)) (sweep_race @ turns 2 2) (small_start 1)) =
     Some [(''u'', Expired)]"
  by code_simp+

lemma cancel_race_runs:
  "map_option (answers ''owner'') (perform_all (small_server None) cancel_race (small_start 1)) =
     Some [(Some ''shared'', None), (Some ''tb'', Some ''bob''), (Some ''ta'', Some ''bob'')]"
  by code_simp

definition keys_and_ids :: "(stored_task smap, nat) server_state pool \<Rightarrow> string smap \<times> string list \<times> nat" where
  "keys_and_ids pl = (id_map (message_ids (snd pl)), map fst (store (snd pl)), uuid_count (snd pl))"

definition retry_key :: "event list" where
  "retry_key = [Arrive keyed_request (Some ''ta'')] @ turns 4 12"

lemma evicted_key_runs:
  "map_option keys_and_ids (perform_all (small_server None) evicted_key (small_start 1)) =
     Some ([(''m'', ''u'')], [''uu''], 2)"
  by code_simp

lemma evicted_key_retry:
  "map_option keys_and_ids (perform_all (small_server None) (evicted_key @ retry_key) (small_start 1)) =
     Some ([], [''uuu''], 3)"
  by code_simp

end
