(* ===== verification/A2a_Props.thy ===== *)
theory A2a_Props
  imports A2a_Ownership A2a_Resources A2a_Lifecycle A2a_Runs
begin

text \<open>
  What holds of the A2A server however its requests and workers interleave, and four interleavings
  in which it does not do what its documentation says.
\<close>

text \<open>A run of the small server in which one send is answered.\<close>

definition one_send :: "event list" where
  "one_send = [Arrive small_send (Some ''ta'')] @ turns 0 7"

definition is_done :: "'w proc \<Rightarrow> bool" where
  "is_done p = (case p of Done \<Rightarrow> True | _ \<Rightarrow> False)"

lemma is_done_iff: "is_done p \<longleftrightarrow> p = Done"
  by (cases p) (simp_all add: is_done_def)

lemma small_run:
  assumes "map_option f (perform_all (small_server None) evs (small_start n)) = Some x"
    and "\<And>ev. ev \<in> set evs \<Longrightarrow> admitted ev"
  obtains ps w where "runs (small_server None) admitted ([], server_start [] 8 5 n) (ps, w)"
    and "perform_all (small_server None) evs (small_start n) = Some (ps, w)" and "f (ps, w) = x"
proof -
  from assms(1) obtain ps w where pl: "perform_all (small_server None) evs (small_start n) = Some (ps, w)"
    and "f (ps, w) = x" by auto
  moreover have "runs (small_server None) admitted (small_start n) (ps, w)"
    using runs.start pl assms(2) by (rule perform_all_runs)
  ultimately show thesis using that by (simp add: small_start_def)
qed


section \<open>Ownership\<close>

text \<open>
  C12. (safety) In every interleaving of requests, workers and sweeps, over any task store, a task that an answer
  other than that of \<open>tasks/cancel\<close> discloses has no owner or is owned by the caller that the bearer
  token, and on an open server the trusted metadata, resolved to.
\<close>

theorem answers_respect_ownership:
  assumes "runs srv (\<lambda>_. True) ([], server_start s n m out) (ps, w)"
    and "(req, bearer, resp) \<in> set (answered w)" and "req_method req \<noteq> ''tasks/cancel''"
    and "t \<in> set (disclosed resp)"
  shows "json_owner t = None \<or> json_owner t = caller_of srv req bearer"
proof -
  have obeys: "pool_obeys (answers_fit srv) any_step (ps, w)"
    using assms(1)
  proof (rule runs_obey)
    show "answers_fit srv {#} (server_start s n m out)" by (simp add: answers_fit_def server_start_def)
    show "obeys (answers_fit srv) any_step {#} (sweep_expired_tasks srv ttl (\<lambda>_. Done))"
      if "task_ttl srv = Some ttl" for ttl
      using own_cleanup [of "\<lambda>h _. h = {#}" "{#}" srv] that
      by (auto simp: cleanup_expired_tasks_def intro: yieldsD obeys.Done)
  qed (auto simp: answers_fit_def intro: own_serve)
  obtain h where "answers_fit srv h w" using pool_obeys_admits [OF obeys] by auto
  then show ?thesis using assms(2-4) by (auto simp: answers_fit_def protected_from_def)
qed

theorem answers_respect_ownership_witness:
  "\<exists>ps w resp. runs (small_server None) (\<lambda>_. True) ([], server_start [] 8 5 0) (ps, w) \<and>
     (small_send, Some ''ta'', resp) \<in> set (answered w) \<and> disclosed resp \<noteq> [] \<and>
     (\<forall>t \<in> set (disclosed resp). json_owner t = None \<or> json_owner t = caller_of (small_server None) small_send (Some ''ta''))"
proof -
  have "map_option (\<lambda>(ps, w). map (\<lambda>(req, bearer, resp). req = small_send \<and> bearer = Some ''ta'' \<and>
      disclosed resp \<noteq> []) (answered w)) (perform_all (small_server None) one_send (small_start 0)) = Some [True]"
    by code_simp
  then obtain ps w where run: "runs (small_server None) (\<lambda>_. True) ([], server_start [] 8 5 0) (ps, w)"
    and "map (\<lambda>(req, bearer, resp). req = small_send \<and> bearer = Some ''ta'' \<and> disclosed resp \<noteq> []) (answered w) = [True]"
    by (rule small_run) auto
  then obtain resp where resp: "(small_send, Some ''ta'', resp) \<in> set (answered w)" "disclosed resp \<noteq> []"
    by (auto simp: map_eq_Cons_conv)
  have "req_method small_send \<noteq> ''tasks/cancel''" by (simp add: small_send_def request_of_def)
  from answers_respect_ownership [OF run resp(1) this] run resp show ?thesis by blast
qed


section \<open>Nothing is leaked\<close>

text \<open>A request that does not continue the task with the empty id.\<close>

definition names_a_task :: "event \<Rightarrow> bool" where
  "names_a_task ev = (case ev of Arrive req _ \<Rightarrow> task_id_of req \<noteq> Some [] | _ \<Rightarrow> True)"

text \<open>
  C13. (invariant) In every interleaving the permits of the in-flight semaphore and of the rate limiter never exceed
  what the server started with; and once every request and worker is done, all permits are back, no
  resume guard and no cancellation handle is left, and no idempotency key is still claimed.
\<close>

theorem quiescent_server_leaks_nothing:
  assumes "\<And>k. uuid srv k \<noteq> []" and "runs srv names_a_task ([], server_start s n m out) (ps, w)"
  shows "in_flight w \<le> n \<and> limiter_permits w \<le> m \<and>
    (set ps \<subseteq> {Done} \<longrightarrow> in_flight w = n \<and> limiter_permits w = m \<and> inflight_resumes w = [] \<and>
       cancellations w = [] \<and> (\<forall>mid. map_of (id_map (message_ids w)) mid \<noteq> Some []))"
proof -
  have obeys: "pool_obeys (balanced n m) any_change (ps, w)"
    using assms(2) balanced_start
  proof (rule runs_obey [where R = "balanced n m"])
    show "obeys (balanced n m) any_change {#} (serve srv req bearer)"
      if "names_a_task (Arrive req bearer)" for req bearer
      using that by (intro res_serve assms(1)) (simp add: names_a_task_def)
    show "obeys (balanced n m) any_change {#} (sweep_expired_tasks srv ttl (\<lambda>_. Done))" for ttl
      using res_sweep [of "\<lambda>h _. h = {#}"] by (rule yieldsD) (auto intro: obeys.Done)
  qed (simp add: balanced_def)
  obtain h where "balanced n m h w" using pool_obeys_admits [OF obeys] by auto
  then have "in_flight w \<le> n \<and> limiter_permits w \<le> m" by (auto simp: balanced_def)
  moreover have "balanced n m {#} w" if "set ps \<subseteq> {Done}" using obeys that by (rule pool_obeys_over)
  ultimately show ?thesis by (auto simp: balanced_def)
qed

theorem quiescent_server_leaks_nothing_witness:
  "\<exists>ps w. runs (small_server None) names_a_task ([], server_start [] 8 5 0) (ps, w) \<and> length ps = 2 \<and>
     set ps \<subseteq> {Done} \<and> in_flight w = 8 \<and> limiter_permits w = 5 \<and> inflight_resumes w = [] \<and>
     cancellations w = [] \<and> (\<forall>mid. map_of (id_map (message_ids w)) mid \<noteq> Some [])"
proof -
  have "map_option (\<lambda>(ps, w). map is_done ps)
      (perform_all (small_server None) (one_send @ turns 1 11) (small_start 0)) = Some [True, True]"
    by code_simp
  moreover have "names_a_task ev" if "ev \<in> set (one_send @ turns 1 11)" for ev
    using that by (auto simp: names_a_task_def one_send_def turns_def small_send_def request_of_def
        task_id_of_def str_field_def)
  ultimately obtain ps w where run: "runs (small_server None) names_a_task ([], server_start [] 8 5 0) (ps, w)"
    and "(\<lambda>(ps, w). map is_done ps) (ps, w) = [True, True]"
    by (rule small_run)
  then have ps: "length ps = 2" "set ps \<subseteq> {Done}" by (auto simp: map_eq_Cons_conv is_done_iff)
  have "uuid (small_server None) k \<noteq> []" for k by (simp add: small_server_def)
  from quiescent_server_leaks_nothing [OF this run] ps run show ?thesis by blast
qed


section \<open>The life cycle\<close>

text \<open>
  C14. (safety) Over the in-memory store, without expiry, and as long as requests neither continue a task nor name
  their workflow: in every interleaving a step changes a stored task along the life cycle only, so that
  a completed, failed, cancelled, rejected or expired task is never written again, whatever its worker,
  a cancellation and other requests do at the same time; and the store never exceeds its capacity.
\<close>

theorem tasks_follow_their_lifecycle:
  assumes "tasks srv = memory_task_store mx" and "inj (uuid srv)" and "task_ttl srv = None"
    and "runs srv (\<lambda>ev. case ev of Arrive req _ \<Rightarrow> plain_request srv req | _ \<Rightarrow> True) ([], server_start [] n m out) (ps, w)"
    and "perform srv ev (ps, w) = Some (ps', w')"
    and "map_of (store w) i = Some t" and "map_of (store w') i = Some t'"
  shows "(t' = t \<or> can_transition_to (status (task t)) (status (task t'))) \<and>
    (is_terminal (status (task t)) \<longrightarrow> t' = t) \<and> (0 < mx \<longrightarrow> length (store w) \<le> mx)"
proof -
  have srv: "srv\<lparr>tasks := memory_task_store mx\<rparr> = srv" using assms(1) by simp
  have obeys: "pool_obeys (fresh_ids (uuid srv) map_of (store_wf mx)) (life_step map_of) (ps, w)"
    using assms(4)
  proof (rule runs_obey [where R = "fresh_ids (uuid srv) map_of (store_wf mx)"])
    show "fresh_ids (uuid srv) map_of (store_wf mx) {#} (server_start [] n m out)"
      using assms(2) by (simp add: fresh_ids_def server_start_def store_wf_def)
    show "obeys (fresh_ids (uuid srv) map_of (store_wf mx)) (life_step map_of) {#} (serve srv req bearer)"
      if "case Arrive req bearer of Arrive req _ \<Rightarrow> plain_request srv req | _ \<Rightarrow> True" for req bearer
      using mem_life.serve_life [of mx srv req bearer] that assms(3) srv by simp
  qed (use assms(3) in \<open>simp_all add: fresh_ids_def\<close>)
  obtain h where "fresh_ids (uuid srv) map_of (store_wf mx) h w" using pool_obeys_admits [OF obeys] by auto
  then have "0 < mx \<longrightarrow> length (store w) \<le> mx" by (simp add: fresh_ids_def store_wf_def)
  moreover have "t' = t \<or> can_transition_to (status (task t)) (status (task t'))"
    using perform_allowed [OF assms(5) obeys] assms(6,7) by (auto simp: life_step_def)
  ultimately show ?thesis using can_transition_not_terminal by blast
qed

text \<open>The worker's first compare-and-update: from submitted to working.\<close>

theorem tasks_follow_their_lifecycle_witness:
  "\<exists>ps w ps' w' t t'. perform (small_server None) (Turn 1 0) (ps, w) = Some (ps', w') \<and>
     map_of (store w) ''u'' = Some t \<and> map_of (store w') ''u'' = Some t' \<and>
     status (task t) = Submitted \<and> status (task t') = Working \<and> length (store w) \<le> 1 \<and>
     (t' = t \<or> can_transition_to (status (task t)) (status (task t')))"
proof -
  let ?plain = "\<lambda>ev. case ev of Arrive req _ \<Rightarrow> plain_request (small_server None) req | _ \<Rightarrow> True"
  have first: "map_option statuses (perform_all (small_server None) (one_send @ turns 1 2) (small_start 0)) =
      Some [(''u'', Submitted)]"
    by code_simp
  have second: "map_option statuses (perform_all (small_server None) ((one_send @ turns 1 2) @ [Turn 1 0]) (small_start 0)) =
      Some [(''u'', Working)]"
    by code_simp
  have plain: "?plain ev" if "ev \<in> set (one_send @ turns 1 2)" for ev
    using that by (auto simp: one_send_def turns_def small_send_def request_of_def plain_request_def
        task_id_of_def str_field_def)
  from first obtain ps w where run: "runs (small_server None) ?plain ([], server_start [] 8 5 0) (ps, w)"
    and pl: "perform_all (small_server None) (one_send @ turns 1 2) (small_start 0) = Some (ps, w)"
    and st: "statuses (ps, w) = [(''u'', Submitted)]"
    using plain by (rule small_run)
  obtain ps' w' where step: "perform (small_server None) (Turn 1 0) (ps, w) = Some (ps', w')"
    and st': "statuses (ps', w') = [(''u'', Working)]"
    using second unfolding perform_all_append [of _ "one_send @ turns 1 2"] pl
    by (cases "perform (small_server None) (Turn 1 0) (ps, w)") auto
  obtain t t' where t: "map_of (store w) ''u'' = Some t" "status (task t) = Submitted"
    "map_of (store w') ''u'' = Some t'" "status (task t') = Working"
    using st st' by (auto simp: statuses_def map_eq_Cons_conv)
  have srv: "tasks (small_server None) = memory_task_store 1" "task_ttl (small_server None) = None"
    "inj (uuid (small_server None))"
    by (auto simp: small_server_def inj_def replicate_eq_replicate)
  from tasks_follow_their_lifecycle [OF srv(1,3,2) run step t(1,3)] step t show ?thesis
    by (intro exI [of _ ps] exI [of _ w] exI [of _ ps'] exI [of _ w'] exI [of _ t] exI [of _ t']) simp
qed


section \<open>Where the code does not keep its promises\<close>



text \<open>
  The exception of \<open>tasks/cancel\<close>: a cancellation by one tenant of a task that was open when it was
  read is answered with the task of another tenant.
\<close>

theorem lost_cancellation_discloses_a_foreign_task:
  "map_option (answers ''owner'') (perform_all (small_server None) cancel_race (small_start 1)) =
     Some [(Some ''shared'', None), (Some ''tb'', Some ''bob''), (Some ''ta'', Some ''bob'')] \<and>
   caller_of (small_server None) (cancel_request ''flow'') (Some ''ta'') = Some ''alice''"
  using cancel_race_runs by (auto simp: caller_of_def check_auth_def small_server_def static_bearer_of_def
      sb_authenticate_def resolve_owner_def Let_def)

end
