(* ===== verification/Spec2Isabelle.thy ===== *)
theory Spec2Isabelle
  imports Checkpoint_Props Graph_Edge_Cases Graph_History Resume_Equiv Subgraph Graph_Stream
    Session_Props Session_Races Guarded_Fetch Circuit_Breaker
    Memory_History Context_Window_Props Context_Manager Prompt_Registry Prompt_Compose A2a_Props
begin

text \<open>
  A verification development for \<^emph>\<open>langchainrust\<close>, a Rust workspace of libraries for programs built
  around language models. Modelled are the graph engine of \<open>lc-langgraph\<close> (what a run computes, how its
  parallel branches are merged, when it stops, how it is saved, interrupted, resumed, nested and
  streamed); the event-sourced sessions of \<open>lc-sessions\<close> with the messages of \<open>lc-schema\<close> (what a
  conversation's log holds after any sequence of operations, and what is recovered from it); the
  conversation memories of \<open>lc-memory\<close> and the prompt templates of \<open>lc-prompts\<close> they use; the
  agent-to-agent server of \<open>lc-a2a\<close> (what its concurrent requests and workers do to tasks, permits and
  answers); and, of \<open>lc-core\<close> and \<open>lc-callbacks\<close>, the guarded HTTP requests, the token counters and the
  circuit breaker.

  \<^bold>\<open>The graph engine.\<close> (paths are below \<open>src/crates/lc-langgraph/src\<close>)
  A \<open>StateGraph\<close> (\<open>graph.rs\<close>) collects nodes (\<open>node.rs\<close>), edges and routers (\<open>edge.rs\<close>) and
  per-field reducers (\<open>state.rs\<close>); \<open>compile\<close> validates it (\<open>compiled/validate.rs\<close>) and returns a
  \<open>CompiledGraph\<close> (\<open>compiled/graph.rs\<close>, \<open>compiled/types.rs\<close>). Its entry points (\<open>compiled/invoke.rs\<close>,
  \<open>compiled/parallel.rs\<close>) are loops: run the current node, fold its update into the state with the
  reducer, go on along the outgoing edge (\<open>compiled/stream.rs\<close>), or run the branches of a fan-out
  and merge them (\<open>merge_parallel_states\<close>). Every step is saved through a \<open>Checkpointer\<close>
  (\<open>checkpointer.rs\<close>); interrupts before or after a node, and interrupts a node requests itself, end
  the loop with an error from whose checkpoint the run can be resumed. A \<open>SubgraphNode\<close>
  (\<open>subgraph.rs\<close>) runs a compiled graph as a node of another; \<open>stream\<close> runs the same loop in a task
  that sends an event per step.

  \<^bold>\<open>The sessions.\<close> (paths are below \<open>src/crates/lc-sessions/src\<close>) An \<open>EventSessionManager\<close>
  (\<open>events/manager.rs\<close>) appends the turns of a conversation to an \<open>EventStore\<close> (\<open>events/store.rs\<close>) as
  \<open>SessionEvent\<close>s (\<open>events/model.rs\<close>). History is a projection of the log (\<open>events/replay.rs\<close>); old
  turns are compacted into a snapshot and pruned; a branch of the log can be forked; a projection
  can be saved in a \<open>SessionCheckpoint\<close> (\<open>events/checkpoint.rs\<close>) so that recovery replays the tail
  only. \<open>chat\<close> asks a language model, saves to a memory component (\<open>lc-memory\<close>) and appends the turn.

  \<^bold>\<open>Memories and prompts.\<close> (\<open>src/crates/lc-memory/src\<close>, \<open>src/crates/lc-prompts/src\<close>) A memory
  (\<open>base.rs\<close>) loads a conversation into variables and saves a turn: everything (\<open>buffer.rs\<close>), the last
  rounds (\<open>window.rs\<close>), or a summary a model writes (\<open>summary.rs\<close>, \<open>summary_buffer.rs\<close>), rendered with
  a \<open>PromptTemplate\<close> (\<open>template_parser.rs\<close>, \<open>prompt_template.rs\<close>, \<open>validation.rs\<close>). A \<open>ContextWindow\<close>
  (\<open>context_window\<close>) fits messages into a token budget, \<open>ContextManager\<close> (\<open>context_manager.rs\<close>)
  composes strategies into a memory, and \<open>RunnableWithMessageHistory\<close> (\<open>with_history.rs\<close>) gives a model
  a memory per session.

  \<^bold>\<open>Requests.\<close> (\<open>src/crates/lc-core/src/ssrf.rs\<close>) \<open>guarded_get\<close> and its siblings resolve a host once,
  refuse it when an address is private, pin the addresses for the connection and follow redirects by
  hand; \<open>read_body_bounded\<close> reads the answer up to a cap. The \<open>CircuitBreaker\<close>
  (\<open>src/crates/lc-callbacks/src/circuit_breaker.rs\<close>) stops calls to a failing service.

  \<^bold>\<open>The A2A server.\<close> (\<open>src/crates/lc-a2a/src\<close>) An \<open>A2AServer\<close> (\<open>server/mod.rs\<close>) authenticates a
  request, checks its versions and size, takes a permit of the rate limiter (\<open>rate_limiter.rs\<close>) and
  dispatches it to a route (\<open>server/routes.rs\<close>). Sending creates or continues a task in a \<open>TaskStore\<close>
  (\<open>store.rs\<close>) and spawns a worker (\<open>server/execution.rs\<close>) that runs a chain and moves the task along
  its life cycle (\<open>protocol/task.rs\<close>); reads sweep expired tasks; a cancellation signals the worker;
  a \<open>message_id\<close> makes a send idempotent. Requests, workers and the sweeper run concurrently and meet
  in the store, the table of message ids, the semaphores and the map of cancellation signals.

  \<^bold>\<open>How the code is modelled.\<close> A fallible operation on shared objects is a function
  \<open>'w \<Rightarrow> ((error + 'a) \<times> 'w) option\<close> on a world \<open>'w\<close> (\<open>Lc_Prelude\<close>): \<open>None\<close> is a call that does
  not return, \<open>Inl\<close> an \<open>Err\<close>, \<open>Inr\<close> an \<open>Ok\<close>. A struct is a record, an enum a datatype, a trait
  object (\<open>Checkpointer\<close>, \<open>GraphNode\<close>, \<open>ConditionalEdge\<close>, \<open>Planner\<close>) a record of its methods, a \<open>loop\<close>
  the least fixed point \<open>eff_loop\<close> of its iteration over a record of the locals; an
  \<open>Arc<Mutex<..>>\<close> is a component of the world, and a lock is held for the whole of the operation it
  guards. No fuel is used: \<open>invoke_from_node_with_count\<close>, which calls itself through fan-outs,
  terminates by the recursion budget that is left.
  The world of a session manager is split by construction into the store's state, the checkpoint's
  state, the maps the manager shares with its forks, and the outside. An operation of the manager is a
  function of this world, what it does while no other call of the manager runs; \<open>session_step\<close> makes
  histories of such calls, one after the other. In the code only \<open>chat\<close>, \<open>gc\<close> and \<open>record_tool_use\<close>
  take the lock of their session and branch; \<open>create_session\<close>, \<open>delete_session\<close>, \<open>fork_session\<close>,
  \<open>save_checkpoint\<close> and \<open>recover_session\<close> do not, and can overlap them. What the theorems on reachable
  worlds say of sessions is said of serial histories; \<open>Session_Races\<close> shows two overlaps in which it
  fails.
  A handler or worker of the A2A server is a process (\<open>Async_Proc\<close>) of atomic actions, one per lock
  that is taken, store method that is called and chain that is invoked; an \<open>await\<close> is a point where any
  other process may act, \<open>tokio::spawn\<close> forks, \<open>select!\<close> is a choice, and a guard that Rust drops is
  given back on every path. The server is the set of its processes under any schedule, with requests
  arriving and time passing at any moment.
  Outside the sources, hence parameters: the nodes, routers and planners of the caller; UUIDs and
  the clock (\<open>outside\<close>: the id and time of the n-th checkpoint; relied on: ids do not repeat, the
  clock does not run backwards); the serde conversions of a state type (\<open>serde\<close>; relied on for a
  derived struct: \<open>struct_serde\<close>, \<open>vec_struct\<close>); for sessions the language model, the memory
  components, the clock, UUIDs (relied on: a new session's id is fresh), the decoding of messages
  and of base64. \<open>std::fs\<close> is a map of files with a schedule of faults. For requests: the \<open>url\<close> crate,
  DNS, which may answer differently every time, and \<open>reqwest\<close> (\<open>url_contract\<close>, \<open>reqwest_contract\<close>: it
  connects to the pinned addresses, or to the address literal of the URL, and follows no redirect when
  told so); for prompts the Unicode tables and SHA-256; for token counts the BPE encoder; for a summary's share of
  the budget, computed in \<open>f64\<close>, a function; for the A2A server the chains, custom authenticators, the
  deserialisation of messages and workflows, the text and size of JSON, and UUIDs (relied on where it
  matters: they are not empty, they do not repeat).
  Chosen where Rust leaves a choice: a \<open>HashMap\<close> is iterated in key order; the branches of a fan-out
  run one after the other in the order of their targets, which is one of the schedules of
  \<open>join_all\<close> and \<open>buffered\<close>. Integers that a caller or the data can make large keep their width and wrap
  as release builds do (debug builds panic there): the 32-bit totals of the token counters and the
  casts of lengths in them, the 32-bit version numbers of the prompt registry, the product \<open>k * 2\<close> of
  the window memory (64-bit \<open>usize\<close>), the 32-bit counters of the circuit breaker; the theorems state the
  bounds they need, and lemmas show what happens beyond them. The other \<open>usize\<close> and \<open>u64\<close> counters are
  natural numbers: they are bounded by the recursion limit, by the number of checkpoints created or
  by the number of events appended; hashes are 64-bit words, timestamps are integers with the
  saturation of \<open>i64\<close>. A string is the list of its UTF-8 bytes.

  \<^bold>\<open>The theories.\<close>
  \<^item> \<open>Lc_Prelude\<close>: the effect type, its Hoare and loop rules, generic lemmas. \<open>Loop_Trace\<close>: a loop as
    a transition system; when two loops correspond or one simulates the other. \<open>Json_Value\<close>: JSON values and key-ordered maps.
  \<^item> \<open>Graph_State\<close> (\<open>errors.rs\<close>, \<open>state.rs\<close>): errors, state updates, reducers, \<open>AgentState\<close>. The
    composed reducer is characterised field by field.
  \<^item> \<open>Checkpoint\<close> (\<open>checkpointer.rs\<close>): the trait, its default methods, retention, the in-memory
    checkpointers, the retaining and the territory decorator. \<open>Checkpoint_Laws\<close>: the abstract view
    (the list of checkpoints per thread) and that each operation acts on it as specified, under an
    invariant. \<open>Checkpoint_Props\<close>: the locales \<open>checkpoint_store\<close> and \<open>checkpoint_resolver\<close>, what the
    engine relies on, interpreted on the three checkpointers; round trip, optimistic editing,
    retention, pagination, isolation of territories; the invariant in every reachable world.
  \<^item> \<open>Graph_Model\<close> (\<open>edge.rs\<close>, \<open>node.rs\<close>, \<open>graph.rs\<close>, \<open>compiled/types.rs\<close>, \<open>compiled/graph.rs\<close>): edges,
    nodes, the builder, the compiled graph.
  \<^item> \<open>Graph_Validate\<close> (\<open>compiled/validate.rs\<close>, \<open>StateGraph::compile\<close>): validation with its two graph
    searches, proved to decide an inductively defined notion of valid graph.
  \<^item> \<open>Graph_Merge\<close> (\<open>compiled/parallel.rs\<close>): the merge of branches, characterised field by field.
  \<^item> \<open>Graph_Engine\<close> (\<open>compiled/invoke.rs\<close>, \<open>compiled/parallel.rs\<close>, routing in \<open>compiled/stream.rs\<close>):
    running a node, routing, fan-out and every entry point. \<open>Graph_Engine_Laws\<close> and
    \<open>Graph_Engine_Props\<close>: runs return, the recursion budget bounds them, routing in a valid graph
    stays in the graph (the budget is that of the main path). \<open>Graph_Edge_Cases\<close>: four behaviours on concrete graphs that the documentation
    does not suggest.
  \<^item> \<open>Graph_Resume\<close> (\<open>compiled/graph.rs\<close>): state history, forks and resumption; a runtime interrupt
    resumes from the very checkpoint it saved. \<open>Resume_Equiv\<close>: a run that was interrupted before a
    node and resumed ends as the run that never stopped. \<open>Graph_History\<close>: forks keep history; what
    resumption by id does over a territory. All three are about the checkpointer as \<open>with_checkpointer\<close>
    installs it: the in-memory one under retention.
  \<^item> \<open>Subgraph\<close> (\<open>subgraph.rs\<close>): a compiled graph as a node; what crosses its boundary; nesting keeps
    termination. \<open>Graph_Stream\<close> (\<open>compiled/stream.rs\<close>): the streaming loop refines \<open>invoke\<close>.
  \<^item> \<open>Schema_Message\<close> (\<open>lc-schema\<close>, \<open>lc-shared/src/tool_types.rs\<close>): messages, media, tool calls;
    deduplication of streamed tool calls, validation, data URIs.
  \<^item> \<open>Session_Replay\<close> (\<open>events/model.rs\<close>, \<open>events/replay.rs\<close>, \<open>session.rs\<close>): events, projection,
    compaction, merging. \<open>Session_Replay_Laws\<close>: turns partition a log, a cut at a turn projects to the
    remaining turns, exactly when a merged projection is the whole one.
  \<^item> \<open>Session_Store\<close> (\<open>events/store.rs\<close>): the trait, the in-memory store, the locale \<open>event_log\<close> (what
    the manager relies on) interpreted on it, idempotence.
  \<^item> \<open>Session_Manager\<close> (\<open>events/manager.rs\<close>, \<open>lc-memory/src/base.rs\<close>): every operation.
    \<open>Session_Manager_Laws\<close>: what each does to the logs, in the locale. \<open>Session_Spec\<close>: the abstract
    machine of logs and checkpoints and its invariant. \<open>Session_Refine\<close>: the locale
    \<open>checkpoint_contract\<close>; the manager's steps refine the machine. \<open>Session_Checkpoint\<close>
    (\<open>events/checkpoint.rs\<close>): file names and the file checkpoint, which keeps the contract.
    \<open>Session_Props\<close>: chats are atomic, logs bounded; after every serial history logs are sound and
    recovery gives the session back; retries. \<open>Session_Races\<close>: what a deletion that overlaps
    \<open>record_tool_use\<close> or \<open>save_checkpoint\<close> leaves behind.

  \<^item> \<open>Ssrf_Address\<close> (\<open>ssrf.rs\<close>): addresses as words; the tests of \<open>is_private_ip\<close> equal a table of
    CIDR blocks, and what special addresses the table misses. \<open>Utf8\<close>: UTF-8 validity, lossy decoding.
    \<open>Guarded_Fetch\<close> (\<open>ssrf.rs\<close>): the guarded requests; nothing is sent to a private address; bounded
    bodies. \<open>Circuit_Breaker\<close>: the breaker as a timed step relation.
  \<^item> \<open>Prompt_Template\<close>: scanning, formatting and strict checks; printing and parsing round trip.
    \<open>Prompt_Compose\<close> (\<open>prompt_template.rs\<close>, \<open>chat_prompt_template.rs\<close>, \<open>few_shot.rs\<close>,
    \<open>template_diff.rs\<close>): the template cache, chat and
    few-shot templates; the checks predict what rendering does. \<open>Prompt_Registry\<close> (\<open>registry.rs\<close>):
    the versioned registry; a published version is never changed while numbers fit into 32 bits.
  \<^item> \<open>Chat_Memory\<close>: the four memories. \<open>Chat_Memory_Props\<close>: the locales \<open>turn_memory\<close> and
    \<open>atomic_memory\<close> (what a caller of \<open>save_context\<close> relies on), the window's contents, the bound of the
    summary buffer. \<open>Context_Window\<close>: token counters, truncation and summarising;
    \<open>Context_Window_Props\<close>: the locale \<open>additive_counter\<close> (what a 32-bit counter counts while it does not
    wrap), interpreted on both counters, and what \<open>fit\<close> guarantees. \<open>Memory_History\<close>: sessions over a heap of memories refine a list of conversations.
    \<open>Context_Manager\<close>: the composed memory.

  \<^item> \<open>Async_Proc\<close>: processes, pools and their interleavings; a rely-guarantee proof system with ghost
    tokens: what a process holds, the invariant it may rely on, the steps it guarantees. \<open>A2a_Protocol\<close>
    (\<open>protocol/task.rs\<close>, \<open>message.rs\<close>, \<open>model.rs\<close>, \<open>part.rs\<close>): tasks, life cycle, requests, responses,
    notifications. \<open>A2a_Store\<close> (\<open>store.rs\<close>): the trait and the in-memory store, which keeps the locale
    \<open>task_backend\<close>. \<open>A2a_Server\<close> (\<open>server/mod.rs\<close>): the shared state and the operations on it.
    \<open>A2a_Handlers\<close> (\<open>server/auth.rs\<close>, \<open>message.rs\<close>, \<open>handlers.rs\<close>, \<open>execution.rs\<close>): authentication,
    ownership, workers, sweep. \<open>A2a_Routes\<close> (\<open>server/routes.rs\<close>, \<open>rate_limiter.rs\<close>): the routes, the
    funnel, the running server.
  \<^item> \<open>A2a_Rules\<close>: the locales \<open>quiet\<close>, \<open>worker\<close> and \<open>steady\<close>, rules for the operations under an invariant
    they do not touch. \<open>A2a_Ownership\<close>, \<open>A2a_Resources\<close>, \<open>A2a_Lifecycle\<close>: three instances of the proof
    system. \<open>A2a_Runs\<close>: a small server and concrete interleavings. \<open>A2a_Props\<close>: in every interleaving
    answers respect ownership, nothing is leaked, tasks follow their life cycle; and the interleavings
    in which an unguarded write, a lost cancellation or an evicted key breaks a promise (examples on the
    small server).

  \<^bold>\<open>Not modelled.\<close> The file, SQLite, PostgreSQL and Redis checkpointers of \<open>lc-langgraph\<close> (file system
  and database drivers), the JSON and YAML persistence and the visualisation of graph definitions;
  interleavings of branches that share objects, and of overlapping session operations other than the
  two of \<open>Session_Races\<close>; the
  deprecated session manager; the semantic, decaying, vector-store and database memories (similarity in
  floating point, drivers); of \<open>lc-a2a\<close> the HTTP, SSE and WebSocket layers, the client and what is built
  on it, and what a chain whose future is dropped by a cancellation has done by then (a cancelled
  invocation is modelled as not having happened); the other crates of the workspace, which are clients
  of remote services, exporters, floating-point ranking or glue.
\<close>

end
